(* ===== verification/Prelude.thy ===== *)
theory Prelude
  imports "HOL-Library.Word"
begin

text \<open>
  Shared ground of the development: the machine integer types of the C and C++ sources, byte
  addressed memory with the little-endian 64-bit and 16-bit accesses of RV64, page arithmetic, and
  the lemma collections the component theories rewrite with.

  \<^item> \<open>unat_simps\<close> moves word arithmetic that does not overflow to the naturals.
  \<^item> \<open>mem_simps\<close> reads a memory that has just been written.
\<close>

unbundle bit_operations_syntax

type_synonym u8 = "8 word"
type_synonym u16 = "16 word"
type_synonym u32 = "32 word"
type_synonym u64 = "64 word"

text \<open>The byte at every address. A pointer of the source is the address it holds.\<close>

type_synonym mem = "u64 \<Rightarrow> u8"

named_theorems unat_simps
named_theorems mem_simps

section \<open>Words without overflow\<close>

lemma unat_lt_64: "unat (x :: u64) < 18446744073709551616"
  using unsigned_less [where 'b = 64 and 'a = nat, of x] by simp

lemma unat_lt_32: "unat (x :: u32) < 4294967296"
  using unsigned_less [where 'b = 32 and 'a = nat, of x] by simp

lemma unat_lt_8: "unat (x :: u8) < 256"
  using unsigned_less [where 'b = 8 and 'a = nat, of x] by simp

lemma unat_add_64 [unat_simps]:
  "unat (x :: u64) + unat y < 18446744073709551616 \<Longrightarrow> unat (x + y) = unat x + unat y"
  using unat_add_lem [of x y] by simp

lemma unat_diff_64 [unat_simps]: "y \<le> (x :: u64) \<Longrightarrow> unat (x - y) = unat x - unat y"
  by (simp add: unat_sub)

lemma unat_mult_64 [unat_simps]:
  "unat (x :: u64) * unat y < 18446744073709551616 \<Longrightarrow> unat (x * y) = unat x * unat y"
  using unat_mult_lem [of x y] by simp

lemma unat_of_nat_64 [unat_simps]:
  "n < 18446744073709551616 \<Longrightarrow> unat (of_nat n :: u64) = n"
  by (simp add: unat_of_nat)

lemma u64_eq_iff: "(x :: u64) = y \<longleftrightarrow> unat x = unat y"
  by (simp add: word_unat_eq_iff)

lemma nat_mult_aligned_le:
  fixes n b :: nat
  assumes "d dvd n" and "d dvd b" and "n < b"
  shows "n + d \<le> b"
proof -
  obtain i j where ij: "n = d * i" "b = d * j"
    using assms unfolding dvd_def by blast
  with assms(3) have "i < j"
    by simp
  then have "d * (i + 1) \<le> d * j"
    by (intro mult_le_mono2) simp
  with ij show ?thesis
    by simp
qed

section \<open>Bits and bytes\<close>

lemma take_bit_join:
  "take_bit k v OR push_bit k (take_bit j (drop_bit k v)) = take_bit (k + j) (v :: 'a :: len word)"
  by (rule bit_word_eqI) (auto simp: bit_simps)

lemma take_bit_join_or:
  "take_bit k v OR (push_bit k (take_bit j (drop_bit k v)) OR x) =
   take_bit (k + j) (v :: 'a :: len word) OR x"
  by (simp add: take_bit_join flip: or.assoc)

lemma take_bit_64_id [simp]: "take_bit 64 (v :: u64) = v"
  by (rule bit_word_eqI) (auto simp: bit_simps)

lemma take_bit_32_id [simp]: "take_bit 32 (v :: u32) = v"
  by (rule bit_word_eqI) (auto simp: bit_simps)

lemma ucast_u8_u64: "ucast (ucast (v :: u64) :: u8) = take_bit 8 v"
  by (rule bit_word_eqI) (auto simp: bit_simps)

lemma ucast_u8_u32: "ucast (ucast (v :: u32) :: u8) = take_bit 8 v"
  by (rule bit_word_eqI) (auto simp: bit_simps)

text \<open>The set bits of a constant, checked position by position.\<close>

lemma bit_u64_list:
  assumes "list_all (\<lambda>n. bit (w :: u64) n = List.member S n) [0..<64]"
    and "list_all (\<lambda>n. n < 64) S"
  shows "bit w n \<longleftrightarrow> n \<in> set S"
proof (cases "n < 64")
  case True
  with assms(1) show ?thesis
    by (simp add: list_all_iff)
next
  case False
  with assms(2) show ?thesis
    using bit_imp_le_length [of w n] by (auto simp: list_all_iff)
qed

section \<open>Memory accesses\<close>

text \<open>
  A little-endian load and store of eight bytes, and the two-byte load of \<open>advance_trap\<close>.
\<close>

definition ld64 :: "mem \<Rightarrow> u64 \<Rightarrow> u64" where
  "ld64 m a =
     ucast (m a) OR push_bit 8 (ucast (m (a + 1))) OR push_bit 16 (ucast (m (a + 2))) OR
     push_bit 24 (ucast (m (a + 3))) OR push_bit 32 (ucast (m (a + 4))) OR
     push_bit 40 (ucast (m (a + 5))) OR push_bit 48 (ucast (m (a + 6))) OR
     push_bit 56 (ucast (m (a + 7)))"

definition st64 :: "mem \<Rightarrow> u64 \<Rightarrow> u64 \<Rightarrow> mem" where
  "st64 m a v =
     m(a := ucast v, a + 1 := ucast (drop_bit 8 v), a + 2 := ucast (drop_bit 16 v),
       a + 3 := ucast (drop_bit 24 v), a + 4 := ucast (drop_bit 32 v),
       a + 5 := ucast (drop_bit 40 v), a + 6 := ucast (drop_bit 48 v),
       a + 7 := ucast (drop_bit 56 v))"

definition ld16 :: "mem \<Rightarrow> u64 \<Rightarrow> u16" where
  "ld16 m a = ucast (m a) OR push_bit 8 (ucast (m (a + 1)))"

lemma ld64_st64_same [simp]: "ld64 (st64 m a v) a = v"
  by (simp add: ld64_def st64_def ucast_u8_u64 take_bit_join_or take_bit_join)

lemma ld64_cong:
  assumes "\<And>k. k < 8 \<Longrightarrow> m (a + of_nat k) = m' (a + of_nat k)"
  shows "ld64 m a = ld64 m' a"
  using assms [of 0] assms [of 1] assms [of 2] assms [of 3] assms [of 4] assms [of 5]
    assms [of 6] assms [of 7]
  by (simp add: ld64_def)

lemma ld64_zero: "(\<And>k. k < 8 \<Longrightarrow> m (a + of_nat k) = 0) \<Longrightarrow> ld64 m a = 0"
  using ld64_cong [of m a "\<lambda>_. 0"] by (simp add: ld64_def)

lemma st64_other:
  assumes "\<And>k. k < 8 \<Longrightarrow> b \<noteq> a + of_nat k"
  shows "st64 m a v b = m b"
  using assms [of 0] assms [of 1] assms [of 2] assms [of 3] assms [of 4] assms [of 5]
    assms [of 6] assms [of 7]
  by (simp add: st64_def)

text \<open>Accesses at multiples of eight overlap only when they are the same access.\<close>

lemma unat_add_aligned8:
  assumes "8 dvd unat (a :: u64)" and "k < 8"
  shows "unat (a + of_nat k) = unat a + k"
proof -
  have "unat a + 8 \<le> 18446744073709551616"
    using assms unat_lt_64 [of a] by (intro nat_mult_aligned_le) simp_all
  with assms have "unat a + k < 18446744073709551616"
    by linarith
  then show ?thesis
    using assms by (simp add: unat_simps)
qed

lemma st64_aligned_other:
  assumes "8 dvd unat (a :: u64)" and "unat b div 8 \<noteq> unat a div 8"
  shows "st64 m a v b = m b"
proof (rule st64_other, rule notI)
  fix k :: nat
  assume k: "k < 8" and "b = a + of_nat k"
  with assms(1) have "unat b = unat a + k"
    by (simp add: unat_add_aligned8)
  with assms k show False
    by (auto simp: dvd_def)
qed

lemma ld64_st64_aligned_other [mem_simps]:
  assumes "8 dvd unat (a :: u64)" and "8 dvd unat b" and "a \<noteq> b"
  shows "ld64 (st64 m a v) b = ld64 m b"
proof (rule ld64_cong)
  fix k :: nat
  assume k: "k < 8"
  have "unat a div 8 \<noteq> unat b div 8"
    using assms by (auto simp: u64_eq_iff)
  with assms k show "st64 m a v (b + of_nat k) = m (b + of_nat k)"
    by (intro st64_aligned_other) (auto simp: unat_add_aligned8)
qed

text \<open>The bytes of a string literal, without the terminator.\<close>

definition chars :: "string \<Rightarrow> u8 list" where
  "chars str = map of_char str"

section \<open>Pages\<close>

text \<open>
  The page of an address is \<open>unat a div 4096\<close>. The alignment test of the source,
  \<open>(x & (PAGE_SIZE - 1)) == 0\<close>, is divisibility of the unsigned value.
\<close>

definition page_aligned :: "u64 \<Rightarrow> bool" where
  "page_aligned x \<longleftrightarrow> x AND (4096 - 1) = 0"

definition page_of :: "u64 \<Rightarrow> nat" where
  "page_of a = unat a div 4096"

lemma and_4095 [simp]: "(x :: u64) AND 4095 = take_bit 12 x"
  by (simp add: take_bit_eq_mask mask_eq_exp_minus_1)

lemma unat_take_bit_64: "unat (take_bit n (x :: u64)) = unat x mod 2 ^ n"
  by (simp add: unsigned_take_bit_eq take_bit_nat_def)

lemma unat_drop_bit_64: "unat (drop_bit n (x :: u64)) = unat x div 2 ^ n"
  by (simp only: unat_drop_bit_eq) (simp add: drop_bit_eq_div)

lemma push_drop_12: "push_bit 12 (drop_bit 12 (x :: u64)) = x - take_bit 12 x"
  using bits_ident [of 12 x] by (simp add: eq_diff_eq)

lemma push_drop_12_aligned [simp]: "page_aligned x \<Longrightarrow> push_bit 12 (drop_bit 12 x) = x"
  by (simp add: push_drop_12 page_aligned_def)

lemma page_aligned_iff: "page_aligned x \<longleftrightarrow> 4096 dvd unat x"
  by (simp add: page_aligned_def u64_eq_iff unat_take_bit_64 dvd_eq_mod_eq_0)

lemma page_aligned_0 [simp]: "page_aligned 0"
  by (simp add: page_aligned_iff)

lemma and_not_4095: "(x :: u64) AND NOT (4096 - 1) = x - take_bit 12 x"
proof -
  have "(x AND NOT 4095) + (x AND 4095) = (x :: u64)"
    by (subst disjunctive_add_eq_or) (auto intro!: bit_word_eqI simp: bit_simps simp del: and_4095)
  then show ?thesis
    by (simp add: eq_diff_eq)
qed

lemma take_bit_le: "take_bit n (x :: u64) \<le> x"
  by (simp add: word_le_nat_alt unat_take_bit_64)

lemma unat_and_not_4095: "unat ((x :: u64) AND NOT (4096 - 1)) = unat x - unat x mod 4096"
  unfolding and_not_4095
  by (subst unat_sub) (auto simp: take_bit_le unat_take_bit_64)

lemma page_aligned_and_not [simp]: "page_aligned (x AND NOT (4096 - 1))"
  unfolding page_aligned_iff unat_and_not_4095 by (metis minus_mod_eq_mult_div dvd_triv_left)

lemma page_aligned_add:
  assumes "page_aligned x" and "page_aligned y"
  shows "page_aligned (x + y)"
  using assms by (simp add: page_aligned_iff unat_word_ariths dvd_mod)

lemma unat_page_add:
  assumes "page_aligned t" and "n < 4096"
  shows "unat (t + of_nat n) = unat t + n"
proof -
  have "unat t + 4096 \<le> 18446744073709551616"
    using assms unat_lt_64 [of t] unfolding page_aligned_iff
    by (intro nat_mult_aligned_le) simp_all
  with assms have "unat t + n < 18446744073709551616"
    by linarith
  then show ?thesis
    using assms by (simp add: unat_simps)
qed

lemma page_of_add: "page_aligned t \<Longrightarrow> n < 4096 \<Longrightarrow> page_of (t + of_nat n) = page_of t"
  unfolding page_of_def by (simp add: unat_page_add) (auto simp: page_aligned_iff)

lemma page_of_inj: "page_aligned t \<Longrightarrow> page_aligned u \<Longrightarrow> page_of t = page_of u \<Longrightarrow> t = u"
  by (auto simp: page_of_def page_aligned_iff u64_eq_iff)

lemma page_of_eqD:
  assumes "page_aligned t" and "page_of a = page_of t"
  obtains n where "n < 4096" and "a = t + of_nat n"
proof
  show "unat a mod 4096 < 4096" by simp
  have "unat a = unat t + unat a mod 4096"
    using assms div_mult_mod_eq [of "unat a" 4096]
    by (auto simp: page_of_def page_aligned_iff)
  then show "a = t + of_nat (unat a mod 4096)"
    using assms by (simp add: u64_eq_iff unat_page_add)
qed

section \<open>Counting loops\<close>

lemma unat_Suc_64: "i < (n :: u64) \<Longrightarrow> unat (i + 1) = Suc (unat i)"
  using unat_lt_64 [of n] by (simp add: word_less_nat_alt unat_add_64)

lemma unat_up_less: "i < (n :: u64) \<Longrightarrow> unat n - unat (i + 1) < unat n - unat i"
  by (simp add: unat_Suc_64 word_less_nat_alt)

text \<open>The induction behind every loop \<open>for (i = ...; i < n; ++i)\<close>.\<close>

lemma up_loop_induct [case_names step]:
  fixes i n :: u64
  assumes "\<And>i. (i < n \<Longrightarrow> P (i + 1)) \<Longrightarrow> P i"
  shows "P i"
proof (induction "unat n - unat i" arbitrary: i rule: less_induct)
  case less
  show ?case
    by (rule assms, rule less, rule unat_up_less)
qed

end
