(* ===== verification/Memlib.thy ===== *)
theory Memlib
  imports Prelude
begin

text \<open>
  The freestanding C string and memory functions of \<^verbatim>\<open>src/utility/memory.cpp\<close>, on a byte memory. A
  loop over a count is a recursion on the index. A loop that looks for a terminator the memory may
  not hold is a partial function: \<open>None\<close> is a loop that does not end. \<open>char\<close> is unsigned on
  RISC-V, \<open>size_t\<close> and pointers are 64 bits wide.
\<close>

section \<open>Copying, filling and comparing\<close>

function memcpy_from :: "u64 \<Rightarrow> u64 \<Rightarrow> u64 \<Rightarrow> u64 \<Rightarrow> mem \<Rightarrow> mem" where
  "memcpy_from d s n i m =
     (if i < n then memcpy_from d s n (i + 1) (m(d + i := m (s + i))) else m)"
  by pat_completeness auto
termination
  by (relation "measure (\<lambda>(d, s, n, i, m). unat n - unat i)")
    (auto intro: unat_up_less)

definition memcpy :: "u64 \<Rightarrow> u64 \<Rightarrow> u64 \<Rightarrow> mem \<Rightarrow> u64 \<times> mem" where
  "memcpy dest src n m = (dest, memcpy_from dest src n 0 m)"

function memset_from :: "u64 \<Rightarrow> u8 \<Rightarrow> u64 \<Rightarrow> u64 \<Rightarrow> mem \<Rightarrow> mem" where
  "memset_from d c n i m = (if i < n then memset_from d c n (i + 1) (m(d + i := c)) else m)"
  by pat_completeness auto
termination
  by (relation "measure (\<lambda>(d, c, n, i, m). unat n - unat i)")
    (auto intro: unat_up_less)

definition memset :: "u64 \<Rightarrow> u32 \<Rightarrow> u64 \<Rightarrow> mem \<Rightarrow> u64 \<times> mem" where
  "memset dest c n m = (dest, memset_from dest (ucast c) n 0 m)"

function memcmp_from :: "u64 \<Rightarrow> u64 \<Rightarrow> u64 \<Rightarrow> u64 \<Rightarrow> mem \<Rightarrow> int" where
  "memcmp_from x y n i m =
     (if i < n then
        if m (x + i) \<noteq> m (y + i) then uint (m (x + i)) - uint (m (y + i))
        else memcmp_from x y n (i + 1) m
      else 0)"
  by pat_completeness auto
termination
  by (relation "measure (\<lambda>(x, y, n, i, m). unat n - unat i)")
    (auto intro: unat_up_less)

definition memcmp :: "u64 \<Rightarrow> u64 \<Rightarrow> u64 \<Rightarrow> mem \<Rightarrow> int" where
  "memcmp a b n m = memcmp_from a b n 0 m"

text \<open>The downward loop of \<^verbatim>\<open>memmove\<close> counts from \<open>n\<close> to 1 and moves the byte below.\<close>

function memmove_down :: "u64 \<Rightarrow> u64 \<Rightarrow> u64 \<Rightarrow> mem \<Rightarrow> mem" where
  "memmove_down d s i m =
     (if i \<noteq> 0 then memmove_down d s (i - 1) (m(d + (i - 1) := m (s + (i - 1)))) else m)"
  by pat_completeness auto
termination
  by (relation "measure (\<lambda>(d, s, i, m). unat i)") (auto simp: unat_minus_one unat_gt_0)

definition memmove :: "u64 \<Rightarrow> u64 \<Rightarrow> u64 \<Rightarrow> mem \<Rightarrow> u64 \<times> mem" where
  "memmove dest src n m =
     (if dest < src then (dest, memcpy_from dest src n 0 m) else (dest, memmove_down dest src n m))"

function memchr_from :: "u64 \<Rightarrow> u8 \<Rightarrow> u64 \<Rightarrow> u64 \<Rightarrow> mem \<Rightarrow> u64" where
  "memchr_from p c n i m =
     (if i < n then if m (p + i) = c then p + i else memchr_from p c n (i + 1) m else 0)"
  by pat_completeness auto
termination
  by (relation "measure (\<lambda>(p, c, n, i, m). unat n - unat i)")
    (auto intro: unat_up_less)

definition memchr :: "u64 \<Rightarrow> u32 \<Rightarrow> u64 \<Rightarrow> mem \<Rightarrow> u64" where
  "memchr p c n m = memchr_from p (ucast c) n 0 m"

declare memcpy_from.simps [simp del] memset_from.simps [simp del] memcmp_from.simps [simp del]
  memmove_down.simps [simp del] memchr_from.simps [simp del]

section \<open>Strings\<close>

partial_function (option) strlen_from :: "u64 \<Rightarrow> u64 \<Rightarrow> mem \<Rightarrow> u64 option" where
  "strlen_from s len m = (if m (s + len) \<noteq> 0 then strlen_from s (len + 1) m else Some len)"

definition strlen :: "u64 \<Rightarrow> mem \<Rightarrow> u64 option" where
  "strlen s m = strlen_from s 0 m"

function strnlen_from :: "u64 \<Rightarrow> u64 \<Rightarrow> u64 \<Rightarrow> mem \<Rightarrow> u64" where
  "strnlen_from s maxlen len m =
     (if len < maxlen \<and> m (s + len) \<noteq> 0 then strnlen_from s maxlen (len + 1) m else len)"
  by pat_completeness auto
termination
  by (relation "measure (\<lambda>(s, maxlen, len, m). unat maxlen - unat len)")
    (auto intro: unat_up_less)

declare strnlen_from.simps [simp del]

definition strnlen :: "u64 \<Rightarrow> u64 \<Rightarrow> mem \<Rightarrow> u64" where
  "strnlen s maxlen m = strnlen_from s maxlen 0 m"

text \<open>
  The test after the loop is on the \<open>int\<close> argument, not on its conversion to \<open>char\<close>; the two differ
  for nonzero multiples of 256.
\<close>

partial_function (option) strchr_loop :: "u64 \<Rightarrow> u32 \<Rightarrow> mem \<Rightarrow> u64 option" where
  "strchr_loop s c m =
     (if m s \<noteq> 0 then if m s = ucast c then Some s else strchr_loop (s + 1) c m
      else Some (if c = 0 then s else 0))"

definition strchr :: "u64 \<Rightarrow> u32 \<Rightarrow> mem \<Rightarrow> u64 option" where
  "strchr s c m = strchr_loop s c m"

partial_function (option) strrchr_loop :: "u64 \<Rightarrow> u64 \<Rightarrow> u32 \<Rightarrow> mem \<Rightarrow> u64 option" where
  "strrchr_loop s found c m =
     (if m s \<noteq> 0 then strrchr_loop (s + 1) (if m s = ucast c then s else found) c m
      else Some (if c = 0 then s else found))"

definition strrchr :: "u64 \<Rightarrow> u32 \<Rightarrow> mem \<Rightarrow> u64 option" where
  "strrchr s c m = strrchr_loop s 0 c m"

section \<open>Numbers\<close>

partial_function (option) strtoul_skip :: "u64 \<Rightarrow> mem \<Rightarrow> u64 option" where
  "strtoul_skip nptr m = (if m nptr = 0x20 \<or> m nptr = 0x09 then strtoul_skip (nptr + 1) m else Some nptr)"

text \<open>The value of a digit, \<open>-1\<close> for a byte that is none.\<close>

definition strtoul_digit :: "u8 \<Rightarrow> int" where
  "strtoul_digit c =
     (if 0x30 \<le> c \<and> c \<le> 0x39 then uint c - 0x30
      else if 0x61 \<le> c \<and> c \<le> 0x66 then 10 + (uint c - 0x61)
      else if 0x41 \<le> c \<and> c \<le> 0x46 then 10 + (uint c - 0x41)
      else -1)"

partial_function (option) strtoul_digits :: "u64 \<Rightarrow> int \<Rightarrow> u64 \<Rightarrow> mem \<Rightarrow> (u64 \<times> u64) option" where
  "strtoul_digits nptr base result m =
     (if m nptr \<noteq> 0 then
        if strtoul_digit (m nptr) = -1 then Some (result, nptr)
        else if strtoul_digit (m nptr) \<ge> base then Some (result, nptr)
        else strtoul_digits (nptr + 1) base
               (result * of_int base + of_int (strtoul_digit (m nptr))) m
      else Some (result, nptr))"

definition strtoul :: "u64 \<Rightarrow> u64 \<Rightarrow> int \<Rightarrow> mem \<Rightarrow> (u64 \<times> mem) option" where
  "strtoul nptr endptr base m =
     (case strtoul_skip nptr m of
        None \<Rightarrow> None
      | Some nptr \<Rightarrow>
          (let (base, nptr) =
             (if base = 0 then
                if m nptr = 0x30 \<and> (m (nptr + 1) = 0x78 \<or> m (nptr + 1) = 0x58)
                then (16, nptr + 2) else (10, nptr)
              else (base, nptr))
           in case strtoul_digits nptr base 0 m of
                None \<Rightarrow> None
              | Some (result, nptr) \<Rightarrow>
                  Some (result, if endptr \<noteq> 0 then st64 m endptr nptr else m)))"

section \<open>What the loops compute\<close>

text \<open>A block of \<open>n\<close> bytes that does not run past the end of the address space.\<close>

definition block :: "u64 \<Rightarrow> u64 \<Rightarrow> bool" where
  "block p n \<longleftrightarrow> unat p + unat n \<le> 2 ^ 64"

definition in_block :: "u64 \<Rightarrow> u64 \<Rightarrow> u64 \<Rightarrow> bool" where
  "in_block p n a \<longleftrightarrow> unat p \<le> unat a \<and> unat a < unat p + unat n"

lemma block_add: "block p n \<Longrightarrow> i < n \<Longrightarrow> unat (p + i) = unat p + unat i"
  by (simp add: block_def word_less_nat_alt unat_add_64)

lemma block_offset:
  "block s n \<Longrightarrow> in_block d n a \<Longrightarrow> unat (s + (a - d)) = unat s + (unat a - unat d)"
  by (subst block_add [of s n]) (auto simp: in_block_def word_less_nat_alt word_le_nat_alt unat_diff_64)

lemma memcpy_from_forward:
  assumes "block d n" "block s n" and "d \<le> s \<or> unat s + unat n \<le> unat d"
  shows "memcpy_from d s n i m a =
    (if in_block d n a \<and> unat d + unat i \<le> unat a then m (s + (a - d)) else m a)"
proof (induction i arbitrary: m rule: up_loop_induct [where n = n])
  case (step i)
  show ?case
  proof (cases "i < n")
    case False
    then show ?thesis
      by (auto simp: memcpy_from.simps [of d s n i] in_block_def word_less_nat_alt)
  next
    case True
    let ?m = "m(d + i := m (s + i))"
    have d: "unat (d + i) = unat d + unat i"
      using assms(1) True by (rule block_add)
    have later: "?m (s + (a - d)) = m (s + (a - d))"
      if "in_block d n a" "unat d + unat (i + 1) \<le> unat a"
    proof -
      have "unat (s + (a - d)) \<noteq> unat (d + i)"
        using block_offset [OF assms(2) that(1)] assms(3) that True d
        by (auto simp: in_block_def word_le_nat_alt word_less_nat_alt unat_Suc_64)
      then show ?thesis by (auto simp: u64_eq_iff)
    qed
    have "memcpy_from d s n i m a =
        (if in_block d n a \<and> unat d + unat (i + 1) \<le> unat a then ?m (s + (a - d)) else ?m a)"
      using True step [OF True] by (simp add: memcpy_from.simps [of d s n i])
    also have "\<dots> = (if in_block d n a \<and> unat d + unat i \<le> unat a then m (s + (a - d)) else m a)"
    proof (cases "a = d + i")
      case here: True
      with d True show ?thesis
        by (simp add: in_block_def unat_Suc_64 word_less_nat_alt)
    next
      case False
      with d have "unat d + unat (i + 1) \<le> unat a \<longleftrightarrow> unat d + unat i \<le> unat a"
        using True by (auto simp: u64_eq_iff unat_Suc_64)
      with False later show ?thesis by simp
    qed
    finally show ?thesis .
  qed
qed

lemma memmove_down_backward:
  assumes "block d n" "block s n" and "s \<le> d" and "i \<le> n"
  shows "memmove_down d s i m a = (if in_block d i a then m (s + (a - d)) else m a)"
  using assms(4)
proof (induction "unat i" arbitrary: i m)
  case 0
  then have "i = 0" by (simp add: unat_eq_zero)
  then show ?case by (auto simp: memmove_down.simps [of d s 0] in_block_def)
next
  case (Suc k)
  let ?j = "i - 1" and ?m = "m(d + (i - 1) := m (s + (i - 1)))"
  have nz: "i \<noteq> 0" using Suc.hyps(2) by auto
  then have j: "unat ?j = k" "unat i = Suc k"
    using Suc.hyps(2) by (simp_all add: unat_minus_one)
  have jn: "?j < n" "?j \<le> n"
    using j Suc.prems by (simp_all add: word_less_nat_alt word_le_nat_alt)
  have d: "unat (d + ?j) = unat d + k" and src: "unat (s + ?j) = unat s + k"
    using block_add [OF assms(1) jn(1)] block_add [OF assms(2) jn(1)] j by simp_all
  have IH: "memmove_down d s ?j ?m a = (if in_block d ?j a then ?m (s + (a - d)) else ?m a)"
    using Suc.hyps(1) [of ?j ?m] j jn by simp
  have block: "block s ?j"
    using assms(2) jn by (simp add: block_def word_le_nat_alt)
  have "?m (s + (a - d)) = m (s + (a - d))" if "in_block d ?j a"
  proof -
    have "unat (s + (a - d)) \<noteq> unat (d + ?j)"
      using block_offset [OF block that] assms(3) that d j
      by (auto simp: in_block_def word_le_nat_alt)
    then show ?thesis by (auto simp: u64_eq_iff)
  qed
  moreover have "in_block d i a \<longleftrightarrow> a = d + ?j \<or> in_block d ?j a"
    using d j by (auto simp: in_block_def u64_eq_iff)
  moreover have "\<not> in_block d ?j (d + ?j)"
    using d j by (simp add: in_block_def)
  ultimately have "memmove_down d s ?j ?m a = (if in_block d i a then m (s + (a - d)) else m a)"
    unfolding IH by auto
  with nz show ?case
    by (simp add: memmove_down.simps [of d s i])
qed

lemma memmove_moves:
  assumes "block dest n" "block src n"
  shows "memmove dest src n m = (dest, \<lambda>a. if in_block dest n a then m (src + (a - dest)) else m a)"
proof (cases "dest < src")
  case True
  then have "dest \<le> src \<or> unat src + unat n \<le> unat dest"
    by (simp add: word_le_nat_alt word_less_nat_alt)
  from memcpy_from_forward [OF assms this, of 0 m] True show ?thesis
    by (auto simp: memmove_def in_block_def fun_eq_iff)
next
  case False
  then show ?thesis
    using memmove_down_backward [OF assms, of n m] by (auto simp: memmove_def fun_eq_iff not_less)
qed

lemma memset_from_fills:
  assumes "block d n"
  shows "memset_from d c n i m a =
    (if in_block d n a \<and> unat d + unat i \<le> unat a then c else m a)"
proof (induction i arbitrary: m rule: up_loop_induct [where n = n])
  case (step i)
  show ?case
  proof (cases "i < n")
    case False
    then show ?thesis
      by (auto simp: memset_from.simps [of d c n i] in_block_def word_less_nat_alt)
  next
    case True
    have d: "unat (d + i) = unat d + unat i"
      using assms True by (rule block_add)
    then have "a \<noteq> d + i \<Longrightarrow> unat d + unat (i + 1) \<le> unat a \<longleftrightarrow> unat d + unat i \<le> unat a"
      using True by (auto simp: u64_eq_iff unat_Suc_64)
    moreover have "in_block d n (d + i)"
      using d True by (simp add: in_block_def word_less_nat_alt)
    moreover have "memset_from d c n i m a =
        (if in_block d n a \<and> unat d + unat (i + 1) \<le> unat a then c else (m(d + i := c)) a)"
      using True step [OF True] by (simp add: memset_from.simps [of d c n i])
    ultimately show ?thesis
      using d by (cases "a = d + i") simp_all
  qed
qed

text \<open>\<^verbatim>\<open>memcmp\<close> is the difference of the first bytes that differ, zero when there are none.\<close>

lemma uint_byte_eq: "uint (a :: u8) = uint b \<longleftrightarrow> a = b"
  by (metis word_of_int_uint)

lemma memcmp_from_zero:
  "memcmp_from x y n i m = 0 \<longleftrightarrow> (\<forall>k. i \<le> k \<and> k < n \<longrightarrow> m (x + k) = m (y + k))"
proof (induction i rule: up_loop_induct [where n = n])
  case (step i)
  show ?case
  proof (cases "i < n")
    case False
    then show ?thesis by (auto simp: memcmp_from.simps [of x y n i])
  next
    case True
    have k: "i \<le> k \<and> k < n \<longleftrightarrow> k = i \<or> i + 1 \<le> k \<and> k < n" for k
      using unat_Suc_64 [OF True] True by (auto simp: word_le_nat_alt word_less_nat_alt u64_eq_iff)
    have "memcmp_from x y n i m = 0 \<longleftrightarrow> m (x + i) = m (y + i) \<and> memcmp_from x y n (i + 1) m = 0"
      using True uint_byte_eq by (simp add: memcmp_from.simps [of x y n i])
    with step [OF True] show ?thesis
      unfolding k by blast
  qed
qed

lemma memcmp_from_sign:
  assumes "k < n" "i \<le> k" "m (x + k) \<noteq> m (y + k)" "\<And>j. i \<le> j \<Longrightarrow> j < k \<Longrightarrow> m (x + j) = m (y + j)"
  shows "memcmp_from x y n i m = uint (m (x + k)) - uint (m (y + k))"
  using assms(2,4)
proof (induction i rule: up_loop_induct [where n = n])
  case (step i)
  have i: "i < n" using step.prems(1) assms(1) by simp
  show ?case
  proof (cases "i = k")
    case True
    with i assms(3) show ?thesis by (simp add: memcmp_from.simps [of x y n k])
  next
    case False
    with step.prems(1) have "i < k" by simp
    then have "i + 1 \<le> k" and "i \<le> i + 1"
      using unat_Suc_64 [OF i] by (auto simp: word_le_nat_alt word_less_nat_alt)
    then have "memcmp_from x y n (i + 1) m = uint (m (x + k)) - uint (m (y + k))"
      using step.prems by (intro step.IH [OF i]) (auto intro: order.trans)
    with i step.prems(2) [of i] \<open>i < k\<close> show ?thesis
      by (simp add: memcmp_from.simps [of x y n i])
  qed
qed

lemma strlen_from_stops:
  assumes "m (s + l) = 0" "\<And>k. i \<le> k \<Longrightarrow> k < l \<Longrightarrow> m (s + k) \<noteq> 0" "i \<le> l"
  shows "strlen_from s i m = Some l"
  using assms(2,3)
proof (induction i rule: up_loop_induct [where n = l])
  case (step i)
  show ?case
  proof (cases "i < l")
    case True
    then have "i + 1 \<le> l" "i \<le> i + 1"
      using unat_Suc_64 [OF True] by (auto simp: word_le_nat_alt word_less_nat_alt)
    with True step.prems have "strlen_from s (i + 1) m = Some l"
      by (intro step.IH [OF True]) (auto intro: order.trans)
    with True step.prems show ?thesis by (simp add: strlen_from.simps [of s i])
  next
    case False
    with step.prems have "i = l" by simp
    with assms(1) show ?thesis by (simp add: strlen_from.simps [of s l])
  qed
qed

lemma strnlen_from_bounds:
  assumes "i \<le> maxlen"
  shows "strnlen_from s maxlen i m \<le> maxlen" and "i \<le> strnlen_from s maxlen i m"
    and "\<And>k. i \<le> k \<Longrightarrow> k < strnlen_from s maxlen i m \<Longrightarrow> m (s + k) \<noteq> 0"
    and "strnlen_from s maxlen i m < maxlen \<Longrightarrow> m (s + strnlen_from s maxlen i m) = 0"
proof -
  have "strnlen_from s maxlen i m \<le> maxlen \<and> i \<le> strnlen_from s maxlen i m \<and>
      (\<forall>k. i \<le> k \<longrightarrow> k < strnlen_from s maxlen i m \<longrightarrow> m (s + k) \<noteq> 0) \<and>
      (strnlen_from s maxlen i m < maxlen \<longrightarrow> m (s + strnlen_from s maxlen i m) = 0)"
    using assms
  proof (induction i rule: up_loop_induct [where n = maxlen])
    case (step i)
    show ?case
    proof (cases "i < maxlen \<and> m (s + i) \<noteq> 0")
      case True
      then have i: "i < maxlen" by simp
      have k: "i \<le> k \<Longrightarrow> k = i \<or> i + 1 \<le> k" for k
        using unat_Suc_64 [OF i] by (auto simp: word_le_nat_alt u64_eq_iff)
      have "i + 1 \<le> maxlen" "i \<le> i + 1"
        using unat_Suc_64 [OF i] i by (auto simp: word_le_nat_alt word_less_nat_alt)
      with step.IH [OF i] True k show ?thesis
        by (auto simp: strnlen_from.simps [of s maxlen i] intro: order.trans)
    next
      case False
      with step.prems show ?thesis
        by (auto simp: strnlen_from.simps [of s maxlen i])
    qed
  qed
  then show "strnlen_from s maxlen i m \<le> maxlen" "i \<le> strnlen_from s maxlen i m"
    "\<And>k. i \<le> k \<Longrightarrow> k < strnlen_from s maxlen i m \<Longrightarrow> m (s + k) \<noteq> 0"
    "strnlen_from s maxlen i m < maxlen \<Longrightarrow> m (s + strnlen_from s maxlen i m) = 0"
    by blast+
qed

end
