(* ===== verification/Fdt.thy ===== *)
theory Fdt
  imports Memlib
begin

text \<open>
  The flattened device tree library, part one: byte order, header, offsets and tags
  (\<^verbatim>\<open>lib/libfdt/fdt.c\<close>, \<^verbatim>\<open>lib/libfdt/fdt.h\<close>, \<^verbatim>\<open>lib/libfdt/libfdt_env.h\<close>,
  \<^verbatim>\<open>lib/libfdt/libfdt_internal.h\<close> and the inline functions of \<^verbatim>\<open>lib/libfdt/libfdt.h\<close>).

  A blob is a byte memory \<open>m\<close> and the address \<open>fdt\<close> of its header. A C \<^verbatim>\<open>int\<close> is a 32-bit word
  compared with \<open><s\<close>, so an error is the negated error code and a test for errors is \<open>< 0\<close>; \<^verbatim>\<open>int\<close>
  arithmetic wraps. A null pointer is the address 0. A function that also writes through a pointer
  argument returns what it writes behind its result.
\<close>

section \<open>Byte order\<close>

definition EXTRACT_BYTE :: "'a :: len word \<Rightarrow> nat \<Rightarrow> u64" where
  "EXTRACT_BYTE x n = ucast (ucast (drop_bit (8 * n) x) :: u8)"

definition CPU_TO_FDT16 :: "u16 \<Rightarrow> u64" where
  "CPU_TO_FDT16 x = push_bit 8 (EXTRACT_BYTE x 0) OR EXTRACT_BYTE x 1"

definition CPU_TO_FDT32 :: "u32 \<Rightarrow> u64" where
  "CPU_TO_FDT32 x =
     push_bit 24 (EXTRACT_BYTE x 0) OR push_bit 16 (EXTRACT_BYTE x 1) OR
     push_bit 8 (EXTRACT_BYTE x 2) OR EXTRACT_BYTE x 3"

definition CPU_TO_FDT64 :: "u64 \<Rightarrow> u64" where
  "CPU_TO_FDT64 x =
     push_bit 56 (EXTRACT_BYTE x 0) OR push_bit 48 (EXTRACT_BYTE x 1) OR
     push_bit 40 (EXTRACT_BYTE x 2) OR push_bit 32 (EXTRACT_BYTE x 3) OR
     push_bit 24 (EXTRACT_BYTE x 4) OR push_bit 16 (EXTRACT_BYTE x 5) OR
     push_bit 8 (EXTRACT_BYTE x 6) OR EXTRACT_BYTE x 7"

definition fdt16_to_cpu :: "u16 \<Rightarrow> u16" where "fdt16_to_cpu x = ucast (CPU_TO_FDT16 x)"
definition cpu_to_fdt16 :: "u16 \<Rightarrow> u16" where "cpu_to_fdt16 x = ucast (CPU_TO_FDT16 x)"
definition fdt32_to_cpu :: "u32 \<Rightarrow> u32" where "fdt32_to_cpu x = ucast (CPU_TO_FDT32 x)"
definition cpu_to_fdt32 :: "u32 \<Rightarrow> u32" where "cpu_to_fdt32 x = ucast (CPU_TO_FDT32 x)"
definition fdt64_to_cpu :: "u64 \<Rightarrow> u64" where "fdt64_to_cpu x = ucast (CPU_TO_FDT64 x)"
definition cpu_to_fdt64 :: "u64 \<Rightarrow> u64" where "cpu_to_fdt64 x = ucast (CPU_TO_FDT64 x)"

text \<open>Big-endian accesses byte by byte, for unaligned data.\<close>

definition fdt16_ld :: "mem \<Rightarrow> u64 \<Rightarrow> u16" where
  "fdt16_ld m p = push_bit 8 (ucast (m p)) OR ucast (m (p + 1))"

definition fdt32_ld :: "mem \<Rightarrow> u64 \<Rightarrow> u32" where
  "fdt32_ld m p =
     push_bit 24 (ucast (m p)) OR push_bit 16 (ucast (m (p + 1))) OR
     push_bit 8 (ucast (m (p + 2))) OR ucast (m (p + 3))"

definition fdt64_ld :: "mem \<Rightarrow> u64 \<Rightarrow> u64" where
  "fdt64_ld m p =
     push_bit 56 (ucast (m p)) OR push_bit 48 (ucast (m (p + 1))) OR
     push_bit 40 (ucast (m (p + 2))) OR push_bit 32 (ucast (m (p + 3))) OR
     push_bit 24 (ucast (m (p + 4))) OR push_bit 16 (ucast (m (p + 5))) OR
     push_bit 8 (ucast (m (p + 6))) OR ucast (m (p + 7))"

definition fdt32_st :: "u64 \<Rightarrow> u32 \<Rightarrow> mem \<Rightarrow> mem" where
  "fdt32_st p v m =
     m(p := ucast (drop_bit 24 v), p + 1 := ucast (drop_bit 16 v AND 0xFF),
       p + 2 := ucast (drop_bit 8 v AND 0xFF), p + 3 := ucast (v AND 0xFF))"

definition fdt64_st :: "u64 \<Rightarrow> u64 \<Rightarrow> mem \<Rightarrow> mem" where
  "fdt64_st p v m =
     m(p := ucast (drop_bit 56 v), p + 1 := ucast (drop_bit 48 v AND 0xFF),
       p + 2 := ucast (drop_bit 40 v AND 0xFF), p + 3 := ucast (drop_bit 32 v AND 0xFF),
       p + 4 := ucast (drop_bit 24 v AND 0xFF), p + 5 := ucast (drop_bit 16 v AND 0xFF),
       p + 6 := ucast (drop_bit 8 v AND 0xFF), p + 7 := ucast (v AND 0xFF))"

text \<open>Native accesses, converted: the aligned elements of the blob.\<close>

definition ld32 :: "mem \<Rightarrow> u64 \<Rightarrow> u32" where
  "ld32 m p =
     ucast (m p) OR push_bit 8 (ucast (m (p + 1))) OR push_bit 16 (ucast (m (p + 2))) OR
     push_bit 24 (ucast (m (p + 3)))"

definition st32 :: "mem \<Rightarrow> u64 \<Rightarrow> u32 \<Rightarrow> mem" where
  "st32 m p v =
     m(p := ucast v, p + 1 := ucast (drop_bit 8 v), p + 2 := ucast (drop_bit 16 v),
       p + 3 := ucast (drop_bit 24 v))"

definition fdt32_ld_priv :: "mem \<Rightarrow> u64 \<Rightarrow> u32" where "fdt32_ld_priv m p = fdt32_to_cpu (ld32 m p)"
definition fdt64_ld_priv :: "mem \<Rightarrow> u64 \<Rightarrow> u64" where "fdt64_ld_priv m p = fdt64_to_cpu (ld64 m p)"

section \<open>Constants\<close>

definition FDT_MAGIC :: u32 where "FDT_MAGIC = 0xd00dfeed"
definition FDT_SW_MAGIC :: u32 where "FDT_SW_MAGIC = NOT FDT_MAGIC"
definition FDT_TAGSIZE :: u32 where "FDT_TAGSIZE = 4"
definition FDT_BEGIN_NODE :: u32 where "FDT_BEGIN_NODE = 0x1"
definition FDT_END_NODE :: u32 where "FDT_END_NODE = 0x2"
definition FDT_PROP :: u32 where "FDT_PROP = 0x3"
definition FDT_NOP :: u32 where "FDT_NOP = 0x4"
definition FDT_END :: u32 where "FDT_END = 0x9"
definition FDT_V1_SIZE :: u64 where "FDT_V1_SIZE = 7 * 4"
definition FDT_V2_SIZE :: u64 where "FDT_V2_SIZE = FDT_V1_SIZE + 4"
definition FDT_V3_SIZE :: u64 where "FDT_V3_SIZE = FDT_V2_SIZE + 4"
definition FDT_V16_SIZE :: u64 where "FDT_V16_SIZE = FDT_V3_SIZE"
definition FDT_V17_SIZE :: u64 where "FDT_V17_SIZE = FDT_V16_SIZE + 4"

definition FDT_FIRST_SUPPORTED_VERSION :: u32 where "FDT_FIRST_SUPPORTED_VERSION = 0x02"
definition FDT_LAST_SUPPORTED_VERSION :: u32 where "FDT_LAST_SUPPORTED_VERSION = 0x11"

definition FDT_ERR_NOTFOUND :: u32 where "FDT_ERR_NOTFOUND = 1"
definition FDT_ERR_EXISTS :: u32 where "FDT_ERR_EXISTS = 2"
definition FDT_ERR_NOSPACE :: u32 where "FDT_ERR_NOSPACE = 3"
definition FDT_ERR_BADOFFSET :: u32 where "FDT_ERR_BADOFFSET = 4"
definition FDT_ERR_BADPATH :: u32 where "FDT_ERR_BADPATH = 5"
definition FDT_ERR_BADPHANDLE :: u32 where "FDT_ERR_BADPHANDLE = 6"
definition FDT_ERR_BADSTATE :: u32 where "FDT_ERR_BADSTATE = 7"
definition FDT_ERR_TRUNCATED :: u32 where "FDT_ERR_TRUNCATED = 8"
definition FDT_ERR_BADMAGIC :: u32 where "FDT_ERR_BADMAGIC = 9"
definition FDT_ERR_BADVERSION :: u32 where "FDT_ERR_BADVERSION = 10"
definition FDT_ERR_BADSTRUCTURE :: u32 where "FDT_ERR_BADSTRUCTURE = 11"
definition FDT_ERR_BADLAYOUT :: u32 where "FDT_ERR_BADLAYOUT = 12"
definition FDT_ERR_INTERNAL :: u32 where "FDT_ERR_INTERNAL = 13"
definition FDT_ERR_BADNCELLS :: u32 where "FDT_ERR_BADNCELLS = 14"
definition FDT_ERR_BADVALUE :: u32 where "FDT_ERR_BADVALUE = 15"
definition FDT_ERR_BADOVERLAY :: u32 where "FDT_ERR_BADOVERLAY = 16"
definition FDT_ERR_NOPHANDLES :: u32 where "FDT_ERR_NOPHANDLES = 17"
definition FDT_ERR_BADFLAGS :: u32 where "FDT_ERR_BADFLAGS = 18"
definition FDT_ERR_ALIGNMENT :: u32 where "FDT_ERR_ALIGNMENT = 19"

definition INT_MAX :: u32 where "INT_MAX = 0x7FFFFFFF"

text \<open>The build enables no assumption.\<close>

definition FDT_ASSUME_MASK :: u32 where "FDT_ASSUME_MASK = 0"
definition ASSUME_VALID_DTB :: u32 where "ASSUME_VALID_DTB = push_bit 0 1"
definition ASSUME_VALID_INPUT :: u32 where "ASSUME_VALID_INPUT = push_bit 1 1"
definition ASSUME_LATEST :: u32 where "ASSUME_LATEST = push_bit 2 1"
definition ASSUME_NO_ROLLBACK :: u32 where "ASSUME_NO_ROLLBACK = push_bit 3 1"
definition ASSUME_LIBFDT_ORDER :: u32 where "ASSUME_LIBFDT_ORDER = push_bit 4 1"
definition ASSUME_LIBFDT_FLAWLESS :: u32 where "ASSUME_LIBFDT_FLAWLESS = push_bit 5 1"

definition can_assume :: "u32 \<Rightarrow> bool" where
  "can_assume flag \<longleftrightarrow> FDT_ASSUME_MASK AND flag \<noteq> 0"

lemma can_assume_never [simp]: "\<not> can_assume flag"
  by (simp add: can_assume_def FDT_ASSUME_MASK_def)

section \<open>The header\<close>

definition fdt_magic :: "mem \<Rightarrow> u64 \<Rightarrow> u32" where "fdt_magic m fdt = fdt32_ld m fdt"
definition fdt_totalsize :: "mem \<Rightarrow> u64 \<Rightarrow> u32" where "fdt_totalsize m fdt = fdt32_ld m (fdt + 4)"
definition fdt_off_dt_struct :: "mem \<Rightarrow> u64 \<Rightarrow> u32" where
  "fdt_off_dt_struct m fdt = fdt32_ld m (fdt + 8)"
definition fdt_off_dt_strings :: "mem \<Rightarrow> u64 \<Rightarrow> u32" where
  "fdt_off_dt_strings m fdt = fdt32_ld m (fdt + 12)"
definition fdt_off_mem_rsvmap :: "mem \<Rightarrow> u64 \<Rightarrow> u32" where
  "fdt_off_mem_rsvmap m fdt = fdt32_ld m (fdt + 16)"
definition fdt_version :: "mem \<Rightarrow> u64 \<Rightarrow> u32" where "fdt_version m fdt = fdt32_ld m (fdt + 20)"
definition fdt_last_comp_version :: "mem \<Rightarrow> u64 \<Rightarrow> u32" where
  "fdt_last_comp_version m fdt = fdt32_ld m (fdt + 24)"
definition fdt_boot_cpuid_phys :: "mem \<Rightarrow> u64 \<Rightarrow> u32" where
  "fdt_boot_cpuid_phys m fdt = fdt32_ld m (fdt + 28)"
definition fdt_size_dt_strings :: "mem \<Rightarrow> u64 \<Rightarrow> u32" where
  "fdt_size_dt_strings m fdt = fdt32_ld m (fdt + 32)"
definition fdt_size_dt_struct :: "mem \<Rightarrow> u64 \<Rightarrow> u32" where
  "fdt_size_dt_struct m fdt = fdt32_ld m (fdt + 36)"

definition fdt_ro_probe_priv :: "mem \<Rightarrow> u64 \<Rightarrow> u32" where
  "fdt_ro_probe_priv m fdt =
     (let totalsize = fdt_totalsize m fdt;
          in_range = (if totalsize < INT_MAX then totalsize else - FDT_ERR_TRUNCATED)
      in if can_assume ASSUME_VALID_DTB then totalsize
         else if fdt AND 7 \<noteq> 0 then - FDT_ERR_ALIGNMENT
         else if fdt_magic m fdt = FDT_MAGIC then
           (if \<not> can_assume ASSUME_LATEST \<and> fdt_version m fdt < FDT_FIRST_SUPPORTED_VERSION
            then - FDT_ERR_BADVERSION
            else if \<not> can_assume ASSUME_LATEST \<and> fdt_last_comp_version m fdt > FDT_LAST_SUPPORTED_VERSION
            then - FDT_ERR_BADVERSION
            else in_range)
         else if fdt_magic m fdt = FDT_SW_MAGIC then
           (if \<not> can_assume ASSUME_VALID_INPUT \<and> fdt_size_dt_struct m fdt = 0 then - FDT_ERR_BADSTATE
            else in_range)
         else - FDT_ERR_BADMAGIC)"

text \<open>The header size is a \<^verbatim>\<open>size_t\<close>; it is passed to these checks as a 32-bit number.\<close>

definition check_off_priv :: "u32 \<Rightarrow> u32 \<Rightarrow> u32 \<Rightarrow> bool" where
  "check_off_priv hdrsize totalsize off \<longleftrightarrow> off \<ge> hdrsize \<and> off \<le> totalsize"

definition check_block_priv :: "u32 \<Rightarrow> u32 \<Rightarrow> u32 \<Rightarrow> u32 \<Rightarrow> bool" where
  "check_block_priv hdrsize totalsize base sz =
     (if \<not> check_off_priv hdrsize totalsize base then False
      else if base + sz < base then False
      else if \<not> check_off_priv hdrsize totalsize (base + sz) then False
      else True)"

definition fdt_header_size_priv :: "u32 \<Rightarrow> u64" where
  "fdt_header_size_priv version =
     (if version \<le> 1 then FDT_V1_SIZE
      else if version \<le> 2 then FDT_V2_SIZE
      else if version \<le> 3 then FDT_V3_SIZE
      else if version \<le> 16 then FDT_V16_SIZE
      else FDT_V17_SIZE)"

definition fdt_header_size :: "mem \<Rightarrow> u64 \<Rightarrow> u64" where
  "fdt_header_size m fdt =
     (if can_assume ASSUME_LATEST then FDT_V17_SIZE else fdt_header_size_priv (fdt_version m fdt))"

definition fdt_check_header :: "mem \<Rightarrow> u64 \<Rightarrow> u32" where
  "fdt_check_header m fdt =
     (if fdt AND 7 \<noteq> 0 then - FDT_ERR_ALIGNMENT
      else if fdt_magic m fdt \<noteq> FDT_MAGIC then - FDT_ERR_BADMAGIC
      else if \<not> can_assume ASSUME_LATEST \<and>
              (fdt_version m fdt < FDT_FIRST_SUPPORTED_VERSION \<or>
               fdt_last_comp_version m fdt > FDT_LAST_SUPPORTED_VERSION)
           then - FDT_ERR_BADVERSION
      else if \<not> can_assume ASSUME_LATEST \<and> fdt_version m fdt < fdt_last_comp_version m fdt
           then - FDT_ERR_BADVERSION
      else let hdrsize = fdt_header_size m fdt
           in if can_assume ASSUME_VALID_DTB then 0
              else if ucast (fdt_totalsize m fdt) < hdrsize \<or> fdt_totalsize m fdt > INT_MAX
                   then - FDT_ERR_TRUNCATED
              else if fdt_off_mem_rsvmap m fdt mod 8 \<noteq> 0 then - FDT_ERR_ALIGNMENT
              else if fdt_off_dt_struct m fdt mod FDT_TAGSIZE \<noteq> 0 then - FDT_ERR_ALIGNMENT
              else if \<not> check_off_priv (ucast hdrsize) (fdt_totalsize m fdt) (fdt_off_mem_rsvmap m fdt)
                   then - FDT_ERR_TRUNCATED
              else if (if \<not> can_assume ASSUME_LATEST \<and> fdt_version m fdt < 17
                       then \<not> check_off_priv (ucast hdrsize) (fdt_totalsize m fdt)
                                (fdt_off_dt_struct m fdt)
                       else \<not> check_block_priv (ucast hdrsize) (fdt_totalsize m fdt)
                                (fdt_off_dt_struct m fdt) (fdt_size_dt_struct m fdt))
                   then - FDT_ERR_TRUNCATED
              else if \<not> check_block_priv (ucast hdrsize) (fdt_totalsize m fdt)
                          (fdt_off_dt_strings m fdt) (fdt_size_dt_strings m fdt)
                   then - FDT_ERR_TRUNCATED
              else 0)"

section \<open>Offsets into the structure block\<close>

definition fdt_offset_ptr_priv :: "mem \<Rightarrow> u64 \<Rightarrow> u32 \<Rightarrow> u64" where
  "fdt_offset_ptr_priv m fdt offset = fdt + ucast (fdt_off_dt_struct m fdt) + scast offset"

definition fdt_offset_ptr :: "mem \<Rightarrow> u64 \<Rightarrow> u32 \<Rightarrow> u32 \<Rightarrow> u64" where
  "fdt_offset_ptr m fdt offset len =
     (let uoffset = offset;
          absoffset = offset + fdt_off_dt_struct m fdt
      in if offset <s 0 then 0
         else if \<not> can_assume ASSUME_VALID_INPUT \<and>
                 (absoffset < uoffset \<or> absoffset + len < absoffset \<or>
                  absoffset + len > fdt_totalsize m fdt) then 0
         else if (can_assume ASSUME_LATEST \<or> fdt_version m fdt \<ge> 0x11) \<and>
                 (uoffset + len < uoffset \<or> offset + len > fdt_size_dt_struct m fdt) then 0
         else fdt_offset_ptr_priv m fdt offset)"

text \<open>A non-null result bounds the offset; the two lemmas carry all termination arguments.\<close>

lemma fdt_offset_ptr_nonneg: "fdt_offset_ptr m fdt offset len \<noteq> 0 \<Longrightarrow> \<not> offset <s 0"
  by (auto simp: fdt_offset_ptr_def)

lemma nonneg_iff: "\<not> (x :: u32) <s 0 \<longleftrightarrow> unat x < 2147483648"
proof -
  have "x <s 0 \<longleftrightarrow> bit (uint x) 31"
    by (simp add: word_sless_alt sint_uint)
  then have "x <s 0 \<longleftrightarrow> odd (uint x div 2147483648)"
    by (simp add: bit_iff_odd)
  moreover have "uint x div 2147483648 = (if uint x < 2147483648 then 0 else 1)"
    using uint_lt2p [of x] by (auto intro: int_div_pos_eq [where r = "uint x - 2147483648"])
  moreover have "uint x < 2147483648 \<longleftrightarrow> unat x < 2147483648"
    using of_nat_unat [of x, where 'a = int] by linarith
  ultimately show ?thesis
    by simp
qed

text \<open>What is left of the offsets a scan can still visit; negative offsets stop it.\<close>

definition offsets_left :: "u32 \<Rightarrow> nat" where
  "offsets_left offset = (if offset <s 0 then 0 else 2147483648 - unat offset)"

lemma offsets_left_Suc: "\<not> offset <s 0 \<Longrightarrow> offsets_left (offset + 1) < offsets_left offset"
  by (auto simp: offsets_left_def nonneg_iff unat_word_ariths)

lemma offsets_left_less:
  "\<not> offset <s 0 \<Longrightarrow> unat offset < unat next_offset \<Longrightarrow> offsets_left next_offset < offsets_left offset"
  by (auto simp: offsets_left_def nonneg_iff)

section \<open>Tags\<close>

definition FDT_TAGALIGN :: "u32 \<Rightarrow> u32" where
  "FDT_TAGALIGN x = (x + FDT_TAGSIZE - 1) AND NOT (FDT_TAGSIZE - 1)"

text \<open>
  The loop \<open>do p = fdt_offset_ptr(fdt, offset++, 1); while (p && *p)\<close>: the last pointer and the
  offset behind it.
\<close>

function skip_name :: "mem \<Rightarrow> u64 \<Rightarrow> u32 \<Rightarrow> u64 \<times> u32" where
  "skip_name m fdt offset =
     (let p = fdt_offset_ptr m fdt offset 1
      in if p \<noteq> 0 \<and> m p \<noteq> 0 then skip_name m fdt (offset + 1) else (p, offset + 1))"
  by pat_completeness auto
termination
  by (relation "measure (\<lambda>(m, fdt, offset). offsets_left offset)")
    (auto intro: offsets_left_Suc dest: fdt_offset_ptr_nonneg)

declare skip_name.simps [simp del]

text \<open>
  The result and the next offset. Behind the tag's own data the function ends with the same check
  and alignment for every tag.
\<close>

definition finish_tag :: "mem \<Rightarrow> u64 \<Rightarrow> u32 \<Rightarrow> u32 \<Rightarrow> u32 \<Rightarrow> u32 \<times> u32" where
  "finish_tag m fdt startoffset tag offset =
     (if fdt_offset_ptr m fdt startoffset (offset - startoffset) = 0
      then (FDT_END, - FDT_ERR_BADSTRUCTURE)
      else (tag, FDT_TAGALIGN offset))"

text \<open>Behind a property: its header, its value and, in old versions, padding.\<close>

definition prop_stop :: "mem \<Rightarrow> u64 \<Rightarrow> u32 \<Rightarrow> u32 \<Rightarrow> u32" where
  "prop_stop m fdt offset len =
     (let offset = offset + (12 - FDT_TAGSIZE + len)
      in if \<not> can_assume ASSUME_LATEST \<and> fdt_version m fdt < 0x10 \<and> len \<ge> 8 \<and>
            (offset - len) mod 8 \<noteq> 0
         then offset + 4 else offset)"

definition fdt_next_tag :: "mem \<Rightarrow> u64 \<Rightarrow> u32 \<Rightarrow> u32 \<times> u32" where
  "fdt_next_tag m fdt startoffset =
     (let tagp = fdt_offset_ptr m fdt startoffset FDT_TAGSIZE
      in if \<not> can_assume ASSUME_VALID_DTB \<and> tagp = 0 then (FDT_END, - FDT_ERR_TRUNCATED)
         else let tag = fdt32_ld_priv m tagp;
                  offset = startoffset + FDT_TAGSIZE
              in if tag = FDT_BEGIN_NODE then
                   (case skip_name m fdt offset of (p, offset) \<Rightarrow>
                      if \<not> can_assume ASSUME_VALID_DTB \<and> p = 0
                      then (FDT_END, - FDT_ERR_BADSTRUCTURE)
                      else finish_tag m fdt startoffset tag offset)
                 else if tag = FDT_PROP then
                   (let lenp = fdt_offset_ptr m fdt offset 4
                    in if \<not> can_assume ASSUME_VALID_DTB \<and> lenp = 0
                       then (FDT_END, - FDT_ERR_BADSTRUCTURE)
                       else let len = fdt32_ld_priv m lenp;
                                total = len + offset
                            in if \<not> can_assume ASSUME_VALID_DTB \<and> (INT_MAX \<le> total \<or> total < offset)
                               then (FDT_END, - FDT_ERR_BADSTRUCTURE)
                               else finish_tag m fdt startoffset tag (prop_stop m fdt offset len))
                 else if tag = FDT_END \<or> tag = FDT_END_NODE \<or> tag = FDT_NOP then
                   finish_tag m fdt startoffset tag offset
                 else (FDT_END, - FDT_ERR_BADSTRUCTURE))"

lemma and_not_u32: "(x :: u32) AND NOT y = x - (x AND y)"
proof -
  have "(x AND NOT y) + (x AND y) = (x AND NOT y) OR (x AND y)"
    by (rule disjunctive_add_eq_or) (auto intro!: bit_word_eqI simp: bit_simps)
  also have "\<dots> = x"
    by (auto intro!: bit_word_eqI simp: bit_simps)
  finally show ?thesis
    by (simp add: eq_diff_eq)
qed

lemma and_not_3: "unat ((x :: u32) AND - 4) = unat x - unat x mod 4"
proof -
  have "x AND - 4 = x - take_bit 2 x"
    using and_not_u32 [of x 3] by (simp add: take_bit_eq_mask mask_eq_exp_minus_1)
  moreover have "unat (take_bit 2 x) = unat x mod 4"
    by (simp add: unsigned_take_bit_eq take_bit_nat_def)
  ultimately show ?thesis
    by (simp add: unat_sub word_le_nat_alt)
qed

lemma unat_tagalign:
  assumes "unat x < 2147483700"
  shows "unat (FDT_TAGALIGN x) = (unat x + 3) div 4 * 4"
proof -
  have "unat (3 + x) = unat x + 3"
    using assms by (simp add: unat_word_ariths)
  then show ?thesis
    by (simp add: FDT_TAGALIGN_def FDT_TAGSIZE_def and_not_3 minus_mod_eq_div_mult)
qed

lemma tagalign_bounds:
  assumes "unat x < 2147483700"
  shows "unat x \<le> unat (FDT_TAGALIGN x)" "unat (FDT_TAGALIGN x) \<le> unat x + 3"
    "4 dvd unat (FDT_TAGALIGN x)"
  unfolding unat_tagalign [OF assms] by presburger+

lemma unat_add_32: "unat (x :: u32) + unat y < 4294967296 \<Longrightarrow> unat (x + y) = unat x + unat y"
  by (simp add: unat_word_ariths)

lemma sint_nonneg:
  assumes "\<not> (x :: u32) <s 0"
  shows "sint x = int (unat x)"
proof -
  have "int (unat x) = uint x" by simp
  with assms have "- 2147483648 \<le> uint x \<and> uint x < 2147483648"
    unfolding nonneg_iff by linarith
  then show ?thesis
    by (simp add: sint_uint signed_take_bit_int_eq_self_iff)
qed

lemma scast_nonneg: "\<not> (x :: u32) <s 0 \<Longrightarrow> scast x = (of_nat (unat x) :: u64)"
  by (simp add: scast_eq sint_nonneg)

text \<open>What a non-null result of \<^verbatim>\<open>fdt_offset_ptr\<close> guarantees: the bytes lie inside the blob.\<close>

lemma no_overflow_32:
  assumes "\<not> x + y < (x :: u32)"
  shows "unat (x + y) = unat x + unat y"
  using assms unat_lt_32 [of x] unat_lt_32 [of y]
  by (auto simp: word_less_nat_alt unat_word_ariths not_less mod_if split: if_splits)

lemma fdt_offset_ptr_bounds:
  assumes "fdt_offset_ptr m fdt offset len \<noteq> 0"
  shows "fdt_offset_ptr m fdt offset len = fdt + of_nat (unat (fdt_off_dt_struct m fdt) + unat offset)"
    "unat (fdt_off_dt_struct m fdt) + unat offset + unat len \<le> unat (fdt_totalsize m fdt)"
    "fdt_version m fdt \<ge> 17 \<Longrightarrow> unat offset + unat len \<le> unat (fdt_size_dt_struct m fdt)"
proof -
  let ?base = "fdt_off_dt_struct m fdt"
  have c: "\<not> offset <s 0" "\<not> offset + ?base < offset" "\<not> offset + ?base + len < offset + ?base"
    "offset + ?base + len \<le> fdt_totalsize m fdt"
    "fdt_version m fdt \<ge> 17 \<Longrightarrow> \<not> offset + len < offset \<and> offset + len \<le> fdt_size_dt_struct m fdt"
    and ptr: "fdt_offset_ptr m fdt offset len = fdt_offset_ptr_priv m fdt offset"
    using assms by (auto simp: fdt_offset_ptr_def Let_def split: if_splits)
  have "scast offset = (of_nat (unat offset) :: u64)"
    using c(1) by (rule scast_nonneg)
  with ptr show "fdt_offset_ptr m fdt offset len = fdt + of_nat (unat ?base + unat offset)"
    by (simp add: fdt_offset_ptr_priv_def)
  show "unat ?base + unat offset + unat len \<le> unat (fdt_totalsize m fdt)"
    using c(4) no_overflow_32 [OF c(2)] no_overflow_32 [OF c(3)] by (simp add: word_le_nat_alt)
  show "unat offset + unat len \<le> unat (fdt_size_dt_struct m fdt)" if "fdt_version m fdt \<ge> 17"
    using c(5) [OF that] no_overflow_32 [of offset len] by (simp add: word_le_nat_alt)
qed

lemma skip_name_bounds:
  assumes "skip_name m fdt offset = (p, stop)" and "p \<noteq> 0"
  shows "unat offset < unat stop \<and> unat stop \<le> 2147483648 \<and> m p = 0 \<and>
    p = fdt_offset_ptr m fdt (stop - 1) 1"
  using assms
proof (induction m fdt offset rule: skip_name.induct)
  case (1 m fdt offset)
  let ?p = "fdt_offset_ptr m fdt offset 1"
  have p: "?p \<noteq> 0"
    using 1(2,3) by (auto simp: skip_name.simps [of m fdt offset] Let_def split: if_splits)
  then have "unat offset < 2147483648"
    using fdt_offset_ptr_nonneg nonneg_iff by blast
  then have next_offset: "unat (offset + 1) = unat offset + 1"
    by (simp add: unat_add_32)
  show ?case
  proof (cases "m ?p = 0")
    case True
    with 1(2) p next_offset \<open>unat offset < _\<close> show ?thesis
      by (auto simp: skip_name.simps [of m fdt offset] Let_def)
  next
    case False
    with 1(2) p have "skip_name m fdt (offset + 1) = (p, stop)"
      by (simp add: skip_name.simps [of m fdt offset] Let_def)
    with 1(1) [OF refl] p False 1(3) next_offset show ?thesis
      by auto
  qed
qed

lemma finish_tag_progress:
  assumes "finish_tag m fdt startoffset tag offset = (t, next_offset)" and "t \<noteq> FDT_END"
    and "unat startoffset < unat offset" "unat offset < 2147483700"
  shows "t = tag" "unat offset \<le> unat next_offset" "unat next_offset \<le> unat offset + 3"
    "4 dvd unat next_offset" "fdt_offset_ptr m fdt startoffset (offset - startoffset) \<noteq> 0"
  using assms tagalign_bounds [OF assms(4)] by (auto simp: finish_tag_def split: if_splits)

text \<open>
  A tag other than \<open>FDT_END\<close> lies inside the structure block, from the offset up to some \<open>stop\<close>;
  the next offset is \<open>stop\<close> rounded up to the alignment, so every scan makes progress.
\<close>

lemma prop_span:
  assumes "unat offset < 2147483700" and "\<not> (INT_MAX \<le> len + offset \<or> len + offset < offset)"
  shows "unat offset + 8 + unat len \<le> unat (prop_stop m fdt offset len)"
    "unat (prop_stop m fdt offset len) \<le> unat offset + 12 + unat len"
    "unat offset + unat len < 2147483647"
proof -
  have "unat (len + offset) = unat offset + unat len"
    using no_overflow_32 [of offset len] assms(2) by (simp add: add.commute)
  with assms(2) show *: "unat offset + unat len < 2147483647"
    by (simp add: INT_MAX_def word_le_nat_alt)
  then have "unat (8 + len) = 8 + unat len"
    by (subst unat_add_32) simp_all
  with * have stop: "unat (offset + (8 + len)) = unat offset + 8 + unat len"
    by (subst unat_add_32) simp_all
  with * have "unat (offset + (8 + len) + 4) = unat offset + 12 + unat len"
    by (subst unat_add_32) simp_all
  with stop show "unat offset + 8 + unat len \<le> unat (prop_stop m fdt offset len)"
    "unat (prop_stop m fdt offset len) \<le> unat offset + 12 + unat len"
    unfolding prop_stop_def Let_def FDT_TAGSIZE_def by (simp_all add: add.commute [of 8 len])
qed

lemma fdt_next_tag_progress:
  assumes "fdt_next_tag m fdt startoffset = (tag, next_offset)" and "tag \<noteq> FDT_END"
  obtains stop where "\<not> startoffset <s 0" "unat startoffset + 4 \<le> unat stop"
    "unat stop \<le> unat next_offset" "unat next_offset \<le> unat stop + 3" "unat stop < 2147483700"
    "4 dvd unat next_offset" "fdt_offset_ptr m fdt startoffset (stop - startoffset) \<noteq> 0"
    "tag = fdt32_ld_priv m (fdt_offset_ptr m fdt startoffset FDT_TAGSIZE)"
    "tag \<in> {FDT_BEGIN_NODE, FDT_END_NODE, FDT_PROP, FDT_NOP}"
proof -
  let ?tagp = "fdt_offset_ptr m fdt startoffset FDT_TAGSIZE" and ?o = "startoffset + FDT_TAGSIZE"
  let ?tag = "fdt32_ld_priv m ?tagp"
  have tagp: "?tagp \<noteq> 0"
    using assms by (auto simp: fdt_next_tag_def Let_def split: if_splits)
  then have start: "\<not> startoffset <s 0" "unat startoffset < 2147483648"
    using fdt_offset_ptr_nonneg nonneg_iff by blast+
  then have o: "unat ?o = unat startoffset + 4"
    by (simp add: FDT_TAGSIZE_def unat_add_32)
  obtain stop where fin: "finish_tag m fdt startoffset ?tag stop = (tag, next_offset)"
    and stop: "unat ?o \<le> unat stop" "unat stop < 2147483700"
    and tags: "?tag \<in> {FDT_BEGIN_NODE, FDT_END_NODE, FDT_PROP, FDT_NOP, FDT_END}"
  proof -
    consider "?tag = FDT_BEGIN_NODE" | "?tag \<noteq> FDT_BEGIN_NODE" "?tag = FDT_PROP"
      | "?tag \<noteq> FDT_BEGIN_NODE" "?tag \<noteq> FDT_PROP" "?tag = FDT_END \<or> ?tag = FDT_END_NODE \<or> ?tag = FDT_NOP"
      | "?tag \<notin> {FDT_BEGIN_NODE, FDT_END_NODE, FDT_PROP, FDT_NOP, FDT_END}"
      by blast
    then show thesis
    proof cases
      case 1
      obtain p stop where skip: "skip_name m fdt ?o = (p, stop)"
        by (cases "skip_name m fdt ?o")
      with assms tagp 1 have "p \<noteq> 0" "finish_tag m fdt startoffset ?tag stop = (tag, next_offset)"
        by (auto simp: fdt_next_tag_def Let_def split: if_splits)
      with skip_name_bounds [OF skip] 1 o that [of stop] show thesis
        by simp
    next
      case 2
      let ?lenp = "fdt_offset_ptr m fdt ?o 4"
      let ?len = "fdt32_ld_priv m ?lenp"
      let ?stop = "prop_stop m fdt ?o ?len"
      from assms tagp 2 have nowrap: "\<not> (INT_MAX \<le> ?len + ?o \<or> ?len + ?o < ?o)"
        and fin: "finish_tag m fdt startoffset ?tag ?stop = (tag, next_offset)"
        by (auto simp: fdt_next_tag_def Let_def split: if_splits)
      have "unat ?o < 2147483700"
        using o start by simp
      from prop_span(1,2) [OF this nowrap, of m fdt] prop_span(3) [OF this nowrap] that [OF fin] 2
      show thesis
        by simp
    next
      case 3
      with assms tagp have "finish_tag m fdt startoffset ?tag ?o = (tag, next_offset)"
        by (auto simp: fdt_next_tag_def Let_def split: if_splits)
      with that [of ?o] 3 o start show thesis
        by auto
    next
      case 4
      with assms tagp show thesis
        by (auto simp: fdt_next_tag_def Let_def split: if_splits)
    qed
  qed
  have "unat startoffset < unat stop"
    using stop(1) o by simp
  note fin_progress = finish_tag_progress [OF fin assms(2) this stop(2)]
  show thesis
    by (rule that [of stop]) (use start stop o fin_progress tags assms(2) in auto)
qed

lemma fdt_next_tag_left:
  assumes "fdt_next_tag m fdt startoffset = (tag, next_offset)" and "tag \<noteq> FDT_END"
  shows "offsets_left next_offset < offsets_left startoffset"
  by (rule fdt_next_tag_progress [OF assms]) (auto intro: offsets_left_less)

end
