(* ===== verification/Fdt_Walk.thy ===== *)
theory Fdt_Walk
  imports Fdt
begin

text \<open>
  Walking a device tree (the second half of \<^verbatim>\<open>lib/libfdt/fdt.c\<close>): checking that an offset is a node
  or a property, going to the next node with its depth, and to the subnodes. A depth that is passed
  as a null pointer is \<open>None\<close>.
\<close>

section \<open>Nodes and properties\<close>

definition fdt_check_node_offset_priv :: "mem \<Rightarrow> u64 \<Rightarrow> u32 \<Rightarrow> u32" where
  "fdt_check_node_offset_priv m fdt offset =
     (if \<not> can_assume ASSUME_VALID_INPUT \<and> (offset <s 0 \<or> offset mod FDT_TAGSIZE \<noteq> 0)
      then - FDT_ERR_BADOFFSET
      else (case fdt_next_tag m fdt offset of (tag, offset) \<Rightarrow>
              if tag \<noteq> FDT_BEGIN_NODE then - FDT_ERR_BADOFFSET else offset))"

definition fdt_check_prop_offset_priv :: "mem \<Rightarrow> u64 \<Rightarrow> u32 \<Rightarrow> u32" where
  "fdt_check_prop_offset_priv m fdt offset =
     (if \<not> can_assume ASSUME_VALID_INPUT \<and> (offset <s 0 \<or> offset mod FDT_TAGSIZE \<noteq> 0)
      then - FDT_ERR_BADOFFSET
      else (case fdt_next_tag m fdt offset of (tag, offset) \<Rightarrow>
              if tag \<noteq> FDT_PROP then - FDT_ERR_BADOFFSET else offset))"

function next_node_loop :: "mem \<Rightarrow> u64 \<Rightarrow> u32 \<Rightarrow> u32 option \<Rightarrow> u32 \<times> u32 option" where
  "next_node_loop m fdt offset depth =
     (case fdt_next_tag m fdt offset of (tag, nextoffset) \<Rightarrow>
        if tag = FDT_BEGIN_NODE then (offset, map_option (\<lambda>d. d + 1) depth)
        else if tag = FDT_END_NODE then
          (let depth = map_option (\<lambda>d. d - 1) depth
           in if depth \<noteq> None \<and> the depth <s 0 then (nextoffset, depth)
              else next_node_loop m fdt nextoffset depth)
        else if tag = FDT_END then
          (if \<not> nextoffset <s 0 \<or> (nextoffset = - FDT_ERR_TRUNCATED \<and> depth = None)
           then (- FDT_ERR_NOTFOUND, depth) else (nextoffset, depth))
        else next_node_loop m fdt nextoffset depth)"
  by pat_completeness auto
termination
  by (relation "measure (\<lambda>(m, fdt, offset, depth). offsets_left offset)")
    (auto intro: fdt_next_tag_left [OF sym] simp: FDT_END_NODE_def FDT_END_def)

declare next_node_loop.simps [simp del]

definition fdt_next_node :: "mem \<Rightarrow> u64 \<Rightarrow> u32 \<Rightarrow> u32 option \<Rightarrow> u32 \<times> u32 option" where
  "fdt_next_node m fdt offset depth =
     (if \<not> offset <s 0 then
        (let nextoffset = fdt_check_node_offset_priv m fdt offset
         in if nextoffset <s 0 then (nextoffset, depth) else next_node_loop m fdt nextoffset depth)
      else next_node_loop m fdt 0 depth)"

lemma err_values [simp]:
  "- FDT_ERR_BADOFFSET <s 0" "- FDT_ERR_NOTFOUND <s 0" "- FDT_ERR_BADSTRUCTURE <s 0"
  "- FDT_ERR_TRUNCATED <s 0" "- FDT_ERR_ALIGNMENT <s 0" "- FDT_ERR_BADVERSION <s 0"
  "- FDT_ERR_BADSTATE <s 0" "- FDT_ERR_BADMAGIC <s 0" "- FDT_ERR_INTERNAL <s 0"
  "- FDT_ERR_BADPATH <s 0" "- FDT_ERR_BADPHANDLE <s 0" "- FDT_ERR_NOSPACE <s 0"
  "- FDT_ERR_BADVALUE <s 0" "- FDT_ERR_BADNCELLS <s 0" "- FDT_ERR_NOPHANDLES <s 0"
  by code_simp+

lemmas tag_values = FDT_BEGIN_NODE_def FDT_END_NODE_def FDT_PROP_def FDT_NOP_def FDT_END_def

lemma check_node_offset_forward:
  assumes "\<not> fdt_check_node_offset_priv m fdt offset <s 0"
  shows "unat offset + 4 \<le> unat (fdt_check_node_offset_priv m fdt offset)"
proof -
  obtain tag next_offset where t: "fdt_next_tag m fdt offset = (tag, next_offset)"
    by (cases "fdt_next_tag m fdt offset")
  with assms have tag: "tag = FDT_BEGIN_NODE" and r: "fdt_check_node_offset_priv m fdt offset = next_offset"
    by (auto simp: fdt_check_node_offset_priv_def split: if_splits)
  then have "tag \<noteq> FDT_END"
    by (simp add: tag_values)
  then show ?thesis
    unfolding r by (rule fdt_next_tag_progress [OF t]) linarith
qed

lemma check_prop_offset_forward:
  assumes "\<not> fdt_check_prop_offset_priv m fdt offset <s 0"
  shows "unat offset + 4 \<le> unat (fdt_check_prop_offset_priv m fdt offset)"
proof -
  obtain tag next_offset where t: "fdt_next_tag m fdt offset = (tag, next_offset)"
    by (cases "fdt_next_tag m fdt offset")
  with assms have tag: "tag = FDT_PROP" and r: "fdt_check_prop_offset_priv m fdt offset = next_offset"
    by (auto simp: fdt_check_prop_offset_priv_def split: if_splits)
  then have "tag \<noteq> FDT_END"
    by (simp add: tag_values)
  then show ?thesis
    unfolding r by (rule fdt_next_tag_progress [OF t]) linarith
qed

text \<open>Without a negative depth the loop returns a node, which is not before its start.\<close>

lemma next_node_loop_forward:
  assumes "next_node_loop m fdt offset depth = (r, depth')" and "\<not> r <s 0"
  shows "unat offset \<le> unat r"
  using assms
proof (induction m fdt offset depth rule: next_node_loop.induct)
  case (1 m fdt offset depth)
  obtain tag next_offset where t: "fdt_next_tag m fdt offset = (tag, next_offset)"
    by (cases "fdt_next_tag m fdt offset")
  have fwd: "unat offset \<le> unat next_offset" if "tag \<noteq> FDT_END"
    by (rule fdt_next_tag_progress [OF t that]) linarith
  have IH: "unat next_offset \<le> unat r"
    if "tag \<notin> {FDT_BEGIN_NODE, FDT_END}" "next_node_loop m fdt next_offset d = (r, depth')"
      "d = (if tag = FDT_END_NODE then map_option (\<lambda>d. d - 1) depth else depth)"
      "tag = FDT_END_NODE \<longrightarrow> \<not> (d \<noteq> None \<and> the d <s 0)" for d
    using that "1.IH"(1) [OF t [symmetric]] "1.IH"(2) [OF t [symmetric]] "1.prems"(2)
    by (auto split: if_splits)
  show ?case
    using "1.prems" t fwd IH order.trans [of "unat offset" "unat next_offset" "unat r"]
    by (auto simp: next_node_loop.simps [of m fdt offset] Let_def tag_values split: if_splits)
qed

lemma fdt_next_node_forward:
  assumes "fdt_next_node m fdt offset depth = (r, depth')" and "\<not> r <s 0" and "\<not> offset <s 0"
  shows "unat offset < unat r"
  using assms check_node_offset_forward [of m fdt offset]
  by (auto simp: fdt_next_node_def Let_def dest!: next_node_loop_forward split: if_splits)

lemma fdt_next_node_left:
  assumes "\<not> offset <s 0" and "fdt_next_node m fdt offset depth = (r, depth')"
  shows "offsets_left r < offsets_left offset"
proof (cases "r <s 0")
  case True
  with assms(1) show ?thesis by (simp add: offsets_left_def nonneg_iff)
next
  case False
  with fdt_next_node_forward [OF assms(2) False assms(1)] assms(1) show ?thesis
    by (intro offsets_left_less)
qed

text \<open>The measure of the loops over all nodes, which start at a negative offset.\<close>

definition nodes_left :: "u32 \<Rightarrow> nat" where
  "nodes_left offset = (if offset <s 0 then 2147483649 else offsets_left offset)"

lemma nodes_left_next:
  assumes "fdt_next_node m fdt offset depth = (r, depth')" and "\<not> r <s 0"
  shows "nodes_left r < nodes_left offset"
  using fdt_next_node_left [OF _ assms(1)] assms(2) by (auto simp: nodes_left_def offsets_left_def)

section \<open>Subnodes\<close>

definition fdt_first_subnode :: "mem \<Rightarrow> u64 \<Rightarrow> u32 \<Rightarrow> u32" where
  "fdt_first_subnode m fdt offset =
     (case fdt_next_node m fdt offset (Some 0) of (offset, depth) \<Rightarrow>
        if offset <s 0 \<or> depth \<noteq> Some 1 then - FDT_ERR_NOTFOUND else offset)"

function next_subnode_loop :: "mem \<Rightarrow> u64 \<Rightarrow> u32 \<Rightarrow> u32 option \<Rightarrow> u32" where
  "next_subnode_loop m fdt offset depth =
     (case fdt_next_node m fdt offset depth of (nextoffset, depth) \<Rightarrow>
        if nextoffset <s 0 \<or> the depth <s 1 then - FDT_ERR_NOTFOUND
        else if 1 <s the depth then next_subnode_loop m fdt nextoffset depth
        else nextoffset)"
  by pat_completeness auto
termination
  by (relation "measure (\<lambda>(m, fdt, offset, depth). nodes_left offset)")
    (auto dest!: sym [of "(_, _)"] intro: nodes_left_next)

declare next_subnode_loop.simps [simp del]

definition fdt_next_subnode :: "mem \<Rightarrow> u64 \<Rightarrow> u32 \<Rightarrow> u32" where
  "fdt_next_subnode m fdt offset = next_subnode_loop m fdt offset (Some 1)"

section \<open>Strings and moving a blob\<close>

text \<open>
  The caller's string is the list of its bytes. The table ends at \<open>last\<close>, a pointer that may be
  before its start; a search that would run on past the end of the address space is \<open>None\<close>.
\<close>

fun bytes_at :: "mem \<Rightarrow> u64 \<Rightarrow> u8 list \<Rightarrow> bool" where
  "bytes_at m p [] \<longleftrightarrow> True"
| "bytes_at m p (c # cs) \<longleftrightarrow> m p = c \<and> bytes_at m (p + 1) cs"

partial_function (option) find_string_loop :: "mem \<Rightarrow> u64 \<Rightarrow> u8 list \<Rightarrow> u64 \<Rightarrow> u64 option" where
  "find_string_loop m last_start s p =
     (if p \<le> last_start then
        if bytes_at m p s \<and> m (p + of_nat (length s)) = 0 then Some p
        else find_string_loop m last_start s (p + 1)
      else Some 0)"

definition fdt_find_string_len_priv :: "mem \<Rightarrow> u64 \<Rightarrow> u32 \<Rightarrow> u8 list \<Rightarrow> u64 option" where
  "fdt_find_string_len_priv m strtab tabsize s =
     (let last_start = strtab + scast tabsize - (of_nat (length s) + 1)
      in find_string_loop m last_start s strtab)"

definition fdt_move :: "mem \<Rightarrow> u64 \<Rightarrow> u64 \<Rightarrow> u32 \<Rightarrow> u32 \<times> mem" where
  "fdt_move m fdt buf bufsize =
     (if \<not> can_assume ASSUME_VALID_INPUT \<and> bufsize <s 0 then (- FDT_ERR_NOSPACE, m)
      else if fdt_ro_probe_priv m fdt <s 0 then (fdt_ro_probe_priv m fdt, m)
      else if fdt_totalsize m fdt > bufsize then (- FDT_ERR_NOSPACE, m)
      else (0, snd (memmove buf fdt (ucast (fdt_totalsize m fdt)) m)))"

end
