(* ===== verification/Fdt_Read.thy ===== *)
theory Fdt_Read
  imports Fdt_Walk
begin

text \<open>
  The read-only functions of the device tree library (\<^verbatim>\<open>lib/libfdt/fdt_ro.c\<close>): names, strings,
  properties, phandles, the memory reservation map, paths and aliases, depths and string lists.

  A string the caller passes, with or without its length, is the list of its bytes. A length
  pointer is always given here. Functions that measure a string of the blob with \<^verbatim>\<open>strlen\<close> or
  \<^verbatim>\<open>strrchr\<close> are option valued: \<open>None\<close> is a search that never meets a terminator.
\<close>

section \<open>Names\<close>

definition name_result :: "mem \<Rightarrow> u64 \<Rightarrow> (u64 \<times> u32) option" where
  "name_result m nameptr = map_option (\<lambda>len. (nameptr, ucast len)) (strlen nameptr m)"

definition fdt_get_name :: "mem \<Rightarrow> u64 \<Rightarrow> u32 \<Rightarrow> (u64 \<times> u32) option" where
  "fdt_get_name m fdt nodeoffset =
     (let nh = fdt_offset_ptr_priv m fdt nodeoffset
      in if \<not> can_assume ASSUME_VALID_DTB \<and> fdt_ro_probe_priv m fdt <s 0
         then Some (0, fdt_ro_probe_priv m fdt)
         else if \<not> can_assume ASSUME_VALID_DTB \<and> fdt_check_node_offset_priv m fdt nodeoffset <s 0
         then Some (0, fdt_check_node_offset_priv m fdt nodeoffset)
         else let nameptr = nh + 4
              in if \<not> can_assume ASSUME_LATEST \<and> fdt_version m fdt < 0x10 then
                   (case strrchr nameptr 0x2F m of
                      None \<Rightarrow> None
                    | Some leaf \<Rightarrow>
                        if leaf = 0 then Some (0, - FDT_ERR_BADSTRUCTURE)
                        else name_result m (leaf + 1))
                 else name_result m nameptr)"

definition fdt_nodename_eq_priv :: "mem \<Rightarrow> u64 \<Rightarrow> u32 \<Rightarrow> u8 list \<Rightarrow> bool option" where
  "fdt_nodename_eq_priv m fdt offset s =
     map_option (\<lambda>(p, olen).
       let len = of_nat (length s)
       in if p = 0 \<or> olen <s of_nat (length s) then False
          else if \<not> bytes_at m p s then False
          else if m (p + len) = 0 then True
          else if 0x40 \<notin> set s \<and> m (p + len) = 0x40 then True
          else False)
     (fdt_get_name m fdt offset)"

section \<open>Strings\<close>

text \<open>How many bytes of the string may be read, or the error.\<close>

definition string_limit :: "mem \<Rightarrow> u64 \<Rightarrow> u32 \<Rightarrow> u64 \<Rightarrow> u32 + u64" where
  "string_limit m fdt stroffset len =
     (if fdt_magic m fdt = FDT_MAGIC then
        (if stroffset <s 0 then Inl (- FDT_ERR_BADOFFSET)
         else if can_assume ASSUME_LATEST \<or> fdt_version m fdt \<ge> 17 then
           (if stroffset \<ge> fdt_size_dt_strings m fdt then Inl (- FDT_ERR_BADOFFSET)
            else if ucast (fdt_size_dt_strings m fdt - stroffset) < len
            then Inr (ucast (fdt_size_dt_strings m fdt - stroffset)) else Inr len)
         else Inr len)
      else if fdt_magic m fdt = FDT_SW_MAGIC then
        (let sw_stroffset = - stroffset
         in if \<not> stroffset <s 0 \<or> sw_stroffset > fdt_size_dt_strings m fdt
            then Inl (- FDT_ERR_BADOFFSET)
            else if ucast sw_stroffset < len then Inr (ucast sw_stroffset) else Inr len)
      else Inl (- FDT_ERR_INTERNAL))"

definition fdt_get_string :: "mem \<Rightarrow> u64 \<Rightarrow> u32 \<Rightarrow> u64 \<times> u32" where
  "fdt_get_string m fdt stroffset =
     (let totalsize = fdt_ro_probe_priv m fdt
      in if totalsize <s 0 then (0, totalsize)
         else let absoffset = stroffset + fdt_off_dt_strings m fdt
              in if absoffset \<ge> totalsize then (0, - FDT_ERR_BADOFFSET)
                 else (case string_limit m fdt stroffset (ucast (totalsize - absoffset)) of
                         Inl err \<Rightarrow> (0, err)
                       | Inr len \<Rightarrow>
                           let s = fdt + ucast absoffset;
                               n = memchr s 0 len m
                           in if n = 0 then (0, - FDT_ERR_TRUNCATED) else (s, ucast (n - s))))"

definition fdt_string :: "mem \<Rightarrow> u64 \<Rightarrow> u32 \<Rightarrow> u64" where
  "fdt_string m fdt stroffset = fst (fdt_get_string m fdt stroffset)"

definition fdt_string_eq_priv :: "mem \<Rightarrow> u64 \<Rightarrow> u32 \<Rightarrow> u8 list \<Rightarrow> bool" where
  "fdt_string_eq_priv m fdt stroffset s =
     (case fdt_get_string m fdt stroffset of (p, slen) \<Rightarrow>
        p \<noteq> 0 \<and> slen = of_nat (length s) \<and> bytes_at m p s)"

section \<open>Properties\<close>

function nextprop_priv :: "mem \<Rightarrow> u64 \<Rightarrow> u32 \<Rightarrow> u32" where
  "nextprop_priv m fdt offset =
     (case fdt_next_tag m fdt offset of (tag, nextoffset) \<Rightarrow>
        if tag = FDT_END then (if \<not> nextoffset <s 0 then - FDT_ERR_BADSTRUCTURE else nextoffset)
        else if tag = FDT_PROP then offset
        else if tag = FDT_NOP then nextprop_priv m fdt nextoffset
        else - FDT_ERR_NOTFOUND)"
  by pat_completeness auto
termination
  by (relation "measure (\<lambda>(m, fdt, offset). offsets_left offset)")
    (auto intro: fdt_next_tag_left [OF sym])

declare nextprop_priv.simps [simp del]

definition fdt_first_property_offset :: "mem \<Rightarrow> u64 \<Rightarrow> u32 \<Rightarrow> u32" where
  "fdt_first_property_offset m fdt nodeoffset =
     (let offset = fdt_check_node_offset_priv m fdt nodeoffset
      in if offset <s 0 then offset else nextprop_priv m fdt offset)"

definition fdt_next_property_offset :: "mem \<Rightarrow> u64 \<Rightarrow> u32 \<Rightarrow> u32" where
  "fdt_next_property_offset m fdt offset =
     (let offset = fdt_check_prop_offset_priv m fdt offset
      in if offset <s 0 then offset else nextprop_priv m fdt offset)"

lemma nextprop_forward: "\<not> nextprop_priv m fdt offset <s 0 \<Longrightarrow> unat offset \<le> unat (nextprop_priv m fdt offset)"
proof (induction m fdt offset rule: nextprop_priv.induct)
  case (1 m fdt offset)
  obtain tag next_offset where t: "fdt_next_tag m fdt offset = (tag, next_offset)"
    by (cases "fdt_next_tag m fdt offset")
  have "unat offset \<le> unat next_offset" if "tag \<noteq> FDT_END"
    by (rule fdt_next_tag_progress [OF t that]) linarith
  with "1.IH" [OF t [symmetric]] "1.prems" t show ?case
    by (fastforce simp: nextprop_priv.simps [of m fdt offset] tag_values split: if_splits)
qed

lemma next_property_left:
  assumes "\<not> offset <s 0"
  shows "offsets_left (fdt_next_property_offset m fdt offset) < offsets_left offset"
proof (cases "fdt_next_property_offset m fdt offset <s 0")
  case True
  with assms show ?thesis by (simp add: offsets_left_def nonneg_iff)
next
  case False
  then have "unat offset < unat (fdt_next_property_offset m fdt offset)"
    using check_prop_offset_forward [of m fdt offset]
      nextprop_forward [of m fdt "fdt_check_prop_offset_priv m fdt offset"]
    by (auto simp: fdt_next_property_offset_def Let_def split: if_splits)
  with assms show ?thesis by (rule offsets_left_less)
qed

definition fdt_get_property_by_offset_priv :: "mem \<Rightarrow> u64 \<Rightarrow> u32 \<Rightarrow> u64 \<times> u32" where
  "fdt_get_property_by_offset_priv m fdt offset =
     (let err = fdt_check_prop_offset_priv m fdt offset
      in if \<not> can_assume ASSUME_VALID_INPUT \<and> err <s 0 then (0, err)
         else let prop = fdt_offset_ptr_priv m fdt offset in (prop, fdt32_ld_priv m (prop + 4)))"

definition fdt_get_property_by_offset :: "mem \<Rightarrow> u64 \<Rightarrow> u32 \<Rightarrow> u64 \<times> u32" where
  "fdt_get_property_by_offset m fdt offset =
     (if \<not> can_assume ASSUME_LATEST \<and> fdt_version m fdt < 0x10 then (0, - FDT_ERR_BADVERSION)
      else fdt_get_property_by_offset_priv m fdt offset)"

text \<open>The property, what is written to \<open>lenp\<close>, and to \<open>poffset\<close> when it is found.\<close>

function property_loop :: "mem \<Rightarrow> u64 \<Rightarrow> u32 \<Rightarrow> u8 list \<Rightarrow> u64 \<times> u32 \<times> u32 option" where
  "property_loop m fdt offset name =
     (if \<not> offset <s 0 then
        (case fdt_get_property_by_offset_priv m fdt offset of (prop, len) \<Rightarrow>
           if \<not> can_assume ASSUME_LIBFDT_FLAWLESS \<and> prop = 0 then (0, - FDT_ERR_INTERNAL, None)
           else if fdt_string_eq_priv m fdt (fdt32_ld_priv m (prop + 8)) name
           then (prop, len, Some offset)
           else property_loop m fdt (fdt_next_property_offset m fdt offset) name)
      else (0, offset, None))"
  by pat_completeness auto
termination
  by (relation "measure (\<lambda>(m, fdt, offset, name). offsets_left offset)")
    (auto intro: next_property_left)

declare property_loop.simps [simp del]

definition fdt_get_property_namelen_priv ::
  "mem \<Rightarrow> u64 \<Rightarrow> u32 \<Rightarrow> u8 list \<Rightarrow> u64 \<times> u32 \<times> u32 option" where
  "fdt_get_property_namelen_priv m fdt offset name =
     property_loop m fdt (fdt_first_property_offset m fdt offset) name"

definition fdt_get_property_namelen :: "mem \<Rightarrow> u64 \<Rightarrow> u32 \<Rightarrow> u8 list \<Rightarrow> u64 \<times> u32" where
  "fdt_get_property_namelen m fdt offset name =
     (if \<not> can_assume ASSUME_LATEST \<and> fdt_version m fdt < 0x10 then (0, - FDT_ERR_BADVERSION)
      else (case fdt_get_property_namelen_priv m fdt offset name of (prop, len, poffset) \<Rightarrow> (prop, len)))"

definition fdt_get_property :: "mem \<Rightarrow> u64 \<Rightarrow> u32 \<Rightarrow> u8 list \<Rightarrow> u64 \<times> u32" where
  "fdt_get_property m fdt nodeoffset name = fdt_get_property_namelen m fdt nodeoffset name"

text \<open>Old versions align large values to eight bytes.\<close>

definition property_data :: "mem \<Rightarrow> u64 \<Rightarrow> u64 \<Rightarrow> u32 \<Rightarrow> u64" where
  "property_data m fdt prop offset =
     (if \<not> can_assume ASSUME_LATEST \<and> fdt_version m fdt < 0x10 \<and> (offset + 12) mod 8 \<noteq> 0 \<and>
         fdt32_ld_priv m (prop + 4) \<ge> 8
      then prop + 12 + 4 else prop + 12)"

definition fdt_getprop_namelen :: "mem \<Rightarrow> u64 \<Rightarrow> u32 \<Rightarrow> u8 list \<Rightarrow> u64 \<times> u32" where
  "fdt_getprop_namelen m fdt nodeoffset name =
     (case fdt_get_property_namelen_priv m fdt nodeoffset name of (prop, len, poffset) \<Rightarrow>
        if prop = 0 then (0, len) else (property_data m fdt prop (the poffset), len))"

text \<open>The value, the name and the length; without a property the name is not written.\<close>

definition fdt_getprop_by_offset :: "mem \<Rightarrow> u64 \<Rightarrow> u32 \<Rightarrow> u64 \<times> u64 option \<times> u32" where
  "fdt_getprop_by_offset m fdt offset =
     (case fdt_get_property_by_offset_priv m fdt offset of (prop, len) \<Rightarrow>
        if prop = 0 then (0, None, len)
        else (case fdt_get_string m fdt (fdt32_ld_priv m (prop + 8)) of (name, namelen) \<Rightarrow>
                if name = 0 then (0, Some name, namelen)
                else (property_data m fdt prop offset, Some name, len)))"

definition fdt_getprop :: "mem \<Rightarrow> u64 \<Rightarrow> u32 \<Rightarrow> u8 list \<Rightarrow> u64 \<times> u32" where
  "fdt_getprop m fdt nodeoffset name = fdt_getprop_namelen m fdt nodeoffset name"

end
