(* ===== verification/Fdt_Tree.thy ===== *)
theory Fdt_Tree
  imports Fdt_Read
begin

text \<open>
  Searching a device tree (the rest of \<^verbatim>\<open>lib/libfdt/fdt_ro.c\<close> and \<^verbatim>\<open>lib/libfdt/fdt_addresses.c\<close>
  read-only part): phandles, memory reservations, subnodes, paths and aliases, depths, string lists
  and compatible nodes.
\<close>

section \<open>Phandles\<close>

definition FDT_MAX_PHANDLE :: u32 where "FDT_MAX_PHANDLE = 0xfffffffe"

definition fdt_get_phandle :: "mem \<Rightarrow> u64 \<Rightarrow> u32 \<Rightarrow> u32" where
  "fdt_get_phandle m fdt nodeoffset =
     (case fdt_getprop m fdt nodeoffset (chars ''phandle'') of (php, len) \<Rightarrow>
        if php = 0 \<or> len \<noteq> 4 then
          (case fdt_getprop m fdt nodeoffset (chars ''linux,phandle'') of (php, len) \<Rightarrow>
             if php = 0 \<or> len \<noteq> 4 then 0 else fdt32_ld_priv m php)
        else fdt32_ld_priv m php)"

function max_phandle_loop :: "mem \<Rightarrow> u64 \<Rightarrow> u32 \<Rightarrow> u32 \<Rightarrow> u32 \<times> u32 option" where
  "max_phandle_loop m fdt offset maximum =
     (case fdt_next_node m fdt offset None of (offset, depth) \<Rightarrow>
        if offset <s 0 then
          (if offset = - FDT_ERR_NOTFOUND then (0, Some maximum) else (offset, None))
        else let phandle = fdt_get_phandle m fdt offset
             in max_phandle_loop m fdt offset (if phandle > maximum then phandle else maximum))"
  by pat_completeness auto
termination
  by (relation "measure (\<lambda>(m, fdt, offset, maximum). nodes_left offset)")
    (auto dest!: sym [of "(_, _)"] intro: nodes_left_next)

declare max_phandle_loop.simps [simp del]

definition fdt_find_max_phandle :: "mem \<Rightarrow> u64 \<Rightarrow> u32 \<times> u32 option" where
  "fdt_find_max_phandle m fdt = max_phandle_loop m fdt (- 1) 0"

definition fdt_get_max_phandle :: "mem \<Rightarrow> u64 \<Rightarrow> u32" where
  "fdt_get_max_phandle m fdt =
     (case fdt_find_max_phandle m fdt of (err, phandle) \<Rightarrow> if err <s 0 then - 1 else the phandle)"

definition fdt_generate_phandle :: "mem \<Rightarrow> u64 \<Rightarrow> u32 \<times> u32 option" where
  "fdt_generate_phandle m fdt =
     (case fdt_find_max_phandle m fdt of (err, maximum) \<Rightarrow>
        if err <s 0 then (err, None)
        else if the maximum = FDT_MAX_PHANDLE then (- FDT_ERR_NOPHANDLES, None)
        else (0, Some (the maximum + 1)))"

section \<open>The memory reservation map\<close>

definition fdt_mem_rsv_priv :: "mem \<Rightarrow> u64 \<Rightarrow> u32 \<Rightarrow> u64" where
  "fdt_mem_rsv_priv m fdt n = fdt + ucast (fdt_off_mem_rsvmap m fdt) + scast n * 16"

text \<open>
  The upper bound is computed as a \<^verbatim>\<open>size_t\<close>: a total size below one entry wraps around.
\<close>

definition fdt_mem_rsv :: "mem \<Rightarrow> u64 \<Rightarrow> u32 \<Rightarrow> u64" where
  "fdt_mem_rsv m fdt n =
     (let offset = n * 16;
          absoffset = fdt_off_mem_rsvmap m fdt + offset
      in if \<not> can_assume ASSUME_VALID_INPUT \<and> absoffset < fdt_off_mem_rsvmap m fdt then 0
         else if \<not> can_assume ASSUME_VALID_INPUT \<and>
                 ucast absoffset > (ucast (fdt_totalsize m fdt) - 16 :: u64) then 0
         else fdt_mem_rsv_priv m fdt n)"

definition fdt_get_mem_rsv :: "mem \<Rightarrow> u64 \<Rightarrow> u32 \<Rightarrow> u32 \<times> (u64 \<times> u64) option" where
  "fdt_get_mem_rsv m fdt n =
     (if fdt_ro_probe_priv m fdt <s 0 then (fdt_ro_probe_priv m fdt, None)
      else let re = fdt_mem_rsv m fdt n
           in if \<not> can_assume ASSUME_VALID_INPUT \<and> re = 0 then (- FDT_ERR_BADOFFSET, None)
              else (0, Some (fdt64_ld_priv m re, fdt64_ld_priv m (re + 8))))"

partial_function (option) num_mem_rsv_loop :: "mem \<Rightarrow> u64 \<Rightarrow> u32 \<Rightarrow> u32 option" where
  "num_mem_rsv_loop m fdt i =
     (let re = fdt_mem_rsv m fdt i
      in if re \<noteq> 0 then
           (if fdt64_ld_priv m (re + 8) = 0 then Some i else num_mem_rsv_loop m fdt (i + 1))
         else Some (- FDT_ERR_TRUNCATED))"

definition fdt_num_mem_rsv :: "mem \<Rightarrow> u64 \<Rightarrow> u32 option" where
  "fdt_num_mem_rsv m fdt = num_mem_rsv_loop m fdt 0"

section \<open>Subnodes and paths\<close>

function subnode_loop :: "mem \<Rightarrow> u64 \<Rightarrow> u32 \<Rightarrow> u32 option \<Rightarrow> u8 list \<Rightarrow> u32 option" where
  "subnode_loop m fdt offset depth name =
     (if \<not> offset <s 0 \<and> \<not> the depth <s 0 then
        (case (if the depth = 1 then fdt_nodename_eq_priv m fdt offset name else Some False) of
           None \<Rightarrow> None
         | Some found \<Rightarrow>
             if found then Some offset
             else (case fdt_next_node m fdt offset depth of (offset, depth) \<Rightarrow>
                     subnode_loop m fdt offset depth name))
      else if the depth <s 0 then Some (- FDT_ERR_NOTFOUND)
      else Some offset)"
  by pat_completeness auto
termination
  by (relation "measure (\<lambda>(m, fdt, offset, depth, name). offsets_left offset)")
    (auto dest!: sym [of "(_, _)"] intro: fdt_next_node_left)

declare subnode_loop.simps [simp del]

definition fdt_subnode_offset_namelen :: "mem \<Rightarrow> u64 \<Rightarrow> u32 \<Rightarrow> u8 list \<Rightarrow> u32 option" where
  "fdt_subnode_offset_namelen m fdt offset name =
     (if fdt_ro_probe_priv m fdt <s 0 then Some (fdt_ro_probe_priv m fdt)
      else subnode_loop m fdt offset (Some 0) name)"

definition fdt_subnode_offset :: "mem \<Rightarrow> u64 \<Rightarrow> u32 \<Rightarrow> u8 list \<Rightarrow> u32 option" where
  "fdt_subnode_offset m fdt parentoffset name = fdt_subnode_offset_namelen m fdt parentoffset name"

text \<open>
  The loop over the components of the rest \<open>p\<close> of a path; \<open>0x2F\<close> is the slash. It stops at the
  first component that is not found.
\<close>

function path_loop :: "mem \<Rightarrow> u64 \<Rightarrow> u32 \<Rightarrow> u8 list \<Rightarrow> u32 option" where
  "path_loop m fdt offset p =
     (if p = [] then Some offset
      else let p = dropWhile (\<lambda>c. c = 0x2F) p
           in if p = [] then Some offset
              else let name = takeWhile (\<lambda>c. c \<noteq> 0x2F) p;
                       q = dropWhile (\<lambda>c. c \<noteq> 0x2F) p
                   in (case fdt_subnode_offset_namelen m fdt offset name of
                         None \<Rightarrow> None
                       | Some offset \<Rightarrow>
                           if offset <s 0 then Some offset else path_loop m fdt offset q))"
  by pat_completeness auto
termination
proof (relation "measure (\<lambda>(m, fdt, offset, p). length p)", goal_cases)
  case (2 m fdt offset p rest)
  then have "rest \<noteq> []" "hd rest \<noteq> 0x2F" "length rest \<le> length p"
    using hd_dropWhile [of "\<lambda>c. c = 0x2F" p] length_dropWhile_le [of "\<lambda>c. c = 0x2F" p] by auto
  moreover from this have "length (dropWhile (\<lambda>c. c \<noteq> 0x2F) rest) < length rest"
    by (cases rest) (auto simp: less_Suc_eq_le length_dropWhile_le)
  ultimately show ?case
    using 2 by simp
qed simp

declare path_loop.simps [simp del]

text \<open>
  A path that does not start at the root starts with an alias. \<^verbatim>\<open>fdt_path_offset\<close> calls itself for
  the node of the aliases and for the alias, which both start with a slash: that case is a function
  of its own.
\<close>

definition absolute_path_offset :: "mem \<Rightarrow> u64 \<Rightarrow> u8 list \<Rightarrow> u32 option" where
  "absolute_path_offset m fdt path =
     (if fdt_ro_probe_priv m fdt <s 0 then Some (fdt_ro_probe_priv m fdt)
      else if \<not> can_assume ASSUME_VALID_INPUT \<and> path = [] then Some (- FDT_ERR_BADPATH)
      else path_loop m fdt 0 path)"

text \<open>Without the node nothing is written to \<open>lenp\<close>.\<close>

definition fdt_path_getprop_namelen ::
  "mem \<Rightarrow> u64 \<Rightarrow> u8 list \<Rightarrow> u8 list \<Rightarrow> (u64 \<times> u32 option) option" where
  "fdt_path_getprop_namelen m fdt path propname =
     map_option (\<lambda>offset.
       if offset <s 0 then (0, None)
       else (case fdt_getprop_namelen m fdt offset propname of (p, len) \<Rightarrow> (p, Some len)))
     (absolute_path_offset m fdt path)"

definition fdt_get_alias_namelen :: "mem \<Rightarrow> u64 \<Rightarrow> u8 list \<Rightarrow> u64 option" where
  "fdt_get_alias_namelen m fdt name =
     map_option (\<lambda>(alias, len).
       if \<not> can_assume ASSUME_VALID_DTB \<and>
          \<not> (alias \<noteq> 0 \<and> 0 <s the len \<and> m (alias + scast (the len - 1)) = 0 \<and> m alias = 0x2F)
       then 0 else alias)
     (fdt_path_getprop_namelen m fdt (chars ''/aliases'') name)"

definition fdt_get_alias :: "mem \<Rightarrow> u64 \<Rightarrow> u8 list \<Rightarrow> u64 option" where
  "fdt_get_alias m fdt name = fdt_get_alias_namelen m fdt name"

definition fdt_get_symbol_namelen :: "mem \<Rightarrow> u64 \<Rightarrow> u8 list \<Rightarrow> u64 option" where
  "fdt_get_symbol_namelen m fdt name =
     map_option fst (fdt_path_getprop_namelen m fdt (chars ''/__symbols__'') name)"

definition fdt_get_symbol :: "mem \<Rightarrow> u64 \<Rightarrow> u8 list \<Rightarrow> u64 option" where
  "fdt_get_symbol m fdt name = fdt_get_symbol_namelen m fdt name"

text \<open>The bytes of a string in the blob.\<close>

definition string_at :: "mem \<Rightarrow> u64 \<Rightarrow> u8 list option" where
  "string_at m p = map_option (\<lambda>len. map (\<lambda>i. m (p + of_nat i)) [0..<unat len]) (strlen p m)"

definition fdt_path_offset_namelen :: "mem \<Rightarrow> u64 \<Rightarrow> u8 list \<Rightarrow> u32 option" where
  "fdt_path_offset_namelen m fdt path =
     (if fdt_ro_probe_priv m fdt <s 0 then Some (fdt_ro_probe_priv m fdt)
      else if \<not> can_assume ASSUME_VALID_INPUT \<and> path = [] then Some (- FDT_ERR_BADPATH)
      else if hd path \<noteq> 0x2F then
        (let q = dropWhile (\<lambda>c. c \<noteq> 0x2F) path
         in Option.bind (fdt_get_alias_namelen m fdt (takeWhile (\<lambda>c. c \<noteq> 0x2F) path)) (\<lambda>p.
              if p = 0 then Some (- FDT_ERR_BADPATH)
              else Option.bind (string_at m p) (\<lambda>alias.
                     Option.bind (absolute_path_offset m fdt alias) (\<lambda>offset.
                       path_loop m fdt offset q))))
      else path_loop m fdt 0 path)"

definition fdt_path_offset :: "mem \<Rightarrow> u64 \<Rightarrow> u8 list \<Rightarrow> u32 option" where
  "fdt_path_offset m fdt path = fdt_path_offset_namelen m fdt path"

lemma absolute_path_offset:
  "path = [] \<or> hd path = 0x2F \<Longrightarrow> fdt_path_offset m fdt path = absolute_path_offset m fdt path"
  by (auto simp: fdt_path_offset_def fdt_path_offset_namelen_def absolute_path_offset_def)

text \<open>
  \<^verbatim>\<open>fdt_get_path\<close> builds the path in the caller's buffer, a list of \<open>buflen\<close> bytes: the names of the
  open nodes, each with a slash behind it. Going up drops the last name. The inner loop relies on
  the slash behind the root's name; the model stops at the start of the buffer.
\<close>

function path_up :: "u8 list \<Rightarrow> int \<Rightarrow> int" where
  "path_up buf p =
     (let p = p - 1 in if 0 < p \<and> buf ! nat (p - 1) \<noteq> 0x2F then path_up buf p else p)"
  by pat_completeness auto
termination
  by (relation "measure (\<lambda>(buf, p). nat p)") auto

declare path_up.simps [simp del]

function path_close :: "u8 list \<Rightarrow> int \<Rightarrow> int \<Rightarrow> int \<Rightarrow> int \<times> int" where
  "path_close buf p pdepth depth =
     (if pdepth > depth then path_close buf (path_up buf p) (pdepth - 1) depth else (p, pdepth))"
  by pat_completeness auto
termination
  by (relation "measure (\<lambda>(buf, p, pdepth, depth). nat (pdepth - depth))") auto

declare path_close.simps [simp del]

definition put_bytes :: "u8 list \<Rightarrow> int \<Rightarrow> u8 list \<Rightarrow> u8 list" where
  "put_bytes buf p bs = take (nat p) buf @ bs @ drop (nat p + length bs) buf"

text \<open>One node of the walk: the path with the node's name, or the error of \<^verbatim>\<open>fdt_get_name\<close>.\<close>

definition path_enter ::
  "mem \<Rightarrow> u64 \<Rightarrow> u32 \<Rightarrow> int \<Rightarrow> int \<Rightarrow> int \<Rightarrow> u8 list \<Rightarrow> (u32 + int \<times> int \<times> u8 list) option" where
  "path_enter m fdt offset depth p pdepth buf =
     (case path_close buf p pdepth depth of (p, pdepth) \<Rightarrow>
        if pdepth \<ge> depth then
          map_option (\<lambda>(name, namelen).
            if name = 0 then Inl namelen
            else if p + sint namelen + 1 \<le> int (length buf) then
              (let bs = map (\<lambda>i. m (name + of_nat i)) [0..<nat (sint namelen)] @ [0x2F]
               in Inr (p + sint namelen + 1, pdepth + 1, put_bytes buf p bs))
            else Inr (p, pdepth, buf))
          (fdt_get_name m fdt offset)
        else Some (Inr (p, pdepth, buf)))"

function get_path_loop ::
  "mem \<Rightarrow> u64 \<Rightarrow> u32 \<Rightarrow> u32 \<Rightarrow> u32 option \<Rightarrow> int \<Rightarrow> int \<Rightarrow> u8 list \<Rightarrow> (u32 \<times> u8 list) option" where
  "get_path_loop m fdt nodeoffset offset depth p pdepth buf =
     (if \<not> offset <s 0 \<and> offset \<le>s nodeoffset then
        (case path_enter m fdt offset (sint (the depth)) p pdepth buf of
           None \<Rightarrow> None
         | Some (Inl namelen) \<Rightarrow> Some (namelen, buf)
         | Some (Inr (p, pdepth, buf)) \<Rightarrow>
             if offset = nodeoffset then
               (if pdepth < sint (the depth) + 1 then Some (- FDT_ERR_NOSPACE, buf)
                else let p = (if p > 1 then p - 1 else p) in Some (0, buf[nat p := 0]))
             else get_path_loop m fdt nodeoffset (fst (fdt_next_node m fdt offset depth))
                    (snd (fdt_next_node m fdt offset depth)) p pdepth buf)
      else if offset = - FDT_ERR_NOTFOUND \<or> \<not> offset <s 0 then Some (- FDT_ERR_BADOFFSET, buf)
      else if offset = - FDT_ERR_BADOFFSET then Some (- FDT_ERR_BADSTRUCTURE, buf)
      else Some (offset, buf))"
  by pat_completeness auto
termination
  by (relation "measure (\<lambda>(m, fdt, nodeoffset, offset, depth, p, pdepth, buf). offsets_left offset)")
    (simp_all add: fdt_next_node_left [OF _ surjective_pairing])

declare get_path_loop.simps [simp del]

definition fdt_get_path :: "mem \<Rightarrow> u64 \<Rightarrow> u32 \<Rightarrow> u8 list \<Rightarrow> (u32 \<times> u8 list) option" where
  "fdt_get_path m fdt nodeoffset buf =
     (if fdt_ro_probe_priv m fdt <s 0 then Some (fdt_ro_probe_priv m fdt, buf)
      else if length buf < 2 then Some (- FDT_ERR_NOSPACE, buf)
      else get_path_loop m fdt nodeoffset 0 (Some 0) 0 0 buf)"

end
