(* ===== verification/Fdt_Search.thy ===== *)
theory Fdt_Search
  imports Fdt_Tree
begin

text \<open>
  Depths and parents, searches over all nodes and string lists (the end of
  \<^verbatim>\<open>lib/libfdt/fdt_ro.c\<close>), and the cell counts of \<^verbatim>\<open>lib/libfdt/fdt_addresses.c\<close>.
\<close>

section \<open>Depths and parents\<close>

text \<open>The result and what is written to \<open>nodedepth\<close>.\<close>

function supernode_loop ::
  "mem \<Rightarrow> u64 \<Rightarrow> u32 \<Rightarrow> u32 \<Rightarrow> u32 \<Rightarrow> u32 \<Rightarrow> u32 option \<Rightarrow> u32 \<times> u32 option" where
  "supernode_loop m fdt nodeoffset supernodedepth supernodeoffset offset depth =
     (if \<not> offset <s 0 \<and> offset \<le>s nodeoffset then
        (let supernodeoffset = (if the depth = supernodedepth then offset else supernodeoffset)
         in if offset = nodeoffset then
              (if the depth <s supernodedepth then (- FDT_ERR_NOTFOUND, depth)
               else (supernodeoffset, depth))
            else supernode_loop m fdt nodeoffset supernodedepth supernodeoffset
                   (fst (fdt_next_node m fdt offset depth)) (snd (fdt_next_node m fdt offset depth)))
      else if \<not> can_assume ASSUME_VALID_INPUT \<and> (offset = - FDT_ERR_NOTFOUND \<or> \<not> offset <s 0)
           then (- FDT_ERR_BADOFFSET, None)
      else if \<not> can_assume ASSUME_VALID_INPUT \<and> offset = - FDT_ERR_BADOFFSET
           then (- FDT_ERR_BADSTRUCTURE, None)
      else (offset, None))"
  by pat_completeness auto
termination
  by (relation "measure (\<lambda>(m, fdt, nodeoffset, sd, so, offset, depth). offsets_left offset)")
    (simp_all add: case_prod_unfold fdt_next_node_left [OF _ surjective_pairing])

declare supernode_loop.simps [simp del]

definition fdt_supernode_atdepth_offset :: "mem \<Rightarrow> u64 \<Rightarrow> u32 \<Rightarrow> u32 \<Rightarrow> u32 \<times> u32 option" where
  "fdt_supernode_atdepth_offset m fdt nodeoffset supernodedepth =
     (if fdt_ro_probe_priv m fdt <s 0 then (fdt_ro_probe_priv m fdt, None)
      else if supernodedepth <s 0 then (- FDT_ERR_NOTFOUND, None)
      else supernode_loop m fdt nodeoffset supernodedepth (- FDT_ERR_INTERNAL) 0 (Some 0))"

definition fdt_node_depth :: "mem \<Rightarrow> u64 \<Rightarrow> u32 \<Rightarrow> u32" where
  "fdt_node_depth m fdt nodeoffset =
     (case fdt_supernode_atdepth_offset m fdt nodeoffset 0 of (err, nodedepth) \<Rightarrow>
        if err \<noteq> 0 then
          (if can_assume ASSUME_LIBFDT_FLAWLESS \<or> err <s 0 then err else - FDT_ERR_INTERNAL)
        else the nodedepth)"

definition fdt_parent_offset :: "mem \<Rightarrow> u64 \<Rightarrow> u32 \<Rightarrow> u32" where
  "fdt_parent_offset m fdt nodeoffset =
     (let nodedepth = fdt_node_depth m fdt nodeoffset
      in if nodedepth <s 0 then nodedepth
         else fst (fdt_supernode_atdepth_offset m fdt nodeoffset (nodedepth - 1)))"

section \<open>Searching all nodes\<close>

text \<open>The loops take the result of the last \<^verbatim>\<open>fdt_next_node\<close>, a node or an error.\<close>

function prop_value_loop :: "mem \<Rightarrow> u64 \<Rightarrow> u32 \<Rightarrow> u8 list \<Rightarrow> u8 list \<Rightarrow> u32" where
  "prop_value_loop m fdt offset propname propval =
     (if \<not> offset <s 0 then
        (case fdt_getprop m fdt offset propname of (val, len) \<Rightarrow>
           if val \<noteq> 0 \<and> len = of_nat (length propval) \<and> bytes_at m val propval then offset
           else prop_value_loop m fdt (fst (fdt_next_node m fdt offset None)) propname propval)
      else offset)"
  by pat_completeness auto
termination
  by (relation "measure (\<lambda>(m, fdt, offset, propname, propval). offsets_left offset)")
    (simp_all add: fdt_next_node_left [OF _ surjective_pairing])

definition fdt_node_offset_by_prop_value :: "mem \<Rightarrow> u64 \<Rightarrow> u32 \<Rightarrow> u8 list \<Rightarrow> u8 list \<Rightarrow> u32" where
  "fdt_node_offset_by_prop_value m fdt startoffset propname propval =
     (if fdt_ro_probe_priv m fdt <s 0 then fdt_ro_probe_priv m fdt
      else prop_value_loop m fdt (fst (fdt_next_node m fdt startoffset None)) propname propval)"

function phandle_loop :: "mem \<Rightarrow> u64 \<Rightarrow> u32 \<Rightarrow> u32 \<Rightarrow> u32" where
  "phandle_loop m fdt offset phandle =
     (if \<not> offset <s 0 then
        (if fdt_get_phandle m fdt offset = phandle then offset
         else phandle_loop m fdt (fst (fdt_next_node m fdt offset None)) phandle)
      else offset)"
  by pat_completeness auto
termination
  by (relation "measure (\<lambda>(m, fdt, offset, phandle). offsets_left offset)")
    (simp_all add: fdt_next_node_left [OF _ surjective_pairing])

definition fdt_node_offset_by_phandle :: "mem \<Rightarrow> u64 \<Rightarrow> u32 \<Rightarrow> u32" where
  "fdt_node_offset_by_phandle m fdt phandle =
     (if phandle = 0 \<or> phandle = NOT 0 then - FDT_ERR_BADPHANDLE
      else if fdt_ro_probe_priv m fdt <s 0 then fdt_ro_probe_priv m fdt
      else phandle_loop m fdt (fst (fdt_next_node m fdt (- 1) None)) phandle)"

declare prop_value_loop.simps [simp del] phandle_loop.simps [simp del]

section \<open>String lists\<close>

text \<open>The comparison reads the byte behind \<open>str\<close>'s length too: the terminator.\<close>

lemma memchr_from_range:
  "memchr_from p c n i m \<noteq> 0 \<Longrightarrow> \<exists>k. i \<le> k \<and> k < n \<and> memchr_from p c n i m = p + k \<and> m (p + k) = c"
proof (induction i rule: up_loop_induct [where n = n])
  case (step i)
  show ?case
  proof (cases "i < n \<and> m (p + i) \<noteq> c")
    case True
    then have "i < n" "i \<le> i + 1"
      using unat_Suc_64 [of i n] by (auto simp: word_le_nat_alt)
    with step True show ?thesis
      by (auto simp: memchr_from.simps [of p c n i] intro: order.trans)
  next
    case False
    with step.prems show ?thesis
      by (auto simp: memchr_from.simps [of p c n i] split: if_splits)
  qed
qed

lemma memchr_range: "memchr p c n m \<noteq> 0 \<Longrightarrow> memchr p c n m - p < n"
  using memchr_from_range [of p "ucast c" n 0 m] by (auto simp: memchr_def)

function stringlist_contains :: "mem \<Rightarrow> u64 \<Rightarrow> int \<Rightarrow> u8 list \<Rightarrow> bool" where
  "stringlist_contains m strlist listlen str =
     (if listlen \<ge> int (length str) then
        if bytes_at m strlist (str @ [0]) then True
        else let p = memchr strlist 0 (word_of_int listlen) m
             in if p = 0 then False
                else stringlist_contains m (p + 1) (listlen - (uint (p - strlist) + 1)) str
      else False)"
  by pat_completeness auto
termination
proof (relation "measure (\<lambda>(m, strlist, listlen, str). nat listlen)", goal_cases)
  case (2 m strlist listlen str p)
  then have "p - strlist < word_of_int listlen"
    using memchr_range [of strlist 0 "word_of_int listlen" m] by simp
  then have "listlen \<noteq> 0"
    by auto
  moreover have "- 1 < uint (p - strlist)"
    using uint_ge_0 [of "p - strlist"] by linarith
  ultimately show ?case
    using 2(1) by simp
qed simp

definition fdt_stringlist_contains :: "mem \<Rightarrow> u64 \<Rightarrow> u32 \<Rightarrow> u8 list \<Rightarrow> u32" where
  "fdt_stringlist_contains m strlist listlen str =
     (if stringlist_contains m strlist (sint listlen) str then 1 else 0)"

text \<open>Pointers into the list are compared with its end as addresses.\<close>

definition item_length :: "mem \<Rightarrow> u64 \<Rightarrow> u64 \<Rightarrow> u32" where
  "item_length m lst stop = ucast (strnlen lst (stop - lst) m + 1)"

partial_function (option) count_loop :: "mem \<Rightarrow> u64 \<Rightarrow> u64 \<Rightarrow> u32 \<Rightarrow> u32 option" where
  "count_loop m lst stop count =
     (if lst < stop then
        (let n = item_length m lst stop
         in if lst + scast n > stop then Some (- FDT_ERR_BADVALUE)
            else count_loop m (lst + scast n) stop (count + 1))
      else Some count)"

definition fdt_stringlist_count :: "mem \<Rightarrow> u64 \<Rightarrow> u32 \<Rightarrow> u8 list \<Rightarrow> u32 option" where
  "fdt_stringlist_count m fdt nodeoffset property =
     (case fdt_getprop m fdt nodeoffset property of (lst, n) \<Rightarrow>
        if lst = 0 then Some n else count_loop m lst (lst + scast n) 0)"

partial_function (option) search_loop :: "mem \<Rightarrow> u64 \<Rightarrow> u64 \<Rightarrow> u32 \<Rightarrow> u8 list \<Rightarrow> u32 option" where
  "search_loop m lst stop idx str =
     (if lst < stop then
        (let n = item_length m lst stop
         in if lst + scast n > stop then Some (- FDT_ERR_BADVALUE)
            else if n = of_nat (length str + 1) \<and> bytes_at m lst (str @ [0]) then Some idx
            else search_loop m (lst + scast n) stop (idx + 1) str)
      else Some (- FDT_ERR_NOTFOUND))"

definition fdt_stringlist_search :: "mem \<Rightarrow> u64 \<Rightarrow> u32 \<Rightarrow> u8 list \<Rightarrow> u8 list \<Rightarrow> u32 option" where
  "fdt_stringlist_search m fdt nodeoffset property str =
     (case fdt_getprop m fdt nodeoffset property of (lst, n) \<Rightarrow>
        if lst = 0 then Some n else search_loop m lst (lst + scast n) 0 str)"

partial_function (option) get_loop :: "mem \<Rightarrow> u64 \<Rightarrow> u64 \<Rightarrow> u32 \<Rightarrow> (u64 \<times> u32) option" where
  "get_loop m lst stop idx =
     (if lst < stop then
        (let n = item_length m lst stop
         in if lst + scast n > stop then Some (0, - FDT_ERR_BADVALUE)
            else if idx = 0 then Some (lst, n - 1)
            else get_loop m (lst + scast n) stop (idx - 1))
      else Some (0, - FDT_ERR_NOTFOUND))"

definition fdt_stringlist_get :: "mem \<Rightarrow> u64 \<Rightarrow> u32 \<Rightarrow> u8 list \<Rightarrow> u32 \<Rightarrow> (u64 \<times> u32) option" where
  "fdt_stringlist_get m fdt nodeoffset property idx =
     (case fdt_getprop m fdt nodeoffset property of (lst, n) \<Rightarrow>
        if lst = 0 then Some (0, n) else get_loop m lst (lst + scast n) idx)"

section \<open>Compatible nodes\<close>

definition fdt_node_check_compatible :: "mem \<Rightarrow> u64 \<Rightarrow> u32 \<Rightarrow> u8 list \<Rightarrow> u32" where
  "fdt_node_check_compatible m fdt nodeoffset compatible =
     (case fdt_getprop m fdt nodeoffset (chars ''compatible'') of (prop, len) \<Rightarrow>
        if prop = 0 then len
        else if fdt_stringlist_contains m prop len compatible \<noteq> 0 then 0 else 1)"

function compatible_loop :: "mem \<Rightarrow> u64 \<Rightarrow> u32 \<Rightarrow> u8 list \<Rightarrow> u32" where
  "compatible_loop m fdt offset compatible =
     (if \<not> offset <s 0 then
        (let err = fdt_node_check_compatible m fdt offset compatible
         in if err <s 0 \<and> err \<noteq> - FDT_ERR_NOTFOUND then err
            else if err = 0 then offset
            else compatible_loop m fdt (fst (fdt_next_node m fdt offset None)) compatible)
      else offset)"
  by pat_completeness auto
termination
  by (relation "measure (\<lambda>(m, fdt, offset, compatible). offsets_left offset)")
    (simp_all add: fdt_next_node_left [OF _ surjective_pairing])

declare compatible_loop.simps [simp del] stringlist_contains.simps [simp del]

definition fdt_node_offset_by_compatible :: "mem \<Rightarrow> u64 \<Rightarrow> u32 \<Rightarrow> u8 list \<Rightarrow> u32" where
  "fdt_node_offset_by_compatible m fdt startoffset compatible =
     (if fdt_ro_probe_priv m fdt <s 0 then fdt_ro_probe_priv m fdt
      else compatible_loop m fdt (fst (fdt_next_node m fdt startoffset None)) compatible)"

section \<open>Cell counts\<close>

definition FDT_MAX_NCELLS :: u32 where "FDT_MAX_NCELLS = 4"

definition fdt_cells :: "mem \<Rightarrow> u64 \<Rightarrow> u32 \<Rightarrow> u8 list \<Rightarrow> u32" where
  "fdt_cells m fdt nodeoffset name =
     (case fdt_getprop m fdt nodeoffset name of (c, len) \<Rightarrow>
        if c = 0 then len
        else if len \<noteq> 4 then - FDT_ERR_BADNCELLS
        else let val = fdt32_ld_priv m c
             in if val > FDT_MAX_NCELLS then - FDT_ERR_BADNCELLS else val)"

definition fdt_address_cells :: "mem \<Rightarrow> u64 \<Rightarrow> u32 \<Rightarrow> u32" where
  "fdt_address_cells m fdt nodeoffset =
     (let val = fdt_cells m fdt nodeoffset (chars ''#address-cells'')
      in if val = 0 then - FDT_ERR_BADNCELLS
         else if val = - FDT_ERR_NOTFOUND then 2
         else val)"

definition fdt_size_cells :: "mem \<Rightarrow> u64 \<Rightarrow> u32 \<Rightarrow> u32" where
  "fdt_size_cells m fdt nodeoffset =
     (let val = fdt_cells m fdt nodeoffset (chars ''#size-cells'')
      in if val = - FDT_ERR_NOTFOUND then 1 else val)"

end
