(* ===== verification/Allocator.thy ===== *)
theory Allocator
  imports Prelude
begin

text \<open>
  The physical page allocator (\<^verbatim>\<open>src/kernel/PhysicalPageAllocator.cpp\<close>) and the platform
  description it starts from (\<^verbatim>\<open>include/utility/PlatformInfo.hpp\<close>). The allocator is a bump
  pointer over the RAM above the kernel image and the device tree. The locale \<open>page_allocator\<close> is
  what the paging code relies on: pages are aligned, disjoint, non-null and never handed out twice.
\<close>

section \<open>Platform description\<close>

record platform_info =
  pf_ram_base :: u64
  pf_ram_size :: u64
  pf_uart_base :: u64
  pf_dtb_addr :: u64
  pf_dtb_size :: u64
  pf_dtb_end :: u64
  pf_kernel_start :: u64
  pf_kernel_end :: u64
  pf_bss_start :: u64
  pf_bss_end :: u64

section \<open>The allocator\<close>

record physical_page_allocator =
  al_current :: u64
  al_end :: u64

definition align_up :: "u64 \<Rightarrow> u64 \<Rightarrow> u64" where
  "align_up value alignment = (value + alignment - 1) AND NOT (alignment - 1)"

definition max_u64 :: "u64 \<Rightarrow> u64 \<Rightarrow> u64" where
  "max_u64 a b = (if a > b then a else b)"

definition physical_page_allocator_init ::
  "physical_page_allocator \<Rightarrow> platform_info \<Rightarrow> bool \<times> physical_page_allocator" where
  "physical_page_allocator_init allocator platform =
     (let dtb_end = pf_dtb_addr platform + pf_dtb_size platform;
          reserved_end = max_u64 (pf_kernel_end platform) dtb_end;
          allocator = allocator\<lparr>al_current := align_up reserved_end 4096\<rparr>;
          allocator = allocator\<lparr>al_end := pf_ram_base platform + pf_ram_size platform\<rparr>
      in if al_current allocator \<ge> al_end allocator then (False, allocator)
         else (True, allocator))"

definition physical_alloc_page ::
  "physical_page_allocator \<Rightarrow> u64 \<times> physical_page_allocator" where
  "physical_alloc_page allocator =
     (let page_size = 4096;
          addr = align_up (al_current allocator) page_size
      in if addr + page_size > al_end allocator then (0, allocator)
         else (addr, allocator\<lparr>al_current := addr + page_size\<rparr>))"

section \<open>Rounding\<close>

lemma align_up_eq: "align_up x 4096 = (x + 4095) AND NOT (4096 - 1)"
  by (simp add: align_up_def add.commute)

lemma page_aligned_align_up [simp]: "page_aligned (align_up x 4096)"
  unfolding align_up_eq by (rule page_aligned_and_not)

lemma align_up_aligned [simp]: "page_aligned x \<Longrightarrow> align_up x 4096 = x"
proof -
  assume x: "page_aligned x"
  then have "unat (x + of_nat 4095) = unat x + 4095"
    by (intro unat_page_add) simp_all
  then have u: "unat (x + 4095) = unat x + 4095" by simp
  have "unat (align_up x 4096) = unat x + 4095 - (unat x + 4095) mod 4096"
    unfolding align_up_eq unat_and_not_4095 u ..
  also have "\<dots> = unat x"
    using x by (auto simp: page_aligned_iff dvd_def)
  finally show ?thesis
    by (simp add: u64_eq_iff)
qed

text \<open>Rounding up is the least aligned address not below, unless it would wrap to zero.\<close>

lemma align_up_bounds:
  assumes "unat x + 4095 < 2 ^ 64"
  shows "unat x \<le> unat (align_up x 4096)" and "unat (align_up x 4096) < unat x + 4096"
proof -
  have u: "unat (x + 4095) = unat x + 4095"
    using assms by (simp add: unat_simps)
  have "unat (align_up x 4096) = unat x + 4095 - (unat x + 4095) mod 4096"
    unfolding align_up_eq unat_and_not_4095 u ..
  moreover have "(unat x + 4095) mod 4096 < 4096" by simp
  ultimately show "unat x \<le> unat (align_up x 4096)" "unat (align_up x 4096) < unat x + 4096"
    by linarith+
qed

lemma align_up_least:
  assumes "unat x \<le> unat y" and "page_aligned y"
  shows "unat (align_up x 4096) \<le> unat y"
proof -
  have "unat y + 4096 \<le> 2 ^ 64"
    using assms(2) unat_lt_64 [of y] by (intro nat_mult_aligned_le) (simp_all add: page_aligned_iff)
  with assms have "unat x + 4095 < 2 ^ 64" by linarith
  then have b: "unat (align_up x 4096) < unat x + 4096"
    by (rule align_up_bounds)
  show ?thesis
  proof (rule ccontr)
    assume "\<not> ?thesis"
    then have "unat y + 4096 \<le> unat (align_up x 4096)"
      using assms(2) page_aligned_align_up [of x]
      by (intro nat_mult_aligned_le) (auto simp: page_aligned_iff)
    with b assms(1) show False by linarith
  qed
qed

lemma align_up_le_max: "unat (align_up x 4096) \<le> 2 ^ 64 - 4096"
proof -
  have "unat (align_up x 4096) + 4096 \<le> 2 ^ 64"
    using unat_lt_64 [of "align_up x 4096"] page_aligned_align_up [of x]
    by (intro nat_mult_aligned_le) (simp_all add: page_aligned_iff)
  then show ?thesis by simp
qed

section \<open>The allocation contract\<close>

text \<open>
  \<open>ok\<close> is the invariant of the allocator state and \<open>used\<close> the address below which everything has
  been given away. A client may rely on nothing else.
\<close>

locale page_allocator =
  fixes alloc :: "'al \<Rightarrow> u64 \<times> 'al"
    and ok :: "'al \<Rightarrow> bool"
    and used :: "'al \<Rightarrow> nat"
    and limit :: "'al \<Rightarrow> nat"
  assumes alloc_ok: "ok a \<Longrightarrow> ok (snd (alloc a))"
    and alloc_limit: "ok a \<Longrightarrow> limit (snd (alloc a)) = limit a"
    and alloc_none: "ok a \<Longrightarrow> fst (alloc a) = 0 \<Longrightarrow> snd (alloc a) = a \<and> limit a < used a + 4096"
    and alloc_page: "ok a \<Longrightarrow> fst (alloc a) \<noteq> 0 \<Longrightarrow>
          page_aligned (fst (alloc a)) \<and> used a \<le> unat (fst (alloc a)) \<and>
          used (snd (alloc a)) = unat (fst (alloc a)) + 4096 \<and>
          used (snd (alloc a)) \<le> limit a"
begin

lemma alloc_used_mono: "ok a \<Longrightarrow> used a \<le> used (snd (alloc a))"
  using alloc_none [of a] alloc_page [of a] by (cases "fst (alloc a) = 0") auto

end

text \<open>The pages of \<open>n\<close> successive requests; a request that fails contributes nothing.\<close>

fun alloc_many :: "('al \<Rightarrow> u64 \<times> 'al) \<Rightarrow> nat \<Rightarrow> 'al \<Rightarrow> u64 list" where
  "alloc_many alloc 0 a = []"
| "alloc_many alloc (Suc n) a =
     (case alloc a of (p, a') \<Rightarrow>
        if p = 0 then alloc_many alloc n a' else p # alloc_many alloc n a')"

context page_allocator
begin

lemma alloc_many_range:
  "ok a \<Longrightarrow> p \<in> set (alloc_many alloc n a) \<Longrightarrow>
     page_aligned p \<and> used a \<le> unat p \<and> unat p + 4096 \<le> limit a"
proof (induction n arbitrary: a)
  case (Suc n)
  obtain q a' where eq: "alloc a = (q, a')" by (cases "alloc a")
  with Suc.prems(1) have a': "ok a'" "used a \<le> used a'" "limit a' = limit a"
    using alloc_ok [of a] alloc_used_mono [of a] alloc_limit [of a] by auto
  from Suc.prems(2) eq have "q \<noteq> 0 \<and> p = q \<or> p \<in> set (alloc_many alloc n a')"
    by (auto split: if_splits)
  then show ?case
  proof
    assume "q \<noteq> 0 \<and> p = q"
    then show ?thesis
      using alloc_page [OF Suc.prems(1)] eq by auto
  next
    assume "p \<in> set (alloc_many alloc n a')"
    with Suc.IH [OF a'(1)] a' show ?thesis by auto
  qed
qed simp

lemma alloc_many_sorted:
  "ok a \<Longrightarrow> sorted_wrt (\<lambda>p q. unat p + 4096 \<le> unat q) (alloc_many alloc n a)"
proof (induction n arbitrary: a)
  case (Suc n)
  obtain q a' where eq: "alloc a = (q, a')" by (cases "alloc a")
  with Suc.prems have a': "ok a'" using alloc_ok [of a] by auto
  show ?case
    using Suc.IH [OF a'] eq alloc_page [OF Suc.prems] alloc_many_range [OF a', of _ n]
    by (auto split: if_splits)
qed simp

end

section \<open>The allocator meets the contract\<close>

definition allocator_ok :: "physical_page_allocator \<Rightarrow> bool" where
  "allocator_ok al \<longleftrightarrow>
     page_aligned (al_current al) \<and> 0 < unat (al_current al) \<and>
     unat (al_current al) \<le> 2 ^ 56 \<and> unat (al_end al) \<le> 2 ^ 56"

lemma physical_alloc_page_eq:
  assumes "allocator_ok al"
  shows "physical_alloc_page al =
    (if unat (al_current al) + 4096 \<le> unat (al_end al)
     then (al_current al, al\<lparr>al_current := al_current al + 4096\<rparr>) else (0, al))"
proof -
  have cur: "page_aligned (al_current al)"
    using assms by (simp add: allocator_ok_def)
  have "unat (al_current al + 4096) = unat (al_current al) + 4096"
    using assms by (simp add: allocator_ok_def unat_simps)
  with cur show ?thesis
    by (auto simp: physical_alloc_page_def Let_def word_less_nat_alt not_less)
qed

interpretation pages: page_allocator physical_alloc_page allocator_ok
    "\<lambda>al. unat (al_current al)" "\<lambda>al. unat (al_end al)"
proof unfold_locales
  fix al assume ok: "allocator_ok al"
  have u: "unat (al_current al + 4096) = unat (al_current al) + 4096"
    using ok by (simp add: allocator_ok_def unat_simps)
  show "allocator_ok (snd (physical_alloc_page al))"
    using ok u by (auto simp: physical_alloc_page_eq allocator_ok_def page_aligned_iff)
  show "unat (al_end (snd (physical_alloc_page al))) = unat (al_end al)"
    using ok by (simp add: physical_alloc_page_eq)
  show "snd (physical_alloc_page al) = al \<and> unat (al_end al) < unat (al_current al) + 4096"
    if "fst (physical_alloc_page al) = 0"
    using that ok by (auto simp: physical_alloc_page_eq allocator_ok_def split: if_splits)
  show "page_aligned (fst (physical_alloc_page al)) \<and>
        unat (al_current al) \<le> unat (fst (physical_alloc_page al)) \<and>
        unat (al_current (snd (physical_alloc_page al))) =
          unat (fst (physical_alloc_page al)) + 4096 \<and>
        unat (al_current (snd (physical_alloc_page al))) \<le> unat (al_end al)"
    if "fst (physical_alloc_page al) \<noteq> 0"
    using that ok u by (auto simp: physical_alloc_page_eq allocator_ok_def split: if_splits)
qed

end
