(* ===== verification/Csr.thy ===== *)
theory Csr
  imports Prelude
begin

text \<open>
  The machine state the kernel runs on and its control and status registers
  (\<^verbatim>\<open>include/utility/CSR.hpp\<close>, \<^verbatim>\<open>src/utility/CSR.cpp\<close>). Every inline function of
  the header is one definition; a CSR holds the value last written to it (the hardware's
  legalisation of reserved fields is not modelled). The lemmas give the exact bits the boot code
  sets.
\<close>

section \<open>The machine state\<close>

text \<open>
  \<open>pmem\<close> is physical memory. \<open>uart_tx\<close> lists the bytes stored to the UART with the address of
  each store, oldest first. \<open>uart_rx\<close> is what the UART answers to the polls to come: the line
  status register and the receive holding register of each. The last fields are the kernel's
  global variables \<^verbatim>\<open>g_uart_base\<close>, \<^verbatim>\<open>g_dtb\<close> and \<^verbatim>\<open>g_kernel_root\<close>.
\<close>

record machine =
  pmem :: mem
  csr_sstatus :: u64
  csr_satp :: u64
  csr_stvec :: u64
  csr_sepc :: u64
  csr_scause :: u64
  csr_sie :: u64
  csr_mstatus :: u64
  csr_mtvec :: u64
  csr_mepc :: u64
  csr_mcause :: u64
  csr_mie :: u64
  csr_medeleg :: u64
  csr_mideleg :: u64
  csr_mtval :: u64
  csr_pmpaddr0 :: u64
  csr_pmpcfg0 :: u64
  csr_sscratch :: u64
  csr_mscratch :: u64
  uart_tx :: "(u64 \<times> u8) list"
  uart_rx :: "(u8 \<times> u8) list"
  g_uart_base :: u64
  g_dtb :: u64
  g_kernel_root :: u64

section \<open>Constants\<close>

definition SSTATUS_SIE :: u64 where "SSTATUS_SIE = push_bit 1 1"
definition SSTATUS_SPIE :: u64 where "SSTATUS_SPIE = push_bit 5 1"
definition SSTATUS_SPP :: u64 where "SSTATUS_SPP = push_bit 8 1"
definition SATP_MODE_BARE :: u64 where "SATP_MODE_BARE = 0"
definition SATP_MODE_SV39 :: u64 where "SATP_MODE_SV39 = 8"
definition MSTATUS_MIE :: u64 where "MSTATUS_MIE = push_bit 3 1"
definition MSTATUS_MPIE :: u64 where "MSTATUS_MPIE = push_bit 7 1"
definition MSTATUS_MPP_MASK :: u64 where "MSTATUS_MPP_MASK = push_bit 11 3"
definition MSTATUS_MPP_U :: u64 where "MSTATUS_MPP_U = push_bit 11 0"
definition MSTATUS_MPP_S :: u64 where "MSTATUS_MPP_S = push_bit 11 1"
definition MSTATUS_MPP_M :: u64 where "MSTATUS_MPP_M = push_bit 11 3"

lemmas csr_consts =
  SSTATUS_SIE_def SSTATUS_SPIE_def SSTATUS_SPP_def SATP_MODE_BARE_def SATP_MODE_SV39_def MSTATUS_MIE_def MSTATUS_MPIE_def MSTATUS_MPP_MASK_def MSTATUS_MPP_U_def MSTATUS_MPP_S_def MSTATUS_MPP_M_def

section \<open>Register accesses\<close>

definition csr_read_sstatus :: "machine \<Rightarrow> u64" where
  "csr_read_sstatus s = csr_sstatus s"

definition csr_write_sstatus :: "u64 \<Rightarrow> machine \<Rightarrow> machine" where
  "csr_write_sstatus value s = s\<lparr>csr_sstatus := value\<rparr>"

definition csr_read_satp :: "machine \<Rightarrow> u64" where
  "csr_read_satp s = csr_satp s"

definition csr_write_satp :: "u64 \<Rightarrow> machine \<Rightarrow> machine" where
  "csr_write_satp value s = s\<lparr>csr_satp := value\<rparr>"

definition csr_read_stvec :: "machine \<Rightarrow> u64" where
  "csr_read_stvec s = csr_stvec s"

definition csr_write_stvec :: "u64 \<Rightarrow> machine \<Rightarrow> machine" where
  "csr_write_stvec value s = s\<lparr>csr_stvec := value\<rparr>"

definition csr_read_sepc :: "machine \<Rightarrow> u64" where
  "csr_read_sepc s = csr_sepc s"

definition csr_write_sepc :: "u64 \<Rightarrow> machine \<Rightarrow> machine" where
  "csr_write_sepc value s = s\<lparr>csr_sepc := value\<rparr>"

definition csr_read_scause :: "machine \<Rightarrow> u64" where
  "csr_read_scause s = csr_scause s"

definition csr_read_sie :: "machine \<Rightarrow> u64" where
  "csr_read_sie s = csr_sie s"

definition csr_write_sie :: "u64 \<Rightarrow> machine \<Rightarrow> machine" where
  "csr_write_sie value s = s\<lparr>csr_sie := value\<rparr>"

definition csr_set_bits_sstatus :: "u64 \<Rightarrow> machine \<Rightarrow> machine" where
  "csr_set_bits_sstatus bits s = s\<lparr>csr_sstatus := csr_sstatus s OR bits\<rparr>"

definition csr_clear_bits_sstatus :: "u64 \<Rightarrow> machine \<Rightarrow> machine" where
  "csr_clear_bits_sstatus bits s = s\<lparr>csr_sstatus := csr_sstatus s AND NOT bits\<rparr>"

definition csr_set_bits_sie :: "u64 \<Rightarrow> machine \<Rightarrow> machine" where
  "csr_set_bits_sie bits s = s\<lparr>csr_sie := csr_sie s OR bits\<rparr>"

definition csr_clear_bits_sie :: "u64 \<Rightarrow> machine \<Rightarrow> machine" where
  "csr_clear_bits_sie bits s = s\<lparr>csr_sie := csr_sie s AND NOT bits\<rparr>"

definition csr_read_mstatus :: "machine \<Rightarrow> u64" where
  "csr_read_mstatus s = csr_mstatus s"

definition csr_write_mstatus :: "u64 \<Rightarrow> machine \<Rightarrow> machine" where
  "csr_write_mstatus value s = s\<lparr>csr_mstatus := value\<rparr>"

definition csr_read_mtvec :: "machine \<Rightarrow> u64" where
  "csr_read_mtvec s = csr_mtvec s"

definition csr_write_mtvec :: "u64 \<Rightarrow> machine \<Rightarrow> machine" where
  "csr_write_mtvec value s = s\<lparr>csr_mtvec := value\<rparr>"

definition csr_read_mepc :: "machine \<Rightarrow> u64" where
  "csr_read_mepc s = csr_mepc s"

definition csr_write_mepc :: "u64 \<Rightarrow> machine \<Rightarrow> machine" where
  "csr_write_mepc value s = s\<lparr>csr_mepc := value\<rparr>"

definition csr_read_mcause :: "machine \<Rightarrow> u64" where
  "csr_read_mcause s = csr_mcause s"

definition csr_read_mie :: "machine \<Rightarrow> u64" where
  "csr_read_mie s = csr_mie s"

definition csr_write_mie :: "u64 \<Rightarrow> machine \<Rightarrow> machine" where
  "csr_write_mie value s = s\<lparr>csr_mie := value\<rparr>"

definition csr_read_medeleg :: "machine \<Rightarrow> u64" where
  "csr_read_medeleg s = csr_medeleg s"

definition csr_write_medeleg :: "u64 \<Rightarrow> machine \<Rightarrow> machine" where
  "csr_write_medeleg value s = s\<lparr>csr_medeleg := value\<rparr>"

definition csr_read_mideleg :: "machine \<Rightarrow> u64" where
  "csr_read_mideleg s = csr_mideleg s"

definition csr_write_mideleg :: "u64 \<Rightarrow> machine \<Rightarrow> machine" where
  "csr_write_mideleg value s = s\<lparr>csr_mideleg := value\<rparr>"

definition csr_set_bits_mstatus :: "u64 \<Rightarrow> machine \<Rightarrow> machine" where
  "csr_set_bits_mstatus bits s = s\<lparr>csr_mstatus := csr_mstatus s OR bits\<rparr>"

definition csr_clear_bits_mstatus :: "u64 \<Rightarrow> machine \<Rightarrow> machine" where
  "csr_clear_bits_mstatus bits s = s\<lparr>csr_mstatus := csr_mstatus s AND NOT bits\<rparr>"

definition csr_set_bits_mie :: "u64 \<Rightarrow> machine \<Rightarrow> machine" where
  "csr_set_bits_mie bits s = s\<lparr>csr_mie := csr_mie s OR bits\<rparr>"

definition csr_clear_bits_mie :: "u64 \<Rightarrow> machine \<Rightarrow> machine" where
  "csr_clear_bits_mie bits s = s\<lparr>csr_mie := csr_mie s AND NOT bits\<rparr>"

definition csr_read_mtval :: "machine \<Rightarrow> u64" where
  "csr_read_mtval s = csr_mtval s"

definition csr_write_pmpaddr0 :: "u64 \<Rightarrow> machine \<Rightarrow> machine" where
  "csr_write_pmpaddr0 value s = s\<lparr>csr_pmpaddr0 := value\<rparr>"

definition csr_write_pmpcfg0 :: "u64 \<Rightarrow> machine \<Rightarrow> machine" where
  "csr_write_pmpcfg0 value s = s\<lparr>csr_pmpcfg0 := value\<rparr>"

definition csr_write_sscratch :: "u64 \<Rightarrow> machine \<Rightarrow> machine" where
  "csr_write_sscratch value s = s\<lparr>csr_sscratch := value\<rparr>"

definition csr_read_sscratch :: "machine \<Rightarrow> u64" where
  "csr_read_sscratch s = csr_sscratch s"

definition csr_write_mscratch :: "u64 \<Rightarrow> machine \<Rightarrow> machine" where
  "csr_write_mscratch value s = s\<lparr>csr_mscratch := value\<rparr>"

definition csr_read_mscratch :: "machine \<Rightarrow> u64" where
  "csr_read_mscratch s = csr_mscratch s"

lemmas csr_access_defs =
  csr_read_sstatus_def csr_write_sstatus_def csr_read_satp_def csr_write_satp_def csr_read_stvec_def
  csr_write_stvec_def csr_read_sepc_def csr_write_sepc_def csr_read_scause_def csr_read_sie_def
  csr_write_sie_def csr_set_bits_sstatus_def csr_clear_bits_sstatus_def csr_set_bits_sie_def
  csr_clear_bits_sie_def csr_read_mstatus_def csr_write_mstatus_def csr_read_mtvec_def
  csr_write_mtvec_def csr_read_mepc_def csr_write_mepc_def csr_read_mcause_def csr_read_mie_def
  csr_write_mie_def csr_read_medeleg_def csr_write_medeleg_def csr_read_mideleg_def
  csr_write_mideleg_def csr_set_bits_mstatus_def csr_clear_bits_mstatus_def csr_set_bits_mie_def
  csr_clear_bits_mie_def csr_read_mtval_def csr_write_pmpaddr0_def csr_write_pmpcfg0_def
  csr_write_sscratch_def csr_read_sscratch_def csr_write_mscratch_def csr_read_mscratch_def

section \<open>Composed operations\<close>

definition make_satp_sv39 :: "u64 \<Rightarrow> u64" where
  "make_satp_sv39 root_table_physical_address =
     push_bit 60 SATP_MODE_SV39 OR drop_bit 12 root_table_physical_address"

definition csr_set_mstatus_mpp_supervisor :: "machine \<Rightarrow> machine" where
  "csr_set_mstatus_mpp_supervisor s =
     (let value = csr_read_mstatus s;
          value = value AND NOT MSTATUS_MPP_MASK;
          value = value OR MSTATUS_MPP_S
      in csr_write_mstatus value s)"

definition csr_set_mstatus_mpp_machine :: "machine \<Rightarrow> machine" where
  "csr_set_mstatus_mpp_machine s =
     (let value = csr_read_mstatus s;
          value = value AND NOT MSTATUS_MPP_MASK;
          value = value OR MSTATUS_MPP_M
      in csr_write_mstatus value s)"

definition delegate_supervisor_exceptions :: "machine \<Rightarrow> machine" where
  "delegate_supervisor_exceptions s =
     (let deleg = (0 :: u64);
          deleg = deleg OR push_bit 1 1;
          deleg = deleg OR push_bit 3 1;
          deleg = deleg OR push_bit 8 1;
          deleg = deleg OR push_bit 9 1;
          deleg = deleg OR push_bit 12 1;
          deleg = deleg OR push_bit 13 1;
          deleg = deleg OR push_bit 15 1
      in csr_write_medeleg deleg s)"

definition pmp_init_allow_all :: "machine \<Rightarrow> machine" where
  "pmp_init_allow_all s =
     (let pmpcfg = 0x0F
      in csr_write_pmpcfg0 pmpcfg (csr_write_pmpaddr0 0x3FFFFFFFFFFFFFFF s))"

text \<open>
  \<^verbatim>\<open>enter_supervisor_mode\<close> ends in \<^verbatim>\<open>mret\<close> with its arguments in \<open>a0\<close> and \<open>a1\<close>: the result
  is the state at the \<^verbatim>\<open>mret\<close> and the two registers. \<open>supervisor_main\<close> is the address of the
  function of that name.
\<close>

definition enter_supervisor_mode ::
  "u64 \<Rightarrow> u64 \<Rightarrow> u64 \<Rightarrow> machine \<Rightarrow> machine \<times> u64 \<times> u64" where
  "enter_supervisor_mode supervisor_main hartid dtb s =
     (let s = csr_write_mepc supervisor_main s;
          s = csr_set_mstatus_mpp_supervisor s
      in (s, hartid, dtb))"

section \<open>The bits they set\<close>

lemma bit_deleg_mask: "bit (0xB30A :: u64) n \<longleftrightarrow> n \<in> set [1, 3, 8, 9, 12, 13, 15]"
  by (rule bit_u64_list) code_simp+

lemma bit_mpp_mask: "bit (0x1800 :: u64) n \<longleftrightarrow> n \<in> set [11, 12]"
  by (rule bit_u64_list) code_simp+

lemma bit_mpp_s: "bit (0x800 :: u64) n \<longleftrightarrow> n \<in> set [11]"
  by (rule bit_u64_list) code_simp+

lemma bit_delegated:
  "bit (csr_medeleg (delegate_supervisor_exceptions s)) n \<longleftrightarrow> n \<in> {1, 3, 8, 9, 12, 13, 15}"
  using bit_deleg_mask [of n]
  by (simp add: delegate_supervisor_exceptions_def csr_write_medeleg_def)

lemma mpp_supervisor_value:
  "csr_mstatus (csr_set_mstatus_mpp_supervisor s) = (csr_mstatus s AND NOT 0x1800) OR 0x800"
  by (simp add: csr_set_mstatus_mpp_supervisor_def csr_access_defs csr_consts)

lemma bit_mpp_supervisor:
  "bit (csr_mstatus (csr_set_mstatus_mpp_supervisor s)) n \<longleftrightarrow>
     n = 11 \<or> n \<noteq> 12 \<and> bit (csr_mstatus s) n"
  unfolding mpp_supervisor_value bit_or_iff bit_and_iff bit_not_iff bit_mpp_mask bit_mpp_s
  using bit_imp_le_length [of "csr_mstatus s" n] by auto

text \<open>The physical page number of \<^verbatim>\<open>satp\<close> is the root's, and its mode field is Sv39.\<close>

lemma make_satp_mode:
  assumes "unat root < 2 ^ 56"
  shows "drop_bit 60 (make_satp_sv39 root) = SATP_MODE_SV39"
    and "push_bit 12 (take_bit 44 (make_satp_sv39 root)) = root AND NOT (4096 - 1)"
proof -
  have root: "take_bit 56 root = root"
    using assms by (simp add: u64_eq_iff unat_take_bit_64)
  have "drop_bit 60 (drop_bit 12 root) = 0"
    using assms by (simp only: u64_eq_iff unat_drop_bit_64) simp
  then show "drop_bit 60 (make_satp_sv39 root) = SATP_MODE_SV39"
    by (simp add: make_satp_sv39_def SATP_MODE_SV39_def)
  have "take_bit 44 (make_satp_sv39 root) = drop_bit 12 (take_bit 56 root)"
    by (simp add: make_satp_sv39_def SATP_MODE_SV39_def take_bit_drop_bit)
  then show "push_bit 12 (take_bit 44 (make_satp_sv39 root)) = root AND NOT (4096 - 1)"
    by (simp only: root push_drop_12 and_not_4095)
qed

end
