(* ===== verification/Dtb.thy ===== *)
theory Dtb
  imports Fdt_Search Allocator Csr
begin

text \<open>
  What the kernel takes from the device tree (\<^verbatim>\<open>src/utility/DTB.cpp\<close>, \<^verbatim>\<open>include/utility/DTB.hpp\<close>):
  the memory range, the address of the serial port, and the platform record made of them and of the
  linker's symbols. The pointer to the blob is the field \<open>g_dtb\<close> of the machine; the blob is read
  from physical memory, with address translation still off.
\<close>

section \<open>Reading cells\<close>

definition be32_to_cpu :: "u32 \<Rightarrow> u32" where
  "be32_to_cpu value =
     push_bit 24 (value AND 0x000000FF) OR push_bit 8 (value AND 0x0000FF00) OR
     drop_bit 8 (value AND 0x00FF0000) OR drop_bit 24 (value AND 0xFF000000)"

fun read_cells_from :: "mem \<Rightarrow> u64 \<Rightarrow> nat \<Rightarrow> u64 \<Rightarrow> u64" where
  "read_cells_from m cells 0 value = value"
| "read_cells_from m cells (Suc n) value =
     read_cells_from m (cells + 4) n (push_bit 32 value OR ucast (fdt32_ld_priv m cells))"

definition read_cells :: "mem \<Rightarrow> u64 \<Rightarrow> u32 \<Rightarrow> u64" where
  "read_cells m cells count = read_cells_from m cells (nat (sint count)) 0"

definition get_root_addr_cells :: "mem \<Rightarrow> u64 \<Rightarrow> u32 option" where
  "get_root_addr_cells m dtb =
     (if dtb = 0 then Some (- 1)
      else map_option (\<lambda>root.
             if root <s 0 then - 1
             else let value = fdt_address_cells m dtb root in if 0 <s value then value else - 1)
           (fdt_path_offset m dtb (chars ''/'')))"

definition get_root_size_cells :: "mem \<Rightarrow> u64 \<Rightarrow> u32 option" where
  "get_root_size_cells m dtb =
     (if dtb = 0 then Some (- 1)
      else map_option (\<lambda>root.
             if root <s 0 then - 1
             else let value = fdt_size_cells m dtb root in if 0 <s value then value else - 1)
           (fdt_path_offset m dtb (chars ''/'')))"

section \<open>The blob\<close>

definition dtb_init :: "u64 \<Rightarrow> machine \<Rightarrow> bool \<times> machine" where
  "dtb_init dtb s =
     (if dtb = 0 then (False, s\<lparr>g_dtb := 0\<rparr>)
      else if fdt_check_header (pmem s) dtb \<noteq> 0 then (False, s\<lparr>g_dtb := 0\<rparr>)
      else (True, s\<lparr>g_dtb := dtb\<rparr>))"

definition dtb_raw :: "machine \<Rightarrow> u64" where
  "dtb_raw s = g_dtb s"

section \<open>The memory range\<close>

definition is_memory_node :: "mem \<Rightarrow> u64 \<Rightarrow> u32 \<Rightarrow> bool" where
  "is_memory_node m dtb node =
     (case fdt_getprop m dtb node (chars ''device_type'') of (device_type, len) \<Rightarrow>
        device_type \<noteq> 0 \<and> 6 \<le>s len \<and> bytes_at m device_type (chars ''memory''))"

text \<open>The first memory node, or -1.\<close>

function memory_node_loop :: "mem \<Rightarrow> u64 \<Rightarrow> u32 \<Rightarrow> u32" where
  "memory_node_loop m dtb node =
     (if \<not> node <s 0 then
        if is_memory_node m dtb node then node
        else memory_node_loop m dtb (fst (fdt_next_node m dtb node None))
      else - 1)"
  by pat_completeness auto
termination
  by (relation "measure (\<lambda>(m, dtb, node). offsets_left node)")
    (simp_all add: fdt_next_node_left [OF _ surjective_pairing])

declare memory_node_loop.simps [simp del]

text \<open>The result, the base and the size.\<close>

definition dtb_get_memory_range :: "machine \<Rightarrow> (bool \<times> u64 \<times> u64) option" where
  "dtb_get_memory_range s =
     (let m = pmem s; dtb = g_dtb s
      in if dtb = 0 then Some (False, 0, 0)
         else Option.bind (get_root_addr_cells m dtb) (\<lambda>addr_cells.
              Option.bind (get_root_size_cells m dtb) (\<lambda>size_cells.
              Some (if addr_cells \<le>s 0 \<or> size_cells \<le>s 0 then (False, 0, 0)
                    else let memory_node = memory_node_loop m dtb (fst (fdt_next_node m dtb (- 1) None))
                         in if memory_node <s 0 then (False, 0, 0)
                            else (case fdt_getprop m dtb memory_node (chars ''reg'') of (reg, reg_len) \<Rightarrow>
                                    if reg = 0 then (False, 0, 0)
                                    else let entry_cells = addr_cells + size_cells;
                                             entry_bytes = entry_cells * 4
                                         in if reg_len <s entry_bytes then (False, 0, 0)
                                            else (True, read_cells m reg addr_cells,
                                                  read_cells m (reg + scast addr_cells * 4) size_cells))))))"

section \<open>The serial port\<close>

function skip_entry :: "mem \<Rightarrow> u64 \<Rightarrow> int \<Rightarrow> int \<Rightarrow> int" where
  "skip_entry m compatible compat_len i =
     (if i < compat_len \<and> m (compatible + word_of_int i) \<noteq> 0
      then skip_entry m compatible compat_len (i + 1) else i)"
  by pat_completeness auto
termination
  by (relation "measure (\<lambda>(m, compatible, compat_len, i). nat (compat_len - i))") auto

declare skip_entry.simps [simp del]

lemma skip_entry_le: "i \<le> skip_entry m compatible compat_len i"
proof (induction m compatible compat_len i rule: skip_entry.induct)
  case (1 m compatible compat_len i)
  then show ?case
    by (subst skip_entry.simps) (auto intro: order.trans [of i "i + 1"])
qed

function looks_like_uart :: "mem \<Rightarrow> u64 \<Rightarrow> int \<Rightarrow> int \<Rightarrow> bool" where
  "looks_like_uart m compatible compat_len i =
     (if i < compat_len then
        (let s = compatible + word_of_int i;
             matched_ns16550 = bytes_at m s (chars ''ns16550'');
             matched_uart = bytes_at m s (chars ''uart'')
         in if matched_ns16550 \<or> matched_uart then True
            else looks_like_uart m compatible compat_len
                   (skip_entry m compatible compat_len i + 1))
      else False)"
  by pat_completeness auto
termination
proof (relation "measure (\<lambda>(m, compatible, compat_len, i). nat (compat_len - i))", goal_cases)
  case (2 m compatible compat_len i)
  then show ?case
    using skip_entry_le [of i m compatible compat_len] by simp
qed simp

declare looks_like_uart.simps [simp del]

text \<open>The base address in a node's \<^verbatim>\<open>reg\<close>, when the node is a serial port that has one.\<close>

definition uart_node_base :: "mem \<Rightarrow> u64 \<Rightarrow> u32 \<Rightarrow> u32 \<Rightarrow> u64 option" where
  "uart_node_base m dtb addr_cells node =
     (case fdt_getprop m dtb node (chars ''compatible'') of (compatible, compat_len) \<Rightarrow>
        if compatible = 0 \<or> compat_len \<le>s 0 then None
        else if \<not> looks_like_uart m compatible (sint compat_len) 0 then None
        else (case fdt_getprop m dtb node (chars ''reg'') of (reg, reg_len) \<Rightarrow>
                if reg = 0 then None
                else if reg_len <s addr_cells * 4 then None
                else Some (read_cells m reg addr_cells)))"

function uart_node_loop :: "mem \<Rightarrow> u64 \<Rightarrow> u32 \<Rightarrow> u32 \<Rightarrow> bool \<times> u64" where
  "uart_node_loop m dtb addr_cells node =
     (if \<not> node <s 0 then
        (case uart_node_base m dtb addr_cells node of
           Some base \<Rightarrow> (True, base)
         | None \<Rightarrow> uart_node_loop m dtb addr_cells (fst (fdt_next_node m dtb node None)))
      else (False, 0))"
  by pat_completeness auto
termination
  by (relation "measure (\<lambda>(m, dtb, addr_cells, node). offsets_left node)")
    (simp_all add: fdt_next_node_left [OF _ surjective_pairing])

declare uart_node_loop.simps [simp del]

definition dtb_get_uart_base :: "machine \<Rightarrow> (bool \<times> u64) option" where
  "dtb_get_uart_base s =
     (let m = pmem s; dtb = g_dtb s
      in if dtb = 0 then Some (False, 0)
         else map_option (\<lambda>addr_cells.
                if addr_cells \<le>s 0 then (False, 0)
                else uart_node_loop m dtb addr_cells (fst (fdt_next_node m dtb (- 1) None)))
              (get_root_addr_cells m dtb))"

section \<open>The platform\<close>

text \<open>The linker's symbols for the whole image.\<close>

record image_symbols =
  im_bss_start :: u64
  im_bss_end :: u64
  im_kernel_end :: u64
  im_kernel_start :: u64

text \<open>
  The total size is read through the pointer before anything is known about it. An early return
  leaves the fields behind it unchanged.
\<close>

definition platform_info_init ::
  "image_symbols \<Rightarrow> platform_info \<Rightarrow> u64 \<Rightarrow> machine \<Rightarrow> (bool \<times> platform_info \<times> machine) option" where
  "platform_info_init img platform dtb s =
     (let dtb_size = ucast (be32_to_cpu (ld32 (pmem s) (dtb + 4)));
          platform = platform\<lparr>pf_dtb_addr := dtb, pf_dtb_size := dtb_size, pf_dtb_end := dtb + dtb_size\<rparr>
      in (case dtb_init dtb s of
            (False, s) \<Rightarrow> Some (False, platform, s)
          | (True, s) \<Rightarrow>
              Option.bind (dtb_get_uart_base s) (\<lambda>(ok, base).
                let platform = platform\<lparr>pf_uart_base := base\<rparr>
                in if \<not> ok then Some (False, platform, s)
                   else Option.bind (dtb_get_memory_range s) (\<lambda>(ok, base, sz).
                          let platform = platform\<lparr>pf_ram_base := base, pf_ram_size := sz\<rparr>
                          in if \<not> ok then Some (False, platform, s)
                             else Some (True, platform\<lparr>pf_kernel_start := im_kernel_start img,
                                          pf_kernel_end := im_kernel_end img,
                                          pf_bss_start := im_bss_start img,
                                          pf_bss_end := im_bss_end img\<rparr>, s)))))"

end
