(* ===== verification/Fdt_Edit.thy ===== *)
theory Fdt_Edit
  imports Fdt_Search
begin

text \<open>
  Checking a whole blob (\<^verbatim>\<open>lib/libfdt/fdt_check.c\<close>), editing it in place
  (\<^verbatim>\<open>lib/libfdt/fdt_wip.c\<close>) and the error texts (\<^verbatim>\<open>lib/libfdt/fdt_strerror.c\<close>).
\<close>

section \<open>The full check\<close>

text \<open>
  One round of the loop over the tags, for a tag whose next offset is not an error. The root's name
  is looked at with \<^verbatim>\<open>fdt_get_name\<close>.
\<close>

definition root_name_error :: "mem \<Rightarrow> u64 \<Rightarrow> u32 \<Rightarrow> u32 option option" where
  "root_name_error m fdt offset =
     map_option (\<lambda>(name, len).
       if name = 0 then Some len
       else if m name \<noteq> 0 \<or> len \<noteq> 0 then Some (- FDT_ERR_BADSTRUCTURE)
       else None)
     (fdt_get_name m fdt offset)"

function check_full_loop :: "mem \<Rightarrow> u64 \<Rightarrow> u32 \<Rightarrow> u32 \<Rightarrow> bool \<Rightarrow> u32 option" where
  "check_full_loop m fdt offset depth expect_end =
     (case fdt_next_tag m fdt offset of (tag, nextoffset) \<Rightarrow>
        if nextoffset <s 0 then Some nextoffset
        else if expect_end \<and> tag \<noteq> FDT_END \<and> tag \<noteq> FDT_NOP then Some (- FDT_ERR_BADSTRUCTURE)
        else if tag = FDT_NOP then check_full_loop m fdt nextoffset depth expect_end
        else if tag = FDT_END then
          (if depth \<noteq> 0 then Some (- FDT_ERR_BADSTRUCTURE) else Some 0)
        else if tag = FDT_BEGIN_NODE then
          (let depth = depth + 1
           in if depth > INT_MAX then Some (- FDT_ERR_BADSTRUCTURE)
              else if depth = 1 then
                (case root_name_error m fdt offset of
                   None \<Rightarrow> None
                 | Some (Some err) \<Rightarrow> Some err
                 | Some None \<Rightarrow> check_full_loop m fdt nextoffset depth expect_end)
              else check_full_loop m fdt nextoffset depth expect_end)
        else if tag = FDT_END_NODE then
          (if depth = 0 then Some (- FDT_ERR_BADSTRUCTURE)
           else let depth = depth - 1
                in check_full_loop m fdt nextoffset depth (if depth = 0 then True else expect_end))
        else if tag = FDT_PROP then
          (case fdt_getprop_by_offset m fdt offset of (prop, propname, err) \<Rightarrow>
             if prop = 0 then Some err
             else check_full_loop m fdt nextoffset depth expect_end)
        else Some (- FDT_ERR_INTERNAL))"
  by pat_completeness auto
termination
  by (relation "measure (\<lambda>(m, fdt, offset, depth, expect_end). offsets_left offset)")
    (auto intro: fdt_next_tag_left [OF sym] simp: tag_values)

declare check_full_loop.simps [simp del]

definition fdt_check_full :: "mem \<Rightarrow> u64 \<Rightarrow> u64 \<Rightarrow> u32 option" where
  "fdt_check_full m fdt bufsize =
     (if bufsize < FDT_V1_SIZE then Some (- FDT_ERR_TRUNCATED)
      else if bufsize < fdt_header_size m fdt then Some (- FDT_ERR_TRUNCATED)
      else let err = fdt_check_header m fdt
           in if err \<noteq> 0 then Some err
              else if bufsize < ucast (fdt_totalsize m fdt) then Some (- FDT_ERR_TRUNCATED)
              else (case fdt_num_mem_rsv m fdt of
                      None \<Rightarrow> None
                    | Some num_memrsv \<Rightarrow>
                        if num_memrsv <s 0 then Some num_memrsv
                        else check_full_loop m fdt 0 0 False))"

section \<open>Editing in place\<close>

text \<open>
  Values the caller passes are lists of bytes outside the blob, which bring their length with them;
  a number is converted in a local variable first.
\<close>

fun store_bytes :: "u64 \<Rightarrow> u8 list \<Rightarrow> mem \<Rightarrow> mem" where
  "store_bytes p [] m = m"
| "store_bytes p (b # bs) m = store_bytes (p + 1) bs (m(p := b))"

text \<open>The bytes of a converted number in a local variable.\<close>

definition cell_bytes :: "u32 \<Rightarrow> u8 list" where
  "cell_bytes val = (let tmp = cpu_to_fdt32 val in map (\<lambda>i. ucast (drop_bit (8 * i) tmp)) [0..<4])"

definition cells2_bytes :: "u64 \<Rightarrow> u8 list" where
  "cells2_bytes val = (let tmp = cpu_to_fdt64 val in map (\<lambda>i. ucast (drop_bit (8 * i) tmp)) [0..<8])"

definition fdt_setprop_inplace_namelen_partial ::
  "u64 \<Rightarrow> u32 \<Rightarrow> u8 list \<Rightarrow> u32 \<Rightarrow> u8 list \<Rightarrow> mem \<Rightarrow> u32 \<times> mem" where
  "fdt_setprop_inplace_namelen_partial fdt nodeoffset name idx val m =
     (case fdt_getprop_namelen m fdt nodeoffset name of (propval, proplen) \<Rightarrow>
        if propval = 0 then (proplen, m)
        else if proplen < of_nat (length val) + idx then (- FDT_ERR_NOSPACE, m)
        else (0, store_bytes (propval + ucast idx) val m))"

definition fdt_setprop_inplace :: "u64 \<Rightarrow> u32 \<Rightarrow> u8 list \<Rightarrow> u8 list \<Rightarrow> mem \<Rightarrow> u32 \<times> mem" where
  "fdt_setprop_inplace fdt nodeoffset name val m =
     (case fdt_getprop m fdt nodeoffset name of (propval, proplen) \<Rightarrow>
        if propval = 0 then (proplen, m)
        else if proplen \<noteq> of_nat (length val) then (- FDT_ERR_NOSPACE, m)
        else fdt_setprop_inplace_namelen_partial fdt nodeoffset name 0 val m)"

definition fdt_setprop_inplace_u32 :: "u64 \<Rightarrow> u32 \<Rightarrow> u8 list \<Rightarrow> u32 \<Rightarrow> mem \<Rightarrow> u32 \<times> mem" where
  "fdt_setprop_inplace_u32 fdt nodeoffset name val m =
     fdt_setprop_inplace fdt nodeoffset name (cell_bytes val) m"

definition fdt_setprop_inplace_u64 :: "u64 \<Rightarrow> u32 \<Rightarrow> u8 list \<Rightarrow> u64 \<Rightarrow> mem \<Rightarrow> u32 \<times> mem" where
  "fdt_setprop_inplace_u64 fdt nodeoffset name val m =
     fdt_setprop_inplace fdt nodeoffset name (cells2_bytes val) m"

definition fdt_setprop_inplace_cell :: "u64 \<Rightarrow> u32 \<Rightarrow> u8 list \<Rightarrow> u32 \<Rightarrow> mem \<Rightarrow> u32 \<times> mem" where
  "fdt_setprop_inplace_cell fdt nodeoffset name val m =
     fdt_setprop_inplace_u32 fdt nodeoffset name val m"

text \<open>\<open>p < start + len\<close> as addresses, one tag at a time.\<close>

partial_function (option) nop_region_loop :: "u64 \<Rightarrow> u64 \<Rightarrow> mem \<Rightarrow> mem option" where
  "nop_region_loop p stop m =
     (if p < stop then nop_region_loop (p + 4) stop (st32 m p (cpu_to_fdt32 FDT_NOP)) else Some m)"

definition fdt_nop_region_priv :: "u64 \<Rightarrow> u32 \<Rightarrow> mem \<Rightarrow> mem option" where
  "fdt_nop_region_priv start len m = nop_region_loop start (start + scast len) m"

definition fdt_nop_property :: "u64 \<Rightarrow> u32 \<Rightarrow> u8 list \<Rightarrow> mem \<Rightarrow> (u32 \<times> mem) option" where
  "fdt_nop_property fdt nodeoffset name m =
     (case fdt_get_property m fdt nodeoffset name of (prop, len) \<Rightarrow>
        if prop = 0 then Some (len, m)
        else map_option (\<lambda>m. (0, m)) (fdt_nop_region_priv prop (len + 12) m))"

function node_end_loop :: "mem \<Rightarrow> u64 \<Rightarrow> u32 \<Rightarrow> u32 option \<Rightarrow> u32" where
  "node_end_loop m fdt offset depth =
     (if \<not> offset <s 0 \<and> \<not> the depth <s 0 then
        node_end_loop m fdt (fst (fdt_next_node m fdt offset depth))
          (snd (fdt_next_node m fdt offset depth))
      else offset)"
  by pat_completeness auto
termination
  by (relation "measure (\<lambda>(m, fdt, offset, depth). offsets_left offset)")
    (simp_all add: case_prod_unfold fdt_next_node_left [OF _ surjective_pairing])

declare node_end_loop.simps [simp del]

definition fdt_node_end_offset_priv :: "mem \<Rightarrow> u64 \<Rightarrow> u32 \<Rightarrow> u32" where
  "fdt_node_end_offset_priv m fdt offset = node_end_loop m fdt offset (Some 0)"

definition fdt_nop_node :: "u64 \<Rightarrow> u32 \<Rightarrow> mem \<Rightarrow> (u32 \<times> mem) option" where
  "fdt_nop_node fdt nodeoffset m =
     (let endoffset = fdt_node_end_offset_priv m fdt nodeoffset
      in if endoffset <s 0 then Some (endoffset, m)
         else map_option (\<lambda>m. (0, m))
                (fdt_nop_region_priv (fdt_offset_ptr m fdt nodeoffset 0) (endoffset - nodeoffset) m))"

section \<open>Error texts\<close>

definition fdt_errtable :: "string option list" where
  "fdt_errtable =
     [None, Some ''FDT_ERR_NOTFOUND'', Some ''FDT_ERR_EXISTS'', Some ''FDT_ERR_NOSPACE'',
      Some ''FDT_ERR_BADOFFSET'', Some ''FDT_ERR_BADPATH'', Some ''FDT_ERR_BADPHANDLE'',
      Some ''FDT_ERR_BADSTATE'', Some ''FDT_ERR_TRUNCATED'', Some ''FDT_ERR_BADMAGIC'',
      Some ''FDT_ERR_BADVERSION'', Some ''FDT_ERR_BADSTRUCTURE'', Some ''FDT_ERR_BADLAYOUT'',
      Some ''FDT_ERR_INTERNAL'', Some ''FDT_ERR_BADNCELLS'', Some ''FDT_ERR_BADVALUE'',
      Some ''FDT_ERR_BADOVERLAY'', Some ''FDT_ERR_NOPHANDLES'', Some ''FDT_ERR_BADFLAGS'',
      Some ''FDT_ERR_ALIGNMENT'']"

definition FDT_ERRTABSIZE :: u32 where "FDT_ERRTABSIZE = of_nat (length fdt_errtable)"

definition fdt_strerror :: "u32 \<Rightarrow> string" where
  "fdt_strerror errval =
     (if 0 <s errval then ''<valid offset/length>''
      else if errval = 0 then ''<no error>''
      else if - errval <s FDT_ERRTABSIZE then
        (case (if unat (- errval) < length fdt_errtable then fdt_errtable ! unat (- errval) else None) of
           Some s \<Rightarrow> s | None \<Rightarrow> ''<unknown error>'')
      else ''<unknown error>'')"

end
