(* ===== verification/Fdt_Correct.thy ===== *)
theory Fdt_Correct
  imports Dtb Fdt_Edit
begin

text \<open>
  What the device tree library guarantees: byte order, the bounds of every offset it turns into a
  pointer, the order in which its walk visits the nodes, and that each search, its own and the
  kernel's, finds the first node of that walk that qualifies.
\<close>

section \<open>Byte order\<close>

lemma low_byte: "ucast ((x :: u32) AND 0xFF) = (ucast x :: u8)" "ucast ((y :: u64) AND 0xFF) = (ucast y :: u8)"
proof -
  have "(0xFF :: u32) = mask 8" "(0xFF :: u64) = mask 8" by (simp_all add: mask_eq_exp_minus_1)
  then show "ucast (x AND 0xFF) = (ucast x :: u8)" "ucast (y AND 0xFF) = (ucast y :: u8)"
    by (auto intro!: bit_word_eqI simp only: bit_simps) auto
qed

lemma no_bit_u8: "8 \<le> n \<Longrightarrow> \<not> bit (x :: u8) n"
  using bit_imp_le_length [of x n] by auto

lemma bit_u8: "bit (x :: u8) n \<Longrightarrow> n < 8"
  using no_bit_u8 [of n x] by fastforce

text \<open>A word is the join of its bytes.\<close>

lemma join_bytes_32:
  "push_bit 24 (ucast (ucast (drop_bit 24 v) :: u8)) OR push_bit 16 (ucast (ucast (drop_bit 16 v) :: u8)) OR
   push_bit 8 (ucast (ucast (drop_bit 8 v) :: u8)) OR ucast (ucast v :: u8) = (v :: u32)"
  (is "?join = v")
proof (rule bit_word_eqI)
  fix n assume "n < LENGTH(32)"
  then have "n < 8 \<or> 8 \<le> n \<and> n < 16 \<or> 16 \<le> n \<and> n < 24 \<or> 24 \<le> n \<and> n < 32"
    by auto
  then show "bit ?join n \<longleftrightarrow> bit v n"
    by (elim disjE conjE) (simp_all add: bit_simps less_diff_conv2)
qed

lemma join_bytes_64:
  "push_bit 56 (ucast (ucast (drop_bit 56 v) :: u8)) OR push_bit 48 (ucast (ucast (drop_bit 48 v) :: u8)) OR
   push_bit 40 (ucast (ucast (drop_bit 40 v) :: u8)) OR push_bit 32 (ucast (ucast (drop_bit 32 v) :: u8)) OR
   push_bit 24 (ucast (ucast (drop_bit 24 v) :: u8)) OR push_bit 16 (ucast (ucast (drop_bit 16 v) :: u8)) OR
   push_bit 8 (ucast (ucast (drop_bit 8 v) :: u8)) OR ucast (ucast v :: u8) = (v :: u64)"
  (is "?join = v")
proof (rule bit_word_eqI)
  fix n assume "n < LENGTH(64)"
  then have "n < 8 \<or> 8 \<le> n \<and> n < 16 \<or> 16 \<le> n \<and> n < 24 \<or> 24 \<le> n \<and> n < 32 \<or>
      32 \<le> n \<and> n < 40 \<or> 40 \<le> n \<and> n < 48 \<or> 48 \<le> n \<and> n < 56 \<or> 56 \<le> n \<and> n < 64"
    by auto
  then show "bit ?join n \<longleftrightarrow> bit v n"
    by (elim disjE conjE) (simp_all add: bit_simps less_diff_conv2)
qed

lemma ld_st_32: "fdt32_ld (fdt32_st p v m) p = v"
  using join_bytes_32 [of v] by (simp add: fdt32_ld_def fdt32_st_def low_byte)

lemma ld_st_64: "fdt64_ld (fdt64_st p v m) p = v"
  using join_bytes_64 [of v] by (simp add: fdt64_ld_def fdt64_st_def low_byte)

text \<open>The bytes of a native load, and the conversions that reverse them.\<close>

lemma bytes_ld32:
  "ucast (ld32 m p) = m p" "ucast (drop_bit 8 (ld32 m p)) = m (p + 1)"
  "ucast (drop_bit 16 (ld32 m p)) = m (p + 2)" "ucast (drop_bit 24 (ld32 m p)) = m (p + 3)"
  by (auto intro!: bit_word_eqI simp: ld32_def bit_simps no_bit_u8)

lemma native_32: "fdt32_ld_priv m p = fdt32_ld m p"
proof (rule bit_word_eqI)
  fix n assume "n < LENGTH(32)"
  then have "n < 8 \<or> 8 \<le> n \<and> n < 16 \<or> 16 \<le> n \<and> n < 24 \<or> 24 \<le> n \<and> n < 32"
    by auto
  then show "bit (fdt32_ld_priv m p) n \<longleftrightarrow> bit (fdt32_ld m p) n"
    unfolding fdt32_ld_priv_def fdt32_to_cpu_def CPU_TO_FDT32_def EXTRACT_BYTE_def fdt32_ld_def
    by (elim disjE conjE) (simp_all add: bytes_ld32 bit_simps less_diff_conv2 no_bit_u8)
qed

lemma bytes_ld64:
  "ucast (ld64 m p) = m p" "ucast (drop_bit 8 (ld64 m p)) = m (p + 1)"
  "ucast (drop_bit 16 (ld64 m p)) = m (p + 2)" "ucast (drop_bit 24 (ld64 m p)) = m (p + 3)"
  "ucast (drop_bit 32 (ld64 m p)) = m (p + 4)" "ucast (drop_bit 40 (ld64 m p)) = m (p + 5)"
  "ucast (drop_bit 48 (ld64 m p)) = m (p + 6)" "ucast (drop_bit 56 (ld64 m p)) = m (p + 7)"
  by (auto intro!: bit_word_eqI simp: ld64_def bit_simps no_bit_u8)

lemma native_64: "fdt64_ld_priv m p = fdt64_ld m p"
  unfolding fdt64_ld_priv_def fdt64_to_cpu_def CPU_TO_FDT64_def EXTRACT_BYTE_def fdt64_ld_def
  by (simp add: bytes_ld64)

lemma ucast_mask_byte: "ucast (ucast (x :: u32) :: u8) = x AND 0xFF"
proof -
  have "(0xFF :: u32) = mask 8" by (simp add: mask_eq_exp_minus_1)
  then show ?thesis
    by (auto intro!: bit_word_eqI simp only: bit_simps) auto
qed

lemma native_cpu: "be32_to_cpu x = fdt32_to_cpu x"
proof (rule bit_word_eqI)
  have masks: "(0xFF00 :: u32) = push_bit 8 (mask 8)" "(0xFF0000 :: u32) = push_bit 16 (mask 8)"
    "(0xFF000000 :: u32) = push_bit 24 (mask 8)" "(0xFF :: u32) = mask 8"
    by (simp_all add: mask_eq_exp_minus_1)
  fix n assume "n < LENGTH(32)"
  then have "n < 8 \<or> 8 \<le> n \<and> n < 16 \<or> 16 \<le> n \<and> n < 24 \<or> 24 \<le> n \<and> n < 32"
    by auto
  then show "bit (be32_to_cpu x) n \<longleftrightarrow> bit (fdt32_to_cpu x) n"
    unfolding be32_to_cpu_def masks fdt32_to_cpu_def CPU_TO_FDT32_def EXTRACT_BYTE_def
    by (elim disjE conjE) (simp_all add: bit_simps less_diff_conv2 del: push_bit_numeral)
qed

section \<open>Headers and offsets\<close>

lemma check_block_nat:
  "check_block_priv h t b s \<longleftrightarrow> unat h \<le> unat b \<and> unat b + unat s \<le> unat t"
proof (cases "b + s < b")
  case True
  then have "\<not> unat b + unat s < 4294967296"
    using unat_add_32 [of b s] by (auto simp: word_less_nat_alt)
  with True show ?thesis
    using unat_lt_32 [of t] by (auto simp: check_block_priv_def check_off_priv_def)
next
  case False
  from no_overflow_32 [OF False] show ?thesis
    using False by (auto simp: check_block_priv_def check_off_priv_def word_le_nat_alt)
qed

lemma header_size_small: "unat (fdt_header_size m fdt) \<le> 40" "28 \<le> unat (fdt_header_size m fdt)"
  by (auto simp: fdt_header_size_def fdt_header_size_priv_def FDT_V1_SIZE_def FDT_V2_SIZE_def
      FDT_V3_SIZE_def FDT_V16_SIZE_def FDT_V17_SIZE_def)

lemma ptr_overflow:
  fixes a b c t :: u32
  shows "(a + b < a \<or> a + b + c < a + b \<or> a + b + c > t) \<longleftrightarrow> unat t < unat a + unat b + unat c"
proof (cases "a + b < a \<or> a + b + c < a + b")
  case True
  then have "\<not> unat a + unat b + unat c < 4294967296"
    using unat_add_32 [of a b] unat_add_32 [of "a + b" c] by (auto simp: word_less_nat_alt)
  with True show ?thesis using unat_lt_32 [of t] by auto
next
  case False
  with no_overflow_32 [of a b] no_overflow_32 [of "a + b" c] show ?thesis
    by (auto simp: word_less_nat_alt)
qed

lemma block_overflow:
  fixes a c t :: u32
  shows "(a + c < a \<or> a + c > t) \<longleftrightarrow> unat t < unat a + unat c"
  using ptr_overflow [of a 0 c t] by simp

lemma offset_ptr_exact:
  "fdt_offset_ptr m fdt offset len =
     (if unat offset < 2 ^ 31 \<and>
         unat (fdt_off_dt_struct m fdt) + unat offset + unat len \<le> unat (fdt_totalsize m fdt) \<and>
         (fdt_version m fdt \<ge> 17 \<longrightarrow> unat offset + unat len \<le> unat (fdt_size_dt_struct m fdt))
      then fdt + of_nat (unat (fdt_off_dt_struct m fdt) + unat offset) else 0)"
proof (cases "offset <s 0")
  case True
  then have "\<not> unat offset < 2147483648" using nonneg_iff [of offset] by simp
  with True show ?thesis by (simp add: fdt_offset_ptr_def)
next
  case False
  then have "unat offset < 2147483648" using nonneg_iff [of offset] by simp
  with False scast_nonneg [OF False] show ?thesis
    unfolding fdt_offset_ptr_def Let_def ptr_overflow [of offset "fdt_off_dt_struct m fdt"]
      block_overflow [of offset len "fdt_size_dt_struct m fdt"] fdt_offset_ptr_priv_def
    by (auto simp: not_less add.commute [of "unat offset"])
qed

section \<open>The walk over the tree\<close>

text \<open>
  The tags of the structure block from an offset on, and the nodes among them: the offsets at which
  a node begins, in the order of the block, which is the order of the tree.
\<close>

function tags_from :: "mem \<Rightarrow> u64 \<Rightarrow> u32 \<Rightarrow> (u32 \<times> u32) list" where
  "tags_from m fdt offset =
     (case fdt_next_tag m fdt offset of (tag, nextoffset) \<Rightarrow>
        if tag = FDT_END then [] else (offset, tag) # tags_from m fdt nextoffset)"
  by pat_completeness auto
termination
  by (relation "measure (\<lambda>(m, fdt, offset). offsets_left offset)") (auto intro: fdt_next_tag_left [OF sym])

declare tags_from.simps [simp del]

definition nodes_from :: "mem \<Rightarrow> u64 \<Rightarrow> u32 \<Rightarrow> u32 list" where
  "nodes_from m fdt offset = map fst (filter (\<lambda>(offset, tag). tag = FDT_BEGIN_NODE) (tags_from m fdt offset))"

lemma nodes_from_tag:
  assumes "fdt_next_tag m fdt offset = (tag, next_offset)"
  shows "nodes_from m fdt offset =
    (if tag = FDT_END then [] else if tag = FDT_BEGIN_NODE then offset # nodes_from m fdt next_offset
     else nodes_from m fdt next_offset)"
  by (simp add: nodes_from_def tags_from.simps [of m fdt offset] assms)

text \<open>Without a depth the loop of \<^verbatim>\<open>fdt_next_node\<close> returns the first of them.\<close>

lemma next_node_loop_first:
  "case nodes_from m fdt offset of
     [] \<Rightarrow> fst (next_node_loop m fdt offset None) <s 0
   | n # ns \<Rightarrow> fst (next_node_loop m fdt offset None) = n"
proof (induction m fdt offset "None :: u32 option" rule: next_node_loop.induct)
  case (1 m fdt offset)
  obtain tag next_offset where t: "fdt_next_tag m fdt offset = (tag, next_offset)"
    by (cases "fdt_next_tag m fdt offset")
  note unfold = next_node_loop.simps [of m fdt offset None] nodes_from_tag [OF t]
  consider "tag = FDT_BEGIN_NODE" | "tag = FDT_END" | "tag = FDT_END_NODE"
    | "tag \<notin> {FDT_BEGIN_NODE, FDT_END, FDT_END_NODE}" by blast
  then show ?case
  proof cases
    case 3
    with 1(1) [OF t [symmetric]] show ?thesis
      by (simp add: unfold t tag_values split: list.splits)
  next
    case 4
    with 1(2) [OF t [symmetric]] show ?thesis
      by (simp add: unfold t split: list.splits)
  qed (simp_all add: unfold t tag_values)
qed

lemma nodes_from_Cons:
  assumes "nodes_from m fdt offset = n # ns" and "4 dvd unat offset"
  shows "fst (fdt_next_tag m fdt n) = FDT_BEGIN_NODE \<and> \<not> n <s 0 \<and> 4 dvd unat n \<and> unat offset \<le> unat n \<and>
    ns = nodes_from m fdt (snd (fdt_next_tag m fdt n)) \<and> 4 dvd unat (snd (fdt_next_tag m fdt n))"
  using assms
proof (induction m fdt offset rule: tags_from.induct)
  case (1 m fdt offset)
  obtain tag next_offset where t: "fdt_next_tag m fdt offset = (tag, next_offset)"
    by (cases "fdt_next_tag m fdt offset")
  have tag: "tag \<noteq> FDT_END" using "1.prems"(1) by (auto simp: nodes_from_tag [OF t])
  have P: "\<not> offset <s 0 \<and> unat offset \<le> unat next_offset \<and> 4 dvd unat next_offset"
    by (rule fdt_next_tag_progress [OF t tag]) auto
  show ?case
  proof (cases "tag = FDT_BEGIN_NODE")
    case True
    with "1.prems" P t tag show ?thesis by (auto simp: nodes_from_tag [OF t])
  next
    case False
    with "1.prems"(1) tag have "nodes_from m fdt next_offset = n # ns"
      by (simp add: nodes_from_tag [OF t])
    with "1.IH" [OF t [symmetric] tag] P show ?thesis by auto
  qed
qed

text \<open>From one node \<^verbatim>\<open>fdt_next_node\<close> goes to the next one.\<close>

lemma next_node_step:
  assumes "nodes_from m fdt offset = n # ns" and "4 dvd unat offset"
  shows "case ns of [] \<Rightarrow> fst (fdt_next_node m fdt n None) <s 0
    | n' # _ \<Rightarrow> fst (fdt_next_node m fdt n None) = n'"
proof -
  obtain tag next_offset where t: "fdt_next_tag m fdt n = (tag, next_offset)"
    by (cases "fdt_next_tag m fdt n")
  with nodes_from_Cons [OF assms] have N: "tag = FDT_BEGIN_NODE" "\<not> n <s 0" "4 dvd unat n"
    "ns = nodes_from m fdt next_offset"
    by auto
  have "n mod FDT_TAGSIZE = 0"
    using N(3) by (simp add: FDT_TAGSIZE_def word_unat_eq_iff unat_mod_distrib)
  then have check: "fdt_check_node_offset_priv m fdt n = next_offset"
    using N t by (simp add: fdt_check_node_offset_priv_def)
  show ?thesis
  proof (cases "next_offset <s 0")
    case True
    then have "fdt_offset_ptr m fdt next_offset FDT_TAGSIZE = 0"
      by (simp add: fdt_offset_ptr_def)
    then have "nodes_from m fdt next_offset = []"
      by (simp add: nodes_from_def tags_from.simps [of m fdt next_offset] fdt_next_tag_def)
    with True check N(2,4) show ?thesis by (simp add: fdt_next_node_def)
  next
    case False
    with next_node_loop_first [of m fdt next_offset] check N(2,4) show ?thesis
      by (simp add: fdt_next_node_def split: list.splits)
  qed
qed

lemma first_node:
  "case nodes_from m fdt 0 of [] \<Rightarrow> fst (fdt_next_node m fdt (- 1) None) <s 0
   | n # _ \<Rightarrow> fst (fdt_next_node m fdt (- 1) None) = n"
proof -
  have "(- 1 :: u32) <s 0" by code_simp
  then have start: "fdt_next_node m fdt (- 1) None = next_node_loop m fdt 0 None"
    by (simp add: fdt_next_node_def)
  show ?thesis
    unfolding start by (rule next_node_loop_first)
qed

section \<open>Searches\<close>

fun first_some :: "('a \<Rightarrow> 'b option) \<Rightarrow> 'a list \<Rightarrow> 'b option" where
  "first_some f [] = None"
| "first_some f (x # xs) = (case f x of Some r \<Rightarrow> Some r | None \<Rightarrow> first_some f xs)"

text \<open>
  The interface of every search: a loop that takes the result of the last \<^verbatim>\<open>fdt_next_node\<close> (a node or
  an error), checks the node and goes on to the next one.
\<close>

locale node_search =
  fixes m :: mem and fdt :: u64 and check :: "u32 \<Rightarrow> 'r option" and missed :: "u32 \<Rightarrow> 'r"
    and scan :: "u32 \<Rightarrow> 'r"
  assumes scan: "scan offset =
    (if \<not> offset <s 0 then
       (case check offset of Some r \<Rightarrow> r | None \<Rightarrow> scan (fst (fdt_next_node m fdt offset None)))
     else missed offset)"
begin

lemma scan_first:
  assumes "nodes_from m fdt offset = n # ns" and "4 dvd unat offset"
  shows "case first_some check (n # ns) of Some r \<Rightarrow> scan n = r | None \<Rightarrow> (\<exists>e. e <s 0 \<and> scan n = missed e)"
  using assms
proof (induction ns arbitrary: n offset)
  case (Cons n' ns)
  let ?next = "snd (fdt_next_tag m fdt n)"
  have N: "\<not> n <s 0" "nodes_from m fdt ?next = n' # ns" "4 dvd unat ?next"
    using nodes_from_Cons [OF Cons.prems] by auto
  have "fst (fdt_next_node m fdt n None) = n'"
    using next_node_step [OF Cons.prems] by simp
  then have "scan n = (case check n of Some r \<Rightarrow> r | None \<Rightarrow> scan n')"
    using N(1) by (subst scan) (simp split: option.split)
  moreover have "first_some check (n # n' # ns) =
      (case check n of Some r \<Rightarrow> Some r | None \<Rightarrow> first_some check (n' # ns))"
    by simp
  ultimately show ?case
    using Cons.IH [OF N(2,3)]
    by (cases "check n"; cases "first_some check (n' # ns)") (simp_all del: first_some.simps)
next
  case Nil
  have "\<not> n <s 0" "fst (fdt_next_node m fdt n None) <s 0"
    using nodes_from_Cons [OF Nil] next_node_step [OF Nil] by auto
  moreover from this(2) have "scan (fst (fdt_next_node m fdt n None)) =
      missed (fst (fdt_next_node m fdt n None))"
    by (subst scan) simp
  ultimately have "scan n = (case check n of Some r \<Rightarrow> r | None \<Rightarrow> missed (fst (fdt_next_node m fdt n None)))"
    by (subst scan) (simp split: option.split)
  with \<open>fst (fdt_next_node m fdt n None) <s 0\<close> show ?case
    by (cases "check n") auto
qed

lemma search_all:
  "case first_some check (nodes_from m fdt 0) of
     Some r \<Rightarrow> scan (fst (fdt_next_node m fdt (- 1) None)) = r
   | None \<Rightarrow> (\<exists>e. e <s 0 \<and> scan (fst (fdt_next_node m fdt (- 1) None)) = missed e)"
proof (cases "nodes_from m fdt 0")
  case Nil
  with first_node [of m fdt] have "fst (fdt_next_node m fdt (- 1) None) <s 0" by simp
  moreover from this have "scan (fst (fdt_next_node m fdt (- 1) None)) =
      missed (fst (fdt_next_node m fdt (- 1) None))"
    by (subst scan) simp
  ultimately show ?thesis
    using Nil by auto
next
  case (Cons n ns)
  with first_node [of m fdt] have start: "fst (fdt_next_node m fdt (- 1) None) = n" by simp
  show ?thesis
    unfolding start Cons using scan_first [OF Cons] by simp
qed

end

lemma first_some_find: "first_some (\<lambda>x. if P x then Some x else None) xs = find P xs"
  by (induction xs) auto

lemma find_member: "find P xs = Some k \<Longrightarrow> k \<in> set xs \<and> P k"
  by (induction xs) (auto split: if_splits)

lemma first_some_map: "first_some (\<lambda>x. map_option g (f x)) xs = map_option g (first_some f xs)"
  by (induction xs) (auto split: option.split)

interpretation memory: node_search m dtb "\<lambda>n. if is_memory_node m dtb n then Some n else None"
  "\<lambda>_. - 1" "memory_node_loop m dtb"
  for m dtb
  by unfold_locales (subst memory_node_loop.simps, simp)

interpretation uart: node_search m dtb "\<lambda>n. map_option (Pair True) (uart_node_base m dtb cells n)"
  "\<lambda>_. (False, 0)" "uart_node_loop m dtb cells"
  for m dtb cells
  by unfold_locales (subst uart_node_loop.simps, simp split: option.split)

interpretation phandle: node_search m fdt "\<lambda>n. if fdt_get_phandle m fdt n = ph then Some n else None"
  "\<lambda>e. e" "\<lambda>offset. phandle_loop m fdt offset ph"
  for m fdt ph
  by unfold_locales (subst phandle_loop.simps, simp)

definition has_value :: "mem \<Rightarrow> u64 \<Rightarrow> u8 list \<Rightarrow> u8 list \<Rightarrow> u32 \<Rightarrow> bool" where
  "has_value m fdt name val n =
     (case fdt_getprop m fdt n name of (p, len) \<Rightarrow> p \<noteq> 0 \<and> len = of_nat (length val) \<and> bytes_at m p val)"

interpretation by_value: node_search m fdt "\<lambda>n. if has_value m fdt name val n then Some n else None"
  "\<lambda>e. e" "\<lambda>offset. prop_value_loop m fdt offset name val"
  for m fdt name val
  by unfold_locales (subst prop_value_loop.simps, simp add: has_value_def split: prod.split)

text \<open>The compatible search stops at an error other than a missing property too.\<close>

definition compatible_check :: "mem \<Rightarrow> u64 \<Rightarrow> u8 list \<Rightarrow> u32 \<Rightarrow> u32 option" where
  "compatible_check m fdt str n =
     (let err = fdt_node_check_compatible m fdt n str
      in if err <s 0 \<and> err \<noteq> - FDT_ERR_NOTFOUND then Some err else if err = 0 then Some n else None)"

interpretation compatible: node_search m fdt "compatible_check m fdt str"
  "\<lambda>e. e" "\<lambda>offset. compatible_loop m fdt offset str"
  for m fdt str
  by unfold_locales (subst compatible_loop.simps, simp add: compatible_check_def Let_def)

section \<open>Properties of a node\<close>

text \<open>The offsets of the properties from an offset on, up to the first tag that is neither one nor a \<open>FDT_NOP\<close>.\<close>

function props_from :: "mem \<Rightarrow> u64 \<Rightarrow> u32 \<Rightarrow> u32 list" where
  "props_from m fdt offset =
     (case fdt_next_tag m fdt offset of (tag, nextoffset) \<Rightarrow>
        if tag = FDT_PROP then offset # props_from m fdt nextoffset
        else if tag = FDT_NOP then props_from m fdt nextoffset else [])"
  by pat_completeness auto
termination
  by (relation "measure (\<lambda>(m, fdt, offset). offsets_left offset)")
    (auto intro: fdt_next_tag_left [OF sym] simp: tag_values)

declare props_from.simps [simp del]

lemma nextprop_first:
  "case props_from m fdt offset of [] \<Rightarrow> nextprop_priv m fdt offset <s 0
   | n # ns \<Rightarrow> nextprop_priv m fdt offset = n"
proof (induction m fdt offset rule: props_from.induct)
  case (1 m fdt offset)
  obtain tag next_offset where t: "fdt_next_tag m fdt offset = (tag, next_offset)"
    by (cases "fdt_next_tag m fdt offset")
  note unfold = nextprop_priv.simps [of m fdt offset] props_from.simps [of m fdt offset] t
  consider "tag = FDT_PROP" | "tag = FDT_NOP" | "tag \<notin> {FDT_PROP, FDT_NOP}" by blast
  then show ?case
  proof cases
    case 2
    with 1(2) [OF t [symmetric]] show ?thesis
      by (simp add: unfold tag_values split: list.splits)
  qed (simp_all add: unfold tag_values)
qed

lemma props_from_Cons:
  assumes "props_from m fdt offset = n # ns" and "4 dvd unat offset"
  shows "fst (fdt_next_tag m fdt n) = FDT_PROP \<and> \<not> n <s 0 \<and> 4 dvd unat n \<and>
    ns = props_from m fdt (snd (fdt_next_tag m fdt n)) \<and> 4 dvd unat (snd (fdt_next_tag m fdt n))"
  using assms
proof (induction m fdt offset rule: props_from.induct)
  case (1 m fdt offset)
  obtain tag next_offset where t: "fdt_next_tag m fdt offset = (tag, next_offset)"
    by (cases "fdt_next_tag m fdt offset")
  have tag: "tag = FDT_PROP \<or> tag = FDT_NOP"
    using "1.prems"(1) by (auto simp: props_from.simps [of m fdt offset] t split: if_splits)
  then have "tag \<noteq> FDT_END" by (auto simp: tag_values)
  then have P: "\<not> offset <s 0 \<and> 4 dvd unat next_offset"
    by (rule fdt_next_tag_progress [OF t]) auto
  show ?case
  proof (cases "tag = FDT_PROP")
    case True
    with "1.prems" P t show ?thesis by (auto simp: props_from.simps [of m fdt offset])
  next
    case False
    with tag "1.prems"(1) have "props_from m fdt next_offset = n # ns" "tag = FDT_NOP"
      by (simp_all add: props_from.simps [of m fdt offset] t)
    with "1.IH"(2) [OF t [symmetric] False] P show ?thesis by auto
  qed
qed

lemma props_from_member:
  assumes "n \<in> set (props_from m fdt offset)" and "4 dvd unat offset"
  shows "fst (fdt_next_tag m fdt n) = FDT_PROP"
  using assms
proof (induction "props_from m fdt offset" arbitrary: offset)
  case (Cons a ns)
  from props_from_Cons [OF Cons.hyps(2) [symmetric] Cons.prems(2)] Cons.hyps(1)
    [of "snd (fdt_next_tag m fdt a)"] Cons.hyps(2) [symmetric] Cons.prems(1) show ?case
    by auto
qed simp

lemma check_prop:
  assumes "props_from m fdt offset = n # ns" and "4 dvd unat offset"
  shows "fdt_check_prop_offset_priv m fdt n = snd (fdt_next_tag m fdt n)"
proof -
  note N = props_from_Cons [OF assms]
  then have "n mod FDT_TAGSIZE = 0"
    by (simp add: FDT_TAGSIZE_def word_unat_eq_iff unat_mod_distrib)
  with N show ?thesis
    by (cases "fdt_next_tag m fdt n") (simp add: fdt_check_prop_offset_priv_def)
qed

text \<open>A blob whose header is in order and which does not run past the end of the address space.\<close>

definition valid_blob :: "mem \<Rightarrow> u64 \<Rightarrow> bool" where
  "valid_blob m fdt \<longleftrightarrow> fdt_check_header m fdt = 0 \<and> unat fdt + unat (fdt_totalsize m fdt) < 2 ^ 64"

lemma check_header_blocks:
  assumes "fdt_check_header m fdt = 0"
  shows "fdt AND 7 = 0" "unat (fdt_totalsize m fdt) < 2 ^ 31"
    "unat (fdt_header_size m fdt) \<le> unat (fdt_off_mem_rsvmap m fdt)"
    "unat (fdt_off_mem_rsvmap m fdt) \<le> unat (fdt_totalsize m fdt)"
    "unat (fdt_header_size m fdt) \<le> unat (fdt_off_dt_struct m fdt)"
    "unat (fdt_off_dt_struct m fdt) + (if fdt_version m fdt \<ge> 17 then unat (fdt_size_dt_struct m fdt) else 0)
       \<le> unat (fdt_totalsize m fdt)"
    "unat (fdt_header_size m fdt) \<le> unat (fdt_off_dt_strings m fdt)"
    "unat (fdt_off_dt_strings m fdt) + unat (fdt_size_dt_strings m fdt) \<le> unat (fdt_totalsize m fdt)"
    "fdt_ro_probe_priv m fdt = fdt_totalsize m fdt \<or> fdt_totalsize m fdt = INT_MAX"
    "2 \<le> fdt_version m fdt \<and> fdt_last_comp_version m fdt \<le> 17"
proof -
  have h: "unat (ucast (fdt_header_size m fdt) :: u32) = unat (fdt_header_size m fdt)"
    using header_size_small [of m fdt] by (simp add: unsigned_ucast_eq take_bit_nat_eq_self)
  have e: "- FDT_ERR_ALIGNMENT \<noteq> 0" "- FDT_ERR_BADMAGIC \<noteq> 0" "- FDT_ERR_BADVERSION \<noteq> 0"
    "- FDT_ERR_TRUNCATED \<noteq> 0"
    by (simp_all add: FDT_ERR_ALIGNMENT_def FDT_ERR_BADMAGIC_def FDT_ERR_BADVERSION_def FDT_ERR_TRUNCATED_def)
  note C = assms [unfolded fdt_check_header_def Let_def]
  show "fdt AND 7 = 0" using C e by (simp split: if_splits)
  show "unat (fdt_totalsize m fdt) < 2 ^ 31"
    using C e by (simp add: INT_MAX_def word_le_nat_alt not_less split: if_splits)
  show "unat (fdt_header_size m fdt) \<le> unat (fdt_off_mem_rsvmap m fdt)"
    "unat (fdt_off_mem_rsvmap m fdt) \<le> unat (fdt_totalsize m fdt)"
    "unat (fdt_header_size m fdt) \<le> unat (fdt_off_dt_strings m fdt)"
    "unat (fdt_off_dt_strings m fdt) + unat (fdt_size_dt_strings m fdt) \<le> unat (fdt_totalsize m fdt)"
    using C e h by (simp_all add: check_off_priv_def check_block_nat word_le_nat_alt split: if_splits)
  show "unat (fdt_header_size m fdt) \<le> unat (fdt_off_dt_struct m fdt)"
    "unat (fdt_off_dt_struct m fdt) + (if fdt_version m fdt \<ge> 17 then unat (fdt_size_dt_struct m fdt) else 0)
       \<le> unat (fdt_totalsize m fdt)"
    using C e h by (auto simp: check_off_priv_def check_block_nat word_le_nat_alt word_less_nat_alt not_less split: if_splits)
  show "fdt_ro_probe_priv m fdt = fdt_totalsize m fdt \<or> fdt_totalsize m fdt = INT_MAX"
    using C e by (auto simp: fdt_ro_probe_priv_def Let_def not_less split: if_splits)
  show "2 \<le> fdt_version m fdt \<and> fdt_last_comp_version m fdt \<le> 17"
    using C e by (auto simp: FDT_FIRST_SUPPORTED_VERSION_def FDT_LAST_SUPPORTED_VERSION_def not_less
        split: if_splits)
qed

lemma next_tag_in_blob:
  assumes "fdt_check_header m fdt = 0" and "fdt_next_tag m fdt offset = (tag, next_offset)" "tag \<noteq> FDT_END"
  shows "unat (fdt_off_dt_struct m fdt) + unat next_offset \<le> unat (fdt_totalsize m fdt) + 3"
    and "\<not> next_offset <s 0"
proof -
  obtain stop where P: "\<not> offset <s 0" "unat offset + 4 \<le> unat stop"
    "unat stop \<le> unat next_offset" "unat next_offset \<le> unat stop + 3" "unat stop < 2147483700"
    "4 dvd unat next_offset" "fdt_offset_ptr m fdt offset (stop - offset) \<noteq> 0"
    "tag = fdt32_ld_priv m (fdt_offset_ptr m fdt offset FDT_TAGSIZE)"
    "tag \<in> {FDT_BEGIN_NODE, FDT_END_NODE, FDT_PROP, FDT_NOP}"
    by (rule fdt_next_tag_progress [OF assms(2,3)]) (rule that)
  have "unat (stop - offset) = unat stop - unat offset"
    using P(2) by (simp add: unat_sub word_le_nat_alt)
  with fdt_offset_ptr_bounds(2) [OF P(7)] P(2)
  have "unat (fdt_off_dt_struct m fdt) + unat stop \<le> unat (fdt_totalsize m fdt)"
    by simp
  with P(4) show *: "unat (fdt_off_dt_struct m fdt) + unat next_offset \<le> unat (fdt_totalsize m fdt) + 3"
    by simp
  have "28 \<le> unat (fdt_off_dt_struct m fdt)" "unat (fdt_totalsize m fdt) < 2 ^ 31"
    using check_header_blocks(2,5) [OF assms(1)] header_size_small(2) [of m fdt] by simp_all
  with * show "\<not> next_offset <s 0"
    unfolding nonneg_iff by simp
qed

text \<open>The length field of a property, and the space its header, padding and value take.\<close>

definition prop_len :: "mem \<Rightarrow> u64 \<Rightarrow> u32 \<Rightarrow> u32" where
  "prop_len m fdt n = fdt32_ld_priv m (fdt_offset_ptr_priv m fdt n + 4)"

lemma prop_tag_span:
  assumes "fdt_next_tag m fdt n = (FDT_PROP, next_offset)"
  shows "fdt_offset_ptr_priv m fdt n = fdt + of_nat (unat (fdt_off_dt_struct m fdt) + unat n)"
    and "unat (fdt_off_dt_struct m fdt) + unat n + 12 + unat (prop_len m fdt n) \<le> unat (fdt_totalsize m fdt)"
    and "fdt_version m fdt < 0x10 \<Longrightarrow> 8 \<le> prop_len m fdt n \<Longrightarrow> (n + 12) mod 8 \<noteq> 0 \<Longrightarrow>
      unat (fdt_off_dt_struct m fdt) + unat n + 16 + unat (prop_len m fdt n) \<le> unat (fdt_totalsize m fdt)"
    and "\<not> prop_len m fdt n <s 0"
    and "fdt_version m fdt \<ge> 17 \<Longrightarrow>
      unat n + 12 + unat (prop_len m fdt n) \<le> unat (fdt_size_dt_struct m fdt)"
    and "unat n + 12 + unat (prop_len m fdt n) \<le> unat next_offset"
proof -
  let ?tagp = "fdt_offset_ptr m fdt n FDT_TAGSIZE" and ?o = "n + FDT_TAGSIZE"
  let ?lenp = "fdt_offset_ptr m fdt ?o 4"
  let ?len = "fdt32_ld_priv m ?lenp"
  let ?stop = "prop_stop m fdt ?o ?len"
  have ne: "FDT_PROP \<noteq> FDT_END" "FDT_PROP \<noteq> FDT_BEGIN_NODE" by (simp_all add: tag_values)
  have tagp: "?tagp \<noteq> 0" "fdt32_ld_priv m ?tagp = FDT_PROP"
    using assms ne by (auto simp: fdt_next_tag_def finish_tag_def Let_def split: if_splits prod.splits)
  with assms ne have lenp: "?lenp \<noteq> 0" and nowrap: "\<not> (INT_MAX \<le> ?len + ?o \<or> ?len + ?o < ?o)"
    and fin: "finish_tag m fdt n FDT_PROP ?stop = (FDT_PROP, next_offset)"
    by (auto simp: fdt_next_tag_def Let_def split: if_splits)
  have n: "unat n < 2147483648" "\<not> n <s 0"
    using fdt_offset_ptr_nonneg [OF tagp(1)] nonneg_iff by blast+
  then have o: "unat ?o = unat n + 4" by (simp add: FDT_TAGSIZE_def unat_add_32)
  then have "unat ?o < 2147483700" using n by simp
  note span = prop_span [OF this nowrap]
  have ptr: "fdt_offset_ptr_priv m fdt n = fdt + of_nat (unat (fdt_off_dt_struct m fdt) + unat n)"
    using scast_nonneg [OF n(2)] by (simp add: fdt_offset_ptr_priv_def)
  then show "fdt_offset_ptr_priv m fdt n = fdt + of_nat (unat (fdt_off_dt_struct m fdt) + unat n)" .
  have "?lenp = fdt_offset_ptr_priv m fdt n + 4"
    using fdt_offset_ptr_bounds(1) [OF lenp] ptr o by (simp add: add.assoc)
  then have len: "prop_len m fdt n = ?len" by (simp add: prop_len_def)
  have fits: "fdt_offset_ptr m fdt n (?stop - n) \<noteq> 0"
    using fin ne by (auto simp: finish_tag_def split: if_splits)
  have lower: "unat n + 12 + unat ?len \<le> unat ?stop"
    using span(1) [of m fdt] o by linarith
  then have "unat (?stop - n) = unat ?stop - unat n"
    by (simp add: unat_sub word_le_nat_alt)
  with fdt_offset_ptr_bounds(2) [OF fits] lower
  have total: "unat (fdt_off_dt_struct m fdt) + unat ?stop \<le> unat (fdt_totalsize m fdt)"
    by simp
  with lower show "unat (fdt_off_dt_struct m fdt) + unat n + 12 + unat (prop_len m fdt n)
      \<le> unat (fdt_totalsize m fdt)"
    unfolding len by linarith
  show "\<not> prop_len m fdt n <s 0"
    unfolding nonneg_iff len using span(3) by linarith
  show "unat n + 12 + unat (prop_len m fdt n) \<le> unat (fdt_size_dt_struct m fdt)"
    if "fdt_version m fdt \<ge> 17"
    using fdt_offset_ptr_bounds(3) [OF fits that] lower \<open>unat (?stop - n) = _\<close>
    unfolding len by linarith
  have "unat ?stop < 2147483700" using span(2) [of m fdt] span(3) by simp
  moreover have "next_offset = FDT_TAGALIGN ?stop"
    using fin ne by (auto simp: finish_tag_def split: if_splits)
  ultimately show "unat n + 12 + unat (prop_len m fdt n) \<le> unat next_offset"
    using tagalign_bounds(1) [of ?stop] lower unfolding len by simp
  show "unat (fdt_off_dt_struct m fdt) + unat n + 16 + unat (prop_len m fdt n) \<le> unat (fdt_totalsize m fdt)"
    if old: "fdt_version m fdt < 0x10" "8 \<le> prop_len m fdt n" "(n + 12) mod 8 \<noteq> 0"
  proof -
    have "?o + (12 - FDT_TAGSIZE + ?len) - ?len = n + 12"
      by (simp add: FDT_TAGSIZE_def)
    then have "?stop = ?o + (12 - FDT_TAGSIZE + ?len) + 4"
      using old unfolding len prop_stop_def Let_def by simp
    moreover have "unat (?o + (12 - FDT_TAGSIZE + ?len) + 4) = unat n + 16 + unat ?len"
      using span(3) o by (simp add: FDT_TAGSIZE_def unat_word_ariths)
    ultimately show ?thesis using total unfolding len by simp
  qed
qed

section \<open>Looking a property up\<close>

definition prop_named :: "mem \<Rightarrow> u64 \<Rightarrow> u8 list \<Rightarrow> u32 \<Rightarrow> bool" where
  "prop_named m fdt name n \<longleftrightarrow>
     fdt_string_eq_priv m fdt (fdt32_ld_priv m (fdt_offset_ptr_priv m fdt n + 8)) name"

definition node_props :: "mem \<Rightarrow> u64 \<Rightarrow> u32 \<Rightarrow> u32 list" where
  "node_props m fdt node = props_from m fdt (snd (fdt_next_tag m fdt node))"

lemma nodes_from_member:
  assumes "n \<in> set (nodes_from m fdt offset)" and "4 dvd unat offset"
  shows "fst (fdt_next_tag m fdt n) = FDT_BEGIN_NODE \<and> \<not> n <s 0 \<and> 4 dvd unat n \<and>
    4 dvd unat (snd (fdt_next_tag m fdt n)) \<and> unat offset \<le> unat n"
  using assms
proof (induction "nodes_from m fdt offset" arbitrary: offset)
  case (Cons a ns)
  note N = nodes_from_Cons [OF Cons.hyps(2) [symmetric] Cons.prems(2)]
  show ?case
  proof (cases "n = a")
    case False
    with Cons.prems(1) Cons.hyps(2) have "n \<in> set (nodes_from m fdt (snd (fdt_next_tag m fdt a)))"
      using N by (metis set_ConsD)
    moreover from N have ta: "fdt_next_tag m fdt a = (FDT_BEGIN_NODE, snd (fdt_next_tag m fdt a))"
      by (metis prod.collapse)
    have "unat a \<le> unat (snd (fdt_next_tag m fdt a))"
      by (rule fdt_next_tag_progress [OF ta]) (simp_all add: tag_values)
    ultimately show ?thesis
      using Cons.hyps(1) [of "snd (fdt_next_tag m fdt a)"] N by auto
  qed (use N in auto)
qed simp

lemma valid_prop_ptr:
  assumes "valid_blob m fdt" and "fdt_next_tag m fdt n = (FDT_PROP, next_offset)"
  shows "unat (fdt_offset_ptr_priv m fdt n) = unat fdt + unat (fdt_off_dt_struct m fdt) + unat n"
    and "fdt_offset_ptr_priv m fdt n \<noteq> 0"
proof -
  have sum: "unat fdt + (unat (fdt_off_dt_struct m fdt) + unat n) < 2 ^ 64"
    using assms(1) prop_tag_span(2) [OF assms(2)] by (simp add: valid_blob_def)
  then have k: "unat (of_nat (unat (fdt_off_dt_struct m fdt) + unat n) :: u64) =
      unat (fdt_off_dt_struct m fdt) + unat n"
    using sum by (subst unat_of_nat_64) simp_all
  show u: "unat (fdt_offset_ptr_priv m fdt n) = unat fdt + unat (fdt_off_dt_struct m fdt) + unat n"
    unfolding prop_tag_span(1) [OF assms(2)] using sum k by (simp add: unat_add_64)
  have "28 \<le> unat (fdt_off_dt_struct m fdt)"
    using assms(1) check_header_blocks(5) [of m fdt] header_size_small(2) [of m fdt]
    by (simp add: valid_blob_def)
  with u show "fdt_offset_ptr_priv m fdt n \<noteq> 0"
    by (auto simp: unat_eq_zero [symmetric])
qed

lemma property_loop_first:
  assumes "valid_blob m fdt" and "props_from m fdt offset = n # ns" "4 dvd unat offset"
  shows "\<exists>e. e <s 0 \<and> property_loop m fdt n name =
    (case find (prop_named m fdt name) (n # ns) of
       Some k \<Rightarrow> (fdt_offset_ptr_priv m fdt k, prop_len m fdt k, Some k)
     | None \<Rightarrow> (0, e, None))"
  using assms(2,3)
proof (induction ns arbitrary: n offset)
  note valid = assms(1)
  {
    fix n ns offset
    assume A: "props_from m fdt offset = n # ns" "4 dvd unat offset"
    note N = props_from_Cons [OF A]
    then have t: "fdt_next_tag m fdt n = (FDT_PROP, snd (fdt_next_tag m fdt n))"
      by (metis prod.collapse)
    have check: "fdt_check_prop_offset_priv m fdt n = snd (fdt_next_tag m fdt n)"
      using A by (rule check_prop)
    moreover have "\<not> snd (fdt_next_tag m fdt n) <s 0"
      using valid by (intro next_tag_in_blob(2) [OF _ t]) (simp_all add: valid_blob_def tag_values)
    ultimately have by_offset: "fdt_get_property_by_offset_priv m fdt n =
        (fdt_offset_ptr_priv m fdt n, prop_len m fdt n)"
      and "fdt_next_property_offset m fdt n = nextprop_priv m fdt (snd (fdt_next_tag m fdt n))"
      by (simp_all add: fdt_get_property_by_offset_priv_def prop_len_def fdt_next_property_offset_def Let_def)
    then have "property_loop m fdt n name =
        (if prop_named m fdt name n then (fdt_offset_ptr_priv m fdt n, prop_len m fdt n, Some n)
         else property_loop m fdt (nextprop_priv m fdt (snd (fdt_next_tag m fdt n))) name)"
      using N valid_prop_ptr(2) [OF valid t]
      by (subst property_loop.simps) (simp add: prop_named_def)
  } note step = this
  {
    case Nil
    note N = props_from_Cons [OF Nil]
    then have "nextprop_priv m fdt (snd (fdt_next_tag m fdt n)) <s 0"
      using nextprop_first [of m fdt "snd (fdt_next_tag m fdt n)"] by (auto split: list.splits)
    moreover from this have "property_loop m fdt (nextprop_priv m fdt (snd (fdt_next_tag m fdt n))) name =
        (0, nextprop_priv m fdt (snd (fdt_next_tag m fdt n)), None)"
      by (subst property_loop.simps) simp
    ultimately show ?case
      using step [OF Nil] by (intro exI [of _ "nextprop_priv m fdt (snd (fdt_next_tag m fdt n))"]) simp
  next
    case (Cons n' ns)
    note N = props_from_Cons [OF Cons.prems]
    then have "nextprop_priv m fdt (snd (fdt_next_tag m fdt n)) = n'"
      using nextprop_first [of m fdt "snd (fdt_next_tag m fdt n)"] by (auto split: list.splits)
    moreover obtain e where "e <s 0" "property_loop m fdt n' name =
        (case find (prop_named m fdt name) (n' # ns) of
           Some k \<Rightarrow> (fdt_offset_ptr_priv m fdt k, prop_len m fdt k, Some k)
         | None \<Rightarrow> (0, e, None))"
      using Cons.IH [of "snd (fdt_next_tag m fdt n)" n'] N by auto
    ultimately show ?case
      using step [OF Cons.prems] by (intro exI [of _ e]) simp
  }
qed

lemma getprop_first:
  assumes valid: "valid_blob m fdt" and node: "node \<in> set (nodes_from m fdt 0)"
  shows "\<exists>e. e <s 0 \<and> fdt_getprop m fdt node name =
    (case find (prop_named m fdt name) (node_props m fdt node) of
       Some k \<Rightarrow> (property_data m fdt (fdt_offset_ptr_priv m fdt k) k, prop_len m fdt k)
     | None \<Rightarrow> (0, e))"
proof -
  let ?next = "snd (fdt_next_tag m fdt node)"
  note N = nodes_from_member [OF node]
  then have t: "fdt_next_tag m fdt node = (FDT_BEGIN_NODE, ?next)"
    by (metis dvd_0_right prod.collapse unsigned_0)
  have nn: "\<not> ?next <s 0"
    using valid by (intro next_tag_in_blob(2) [OF _ t]) (simp_all add: valid_blob_def tag_values)
  have "node mod FDT_TAGSIZE = 0"
    using N by (simp add: FDT_TAGSIZE_def word_unat_eq_iff unat_mod_distrib)
  then have "fdt_check_node_offset_priv m fdt node = ?next"
    using N t by (cases "fdt_next_tag m fdt node") (simp add: fdt_check_node_offset_priv_def)
  then have "fdt_first_property_offset m fdt node = nextprop_priv m fdt ?next"
    using nn by (simp add: fdt_first_property_offset_def Let_def)
  then have get: "fdt_getprop m fdt node name =
      (case property_loop m fdt (nextprop_priv m fdt ?next) name of (prop, len, poffset) \<Rightarrow>
         if prop = 0 then (0, len) else (property_data m fdt prop (the poffset), len))"
    by (simp add: fdt_getprop_def fdt_getprop_namelen_def fdt_get_property_namelen_priv_def)
  show ?thesis
  proof (cases "props_from m fdt ?next")
    case Nil
    then have neg: "nextprop_priv m fdt ?next <s 0"
      using nextprop_first [of m fdt ?next] by simp
    then have "property_loop m fdt (nextprop_priv m fdt ?next) name = (0, nextprop_priv m fdt ?next, None)"
      by (subst property_loop.simps) simp
    with neg Nil get show ?thesis
      by (intro exI [of _ "nextprop_priv m fdt ?next"]) (simp add: node_props_def)
  next
    case (Cons n ns)
    then have n: "nextprop_priv m fdt ?next = n"
      using nextprop_first [of m fdt ?next] by simp
    obtain e where e: "e <s 0" "property_loop m fdt n name =
        (case find (prop_named m fdt name) (n # ns) of
           Some k \<Rightarrow> (fdt_offset_ptr_priv m fdt k, prop_len m fdt k, Some k)
         | None \<Rightarrow> (0, e, None))"
      using property_loop_first [OF valid Cons] N by auto
    have nz: "fdt_offset_ptr_priv m fdt k \<noteq> 0" if "k \<in> set (props_from m fdt ?next)" for k
    proof (rule valid_prop_ptr(2) [OF valid])
      have "fst (fdt_next_tag m fdt k) = FDT_PROP"
        using that N by (intro props_from_member) auto
      then show "fdt_next_tag m fdt k = (FDT_PROP, snd (fdt_next_tag m fdt k))"
        by (cases "fdt_next_tag m fdt k") simp
    qed
    show ?thesis
    proof (cases "find (prop_named m fdt name) (n # ns)")
      case None
      with e Cons get n show ?thesis by (intro exI [of _ e]) (simp add: node_props_def)
    next
      case (Some k)
      then have "k \<in> set (props_from m fdt ?next)"
        using find_member [of "prop_named m fdt name" "n # ns" k] unfolding Cons by simp
      with nz e Cons get n Some show ?thesis by (intro exI [of _ e]) (simp add: node_props_def)
    qed
  qed
qed

end
