(* ===== verification/Fdt_Sw.thy ===== *)
theory Fdt_Sw
  imports Fdt_Edit
begin

text \<open>
  Writing a device tree from scratch (\<^verbatim>\<open>lib/libfdt/fdt_sw.c\<close>): the tree is built front to back in a
  buffer whose header holds the state of the work; the strings grow down from the end of the buffer.

  A function that writes takes the memory last and returns it behind its result, an \<^verbatim>\<open>int\<close>. Strings
  and values the caller passes are lists of bytes outside the buffer, shorter than two gigabytes, and
  bring their length with them. \<open>None\<close> is the search for a string that runs past the end of the
  address space.
\<close>

section \<open>Writing the header\<close>

definition fdt_set_hdr :: "u64 \<Rightarrow> u64 \<Rightarrow> u32 \<Rightarrow> mem \<Rightarrow> mem" where
  "fdt_set_hdr field fdt val m = st32 m (fdt + field) (cpu_to_fdt32 val)"

definition fdt_set_magic :: "u64 \<Rightarrow> u32 \<Rightarrow> mem \<Rightarrow> mem" where "fdt_set_magic = fdt_set_hdr 0"
definition fdt_set_totalsize :: "u64 \<Rightarrow> u32 \<Rightarrow> mem \<Rightarrow> mem" where "fdt_set_totalsize = fdt_set_hdr 4"
definition fdt_set_off_dt_struct :: "u64 \<Rightarrow> u32 \<Rightarrow> mem \<Rightarrow> mem" where "fdt_set_off_dt_struct = fdt_set_hdr 8"
definition fdt_set_off_dt_strings :: "u64 \<Rightarrow> u32 \<Rightarrow> mem \<Rightarrow> mem" where "fdt_set_off_dt_strings = fdt_set_hdr 12"
definition fdt_set_off_mem_rsvmap :: "u64 \<Rightarrow> u32 \<Rightarrow> mem \<Rightarrow> mem" where "fdt_set_off_mem_rsvmap = fdt_set_hdr 16"
definition fdt_set_version :: "u64 \<Rightarrow> u32 \<Rightarrow> mem \<Rightarrow> mem" where "fdt_set_version = fdt_set_hdr 20"
definition fdt_set_last_comp_version :: "u64 \<Rightarrow> u32 \<Rightarrow> mem \<Rightarrow> mem" where
  "fdt_set_last_comp_version = fdt_set_hdr 24"
definition fdt_set_boot_cpuid_phys :: "u64 \<Rightarrow> u32 \<Rightarrow> mem \<Rightarrow> mem" where "fdt_set_boot_cpuid_phys = fdt_set_hdr 28"
definition fdt_set_size_dt_strings :: "u64 \<Rightarrow> u32 \<Rightarrow> mem \<Rightarrow> mem" where "fdt_set_size_dt_strings = fdt_set_hdr 32"
definition fdt_set_size_dt_struct :: "u64 \<Rightarrow> u32 \<Rightarrow> mem \<Rightarrow> mem" where "fdt_set_size_dt_struct = fdt_set_hdr 36"

lemmas fdt_setters = fdt_set_magic_def fdt_set_totalsize_def fdt_set_off_dt_struct_def
  fdt_set_off_dt_strings_def fdt_set_off_mem_rsvmap_def fdt_set_version_def
  fdt_set_last_comp_version_def fdt_set_boot_cpuid_phys_def fdt_set_size_dt_strings_def
  fdt_set_size_dt_struct_def

section \<open>The states of the work\<close>

definition FDT_CREATE_FLAG_NO_NAME_DEDUP :: u32 where "FDT_CREATE_FLAG_NO_NAME_DEDUP = 0x1"
definition FDT_CREATE_FLAGS_ALL :: u32 where "FDT_CREATE_FLAGS_ALL = FDT_CREATE_FLAG_NO_NAME_DEDUP"
definition FDT_LAST_COMPATIBLE_VERSION :: u32 where "FDT_LAST_COMPATIBLE_VERSION = 0x10"

definition fdt_sw_probe_priv :: "mem \<Rightarrow> u64 \<Rightarrow> u32" where
  "fdt_sw_probe_priv m fdt =
     (if \<not> can_assume ASSUME_VALID_INPUT \<and> fdt_magic m fdt = FDT_MAGIC then - FDT_ERR_BADSTATE
      else if \<not> can_assume ASSUME_VALID_INPUT \<and> fdt_magic m fdt \<noteq> FDT_SW_MAGIC then - FDT_ERR_BADMAGIC
      else 0)"

definition fdt_sw_probe_memrsv_priv :: "mem \<Rightarrow> u64 \<Rightarrow> u32" where
  "fdt_sw_probe_memrsv_priv m fdt =
     (let err = fdt_sw_probe_priv m fdt
      in if err \<noteq> 0 then err
         else if \<not> can_assume ASSUME_VALID_INPUT \<and> fdt_off_dt_strings m fdt \<noteq> 0 then - FDT_ERR_BADSTATE
         else 0)"

definition fdt_sw_probe_struct_priv :: "mem \<Rightarrow> u64 \<Rightarrow> u32" where
  "fdt_sw_probe_struct_priv m fdt =
     (let err = fdt_sw_probe_priv m fdt
      in if err \<noteq> 0 then err
         else if \<not> can_assume ASSUME_VALID_INPUT \<and> fdt_off_dt_strings m fdt \<noteq> fdt_totalsize m fdt
         then - FDT_ERR_BADSTATE
         else 0)"

definition sw_flags :: "mem \<Rightarrow> u64 \<Rightarrow> u32" where
  "sw_flags m fdt = fdt_last_comp_version m fdt"

text \<open>The length is a \<^verbatim>\<open>size_t\<close>, the sum with the 32-bit offset too.\<close>

definition fdt_grab_space_priv :: "u64 \<Rightarrow> u64 \<Rightarrow> mem \<Rightarrow> u64 \<times> mem" where
  "fdt_grab_space_priv fdt len m =
     (let offset = fdt_size_dt_struct m fdt;
          spaceleft = fdt_totalsize m fdt - fdt_off_dt_struct m fdt - fdt_size_dt_strings m fdt
      in if ucast offset + len < (ucast offset :: u64) \<or> ucast offset + len > (ucast spaceleft :: u64)
         then (0, m)
         else let m = fdt_set_size_dt_struct fdt (ucast ((ucast offset :: u64) + len)) m
              in (fdt_offset_ptr_priv m fdt offset, m))"

section \<open>Beginning\<close>

definition fdt_create_with_flags :: "u64 \<Rightarrow> u32 \<Rightarrow> u32 \<Rightarrow> mem \<Rightarrow> u32 \<times> mem" where
  "fdt_create_with_flags buf bufsize flags m =
     (let hdrsize = (40 + 16 - 1) AND NOT (16 - 1); fdt = buf
      in if bufsize <s hdrsize then (- FDT_ERR_NOSPACE, m)
         else if flags AND NOT FDT_CREATE_FLAGS_ALL \<noteq> 0 then (- FDT_ERR_BADFLAGS, m)
         else let m = snd (memset buf 0 (scast bufsize) m);
                  m = fdt_set_magic fdt FDT_SW_MAGIC m;
                  m = fdt_set_version fdt FDT_LAST_SUPPORTED_VERSION m;
                  m = fdt_set_last_comp_version fdt flags m;
                  m = fdt_set_totalsize fdt bufsize m;
                  m = fdt_set_off_mem_rsvmap fdt hdrsize m;
                  m = fdt_set_off_dt_struct fdt (fdt_off_mem_rsvmap m fdt) m
              in (0, fdt_set_off_dt_strings fdt 0 m))"

definition fdt_create :: "u64 \<Rightarrow> u32 \<Rightarrow> mem \<Rightarrow> u32 \<times> mem" where
  "fdt_create buf bufsize m = fdt_create_with_flags buf bufsize 0 m"

definition fdt_resize :: "u64 \<Rightarrow> u64 \<Rightarrow> u32 \<Rightarrow> mem \<Rightarrow> u32 \<times> mem" where
  "fdt_resize fdt buf bufsize m =
     (if fdt_sw_probe_priv m fdt \<noteq> 0 then (fdt_sw_probe_priv m fdt, m)
      else if bufsize <s 0 then (- FDT_ERR_NOSPACE, m)
      else let headsize = (ucast (fdt_off_dt_struct m fdt + fdt_size_dt_struct m fdt) :: u64);
               tailsize = (ucast (fdt_size_dt_strings m fdt) :: u64)
           in if \<not> can_assume ASSUME_VALID_DTB \<and> headsize + tailsize > ucast (fdt_totalsize m fdt)
              then (- FDT_ERR_INTERNAL, m)
              else if headsize + tailsize > ucast bufsize then (- FDT_ERR_NOSPACE, m)
              else let oldtail = fdt + ucast (fdt_totalsize m fdt) - tailsize;
                       newtail = buf + scast bufsize - tailsize;
                       m = (if buf \<le> fdt
                            then snd (memmove newtail oldtail tailsize (snd (memmove buf fdt headsize m)))
                            else snd (memmove buf fdt headsize (snd (memmove newtail oldtail tailsize m))));
                       m = fdt_set_totalsize buf bufsize m
                   in (0, if fdt_off_dt_strings m buf \<noteq> 0 then fdt_set_off_dt_strings buf bufsize m else m))"

definition fdt_add_reservemap_entry :: "u64 \<Rightarrow> u64 \<Rightarrow> u64 \<Rightarrow> mem \<Rightarrow> u32 \<times> mem" where
  "fdt_add_reservemap_entry fdt addr sz m =
     (if fdt_sw_probe_memrsv_priv m fdt \<noteq> 0 then (fdt_sw_probe_memrsv_priv m fdt, m)
      else let offset = fdt_off_dt_struct m fdt
           in if scast offset + 16 > (ucast (fdt_totalsize m fdt) :: u64) then (- FDT_ERR_NOSPACE, m)
              else let re = fdt + scast offset;
                       m = st64 m re (cpu_to_fdt64 addr);
                       m = st64 m (re + 8) (cpu_to_fdt64 sz)
                   in (0, fdt_set_off_dt_struct fdt (offset + 16) m))"

definition fdt_finish_reservemap :: "u64 \<Rightarrow> mem \<Rightarrow> u32 \<times> mem" where
  "fdt_finish_reservemap fdt m =
     (case fdt_add_reservemap_entry fdt 0 0 m of (err, m) \<Rightarrow>
        if err \<noteq> 0 then (err, m) else (0, fdt_set_off_dt_strings fdt (fdt_totalsize m fdt) m))"

section \<open>Nodes and strings\<close>

text \<open>\<^verbatim>\<open>FDT_TAGALIGN\<close> of an \<^verbatim>\<open>int\<close>, as the \<^verbatim>\<open>size_t\<close> the macro computes.\<close>

definition FDT_TAGALIGN_size :: "u32 \<Rightarrow> u64" where
  "FDT_TAGALIGN_size x = (scast x + 4 - 1) AND NOT (4 - 1)"

definition fdt_begin_node :: "u64 \<Rightarrow> u8 list \<Rightarrow> mem \<Rightarrow> u32 \<times> mem" where
  "fdt_begin_node fdt name m =
     (if fdt_sw_probe_struct_priv m fdt \<noteq> 0 then (fdt_sw_probe_struct_priv m fdt, m)
      else let namelen = of_nat (length name + 1)
           in (case fdt_grab_space_priv fdt (4 + FDT_TAGALIGN_size namelen) m of (nh, m) \<Rightarrow>
                 if nh = 0 then (- FDT_ERR_NOSPACE, m)
                 else let m = st32 m nh (cpu_to_fdt32 FDT_BEGIN_NODE)
                      in (0, store_bytes (nh + 4) (name @ [0]) m)))"

definition fdt_end_node :: "u64 \<Rightarrow> mem \<Rightarrow> u32 \<times> mem" where
  "fdt_end_node fdt m =
     (if fdt_sw_probe_struct_priv m fdt \<noteq> 0 then (fdt_sw_probe_struct_priv m fdt, m)
      else (case fdt_grab_space_priv fdt (ucast FDT_TAGSIZE) m of (en, m) \<Rightarrow>
              if en = 0 then (- FDT_ERR_NOSPACE, m)
              else (0, st32 m en (cpu_to_fdt32 FDT_END_NODE))))"

definition fdt_sw_add_string_priv :: "u64 \<Rightarrow> u8 list \<Rightarrow> mem \<Rightarrow> u32 \<times> mem" where
  "fdt_sw_add_string_priv fdt s m =
     (let strtab = fdt + ucast (fdt_totalsize m fdt);
          strtabsize = fdt_size_dt_strings m fdt;
          len = of_nat (length s + 1);
          offset = strtabsize + len;
          struct_top = fdt_off_dt_struct m fdt + fdt_size_dt_struct m fdt
      in if fdt_totalsize m fdt - offset < struct_top then (0, m)
         else let m = store_bytes (strtab - ucast offset) (s @ [0]) m
              in (- offset, fdt_set_size_dt_strings fdt (strtabsize + len) m))"

definition fdt_sw_del_last_string_priv :: "u64 \<Rightarrow> u8 list \<Rightarrow> mem \<Rightarrow> mem" where
  "fdt_sw_del_last_string_priv fdt s m =
     fdt_set_size_dt_strings fdt (fdt_size_dt_strings m fdt - of_nat (length s + 1)) m"

definition fdt_find_string_priv :: "mem \<Rightarrow> u64 \<Rightarrow> u32 \<Rightarrow> u8 list \<Rightarrow> u64 option" where
  "fdt_find_string_priv m strtab tabsize s = fdt_find_string_len_priv m strtab tabsize s"

text \<open>The offset, whether the string is new, and the memory.\<close>

definition fdt_sw_find_add_string_priv :: "u64 \<Rightarrow> u8 list \<Rightarrow> mem \<Rightarrow> (u32 \<times> bool \<times> mem) option" where
  "fdt_sw_find_add_string_priv fdt s m =
     (let strtab = fdt + ucast (fdt_totalsize m fdt);
          strtabsize = fdt_size_dt_strings m fdt
      in map_option (\<lambda>p.
           if p \<noteq> 0 then (ucast (p - strtab), False, m)
           else (case fdt_sw_add_string_priv fdt s m of (nameoff, m) \<Rightarrow> (nameoff, True, m)))
         (fdt_find_string_priv m (strtab - scast strtabsize) strtabsize s))"

text \<open>The result, the place of the value (written only on success) and the memory.\<close>

definition fdt_property_placeholder ::
  "u64 \<Rightarrow> u8 list \<Rightarrow> u32 \<Rightarrow> mem \<Rightarrow> (u32 \<times> u64 option \<times> mem) option" where
  "fdt_property_placeholder fdt name len m =
     (if fdt_sw_probe_struct_priv m fdt \<noteq> 0 then Some (fdt_sw_probe_struct_priv m fdt, None, m)
      else map_option (\<lambda>(nameoff, allocated, m).
             if nameoff = 0 then (- FDT_ERR_NOSPACE, None, m)
             else (case fdt_grab_space_priv fdt (12 + FDT_TAGALIGN_size len) m of (prop, m) \<Rightarrow>
                     if prop = 0 then
                       (- FDT_ERR_NOSPACE, None,
                        if allocated then fdt_sw_del_last_string_priv fdt name m else m)
                     else let m = st32 m prop (cpu_to_fdt32 FDT_PROP);
                              m = st32 m (prop + 8) (cpu_to_fdt32 nameoff);
                              m = st32 m (prop + 4) (cpu_to_fdt32 len)
                          in (0, Some (prop + 12), m)))
           (if sw_flags m fdt AND FDT_CREATE_FLAG_NO_NAME_DEDUP \<noteq> 0
            then (case fdt_sw_add_string_priv fdt name m of (nameoff, m) \<Rightarrow> Some (nameoff, True, m))
            else fdt_sw_find_add_string_priv fdt name m))"

definition fdt_property :: "u64 \<Rightarrow> u8 list \<Rightarrow> u8 list \<Rightarrow> mem \<Rightarrow> (u32 \<times> mem) option" where
  "fdt_property fdt name val m =
     map_option (\<lambda>(ret, ptr, m). if ret \<noteq> 0 then (ret, m) else (0, store_bytes (the ptr) val m))
     (fdt_property_placeholder fdt name (of_nat (length val)) m)"

definition fdt_property_u32 :: "u64 \<Rightarrow> u8 list \<Rightarrow> u32 \<Rightarrow> mem \<Rightarrow> (u32 \<times> mem) option" where
  "fdt_property_u32 fdt name val m = fdt_property fdt name (cell_bytes val) m"

definition fdt_property_u64 :: "u64 \<Rightarrow> u8 list \<Rightarrow> u64 \<Rightarrow> mem \<Rightarrow> (u32 \<times> mem) option" where
  "fdt_property_u64 fdt name val m = fdt_property fdt name (cells2_bytes val) m"

definition fdt_property_cell :: "u64 \<Rightarrow> u8 list \<Rightarrow> u32 \<Rightarrow> mem \<Rightarrow> (u32 \<times> mem) option" where
  "fdt_property_cell fdt name val m = fdt_property_u32 fdt name val m"

definition fdt_property_string :: "u64 \<Rightarrow> u8 list \<Rightarrow> u8 list \<Rightarrow> mem \<Rightarrow> (u32 \<times> mem) option" where
  "fdt_property_string fdt name str m = fdt_property fdt name (str @ [0]) m"

section \<open>Finishing\<close>

text \<open>
  While the tree is built a property names its string by the negative offset from the end; the walk
  turns it into the offset from the start. The last next offset comes first.
\<close>

function finish_loop :: "u64 \<Rightarrow> u32 \<Rightarrow> mem \<Rightarrow> u32 \<times> mem" where
  "finish_loop fdt offset m =
     (case fdt_next_tag m fdt offset of (tag, nextoffset) \<Rightarrow>
        if tag = FDT_END then (nextoffset, m)
        else finish_loop fdt nextoffset
               (if tag = FDT_PROP then
                  let prop = fdt_offset_ptr_priv m fdt offset;
                      nameoff = fdt32_to_cpu (ld32 m (prop + 8)) + fdt_size_dt_strings m fdt
                  in st32 m (prop + 8) (cpu_to_fdt32 nameoff)
                else m))"
  by pat_completeness auto
termination
  by (relation "measure (\<lambda>(fdt, offset, m). offsets_left offset)")
    (auto intro: fdt_next_tag_left [OF sym])

declare finish_loop.simps [simp del]

definition fdt_finish :: "u64 \<Rightarrow> mem \<Rightarrow> u32 \<times> mem" where
  "fdt_finish fdt m =
     (if fdt_sw_probe_struct_priv m fdt \<noteq> 0 then (fdt_sw_probe_struct_priv m fdt, m)
      else (case fdt_grab_space_priv fdt 4 m of (stop, m) \<Rightarrow>
              if stop = 0 then (- FDT_ERR_NOSPACE, m)
              else let m = st32 m stop (cpu_to_fdt32 FDT_END);
                       oldstroffset = fdt_totalsize m fdt - fdt_size_dt_strings m fdt;
                       newstroffset = fdt_off_dt_struct m fdt + fdt_size_dt_struct m fdt;
                       m = snd (memmove (fdt + scast newstroffset) (fdt + scast oldstroffset)
                             (ucast (fdt_size_dt_strings m fdt)) m);
                       m = fdt_set_off_dt_strings fdt newstroffset m
                   in (case finish_loop fdt 0 m of (nextoffset, m) \<Rightarrow>
                         if nextoffset <s 0 then (nextoffset, m)
                         else let m = fdt_set_totalsize fdt (newstroffset + fdt_size_dt_strings m fdt) m;
                                  m = fdt_set_last_comp_version fdt FDT_LAST_COMPATIBLE_VERSION m
                              in (0, fdt_set_magic fdt FDT_MAGIC m))))"

end
