(* ===== verification/Fdt_Rw.thy ===== *)
theory Fdt_Rw
  imports Fdt_Sw
begin

text \<open>
  Changing a complete device tree (\<^verbatim>\<open>lib/libfdt/fdt_rw.c\<close>, \<^verbatim>\<open>lib/libfdt/fdt_empty_tree.c\<close>, the end of
  \<^verbatim>\<open>lib/libfdt/fdt_addresses.c\<close> and the inline functions of \<^verbatim>\<open>lib/libfdt/libfdt.h\<close> that write). Every
  change is a splice: the data behind a point of the blob moves up or down.

  The conventions are those of theory \<open>Fdt_Sw\<close>. A function that takes a name with its length reads at
  most that many bytes of the name; the name is the whole string, since the rollback of a failed
  addition measures it again.
\<close>

section \<open>Writable views\<close>

definition fdt_offset_ptr_w :: "mem \<Rightarrow> u64 \<Rightarrow> u32 \<Rightarrow> u32 \<Rightarrow> u64" where
  "fdt_offset_ptr_w m fdt offset checklen = fdt_offset_ptr m fdt offset checklen"

definition fdt_offset_ptr_w_priv :: "mem \<Rightarrow> u64 \<Rightarrow> u32 \<Rightarrow> u64" where
  "fdt_offset_ptr_w_priv m fdt offset = fdt_offset_ptr_priv m fdt offset"

definition fdt_mem_rsv_w_priv :: "mem \<Rightarrow> u64 \<Rightarrow> u32 \<Rightarrow> u64" where
  "fdt_mem_rsv_w_priv m fdt n = fdt_mem_rsv_priv m fdt n"

definition fdt_get_property_by_offset_w :: "mem \<Rightarrow> u64 \<Rightarrow> u32 \<Rightarrow> u64 \<times> u32" where
  "fdt_get_property_by_offset_w m fdt offset = fdt_get_property_by_offset m fdt offset"

definition fdt_get_property_namelen_w :: "mem \<Rightarrow> u64 \<Rightarrow> u32 \<Rightarrow> u8 list \<Rightarrow> u64 \<times> u32" where
  "fdt_get_property_namelen_w m fdt nodeoffset name = fdt_get_property_namelen m fdt nodeoffset name"

definition fdt_get_property_w :: "mem \<Rightarrow> u64 \<Rightarrow> u32 \<Rightarrow> u8 list \<Rightarrow> u64 \<times> u32" where
  "fdt_get_property_w m fdt nodeoffset name = fdt_get_property m fdt nodeoffset name"

definition fdt_getprop_namelen_w :: "mem \<Rightarrow> u64 \<Rightarrow> u32 \<Rightarrow> u8 list \<Rightarrow> u64 \<times> u32" where
  "fdt_getprop_namelen_w m fdt nodeoffset name = fdt_getprop_namelen m fdt nodeoffset name"

definition fdt_getprop_w :: "mem \<Rightarrow> u64 \<Rightarrow> u32 \<Rightarrow> u8 list \<Rightarrow> u64 \<times> u32" where
  "fdt_getprop_w m fdt nodeoffset name = fdt_getprop m fdt nodeoffset name"

section \<open>The order of the blocks\<close>

definition fdt_blocks_misordered_priv :: "mem \<Rightarrow> u64 \<Rightarrow> u32 \<Rightarrow> u32 \<Rightarrow> bool" where
  "fdt_blocks_misordered_priv m fdt mem_rsv_size struct_size \<longleftrightarrow>
     fdt_off_mem_rsvmap m fdt < (40 + 8 - 1) AND NOT (8 - 1) \<or>
     fdt_off_dt_struct m fdt < fdt_off_mem_rsvmap m fdt + mem_rsv_size \<or>
     fdt_off_dt_strings m fdt < fdt_off_dt_struct m fdt + struct_size \<or>
     fdt_totalsize m fdt < fdt_off_dt_strings m fdt + fdt_size_dt_strings m fdt"

definition fdt_downgrade_version :: "u64 \<Rightarrow> mem \<Rightarrow> mem" where
  "fdt_downgrade_version fdt m =
     (if \<not> can_assume ASSUME_LATEST \<and> fdt_version m fdt > FDT_LAST_SUPPORTED_VERSION
      then fdt_set_version fdt FDT_LAST_SUPPORTED_VERSION m else m)"

definition fdt_rw_probe_priv :: "u64 \<Rightarrow> mem \<Rightarrow> u32 \<times> mem" where
  "fdt_rw_probe_priv fdt m =
     (if can_assume ASSUME_VALID_DTB then (0, m)
      else if fdt_ro_probe_priv m fdt <s 0 then (fdt_ro_probe_priv m fdt, m)
      else if \<not> can_assume ASSUME_LATEST \<and> fdt_version m fdt < 17 then (- FDT_ERR_BADVERSION, m)
      else if fdt_blocks_misordered_priv m fdt 16 (fdt_size_dt_struct m fdt) then (- FDT_ERR_BADLAYOUT, m)
      else (0, fdt_downgrade_version fdt m))"

definition fdt_data_size_priv :: "mem \<Rightarrow> u64 \<Rightarrow> u32" where
  "fdt_data_size_priv m fdt = fdt_off_dt_strings m fdt + fdt_size_dt_strings m fdt"

section \<open>Splices\<close>

text \<open>The offset of the point is a \<^verbatim>\<open>size_t\<close>; the other sums are 32-bit.\<close>

definition fdt_splice_priv :: "u64 \<Rightarrow> u64 \<Rightarrow> u32 \<Rightarrow> u32 \<Rightarrow> mem \<Rightarrow> u32 \<times> mem" where
  "fdt_splice_priv fdt p oldlen newlen m =
     (let dsize = fdt_data_size_priv m fdt;
          soff = p - fdt
      in if oldlen <s 0 \<or> soff + scast oldlen < soff \<or> soff + scast oldlen > ucast dsize
         then (- FDT_ERR_BADOFFSET, m)
         else if p < fdt \<or> dsize + newlen < oldlen then (- FDT_ERR_BADOFFSET, m)
         else if dsize - oldlen + newlen > fdt_totalsize m fdt then (- FDT_ERR_NOSPACE, m)
         else (0, snd (memmove (p + scast newlen) (p + scast oldlen)
                    (fdt + ucast dsize - (p + scast oldlen)) m)))"

definition fdt_splice_mem_rsv_priv :: "u64 \<Rightarrow> u64 \<Rightarrow> u32 \<Rightarrow> u32 \<Rightarrow> mem \<Rightarrow> u32 \<times> mem" where
  "fdt_splice_mem_rsv_priv fdt p oldn newn m =
     (let delta = (newn - oldn) * 16
      in (case fdt_splice_priv fdt p (oldn * 16) (newn * 16) m of (err, m) \<Rightarrow>
            if err \<noteq> 0 then (err, m)
            else let m = fdt_set_off_dt_struct fdt (fdt_off_dt_struct m fdt + delta) m
                 in (0, fdt_set_off_dt_strings fdt (fdt_off_dt_strings m fdt + delta) m)))"

definition fdt_splice_struct_priv :: "u64 \<Rightarrow> u64 \<Rightarrow> u32 \<Rightarrow> u32 \<Rightarrow> mem \<Rightarrow> u32 \<times> mem" where
  "fdt_splice_struct_priv fdt p oldlen newlen m =
     (let delta = newlen - oldlen
      in (case fdt_splice_priv fdt p oldlen newlen m of (err, m) \<Rightarrow>
            if err \<noteq> 0 then (err, m)
            else let m = fdt_set_size_dt_struct fdt (fdt_size_dt_struct m fdt + delta) m
                 in (0, fdt_set_off_dt_strings fdt (fdt_off_dt_strings m fdt + delta) m)))"

definition fdt_del_last_string_priv :: "u64 \<Rightarrow> u8 list \<Rightarrow> mem \<Rightarrow> mem" where
  "fdt_del_last_string_priv fdt s m =
     fdt_set_size_dt_strings fdt (fdt_size_dt_strings m fdt - of_nat (length s + 1)) m"

definition fdt_splice_string_priv :: "u64 \<Rightarrow> u32 \<Rightarrow> mem \<Rightarrow> u32 \<times> mem" where
  "fdt_splice_string_priv fdt newlen m =
     (let p = fdt + ucast (fdt_off_dt_strings m fdt) + ucast (fdt_size_dt_strings m fdt)
      in (case fdt_splice_priv fdt p 0 newlen m of (err, m) \<Rightarrow>
            if err \<noteq> 0 then (err, m)
            else (0, fdt_set_size_dt_strings fdt (fdt_size_dt_strings m fdt + newlen) m)))"

text \<open>The offset or an error, whether the string is new, and the memory.\<close>

definition fdt_find_add_string_priv :: "u64 \<Rightarrow> u8 list \<Rightarrow> mem \<Rightarrow> (u32 \<times> bool \<times> mem) option" where
  "fdt_find_add_string_priv fdt s m =
     (let strtab = fdt + ucast (fdt_off_dt_strings m fdt);
          slen = of_nat (length s)
      in map_option (\<lambda>p.
           if p \<noteq> 0 then (ucast (p - strtab), False, m)
           else let new = strtab + ucast (fdt_size_dt_strings m fdt)
                in (case fdt_splice_string_priv fdt (slen + 1) m of (err, m) \<Rightarrow>
                      if err \<noteq> 0 then (err, False, m)
                      else (ucast (new - strtab), True, (store_bytes new s m)(new + of_nat (length s) := 0))))
         (fdt_find_string_len_priv m strtab (fdt_size_dt_strings m fdt) s))"

section \<open>Memory reservations\<close>

definition fdt_add_mem_rsv :: "u64 \<Rightarrow> u64 \<Rightarrow> u64 \<Rightarrow> mem \<Rightarrow> (u32 \<times> mem) option" where
  "fdt_add_mem_rsv fdt address sz m =
     (case fdt_rw_probe_priv fdt m of (err, m) \<Rightarrow>
        if err \<noteq> 0 then Some (err, m)
        else map_option (\<lambda>n.
               let re = fdt_mem_rsv_w_priv m fdt n
               in (case fdt_splice_mem_rsv_priv fdt re 0 1 m of (err, m) \<Rightarrow>
                     if err \<noteq> 0 then (err, m)
                     else (0, st64 (st64 m re (cpu_to_fdt64 address)) (re + 8) (cpu_to_fdt64 sz))))
             (fdt_num_mem_rsv m fdt))"

definition fdt_del_mem_rsv :: "u64 \<Rightarrow> u32 \<Rightarrow> mem \<Rightarrow> (u32 \<times> mem) option" where
  "fdt_del_mem_rsv fdt n m =
     (let re = fdt_mem_rsv_w_priv m fdt n
      in (case fdt_rw_probe_priv fdt m of (err, m) \<Rightarrow>
            if err \<noteq> 0 then Some (err, m)
            else map_option (\<lambda>num.
                   if num \<le>s n then (- FDT_ERR_NOTFOUND, m) else fdt_splice_mem_rsv_priv fdt re 1 0 m)
                 (fdt_num_mem_rsv m fdt)))"

section \<open>Properties\<close>

text \<open>The result, the property (a null pointer when it is not found) and the memory.\<close>

definition fdt_resize_property_priv :: "u64 \<Rightarrow> u32 \<Rightarrow> u8 list \<Rightarrow> u32 \<Rightarrow> mem \<Rightarrow> u32 \<times> u64 \<times> mem" where
  "fdt_resize_property_priv fdt nodeoffset name len m =
     (case fdt_get_property_namelen_w m fdt nodeoffset name of (prop, oldlen) \<Rightarrow>
        if prop = 0 then (oldlen, prop, m)
        else (case fdt_splice_struct_priv fdt (prop + 12) (FDT_TAGALIGN oldlen) (FDT_TAGALIGN len) m of
                (err, m) \<Rightarrow>
                  if err \<noteq> 0 then (err, prop, m)
                  else (0, prop, st32 m (prop + 4) (cpu_to_fdt32 len))))"

definition fdt_add_property_priv ::
  "u64 \<Rightarrow> u32 \<Rightarrow> u8 list \<Rightarrow> u32 \<Rightarrow> u32 \<Rightarrow> mem \<Rightarrow> (u32 \<times> u64 \<times> mem) option" where
  "fdt_add_property_priv fdt nodeoffset name namelen len m =
     (let nextoffset = fdt_check_node_offset_priv m fdt nodeoffset
      in if nextoffset <s 0 then Some (nextoffset, 0, m)
         else map_option (\<lambda>(namestroff, allocated, m).
                if namestroff <s 0 then (namestroff, 0, m)
                else let prop = fdt_offset_ptr_w_priv m fdt nextoffset;
                         proplen = 12 + FDT_TAGALIGN len
                     in (case fdt_splice_struct_priv fdt prop 0 proplen m of (err, m) \<Rightarrow>
                           if err \<noteq> 0 then
                             (err, prop,
                              if \<not> can_assume ASSUME_NO_ROLLBACK \<and> allocated
                              then fdt_del_last_string_priv fdt name m else m)
                           else let m = st32 m prop (cpu_to_fdt32 FDT_PROP);
                                    m = st32 m (prop + 8) (cpu_to_fdt32 namestroff)
                                in (0, prop, st32 m (prop + 4) (cpu_to_fdt32 len))))
              (fdt_find_add_string_priv fdt (take (unat namelen) name) m))"

definition fdt_set_name :: "u64 \<Rightarrow> u32 \<Rightarrow> u8 list \<Rightarrow> mem \<Rightarrow> (u32 \<times> mem) option" where
  "fdt_set_name fdt nodeoffset name m =
     (case fdt_rw_probe_priv fdt m of (err, m) \<Rightarrow>
        if err \<noteq> 0 then Some (err, m)
        else map_option (\<lambda>(namep, oldlen).
               if namep = 0 then (oldlen, m)
               else let newlen = of_nat (length name)
                    in (case fdt_splice_struct_priv fdt namep (FDT_TAGALIGN (oldlen + 1))
                              (FDT_TAGALIGN (newlen + 1)) m of (err, m) \<Rightarrow>
                          if err \<noteq> 0 then (err, m) else (0, store_bytes namep (name @ [0]) m)))
             (fdt_get_name m fdt nodeoffset))"

text \<open>The result, the place of the value (written only on success) and the memory.\<close>

definition fdt_setprop_placeholder_namelen ::
  "u64 \<Rightarrow> u32 \<Rightarrow> u8 list \<Rightarrow> u32 \<Rightarrow> u32 \<Rightarrow> mem \<Rightarrow> (u32 \<times> u64 option \<times> mem) option" where
  "fdt_setprop_placeholder_namelen fdt nodeoffset name namelen len m =
     (case fdt_rw_probe_priv fdt m of (err, m) \<Rightarrow>
        if err \<noteq> 0 then Some (err, None, m)
        else map_option (\<lambda>(err, prop, m). if err \<noteq> 0 then (err, None, m) else (0, Some (prop + 12), m))
          (case fdt_resize_property_priv fdt nodeoffset (take (unat namelen) name) len m of
             (err, prop, m) \<Rightarrow>
               if err = - FDT_ERR_NOTFOUND then fdt_add_property_priv fdt nodeoffset name namelen len m
               else Some (err, prop, m)))"

definition fdt_setprop_namelen ::
  "u64 \<Rightarrow> u32 \<Rightarrow> u8 list \<Rightarrow> u32 \<Rightarrow> u8 list \<Rightarrow> mem \<Rightarrow> (u32 \<times> mem) option" where
  "fdt_setprop_namelen fdt nodeoffset name namelen val m =
     map_option (\<lambda>(err, prop_data, m).
       if err \<noteq> 0 then (err, m)
       else (0, if val \<noteq> [] then store_bytes (the prop_data) val m else m))
     (fdt_setprop_placeholder_namelen fdt nodeoffset name namelen (of_nat (length val)) m)"

definition fdt_setprop :: "u64 \<Rightarrow> u32 \<Rightarrow> u8 list \<Rightarrow> u8 list \<Rightarrow> mem \<Rightarrow> (u32 \<times> mem) option" where
  "fdt_setprop fdt nodeoffset name val m =
     fdt_setprop_namelen fdt nodeoffset name (of_nat (length name)) val m"

definition fdt_setprop_placeholder ::
  "u64 \<Rightarrow> u32 \<Rightarrow> u8 list \<Rightarrow> u32 \<Rightarrow> mem \<Rightarrow> (u32 \<times> u64 option \<times> mem) option" where
  "fdt_setprop_placeholder fdt nodeoffset name len m =
     fdt_setprop_placeholder_namelen fdt nodeoffset name (of_nat (length name)) len m"

definition fdt_setprop_u32 :: "u64 \<Rightarrow> u32 \<Rightarrow> u8 list \<Rightarrow> u32 \<Rightarrow> mem \<Rightarrow> (u32 \<times> mem) option" where
  "fdt_setprop_u32 fdt nodeoffset name val m = fdt_setprop fdt nodeoffset name (cell_bytes val) m"

definition fdt_setprop_u64 :: "u64 \<Rightarrow> u32 \<Rightarrow> u8 list \<Rightarrow> u64 \<Rightarrow> mem \<Rightarrow> (u32 \<times> mem) option" where
  "fdt_setprop_u64 fdt nodeoffset name val m = fdt_setprop fdt nodeoffset name (cells2_bytes val) m"

definition fdt_setprop_cell :: "u64 \<Rightarrow> u32 \<Rightarrow> u8 list \<Rightarrow> u32 \<Rightarrow> mem \<Rightarrow> (u32 \<times> mem) option" where
  "fdt_setprop_cell fdt nodeoffset name val m = fdt_setprop_u32 fdt nodeoffset name val m"

definition fdt_setprop_string :: "u64 \<Rightarrow> u32 \<Rightarrow> u8 list \<Rightarrow> u8 list \<Rightarrow> mem \<Rightarrow> (u32 \<times> mem) option" where
  "fdt_setprop_string fdt nodeoffset name str m = fdt_setprop fdt nodeoffset name (str @ [0]) m"

definition fdt_setprop_namelen_string ::
  "u64 \<Rightarrow> u32 \<Rightarrow> u8 list \<Rightarrow> u32 \<Rightarrow> u8 list \<Rightarrow> mem \<Rightarrow> (u32 \<times> mem) option" where
  "fdt_setprop_namelen_string fdt nodeoffset name namelen str m =
     fdt_setprop_namelen fdt nodeoffset name namelen (str @ [0]) m"

definition fdt_setprop_empty :: "u64 \<Rightarrow> u32 \<Rightarrow> u8 list \<Rightarrow> mem \<Rightarrow> (u32 \<times> mem) option" where
  "fdt_setprop_empty fdt nodeoffset name m = fdt_setprop fdt nodeoffset name [] m"

definition fdt_appendprop :: "u64 \<Rightarrow> u32 \<Rightarrow> u8 list \<Rightarrow> u8 list \<Rightarrow> mem \<Rightarrow> (u32 \<times> mem) option" where
  "fdt_appendprop fdt nodeoffset name val m =
     (let len = of_nat (length val)
      in (case fdt_rw_probe_priv fdt m of (err, m) \<Rightarrow>
            if err \<noteq> 0 then Some (err, m)
            else (case fdt_get_property_w m fdt nodeoffset name of (prop, oldlen) \<Rightarrow>
                    if prop \<noteq> 0 then
                      (let newlen = len + oldlen
                       in (case fdt_splice_struct_priv fdt (prop + 12) (FDT_TAGALIGN oldlen)
                                 (FDT_TAGALIGN newlen) m of (err, m) \<Rightarrow>
                             if err \<noteq> 0 then Some (err, m)
                             else let m = st32 m (prop + 4) (cpu_to_fdt32 newlen)
                                  in Some (0, store_bytes (prop + 12 + scast oldlen) val m)))
                    else map_option (\<lambda>(err, prop, m).
                           if err \<noteq> 0 then (err, m) else (0, store_bytes (prop + 12) val m))
                         (fdt_add_property_priv fdt nodeoffset name (of_nat (length name)) len m))))"

definition fdt_appendprop_u32 :: "u64 \<Rightarrow> u32 \<Rightarrow> u8 list \<Rightarrow> u32 \<Rightarrow> mem \<Rightarrow> (u32 \<times> mem) option" where
  "fdt_appendprop_u32 fdt nodeoffset name val m = fdt_appendprop fdt nodeoffset name (cell_bytes val) m"

definition fdt_appendprop_u64 :: "u64 \<Rightarrow> u32 \<Rightarrow> u8 list \<Rightarrow> u64 \<Rightarrow> mem \<Rightarrow> (u32 \<times> mem) option" where
  "fdt_appendprop_u64 fdt nodeoffset name val m = fdt_appendprop fdt nodeoffset name (cells2_bytes val) m"

definition fdt_appendprop_cell :: "u64 \<Rightarrow> u32 \<Rightarrow> u8 list \<Rightarrow> u32 \<Rightarrow> mem \<Rightarrow> (u32 \<times> mem) option" where
  "fdt_appendprop_cell fdt nodeoffset name val m = fdt_appendprop_u32 fdt nodeoffset name val m"

definition fdt_appendprop_string :: "u64 \<Rightarrow> u32 \<Rightarrow> u8 list \<Rightarrow> u8 list \<Rightarrow> mem \<Rightarrow> (u32 \<times> mem) option" where
  "fdt_appendprop_string fdt nodeoffset name str m = fdt_appendprop fdt nodeoffset name (str @ [0]) m"

definition fdt_delprop :: "u64 \<Rightarrow> u32 \<Rightarrow> u8 list \<Rightarrow> mem \<Rightarrow> u32 \<times> mem" where
  "fdt_delprop fdt nodeoffset name m =
     (case fdt_rw_probe_priv fdt m of (err, m) \<Rightarrow>
        if err \<noteq> 0 then (err, m)
        else (case fdt_get_property_w m fdt nodeoffset name of (prop, len) \<Rightarrow>
                if prop = 0 then (len, m)
                else let proplen = 12 + FDT_TAGALIGN len
                     in fdt_splice_struct_priv fdt prop proplen 0 m))"

text \<open>An address range of the parent's cells, as the bytes \<^verbatim>\<open>fdt32_st\<close> and \<^verbatim>\<open>fdt64_st\<close> store.\<close>

definition be32_bytes :: "u32 \<Rightarrow> u8 list" where
  "be32_bytes v = map (fdt32_st 0 v (\<lambda>_. 0)) [0, 1, 2, 3]"

definition be64_bytes :: "u64 \<Rightarrow> u8 list" where
  "be64_bytes v = map (fdt64_st 0 v (\<lambda>_. 0)) [0, 1, 2, 3, 4, 5, 6, 7]"

definition fdt_appendprop_addrrange ::
  "u64 \<Rightarrow> u32 \<Rightarrow> u32 \<Rightarrow> u8 list \<Rightarrow> u64 \<Rightarrow> u64 \<Rightarrow> mem \<Rightarrow> (u32 \<times> mem) option" where
  "fdt_appendprop_addrrange fdt parent nodeoffset name addr sz m =
     (let addr_cells = fdt_address_cells m fdt parent
      in if addr_cells <s 0 then Some (addr_cells, m)
         else let size_cells = fdt_size_cells m fdt parent
              in if size_cells <s 0 then Some (size_cells, m)
                 else if addr_cells = 1 \<and> (addr > 0xFFFFFFFF \<or> 0xFFFFFFFF + 1 - addr < sz)
                 then Some (- FDT_ERR_BADVALUE, m)
                 else if addr_cells \<noteq> 1 \<and> addr_cells \<noteq> 2 then Some (- FDT_ERR_BADNCELLS, m)
                 else if size_cells = 1 \<and> sz > 0xFFFFFFFF then Some (- FDT_ERR_BADVALUE, m)
                 else if size_cells \<noteq> 1 \<and> size_cells \<noteq> 2 then Some (- FDT_ERR_BADNCELLS, m)
                 else let data = (if addr_cells = 1 then be32_bytes (ucast addr) else be64_bytes addr) @
                                 (if size_cells = 1 then be32_bytes (ucast sz) else be64_bytes sz)
                      in fdt_appendprop fdt nodeoffset name data m)"

section \<open>Nodes\<close>

text \<open>The first offset behind the parent's begin tag that holds neither a property nor a no-op.\<close>

function subnode_place :: "mem \<Rightarrow> u64 \<Rightarrow> u32 \<Rightarrow> u32" where
  "subnode_place m fdt offset =
     (case fdt_next_tag m fdt offset of (tag, nextoffset) \<Rightarrow>
        if tag = FDT_PROP \<or> tag = FDT_NOP then subnode_place m fdt nextoffset else offset)"
  by pat_completeness auto
termination
  by (relation "measure (\<lambda>(m, fdt, offset). offsets_left offset)")
    (auto intro!: fdt_next_tag_left [OF sym] simp: tag_values)

declare subnode_place.simps [simp del]

definition fdt_add_subnode_namelen :: "u64 \<Rightarrow> u32 \<Rightarrow> u8 list \<Rightarrow> mem \<Rightarrow> (u32 \<times> mem) option" where
  "fdt_add_subnode_namelen fdt parentoffset name m =
     (case fdt_rw_probe_priv fdt m of (err, m) \<Rightarrow>
        if err \<noteq> 0 then Some (err, m)
        else map_option (\<lambda>offset.
               if \<not> offset <s 0 then (- FDT_ERR_EXISTS, m)
               else if offset \<noteq> - FDT_ERR_NOTFOUND then (offset, m)
               else (case fdt_next_tag m fdt parentoffset of (tag, nextoffset) \<Rightarrow>
                       if \<not> can_assume ASSUME_LIBFDT_FLAWLESS \<and> tag \<noteq> FDT_BEGIN_NODE
                       then (- FDT_ERR_INTERNAL, m)
                       else let offset = subnode_place m fdt nextoffset;
                                nh = fdt_offset_ptr_w_priv m fdt offset;
                                namelen = of_nat (length name);
                                nodelen = 4 + FDT_TAGALIGN (namelen + 1) + FDT_TAGSIZE
                            in (case fdt_splice_struct_priv fdt nh 0 nodelen m of (err, m) \<Rightarrow>
                                  if err \<noteq> 0 then (err, m)
                                  else let m = st32 m nh (cpu_to_fdt32 FDT_BEGIN_NODE);
                                           m = snd (memset (nh + 4) 0 (FDT_TAGALIGN_size (namelen + 1)) m);
                                           m = store_bytes (nh + 4) name m;
                                           endtag = nh + scast nodelen - ucast FDT_TAGSIZE
                                       in (offset, st32 m endtag (cpu_to_fdt32 FDT_END_NODE)))))
             (fdt_subnode_offset_namelen m fdt parentoffset name))"

definition fdt_add_subnode :: "u64 \<Rightarrow> u32 \<Rightarrow> u8 list \<Rightarrow> mem \<Rightarrow> (u32 \<times> mem) option" where
  "fdt_add_subnode fdt parentoffset name m = fdt_add_subnode_namelen fdt parentoffset name m"

definition fdt_del_node :: "u64 \<Rightarrow> u32 \<Rightarrow> mem \<Rightarrow> u32 \<times> mem" where
  "fdt_del_node fdt nodeoffset m =
     (case fdt_rw_probe_priv fdt m of (err, m) \<Rightarrow>
        if err \<noteq> 0 then (err, m)
        else let endoffset = fdt_node_end_offset_priv m fdt nodeoffset
             in if endoffset <s 0 then (endoffset, m)
                else fdt_splice_struct_priv fdt (fdt_offset_ptr_w_priv m fdt nodeoffset)
                       (endoffset - nodeoffset) 0 m)"

section \<open>Whole trees\<close>

definition fdt_packblocks_priv :: "u64 \<Rightarrow> u64 \<Rightarrow> u32 \<Rightarrow> u32 \<Rightarrow> u32 \<Rightarrow> mem \<Rightarrow> mem" where
  "fdt_packblocks_priv old new mem_rsv_size struct_size strings_size m =
     (let mem_rsv_off = (40 + 8 - 1) AND NOT (8 - 1);
          struct_off = mem_rsv_off + mem_rsv_size;
          strings_off = struct_off + struct_size;
          m = snd (memmove (new + scast mem_rsv_off) (old + ucast (fdt_off_mem_rsvmap m old))
                (scast mem_rsv_size) m);
          m = fdt_set_off_mem_rsvmap new mem_rsv_off m;
          m = snd (memmove (new + scast struct_off) (old + ucast (fdt_off_dt_struct m old))
                (scast struct_size) m);
          m = fdt_set_off_dt_struct new struct_off m;
          m = fdt_set_size_dt_struct new struct_size m;
          m = snd (memmove (new + scast strings_off) (old + ucast (fdt_off_dt_strings m old))
                (scast strings_size) m);
          m = fdt_set_off_dt_strings new strings_off m
      in fdt_set_size_dt_strings new (fdt_size_dt_strings m old) m)"

text \<open>The size of the structure block of a version that does not record it.\<close>

function struct_end :: "mem \<Rightarrow> u64 \<Rightarrow> u32 \<Rightarrow> u32" where
  "struct_end m fdt struct_size =
     (case fdt_next_tag m fdt struct_size of (tag, nextoffset) \<Rightarrow>
        if tag \<noteq> FDT_END then struct_end m fdt nextoffset else nextoffset)"
  by pat_completeness auto
termination
  by (relation "measure (\<lambda>(m, fdt, offset). offsets_left offset)")
    (auto intro: fdt_next_tag_left [OF sym])

declare struct_end.simps [simp del]

text \<open>The old tree is packed in the new buffer, or behind itself when the two overlap.\<close>

definition reorder_into :: "u64 \<Rightarrow> u64 \<Rightarrow> u32 \<Rightarrow> u32 \<Rightarrow> u32 \<Rightarrow> mem \<Rightarrow> u32 \<times> mem" where
  "reorder_into fdt buf bufsize mem_rsv_size struct_size m =
     (let fdtend = fdt + ucast (fdt_totalsize m fdt);
          newsize = ((40 + 8 - 1) AND NOT (8 - 1)) + mem_rsv_size + struct_size + fdt_size_dt_strings m fdt;
          overlaps = (buf + scast newsize > fdt \<and> buf < fdtend);
          tmp = (if overlaps then fdtend else buf)
      in if bufsize <s newsize then (- FDT_ERR_NOSPACE, m)
         else if overlaps \<and> tmp + scast newsize > buf + scast bufsize then (- FDT_ERR_NOSPACE, m)
         else let m = fdt_packblocks_priv fdt tmp mem_rsv_size struct_size (fdt_size_dt_strings m fdt) m;
                  m = snd (memmove buf tmp (scast newsize) m);
                  m = fdt_set_magic buf FDT_MAGIC m;
                  m = fdt_set_totalsize buf bufsize m;
                  m = fdt_set_version buf 17 m;
                  m = fdt_set_last_comp_version buf 16 m
              in (0, fdt_set_boot_cpuid_phys buf (fdt_boot_cpuid_phys m fdt) m))"

definition fdt_open_into :: "u64 \<Rightarrow> u64 \<Rightarrow> u32 \<Rightarrow> mem \<Rightarrow> (u32 \<times> mem) option" where
  "fdt_open_into fdt buf bufsize m =
     (if fdt_ro_probe_priv m fdt <s 0 then Some (fdt_ro_probe_priv m fdt, m)
      else map_option (\<lambda>n.
             let mem_rsv_size = (n + 1) * 16;
                 struct_size = (if can_assume ASSUME_LATEST \<or> fdt_version m fdt \<ge> 17
                                then fdt_size_dt_struct m fdt
                                else if fdt_version m fdt = 16 then struct_end m fdt 0
                                else - FDT_ERR_BADVERSION)
             in if \<not> (can_assume ASSUME_LATEST \<or> fdt_version m fdt \<ge> 17) \<and> struct_size <s 0
                then (struct_size, m)
                else if can_assume ASSUME_LIBFDT_ORDER \<or>
                        \<not> fdt_blocks_misordered_priv m fdt mem_rsv_size struct_size
                then (case fdt_move m fdt buf bufsize of (err, m) \<Rightarrow>
                        if err \<noteq> 0 then (err, m)
                        else let m = fdt_set_version buf 17 m;
                                 m = fdt_set_size_dt_struct buf struct_size m
                             in (0, fdt_set_totalsize buf bufsize m))
                else reorder_into fdt buf bufsize mem_rsv_size struct_size m)
           (fdt_num_mem_rsv m fdt))"

definition fdt_pack :: "u64 \<Rightarrow> mem \<Rightarrow> (u32 \<times> mem) option" where
  "fdt_pack fdt m =
     (case fdt_rw_probe_priv fdt m of (err, m) \<Rightarrow>
        if err \<noteq> 0 then Some (err, m)
        else map_option (\<lambda>n.
               let mem_rsv_size = (n + 1) * 16;
                   m = fdt_packblocks_priv fdt fdt mem_rsv_size (fdt_size_dt_struct m fdt)
                         (fdt_size_dt_strings m fdt) m
               in (0, fdt_set_totalsize fdt (fdt_data_size_priv m fdt) m))
             (fdt_num_mem_rsv m fdt))"

definition fdt_create_empty_tree :: "u64 \<Rightarrow> u32 \<Rightarrow> mem \<Rightarrow> (u32 \<times> mem) option" where
  "fdt_create_empty_tree buf bufsize m =
     (case fdt_create buf bufsize m of (err, m) \<Rightarrow>
        if err \<noteq> 0 then Some (err, m)
        else (case fdt_finish_reservemap buf m of (err, m) \<Rightarrow>
                if err \<noteq> 0 then Some (err, m)
                else (case fdt_begin_node buf [] m of (err, m) \<Rightarrow>
                        if err \<noteq> 0 then Some (err, m)
                        else (case fdt_end_node buf m of (err, m) \<Rightarrow>
                                if err \<noteq> 0 then Some (err, m)
                                else (case fdt_finish buf m of (err, m) \<Rightarrow>
                                        if err \<noteq> 0 then Some (err, m)
                                        else fdt_open_into buf buf bufsize m)))))"

end
