(* ===== verification/Fdt_Frame.thy ===== *)
theory Fdt_Frame
  imports Fdt_Correct Fdt_Rw
begin

text \<open>
  Which bytes the writers of the device tree library touch: a relation between the memory before and
  after, the stores and block moves that stay inside a block, and the header fields behind them.
\<close>

section \<open>Memories that differ only in a block\<close>

definition frame :: "u64 \<Rightarrow> nat \<Rightarrow> mem \<Rightarrow> mem \<Rightarrow> bool" where
  "frame p n m m' \<longleftrightarrow> (\<forall>a. unat a < unat p \<or> unat p + n \<le> unat a \<longrightarrow> m' a = m a)"

lemma frame_refl [simp]: "frame p n m m"
  by (simp add: frame_def)

lemma frame_trans: "frame p n m m' \<Longrightarrow> frame p n m' m'' \<Longrightarrow> frame p n m m''"
  by (simp add: frame_def)

lemma frame_mono: "frame q k m m' \<Longrightarrow> unat p \<le> unat q \<Longrightarrow> unat q + k \<le> unat p + n \<Longrightarrow> frame p n m m'"
  by (auto simp: frame_def)

lemma frame_upd: "unat q < unat p + n \<Longrightarrow> unat p \<le> unat q \<Longrightarrow> frame p n m (m(q := b))"
  by (auto simp: frame_def)

lemma frame_if: "(c \<Longrightarrow> frame p n m m1) \<Longrightarrow> (\<not> c \<Longrightarrow> frame p n m m2) \<Longrightarrow> frame p n m (if c then m1 else m2)"
  by simp

text \<open>The address of a byte of a block.\<close>

lemma unat_add_of_nat: "unat (p :: u64) + k < 2 ^ 64 \<Longrightarrow> unat (p + of_nat k) = unat p + k"
  by (simp add: unat_add_64 unat_of_nat_64)

lemma unat_ucast_64 [simp]: "unat (ucast (x :: u32) :: u64) = unat x"
  by (simp add: unsigned_ucast_eq take_bit_nat_eq_self unat_lt_32 order.strict_trans [OF unat_lt_32])

lemma st_cpu_32: "st32 m p (cpu_to_fdt32 v) = fdt32_st p v m"
proof -
  have "ucast (cpu_to_fdt32 v) = (ucast (drop_bit 24 v) :: u8)"
    "ucast (drop_bit 8 (cpu_to_fdt32 v)) = (ucast (drop_bit 16 v) :: u8)"
    "ucast (drop_bit 16 (cpu_to_fdt32 v)) = (ucast (drop_bit 8 v) :: u8)"
    "ucast (drop_bit 24 (cpu_to_fdt32 v)) = (ucast v :: u8)"
    by (auto intro!: bit_word_eqI simp: cpu_to_fdt32_def CPU_TO_FDT32_def EXTRACT_BYTE_def bit_simps no_bit_u8)
  then show ?thesis by (simp add: st32_def fdt32_st_def low_byte)
qed

lemma frame_fdt32_st: "unat p + 4 \<le> 2 ^ 64 \<Longrightarrow> frame p 4 m (fdt32_st p v m)"
  using unat_add_of_nat [of p 1] unat_add_of_nat [of p 2] unat_add_of_nat [of p 3]
  by (auto simp: frame_def fdt32_st_def)

lemma frame_st64: "unat p + 8 \<le> 2 ^ 64 \<Longrightarrow> frame p 8 m (st64 m p v)"
  using unat_add_of_nat [of p 1] unat_add_of_nat [of p 2] unat_add_of_nat [of p 3]
    unat_add_of_nat [of p 4] unat_add_of_nat [of p 5] unat_add_of_nat [of p 6] unat_add_of_nat [of p 7]
  by (auto simp: frame_def st64_def)

lemma store_bytes_at:
  assumes "unat p + length bs \<le> 2 ^ 64"
  shows "store_bytes p bs m a =
    (if unat p \<le> unat a \<and> unat a < unat p + length bs then bs ! (unat a - unat p) else m a)"
  using assms
proof (induction bs arbitrary: p m)
  case (Cons b bs)
  show ?case
  proof (cases "bs = []")
    case False
    then have p: "unat (p + 1) = unat p + 1"
      using Cons.prems unat_add_of_nat [of p 1] by (cases bs) auto
    then have "unat (p + 1) + length bs \<le> 2 ^ 64" using Cons.prems by simp
    note IH = Cons.IH [OF this, of "m(p := b)"]
    show ?thesis
      using p by (cases "a = p") (auto simp: IH nth_Cons' u64_eq_iff)
  qed (auto simp: u64_eq_iff)
qed auto

lemma frame_store_bytes: "unat p + length bs \<le> 2 ^ 64 \<Longrightarrow> frame p (length bs) m (store_bytes p bs m)"
  by (auto simp: frame_def store_bytes_at)

lemma frame_memmove:
  "block d n \<Longrightarrow> block s n \<Longrightarrow> frame d (unat n) m (snd (memmove d s n m))"
  by (auto simp: memmove_moves frame_def in_block_def)

lemma frame_memset: "block d n \<Longrightarrow> frame d (unat n) m (snd (memset d c n m))"
  by (auto simp: memset_def memset_from_fills frame_def in_block_def)

section \<open>Header fields\<close>

text \<open>The fields are four bytes long, at multiples of four.\<close>

lemma hdr_get_set:
  assumes "4 dvd unat f" "4 dvd unat g"
  shows "fdt32_ld (fdt_set_hdr f fdt v m) (fdt + g) = (if f = g then v else fdt32_ld m (fdt + g))"
proof (cases "f = g")
  case True
  then show ?thesis by (simp add: fdt_set_hdr_def st_cpu_32 ld_st_32)
next
  case False
  have inside: "unat (h + of_nat k) = unat h + k" if "4 dvd unat h" "k < 4" for h :: u64 and k
  proof (rule unat_add_of_nat)
    have "unat h + 4 \<le> 18446744073709551616"
      using that unat_lt_64 [of h] by (intro nat_mult_aligned_le) simp_all
    with that show "unat h + k < 2 ^ 64" by simp
  qed
  have "f + of_nat i \<noteq> g + of_nat j" if "i < 4" "j < 4" for i j
  proof
    assume "f + of_nat i = g + of_nat j"
    then have "unat f + i = unat g + j"
      using inside [OF assms(1) that(1)] inside [OF assms(2) that(2)] by (metis)
    then have "(unat f + i) div 4 = (unat g + j) div 4" by simp
    with assms that have "unat f = unat g" by (elim dvdE) simp
    with False show False by (simp add: u64_eq_iff)
  qed
  note d = this
  have ne: "fdt + (f + of_nat i) \<noteq> fdt + (g + of_nat j)" if "i < 4" "j < 4" for i j
    using d [OF that] by simp
  have "fdt_set_hdr f fdt v m (fdt + (g + of_nat j)) = m (fdt + (g + of_nat j))" if "j < 4" for j
    using ne [of 0 j] ne [of 1 j] ne [of 2 j] ne [of 3 j] that
    by (simp add: fdt_set_hdr_def st32_def add.assoc)
  from this [of 0] this [of 1] this [of 2] this [of 3] False show ?thesis
    by (simp add: fdt32_ld_def add.assoc)
qed

lemma hdr_get_set_0:
  "4 dvd unat f \<Longrightarrow> fdt32_ld (fdt_set_hdr f fdt v m) fdt = (if f = 0 then v else fdt32_ld m fdt)"
  using hdr_get_set [of f 0 fdt v m] by simp

lemmas fdt_getters = fdt_magic_def fdt_totalsize_def fdt_off_dt_struct_def fdt_off_dt_strings_def
  fdt_off_mem_rsvmap_def fdt_version_def fdt_last_comp_version_def fdt_boot_cpuid_phys_def
  fdt_size_dt_strings_def fdt_size_dt_struct_def

lemma hdr_simps [simp]:
  assumes "4 dvd unat f"
  shows "fdt_magic (fdt_set_hdr f fdt v m) fdt = (if f = 0 then v else fdt_magic m fdt)"
    "fdt_totalsize (fdt_set_hdr f fdt v m) fdt = (if f = 4 then v else fdt_totalsize m fdt)"
    "fdt_off_dt_struct (fdt_set_hdr f fdt v m) fdt = (if f = 8 then v else fdt_off_dt_struct m fdt)"
    "fdt_off_dt_strings (fdt_set_hdr f fdt v m) fdt = (if f = 12 then v else fdt_off_dt_strings m fdt)"
    "fdt_off_mem_rsvmap (fdt_set_hdr f fdt v m) fdt = (if f = 16 then v else fdt_off_mem_rsvmap m fdt)"
    "fdt_version (fdt_set_hdr f fdt v m) fdt = (if f = 20 then v else fdt_version m fdt)"
    "fdt_last_comp_version (fdt_set_hdr f fdt v m) fdt = (if f = 24 then v else fdt_last_comp_version m fdt)"
    "fdt_boot_cpuid_phys (fdt_set_hdr f fdt v m) fdt = (if f = 28 then v else fdt_boot_cpuid_phys m fdt)"
    "fdt_size_dt_strings (fdt_set_hdr f fdt v m) fdt = (if f = 32 then v else fdt_size_dt_strings m fdt)"
    "fdt_size_dt_struct (fdt_set_hdr f fdt v m) fdt = (if f = 36 then v else fdt_size_dt_struct m fdt)"
  by (simp_all add: fdt_getters hdr_get_set [OF assms] hdr_get_set_0 [OF assms])

lemma frame_set_hdr:
  "unat fdt + unat f + 4 \<le> 2 ^ 64 \<Longrightarrow> frame (fdt + f) 4 m (fdt_set_hdr f fdt v m)"
  using unat_add_64 [of fdt f] by (simp add: fdt_set_hdr_def st_cpu_32 frame_fdt32_st)

text \<open>The header as a whole.\<close>

definition same_header :: "mem \<Rightarrow> mem \<Rightarrow> u64 \<Rightarrow> bool" where
  "same_header m m' fdt \<longleftrightarrow> (\<forall>k < 40. m' (fdt + of_nat k) = m (fdt + of_nat k))"

lemma same_header_refl [simp]: "same_header m m fdt"
  by (simp add: same_header_def)

lemma frame_same_header:
  assumes "frame q n m m'" and "unat fdt + 40 \<le> unat q"
  shows "same_header m m' fdt"
  unfolding same_header_def
proof (intro allI impI)
  fix k :: nat assume "k < 40"
  then have "unat (fdt + of_nat k) < unat q"
    using assms(2) unat_lt_64 [of q] by (subst unat_add_of_nat) simp_all
  with assms(1) show "m' (fdt + of_nat k) = m (fdt + of_nat k)"
    by (simp add: frame_def)
qed

lemma same_header_ld:
  assumes "same_header m m' fdt" and "k \<le> 36"
  shows "fdt32_ld m' (fdt + of_nat k) = fdt32_ld m (fdt + of_nat k)"
proof -
  have "m' (fdt + of_nat (k + j)) = m (fdt + of_nat (k + j))" if "j < 4" for j
    using assms that by (simp add: same_header_def del: of_nat_add)
  from this [of 0] this [of 1] this [of 2] this [of 3] show ?thesis
    by (simp add: fdt32_ld_def ac_simps)
qed

lemma same_header_fields:
  assumes "same_header m m' fdt"
  shows "fdt_magic m' fdt = fdt_magic m fdt" "fdt_totalsize m' fdt = fdt_totalsize m fdt"
    "fdt_off_dt_struct m' fdt = fdt_off_dt_struct m fdt"
    "fdt_off_dt_strings m' fdt = fdt_off_dt_strings m fdt"
    "fdt_off_mem_rsvmap m' fdt = fdt_off_mem_rsvmap m fdt" "fdt_version m' fdt = fdt_version m fdt"
    "fdt_last_comp_version m' fdt = fdt_last_comp_version m fdt"
    "fdt_boot_cpuid_phys m' fdt = fdt_boot_cpuid_phys m fdt"
    "fdt_size_dt_strings m' fdt = fdt_size_dt_strings m fdt"
    "fdt_size_dt_struct m' fdt = fdt_size_dt_struct m fdt"
  using same_header_ld [OF assms, of 0] same_header_ld [OF assms, of 4] same_header_ld [OF assms, of 8]
    same_header_ld [OF assms, of 12] same_header_ld [OF assms, of 16] same_header_ld [OF assms, of 20]
    same_header_ld [OF assms, of 24] same_header_ld [OF assms, of 28] same_header_ld [OF assms, of 32]
    same_header_ld [OF assms, of 36]
  by (simp_all add: fdt_getters)

end
