(* ===== verification/Fdt_Sw_Correct.thy ===== *)
theory Fdt_Sw_Correct
  imports Fdt_Frame
begin

text \<open>
  The sequential writer keeps to its buffer: the state in the header, its invariant, and that every
  call with a property name of at most 47 bytes returns and writes only inside the buffer.
\<close>

section \<open>Calls\<close>

datatype sw_call =
    Add_reservemap_entry u64 u64
  | Finish_reservemap
  | Begin_node "u8 list"
  | End_node
  | Property_placeholder "u8 list" u32
  | Property "u8 list" "u8 list"
  | Finish

fun sw_apply :: "u64 \<Rightarrow> sw_call \<Rightarrow> mem \<Rightarrow> (u32 \<times> mem) option" where
  "sw_apply fdt (Add_reservemap_entry addr sz) m = Some (fdt_add_reservemap_entry fdt addr sz m)"
| "sw_apply fdt Finish_reservemap m = Some (fdt_finish_reservemap fdt m)"
| "sw_apply fdt (Begin_node name) m = Some (fdt_begin_node fdt name m)"
| "sw_apply fdt End_node m = Some (fdt_end_node fdt m)"
| "sw_apply fdt (Property_placeholder name len) m =
     map_option (\<lambda>(ret, p, m). (ret, m)) (fdt_property_placeholder fdt name len m)"
| "sw_apply fdt (Property name val) m = fdt_property fdt name val m"
| "sw_apply fdt Finish m = Some (fdt_finish fdt m)"

fun sw_run :: "u64 \<Rightarrow> sw_call list \<Rightarrow> mem \<Rightarrow> (u32 list \<times> mem) option" where
  "sw_run fdt [] m = Some ([], m)"
| "sw_run fdt (c # cs) m =
     Option.bind (sw_apply fdt c m) (\<lambda>(ret, m). map_option (\<lambda>(rets, m). (ret # rets, m)) (sw_run fdt cs m))"

text \<open>Values fit an \<^verbatim>\<open>int\<close>, and the names of properties are at most 47 bytes long.\<close>

fun small_call :: "sw_call \<Rightarrow> bool" where
  "small_call (Begin_node name) \<longleftrightarrow> length name < 2147483647"
| "small_call (Property_placeholder name len) \<longleftrightarrow> length name < 48 \<and> \<not> len <s 0"
| "small_call (Property name val) \<longleftrightarrow> length name < 48 \<and> length val < 2147483648"
| "small_call _ \<longleftrightarrow> True"

section \<open>The state\<close>

definition buffer :: "u64 \<Rightarrow> nat \<Rightarrow> bool" where
  "buffer fdt n \<longleftrightarrow> n < 2147483648 \<and> unat fdt + n < 2 ^ 64"

text \<open>
  While the tree is written the structure block grows up from its offset behind the header and the
  reservations, and the strings grow down from the end.
\<close>

definition sw_open :: "u64 \<Rightarrow> nat \<Rightarrow> mem \<Rightarrow> bool" where
  "sw_open fdt n m \<longleftrightarrow> fdt_magic m fdt = FDT_SW_MAGIC \<and> unat (fdt_totalsize m fdt) = n \<and>
     48 \<le> unat (fdt_off_dt_struct m fdt) \<and>
     unat (fdt_off_dt_struct m fdt) + unat (fdt_size_dt_struct m fdt) + unat (fdt_size_dt_strings m fdt) \<le> n \<and>
     (fdt_off_dt_strings m fdt = 0 \<longrightarrow> fdt_size_dt_struct m fdt = 0 \<and> fdt_size_dt_strings m fdt = 0) \<and>
     fdt_off_mem_rsvmap m fdt = 48 \<and> 4 dvd unat (fdt_off_dt_struct m fdt) \<and> fdt_version m fdt = 17"

text \<open>The finished tree: its blocks lie behind the header and inside its total size.\<close>

definition sw_complete :: "u64 \<Rightarrow> nat \<Rightarrow> mem \<Rightarrow> bool" where
  "sw_complete fdt n m \<longleftrightarrow> fdt_magic m fdt = FDT_MAGIC \<and> unat (fdt_totalsize m fdt) \<le> n \<and>
     48 \<le> unat (fdt_off_dt_struct m fdt) \<and> 48 \<le> unat (fdt_off_dt_strings m fdt) \<and>
     unat (fdt_off_dt_struct m fdt) + unat (fdt_size_dt_struct m fdt) \<le> unat (fdt_totalsize m fdt) \<and>
     unat (fdt_off_dt_strings m fdt) + unat (fdt_size_dt_strings m fdt) \<le> unat (fdt_totalsize m fdt) \<and>
     fdt_off_mem_rsvmap m fdt = 48 \<and> 4 dvd unat (fdt_off_dt_struct m fdt) \<and> fdt_version m fdt = 17 \<and>
     fdt_last_comp_version m fdt = 16"

definition sw_ok :: "u64 \<Rightarrow> nat \<Rightarrow> mem \<Rightarrow> bool" where
  "sw_ok fdt n m \<longleftrightarrow> sw_open fdt n m \<or> sw_complete fdt n m"

text \<open>What every call guarantees.\<close>

definition sw_safe :: "u64 \<Rightarrow> nat \<Rightarrow> mem \<Rightarrow> mem \<Rightarrow> bool" where
  "sw_safe fdt n m m' \<longleftrightarrow> sw_ok fdt n m' \<and> frame fdt n m m'"

lemma magics: "FDT_MAGIC \<noteq> FDT_SW_MAGIC" "FDT_SW_MAGIC \<noteq> FDT_MAGIC"
  by (simp_all add: FDT_SW_MAGIC_def FDT_MAGIC_def)

lemma sw_open_same:
  "sw_open fdt n m \<Longrightarrow> frame q k m m' \<Longrightarrow> unat fdt + 48 \<le> unat q \<Longrightarrow> sw_open fdt n m'"
  using same_header_fields [of m m' fdt] frame_same_header [of q k m m' fdt]
  by (simp add: sw_open_def)

text \<open>A block of the buffer behind the header.\<close>

lemma in_buffer:
  assumes "frame q k m m'" "unat fdt + 48 \<le> unat q" "unat q + k \<le> unat fdt + n"
  shows "frame fdt n m m'" and "sw_open fdt n m \<Longrightarrow> sw_open fdt n m'" and "same_header m m' fdt"
  using frame_mono [OF assms(1), of fdt n] sw_open_same [OF _ assms(1,2), of n]
    frame_same_header [OF assms(1), of fdt] assms(2,3) by auto

lemma frame_header_field:
  assumes "buffer fdt n" "40 \<le> n" "f \<le> 36"
  shows "frame fdt n m (fdt_set_hdr f fdt v m)"
proof (rule frame_mono)
  have f: "unat f \<le> 36" using assms(3) by (simp add: word_le_nat_alt)
  then show "frame (fdt + f) 4 m (fdt_set_hdr f fdt v m)"
    using assms(1,2) by (intro frame_set_hdr) (simp add: buffer_def)
  have "unat (fdt + f) = unat fdt + unat f"
    using assms(1,2) f by (intro unat_add_64) (simp add: buffer_def)
  then show "unat fdt \<le> unat (fdt + f)" "unat (fdt + f) + 4 \<le> unat fdt + n"
    using f assms(2) by simp_all
qed

section \<open>Space in the structure block\<close>

lemma grab_space_cases:
  assumes "fdt_grab_space_priv fdt len m = (p, m')" "sw_open fdt n m" "buffer fdt n"
    and "fdt_off_dt_strings m fdt \<noteq> 0"
  obtains "p = 0" "m' = m"
  | "unat p = unat fdt + unat (fdt_off_dt_struct m fdt) + unat (fdt_size_dt_struct m fdt)" "p \<noteq> 0"
    "unat fdt + 48 \<le> unat p" "unat p + unat len \<le> unat fdt + n"
    "unat p + unat len + unat (fdt_size_dt_strings m fdt) \<le> unat fdt + n"
    "sw_open fdt n m'" "frame fdt n m m'"
    "unat (fdt_size_dt_struct m' fdt) = unat (fdt_size_dt_struct m fdt) + unat len"
    "fdt_off_dt_struct m' fdt = fdt_off_dt_struct m fdt"
    "fdt_size_dt_strings m' fdt = fdt_size_dt_strings m fdt"
    "fdt_off_dt_strings m' fdt = fdt_off_dt_strings m fdt"
proof -
  let ?O = "fdt_off_dt_struct m fdt" and ?S = "fdt_size_dt_struct m fdt"
    and ?R = "fdt_size_dt_strings m fdt" and ?T = "fdt_totalsize m fdt"
  let ?left = "?T - ?O - ?R"
  have I: "unat ?T = n" "48 \<le> unat ?O" "unat ?O + unat ?S + unat ?R \<le> n" "n < 2147483648"
    "unat fdt + n < 2 ^ 64" "fdt_magic m fdt = FDT_SW_MAGIC"
    using assms(2,3) by (auto simp: sw_open_def buffer_def)
  have "?O \<le> ?T" "?R \<le> ?T - ?O" "unat (?T - ?O) = n - unat ?O"
    using I by (simp_all add: word_le_nat_alt unat_sub)
  then have left: "unat ?left = n - unat ?O - unat ?R"
    by (simp add: unat_sub)
  show thesis
  proof (cases "(ucast ?S :: u64) + len < ucast ?S \<or> (ucast ?S :: u64) + len > ucast ?left")
    case True
    then have "p = 0" "m' = m"
      using assms(1) by (auto simp: fdt_grab_space_priv_def Let_def)
    then show ?thesis by (rule that(1))
  next
    case False
    have "\<not> (ucast ?S :: u64) + len < ucast ?S" using False by simp
    then have sum: "unat ((ucast ?S :: u64) + len) = unat ?S + unat len"
      using unat_lt_64 [of len] unat_lt_32 [of ?S]
      by (auto simp: word_less_nat_alt unat_word_ariths not_less mod_if split: if_splits)
    with False left have fits: "unat ?S + unat len \<le> n - unat ?O - unat ?R"
      by (simp add: word_le_nat_alt not_less)
    have m': "m' = fdt_set_size_dt_struct fdt (ucast ((ucast ?S :: u64) + len)) m"
      and p: "p = fdt_offset_ptr_priv m' fdt ?S"
      using assms(1) False by (auto simp: fdt_grab_space_priv_def Let_def)
    have "unat (ucast ((ucast ?S :: u64) + len) :: u32) = unat ?S + unat len"
      using fits I sum by (simp add: unsigned_ucast_eq take_bit_nat_eq_self)
    then have S': "unat (fdt_size_dt_struct m' fdt) = unat ?S + unat len"
      and same: "fdt_off_dt_struct m' fdt = ?O" "fdt_size_dt_strings m' fdt = ?R"
      "fdt_magic m' fdt = fdt_magic m fdt" "fdt_totalsize m' fdt = ?T"
      "fdt_off_dt_strings m' fdt = fdt_off_dt_strings m fdt"
      "fdt_off_mem_rsvmap m' fdt = fdt_off_mem_rsvmap m fdt" "fdt_version m' fdt = fdt_version m fdt"
      by (simp_all add: m' fdt_set_size_dt_struct_def)
    have "frame fdt n m m'"
      unfolding m' fdt_set_size_dt_struct_def using I
      by (intro frame_header_field assms(3)) simp_all
    moreover have "sw_open fdt n m'"
      using I S' same fits assms(2,4) by (simp add: sw_open_def)
    moreover have "unat p = unat fdt + unat ?O + unat ?S"
    proof -
      have "\<not> ?S <s 0" using I by (simp add: nonneg_iff)
      then have p: "p = fdt + ucast ?O + of_nat (unat ?S)"
        by (simp add: p same fdt_offset_ptr_priv_def scast_nonneg)
      have "unat (fdt + ucast ?O) = unat fdt + unat ?O"
        using I by (subst unat_add_64) simp_all
      then show ?thesis
        unfolding p using I by (subst unat_add_of_nat) simp_all
    qed
    ultimately show ?thesis
      using I fits S' same by (intro that(2)) auto
  qed
qed


section \<open>The states\<close>

lemma sw_probe_values:
  "sw_open fdt n m \<Longrightarrow> fdt_sw_probe_priv m fdt = 0"
  "fdt_magic m fdt = FDT_MAGIC \<Longrightarrow> fdt_sw_probe_priv m fdt = - FDT_ERR_BADSTATE"
  by (auto simp: fdt_sw_probe_priv_def sw_open_def magics)

lemma bad_state [simp]: "FDT_ERR_BADSTATE \<noteq> 0" "FDT_ERR_NOSPACE \<noteq> 0"
  by (simp_all add: FDT_ERR_BADSTATE_def FDT_ERR_NOSPACE_def)

lemma sw_struct_probe:
  assumes "sw_ok fdt n m" "fdt_sw_probe_struct_priv m fdt = 0"
  shows "sw_open fdt n m" "fdt_off_dt_strings m fdt = fdt_totalsize m fdt" "fdt_off_dt_strings m fdt \<noteq> 0"
proof -
  show "sw_open fdt n m"
    using assms sw_probe_values(2) [of m fdt] by (auto simp: sw_ok_def sw_complete_def fdt_sw_probe_struct_priv_def Let_def)
  from this sw_probe_values(1) [OF this] assms(2)
  show "fdt_off_dt_strings m fdt = fdt_totalsize m fdt" "fdt_off_dt_strings m fdt \<noteq> 0"
    by (auto simp: fdt_sw_probe_struct_priv_def sw_open_def split: if_splits)
qed

lemma sw_memrsv_probe:
  assumes "sw_ok fdt n m" "fdt_sw_probe_memrsv_priv m fdt = 0"
  shows "sw_open fdt n m" "fdt_size_dt_struct m fdt = 0" "fdt_size_dt_strings m fdt = 0"
proof -
  show "sw_open fdt n m"
    using assms sw_probe_values(2) [of m fdt] by (auto simp: sw_ok_def sw_complete_def fdt_sw_probe_memrsv_priv_def Let_def)
  from this sw_probe_values(1) [OF this] assms(2)
  show "fdt_size_dt_struct m fdt = 0" "fdt_size_dt_strings m fdt = 0"
    by (auto simp: fdt_sw_probe_memrsv_priv_def sw_open_def split: if_splits)
qed

lemma sw_safe_refl: "sw_ok fdt n m \<Longrightarrow> sw_safe fdt n m m"
  by (simp add: sw_safe_def)

section \<open>Nodes and reservations\<close>

lemma tagalign_size_bounds:
  assumes "\<not> x <s 0"
  shows "unat x \<le> unat (FDT_TAGALIGN_size x)" "unat (FDT_TAGALIGN_size x) \<le> unat x + 3"
proof -
  have x: "unat x < 2147483648" using assms by (simp add: nonneg_iff)
  have s: "unat (3 + scast x :: u64) = unat x + 3"
    unfolding scast_nonneg [OF assms] using x by (subst unat_add_64) simp_all
  have "(w :: u64) AND - 4 = w - take_bit 2 w" for w
  proof -
    have "(w AND NOT 3) + (w AND 3) = w"
      by (subst disjunctive_add_eq_or) (auto intro!: bit_word_eqI simp: bit_simps)
    then show ?thesis
      by (simp add: eq_diff_eq take_bit_eq_mask mask_eq_exp_minus_1)
  qed
  then have "unat ((w :: u64) AND - 4) = unat w - unat w mod 4" for w
    by (simp add: unat_sub take_bit_le unat_take_bit_64)
  then have "unat (FDT_TAGALIGN_size x) = (unat x + 3) - (unat x + 3) mod 4"
    by (simp add: FDT_TAGALIGN_size_def s)
  then show "unat x \<le> unat (FDT_TAGALIGN_size x)" "unat (FDT_TAGALIGN_size x) \<le> unat x + 3"
    by presburger+
qed

lemma st32_in_buffer:
  assumes "unat fdt + 48 \<le> unat q" "unat q + 4 \<le> unat fdt + n" "buffer fdt n"
  shows "frame fdt n m (st32 m q (cpu_to_fdt32 v))"
    and "sw_open fdt n m \<Longrightarrow> sw_open fdt n (st32 m q (cpu_to_fdt32 v))"
    and "same_header m (st32 m q (cpu_to_fdt32 v)) fdt"
proof -
  have "frame q 4 m (st32 m q (cpu_to_fdt32 v))"
    using assms unfolding st_cpu_32 by (intro frame_fdt32_st) (simp add: buffer_def)
  from in_buffer [OF this assms(1,2)] show "frame fdt n m (st32 m q (cpu_to_fdt32 v))"
    and "sw_open fdt n m \<Longrightarrow> sw_open fdt n (st32 m q (cpu_to_fdt32 v))"
    and "same_header m (st32 m q (cpu_to_fdt32 v)) fdt" by auto
qed

lemma store_in_buffer:
  assumes "unat fdt + 48 \<le> unat q" "unat q + length bs \<le> unat fdt + n" "buffer fdt n"
  shows "frame fdt n m (store_bytes q bs m)"
    and "sw_open fdt n m \<Longrightarrow> sw_open fdt n (store_bytes q bs m)"
proof -
  have "frame q (length bs) m (store_bytes q bs m)"
    using assms by (intro frame_store_bytes) (simp add: buffer_def)
  from in_buffer [OF this assms(1,2)] show "frame fdt n m (store_bytes q bs m)"
    and "sw_open fdt n m \<Longrightarrow> sw_open fdt n (store_bytes q bs m)" by auto
qed

text \<open>The address of a field of an element, which lies in the buffer.\<close>

lemma field_addr: "unat (q :: u64) + k \<le> unat fdt + n \<Longrightarrow> buffer fdt n \<Longrightarrow> unat (q + of_nat k) = unat q + k"
  by (rule unat_add_of_nat) (simp add: buffer_def)

lemma sw_begin_node:
  assumes "sw_ok fdt n m" "buffer fdt n" "length name < 2147483647"
  shows "sw_safe fdt n m (snd (fdt_begin_node fdt name m))"
proof (cases "fdt_sw_probe_struct_priv m fdt = 0")
  case False
  with assms(1) show ?thesis by (simp add: fdt_begin_node_def sw_safe_refl)
next
  case True
  note open_state = sw_struct_probe [OF assms(1) True]
  let ?len = "4 + FDT_TAGALIGN_size (of_nat (length name + 1))"
  have len: "\<not> (of_nat (length name + 1) :: u32) <s 0" "unat (of_nat (length name + 1) :: u32) = length name + 1"
    unfolding nonneg_iff using assms(3) by (simp_all add: unat_of_nat del: of_nat_Suc of_nat_add)
  have need: "length name + 5 \<le> unat ?len"
    using tagalign_size_bounds [OF len(1)] assms(3) unfolding len(2)
    by (subst unat_add_64) simp_all
  obtain p m1 where g: "fdt_grab_space_priv fdt ?len m = (p, m1)" by fastforce
  from g open_state(1) assms(2) open_state(3) show ?thesis
  proof (cases rule: grab_space_cases)
    case 1
    with True g assms(1) show ?thesis
      by (simp add: fdt_begin_node_def Let_def sw_safe_refl)
  next
    case 2
    let ?m2 = "st32 m1 p (cpu_to_fdt32 FDT_BEGIN_NODE)"
    have p4: "unat (p + 4) = unat p + 4"
      using field_addr [of p 4 fdt n] 2 need assms(2) by simp
    have "frame fdt n m1 ?m2" "sw_open fdt n ?m2"
      using 2 need assms(2) by (auto intro!: st32_in_buffer)
    moreover have "frame fdt n ?m2 (store_bytes (p + 4) (name @ [0]) ?m2)"
      "sw_open fdt n ?m2 \<Longrightarrow> sw_open fdt n (store_bytes (p + 4) (name @ [0]) ?m2)"
      using 2 need p4 assms(2) by (auto intro!: store_in_buffer)
    ultimately show ?thesis
      using True g 2 by (auto simp: fdt_begin_node_def Let_def sw_safe_def sw_ok_def intro: frame_trans)
  qed
qed

lemma sw_end_node:
  assumes "sw_ok fdt n m" "buffer fdt n"
  shows "sw_safe fdt n m (snd (fdt_end_node fdt m))"
proof (cases "fdt_sw_probe_struct_priv m fdt = 0")
  case False
  with assms(1) show ?thesis by (simp add: fdt_end_node_def sw_safe_refl)
next
  case True
  note open_state = sw_struct_probe [OF assms(1) True]
  obtain p m1 where g: "fdt_grab_space_priv fdt (ucast FDT_TAGSIZE) m = (p, m1)" by fastforce
  from g open_state(1) assms(2) open_state(3) show ?thesis
  proof (cases rule: grab_space_cases)
    case 1
    with True g assms(1) show ?thesis by (simp add: fdt_end_node_def sw_safe_refl)
  next
    case 2
    then have "frame fdt n m1 (st32 m1 p (cpu_to_fdt32 FDT_END_NODE))"
      "sw_open fdt n (st32 m1 p (cpu_to_fdt32 FDT_END_NODE))"
      using assms(2) by (auto intro!: st32_in_buffer simp: FDT_TAGSIZE_def)
    with True g 2 show ?thesis
      by (auto simp: fdt_end_node_def sw_safe_def sw_ok_def intro: frame_trans)
  qed
qed


lemma sw_add_reservemap_entry:
  assumes "sw_ok fdt n m" "buffer fdt n" "fdt_add_reservemap_entry fdt addr sz m = (ret, m')"
  shows "sw_safe fdt n m m'" and "ret = 0 \<Longrightarrow> sw_open fdt n m'"
proof -
  have "sw_safe fdt n m m' \<and> (ret = 0 \<longrightarrow> sw_open fdt n m')"
  proof (cases "fdt_sw_probe_memrsv_priv m fdt = 0")
    case False
    with assms(1,3) show ?thesis by (auto simp: fdt_add_reservemap_entry_def sw_safe_refl)
  next
    case True
    note memrsv = sw_memrsv_probe [OF assms(1) True]
    let ?O = "fdt_off_dt_struct m fdt"
    have I: "unat (fdt_totalsize m fdt) = n" "48 \<le> unat ?O" "unat ?O \<le> n" "n < 2147483648"
      "unat fdt + n < 2 ^ 64"
      using memrsv(1) assms(2) by (auto simp: sw_open_def buffer_def)
    have O: "(scast ?O :: u64) = ucast ?O"
    proof -
      have "\<not> ?O <s 0" using I by (simp add: nonneg_iff)
      then show ?thesis by (simp add: scast_nonneg)
    qed
    have sum: "unat (ucast ?O + 16 :: u64) = unat ?O + 16" "unat (?O + 16) = unat ?O + 16"
      using I by (subst unat_add_64, simp_all) (simp add: unat_add_32)
    show ?thesis
    proof (cases "ucast ?O + 16 > (ucast (fdt_totalsize m fdt) :: u64)")
      case full: True
      with True assms(1,3) O show ?thesis
        by (auto simp: fdt_add_reservemap_entry_def Let_def sw_safe_refl)
    next
      case False
      then have fits: "unat ?O + 16 \<le> n"
        using I sum by (simp add: word_less_nat_alt)
      let ?re = "fdt + ucast ?O"
      have re: "unat ?re = unat fdt + unat ?O"
        using I fits by (subst unat_add_64) simp_all
      then have re8: "unat (?re + 8) = unat ?re + 8"
        using I fits by (subst unat_add_64) simp_all
      let ?m1 = "st64 m ?re (cpu_to_fdt64 addr)"
      let ?m2 = "st64 ?m1 (?re + 8) (cpu_to_fdt64 sz)"
      have f1: "frame ?re 8 m ?m1" and f2: "frame (?re + 8) 8 ?m1 ?m2"
        using re re8 I fits by (simp_all add: frame_st64)
      have m1: "frame fdt n m ?m1" "sw_open fdt n ?m1"
        using in_buffer [OF f1] memrsv(1) re I fits by simp_all
      have m2: "frame fdt n ?m1 ?m2" "sw_open fdt n ?m2"
        using in_buffer [OF f2] m1(2) re re8 I fits by simp_all
      have "same_header m ?m1 fdt" "same_header ?m1 ?m2 fdt"
        using frame_same_header [OF f1] frame_same_header [OF f2] re re8 I by simp_all
      then have fields: "fdt_size_dt_struct ?m2 fdt = 0" "fdt_size_dt_strings ?m2 fdt = 0"
        "fdt_off_dt_struct ?m2 fdt = ?O"
        using memrsv(2,3) by (simp_all add: same_header_fields)
      have m': "ret = 0" "m' = fdt_set_off_dt_struct fdt (?O + 16) ?m2"
        using True False O assms(3) by (auto simp: fdt_add_reservemap_entry_def Let_def)
      have "sw_open fdt n m'"
        using m2(2) fields sum fits I
        by (simp add: m' fdt_set_off_dt_struct_def sw_open_def)
      moreover have "frame fdt n ?m2 m'"
        unfolding m' fdt_set_off_dt_struct_def using I assms(2)
        by (intro frame_header_field) simp_all
      ultimately show ?thesis
        using m1 m2 m' by (auto simp: sw_safe_def sw_ok_def intro: frame_trans)
    qed
  qed
  then show "sw_safe fdt n m m'" and "ret = 0 \<Longrightarrow> sw_open fdt n m'" by auto
qed

lemma sw_finish_reservemap:
  assumes "sw_ok fdt n m" "buffer fdt n"
  shows "sw_safe fdt n m (snd (fdt_finish_reservemap fdt m))"
proof -
  obtain ret m1 where r: "fdt_add_reservemap_entry fdt 0 0 m = (ret, m1)" by fastforce
  note add = sw_add_reservemap_entry [OF assms r]
  show ?thesis
  proof (cases "ret = 0")
    case False
    with r add show ?thesis by (simp add: fdt_finish_reservemap_def)
  next
    case True
    let ?m2 = "fdt_set_off_dt_strings fdt (fdt_totalsize m1 fdt) m1"
    from add(2) [OF True] have "48 \<le> n" "fdt_totalsize m1 fdt \<noteq> 0" "sw_open fdt n ?m2"
      by (auto simp: sw_open_def fdt_set_off_dt_strings_def)
    moreover from this have "frame fdt n m1 ?m2"
      unfolding fdt_set_off_dt_strings_def using assms(2) by (intro frame_header_field) simp_all
    ultimately show ?thesis
      using True r add by (auto simp: fdt_finish_reservemap_def sw_safe_def sw_ok_def intro: frame_trans)
  qed
qed

section \<open>Strings\<close>

text \<open>
  A string that is no longer than the space in front of the strings is refused or stored below the
  strings that are there. A longer one is not refused: the space left wraps around.
\<close>

lemma sw_add_string_cases:
  assumes "sw_open fdt n m" "buffer fdt n" "fdt_off_dt_strings m fdt \<noteq> 0" "length s < 48"
    and "fdt_sw_add_string_priv fdt s m = (off, m')"
  shows "frame fdt n m m' \<and> sw_open fdt n m' \<and> fdt_off_dt_strings m' fdt = fdt_off_dt_strings m fdt \<and>
    (off \<noteq> 0 \<longrightarrow> unat (fdt_size_dt_strings m' fdt) = unat (fdt_size_dt_strings m fdt) + length s + 1)"
proof -
  let ?O = "fdt_off_dt_struct m fdt" and ?S = "fdt_size_dt_struct m fdt"
    and ?R = "fdt_size_dt_strings m fdt" and ?T = "fdt_totalsize m fdt"
  let ?len = "of_nat (length s + 1) :: u32"
  let ?off = "?R + ?len"
  have I: "unat ?T = n" "48 \<le> unat ?O" "unat ?O + unat ?S + unat ?R \<le> n" "n < 2147483648"
    "unat fdt + n < 2 ^ 64"
    using assms(1,2) by (auto simp: sw_open_def buffer_def)
  have len: "unat ?len = length s + 1"
    using assms(4) by (simp add: unat_of_nat del: of_nat_Suc of_nat_add)
  have off: "unat ?off = unat ?R + length s + 1"
    using unat_add_32 [of ?R ?len] len I assms(4) by linarith
  then have left: "unat (?T - ?off) = n - unat ?off" "unat ?off \<le> n"
    using I assms(4) by (simp_all add: unat_sub word_le_nat_alt)
  have top: "unat (?O + ?S) = unat ?O + unat ?S"
    using I by (intro unat_add_32) simp
  show ?thesis
  proof (cases "?T - ?off < ?O + ?S")
    case True
    with assms(1,5) show ?thesis by (auto simp: fdt_sw_add_string_priv_def Let_def)
  next
    case False
    then have fits: "unat ?O + unat ?S + unat ?off \<le> n"
      using left top by (simp add: word_less_nat_alt)
    let ?q = "fdt + ucast ?T - ucast ?off"
    let ?m1 = "store_bytes ?q (s @ [0]) m"
    have m': "m' = fdt_set_size_dt_strings fdt ?off ?m1" "off = - ?off"
      using False assms(5) by (auto simp: fdt_sw_add_string_priv_def Let_def)
    have "unat (fdt + ucast ?T) = unat fdt + n"
      using I by (subst unat_add_64) simp_all
    then have q: "unat ?q = unat fdt + n - unat ?off"
      using left by (simp add: unat_sub word_le_nat_alt)
    have fr: "frame ?q (length (s @ [0])) m ?m1"
      using q off left I by (intro frame_store_bytes) simp
    have m1: "frame fdt n m ?m1" "sw_open fdt n ?m1"
      using in_buffer [OF fr] q off I fits assms(1) by simp_all
    have "same_header m ?m1 fdt"
      using frame_same_header [OF fr] q fits I by simp
    note fields = same_header_fields [OF this]
    have "sw_open fdt n m'"
      using m1(2) fields assms(3) fits off by (simp add: m' fdt_set_size_dt_strings_def sw_open_def)
    moreover have "frame fdt n ?m1 m'"
      unfolding m' fdt_set_size_dt_strings_def using assms(2) I
      by (intro frame_header_field) simp_all
    ultimately show ?thesis
      using m1 fields off by (auto simp: m' fdt_set_size_dt_strings_def intro: frame_trans)
  qed
qed


lemma find_string_loop_total: "unat last_start < 2 ^ 64 - 1 \<Longrightarrow> \<exists>q. find_string_loop m last_start s p = Some q"
proof (induction p rule: up_loop_induct [where n = "last_start + 1"])
  case (step p)
  have "p \<le> last_start \<Longrightarrow> p < last_start + 1"
    using step.prems by (simp add: word_le_nat_alt word_less_nat_alt unat_add_64)
  with step show ?case
    by (subst find_string_loop.simps) auto
qed

lemma sw_find_add_string_cases:
  assumes "sw_open fdt n m" "buffer fdt n" "fdt_off_dt_strings m fdt \<noteq> 0" "length s < 48"
  obtains off allocated m' where "fdt_sw_find_add_string_priv fdt s m = Some (off, allocated, m')"
    "frame fdt n m m'" "sw_open fdt n m'" "fdt_off_dt_strings m' fdt = fdt_off_dt_strings m fdt"
    "allocated \<and> off \<noteq> 0 \<longrightarrow>
      unat (fdt_size_dt_strings m' fdt) = unat (fdt_size_dt_strings m fdt) + length s + 1"
proof -
  let ?R = "fdt_size_dt_strings m fdt" and ?T = "fdt_totalsize m fdt"
  let ?strtab = "fdt + ucast ?T"
  have I: "unat ?T = n" "48 \<le> n" "unat fdt + n < 2 ^ 64"
    using assms(1,2) by (auto simp: sw_open_def buffer_def)
  have "unat ?strtab = unat fdt + n"
    using I by (subst unat_add_64) simp_all
  moreover have "unat (of_nat (length s) + 1 :: u64) = length s + 1"
    using assms(4) unat_add_of_nat [of 1 "length s"] by (simp add: add.commute)
  ultimately have "unat (?strtab - (of_nat (length s) + 1)) = unat fdt + n - (length s + 1)"
    using assms(4) I by (subst unat_sub) (simp_all add: word_le_nat_alt)
  then have last: "unat (?strtab - (of_nat (length s) + 1)) < 2 ^ 64 - 1"
    using I by simp
  obtain q where "find_string_loop m (?strtab - (of_nat (length s) + 1)) s (?strtab - scast ?R) = Some q"
    using find_string_loop_total [OF last] by blast
  then have q: "fdt_find_string_priv m (?strtab - scast ?R) ?R s = Some q"
    by (simp add: fdt_find_string_priv_def fdt_find_string_len_priv_def Let_def)
  obtain off m' where add: "fdt_sw_add_string_priv fdt s m = (off, m')" by fastforce
  show thesis
  proof (cases "q = 0")
    case True
    with q add sw_add_string_cases [OF assms add] that [of off True m'] show ?thesis
      by (simp add: fdt_sw_find_add_string_priv_def Let_def)
  next
    case False
    with q assms(1) that [of "ucast (q - ?strtab)" False m] show ?thesis
      by (simp add: fdt_sw_find_add_string_priv_def Let_def)
  qed
qed

section \<open>Properties\<close>

lemma sw_del_last_string:
  assumes "sw_open fdt n m" "buffer fdt n" "length s < 48"
    and "unat (fdt_size_dt_strings m fdt) = r + length s + 1" "fdt_off_dt_strings m fdt \<noteq> 0"
  shows "frame fdt n m (fdt_sw_del_last_string_priv fdt s m)"
    and "sw_open fdt n (fdt_sw_del_last_string_priv fdt s m)"
proof -
  let ?R = "fdt_size_dt_strings m fdt"
  have len: "unat (of_nat (length s + 1) :: u32) = length s + 1"
    using assms(3) by (simp add: unat_of_nat del: of_nat_Suc of_nat_add)
  have le: "of_nat (length s + 1) \<le> ?R"
    unfolding word_le_nat_alt len using assms(4) by simp
  have "unat (?R - of_nat (length s + 1)) = r"
    unfolding unat_sub [OF le] len using assms(4) by simp
  then show "sw_open fdt n (fdt_sw_del_last_string_priv fdt s m)"
    using assms(1,4,5)
    by (simp add: fdt_sw_del_last_string_priv_def fdt_set_size_dt_strings_def sw_open_def
        del: of_nat_Suc of_nat_add)
  show "frame fdt n m (fdt_sw_del_last_string_priv fdt s m)"
    unfolding fdt_sw_del_last_string_priv_def fdt_set_size_dt_strings_def using assms(1)
    by (intro frame_header_field assms(2)) (simp_all add: sw_open_def)
qed

text \<open>The header of a property in the space grabbed for it.\<close>

lemma store_prop_header:
  fixes x y z :: u32
  assumes "unat fdt + 48 \<le> unat p" "unat p + 12 \<le> unat fdt + n" "buffer fdt n" "sw_open fdt n m"
  defines "m' \<equiv> st32 (st32 (st32 m p (cpu_to_fdt32 x)) (p + 8) (cpu_to_fdt32 y)) (p + 4) (cpu_to_fdt32 z)"
  shows "frame fdt n m m'" and "sw_open fdt n m'"
proof -
  let ?m1 = "st32 m p (cpu_to_fdt32 x)"
  let ?m2 = "st32 ?m1 (p + 8) (cpu_to_fdt32 y)"
  have a: "unat (p + 4) = unat p + 4" "unat (p + 8) = unat p + 8"
    using field_addr [of p 4 fdt n] field_addr [of p 8 fdt n] assms(2,3) by simp_all
  have "frame fdt n m ?m1" "sw_open fdt n ?m1"
    using assms by (auto intro!: st32_in_buffer)
  moreover from this have "frame fdt n ?m1 ?m2" "sw_open fdt n ?m2"
    using a assms(1-3) by (auto intro!: st32_in_buffer)
  moreover from this have "frame fdt n ?m2 m'" "sw_open fdt n m'"
    unfolding m'_def using a assms(1-3) by (auto intro!: st32_in_buffer)
  ultimately show "frame fdt n m m'" and "sw_open fdt n m'"
    by (auto intro: frame_trans)
qed

lemma sw_property_placeholder:
  assumes "sw_ok fdt n m" "buffer fdt n" "length name < 48" "\<not> len <s 0"
  obtains ret p m' where "fdt_property_placeholder fdt name len m = Some (ret, p, m')"
    "sw_safe fdt n m m'" "ret = 0 \<longrightarrow> sw_open fdt n m' \<and>
      (\<exists>q. p = Some q \<and> unat fdt + 48 \<le> unat q \<and> unat q + unat len \<le> unat fdt + n)"
proof (cases "fdt_sw_probe_struct_priv m fdt = 0")
  case False
  with assms(1) that [of "fdt_sw_probe_struct_priv m fdt" None m] show ?thesis
    by (simp add: fdt_property_placeholder_def sw_safe_refl)
next
  case True
  note open_state = sw_struct_probe [OF assms(1) True]
  let ?string = "if sw_flags m fdt AND FDT_CREATE_FLAG_NO_NAME_DEDUP \<noteq> 0
    then (case fdt_sw_add_string_priv fdt name m of (nameoff, m) \<Rightarrow> Some (nameoff, True, m))
    else fdt_sw_find_add_string_priv fdt name m"
  obtain off allocated m1 where string: "?string = Some (off, allocated, m1)"
    and m1: "frame fdt n m m1" "sw_open fdt n m1" "fdt_off_dt_strings m1 fdt = fdt_off_dt_strings m fdt"
      "allocated \<and> off \<noteq> 0 \<longrightarrow>
        unat (fdt_size_dt_strings m1 fdt) = unat (fdt_size_dt_strings m fdt) + length name + 1"
  proof (cases "sw_flags m fdt AND FDT_CREATE_FLAG_NO_NAME_DEDUP = 0")
    case True
    with that sw_find_add_string_cases [OF open_state(1) assms(2) open_state(3) assms(3)] show thesis
      by (metis (no_types, lifting))
  next
    case False
    obtain off m1 where add: "fdt_sw_add_string_priv fdt name m = (off, m1)" by fastforce
    with False that [of off True m1] sw_add_string_cases [OF open_state(1) assms(2) open_state(3) assms(3) add]
    show thesis by simp
  qed
  show thesis
  proof (cases "off = 0")
    case zero: True
    with True string m1 that [of "- FDT_ERR_NOSPACE" None m1] show ?thesis
      by (simp add: fdt_property_placeholder_def sw_safe_def sw_ok_def)
  next
    case False
    let ?len = "12 + FDT_TAGALIGN_size len"
    have need: "12 + unat len \<le> unat ?len"
      using tagalign_size_bounds [OF assms(4)] assms(4) by (subst unat_add_64) (simp_all add: nonneg_iff)
    obtain p m2 where g: "fdt_grab_space_priv fdt ?len m1 = (p, m2)" by fastforce
    have nz: "fdt_off_dt_strings m1 fdt \<noteq> 0" using m1(3) open_state(3) by simp
    from g m1(2) assms(2) nz show ?thesis
    proof (cases rule: grab_space_cases)
      case 1
      let ?m3 = "if allocated then fdt_sw_del_last_string_priv fdt name m1 else m1"
      have "frame fdt n m1 ?m3 \<and> sw_open fdt n ?m3"
        using m1 False nz sw_del_last_string [OF m1(2) assms(2,3)] by simp
      with 1 True string g False m1 that [of "- FDT_ERR_NOSPACE" None ?m3] show ?thesis
        by (auto simp: fdt_property_placeholder_def sw_safe_def sw_ok_def intro: frame_trans)
    next
      case 2
      let ?m3 = "st32 (st32 (st32 m2 p (cpu_to_fdt32 FDT_PROP)) (p + 8) (cpu_to_fdt32 off)) (p + 4)
        (cpu_to_fdt32 len)"
      have fits: "unat p + 12 \<le> unat fdt + n" "unat (p + 12) = unat p + 12"
        using 2 need field_addr [of p 12 fdt n] assms(2) by simp_all
      have "frame fdt n m2 ?m3" "sw_open fdt n ?m3"
        using store_prop_header [OF 2(3) fits(1) assms(2) 2(6)] by auto
      with 2 True string g False m1 fits need that [of 0 "Some (p + 12)" ?m3] show ?thesis
        by (auto simp: fdt_property_placeholder_def sw_safe_def sw_ok_def Let_def intro: frame_trans)
    qed
  qed
qed

lemma sw_property:
  assumes "sw_ok fdt n m" "buffer fdt n" "length name < 48" "length val < 2147483648"
  obtains ret m' where "fdt_property fdt name val m = Some (ret, m')" "sw_safe fdt n m m'"
proof -
  let ?len = "of_nat (length val) :: u32"
  have len: "unat ?len = length val" "\<not> ?len <s 0"
    unfolding nonneg_iff using assms(4) by (simp_all add: unat_of_nat)
  from assms(1-3) len(2) obtain ret p m1 where
    r: "fdt_property_placeholder fdt name ?len m = Some (ret, p, m1)" and safe: "sw_safe fdt n m m1"
    and place: "ret = 0 \<longrightarrow> sw_open fdt n m1 \<and>
      (\<exists>q. p = Some q \<and> unat fdt + 48 \<le> unat q \<and> unat q + unat ?len \<le> unat fdt + n)"
    by (rule sw_property_placeholder)
  show thesis
  proof (cases "ret = 0")
    case False
    with r safe that [of ret m1] show ?thesis by (simp add: fdt_property_def)
  next
    case True
    with place len obtain q where q: "p = Some q" "unat fdt + 48 \<le> unat q"
      "unat q + length val \<le> unat fdt + n" and "sw_open fdt n m1" by auto
    with store_in_buffer [OF q(2,3) assms(2)] True r safe that [of 0 "store_bytes q val m1"] show ?thesis
      by (auto simp: fdt_property_def sw_safe_def sw_ok_def intro: frame_trans)
  qed
qed


section \<open>Finishing\<close>

lemma finish_loop_safe:
  assumes "sw_open fdt n m" "buffer fdt n"
  shows "frame fdt n m (snd (finish_loop fdt offset m)) \<and> sw_open fdt n (snd (finish_loop fdt offset m)) \<and>
    same_header m (snd (finish_loop fdt offset m)) fdt"
  using assms
proof (induction fdt offset m rule: finish_loop.induct)
  case (1 fdt offset m)
  obtain tag next_offset where t: "fdt_next_tag m fdt offset = (tag, next_offset)"
    by (cases "fdt_next_tag m fdt offset")
  show ?case
  proof (cases "tag = FDT_END")
    case True
    with t "1.prems" show ?thesis by (simp add: finish_loop.simps [of fdt offset m])
  next
    case False
    let ?entry = "fdt_offset_ptr_priv m fdt offset"
    let ?m1 = "if tag = FDT_PROP then
        st32 m (?entry + 8) (cpu_to_fdt32 (fdt32_to_cpu (ld32 m (?entry + 8)) + fdt_size_dt_strings m fdt))
      else m"
    have m1: "frame fdt n m ?m1 \<and> sw_open fdt n ?m1 \<and> same_header m ?m1 fdt"
    proof (cases "tag = FDT_PROP")
      case True
      note span = prop_tag_span(1,2) [OF t [unfolded True]]
      from span(2) "1.prems" have "unat (fdt_off_dt_struct m fdt) + unat offset + 12 \<le> n"
        by (simp add: sw_open_def)
      moreover from this span(1) "1.prems"
      have "unat ?entry = unat fdt + unat (fdt_off_dt_struct m fdt) + unat offset"
        using unat_add_of_nat [of fdt "unat (fdt_off_dt_struct m fdt) + unat offset"]
        by (simp add: buffer_def)
      moreover from calculation have "unat (?entry + 8) = unat ?entry + 8"
        using field_addr [of ?entry 8 fdt n] "1.prems"(2) by simp
      ultimately show ?thesis
        using True "1.prems" st32_in_buffer [of fdt "?entry + 8" n]
        by (simp add: sw_open_def)
    qed (use "1.prems" in simp)
    have "finish_loop fdt offset m = finish_loop fdt next_offset ?m1"
      using t False by (simp add: finish_loop.simps [of fdt offset m] Let_def)
    moreover have "frame fdt n ?m1 (snd (finish_loop fdt next_offset ?m1)) \<and>
        sw_open fdt n (snd (finish_loop fdt next_offset ?m1)) \<and>
        same_header ?m1 (snd (finish_loop fdt next_offset ?m1)) fdt"
      using "1.IH" [OF t [symmetric] False, unfolded Let_def] m1 "1.prems"(2) by blast
    ultimately show ?thesis
      using m1 by (auto intro: frame_trans simp: same_header_def)
  qed
qed

lemma sw_finish:
  assumes "sw_ok fdt n m" "buffer fdt n"
  shows "sw_safe fdt n m (snd (fdt_finish fdt m))"
proof (cases "fdt_sw_probe_struct_priv m fdt = 0")
  case False
  with assms(1) show ?thesis by (simp add: fdt_finish_def sw_safe_refl)
next
  case True
  note open_state = sw_struct_probe [OF assms(1) True]
  obtain p m1 where g: "fdt_grab_space_priv fdt 4 m = (p, m1)" by fastforce
  from g open_state(1) assms(2) open_state(3) show ?thesis
  proof (cases rule: grab_space_cases)
    case 1
    with True g assms(1) show ?thesis by (simp add: fdt_finish_def sw_safe_refl)
  next
    case 2
    let ?m2 = "st32 m1 p (cpu_to_fdt32 FDT_END)"
    have m2: "frame fdt n m1 ?m2" "sw_open fdt n ?m2"
      using 2 assms(2) by (auto intro!: st32_in_buffer)
    then have O4: "4 dvd unat (fdt_off_dt_struct ?m2 fdt)" by (simp add: sw_open_def)
    let ?O = "fdt_off_dt_struct ?m2 fdt" and ?S = "fdt_size_dt_struct ?m2 fdt"
      and ?R = "fdt_size_dt_strings ?m2 fdt" and ?T = "fdt_totalsize ?m2 fdt"
    let ?old = "?T - ?R" and ?new = "?O + ?S"
    have I: "unat ?T = n" "48 \<le> unat ?O" "unat ?O + unat ?S + unat ?R \<le> n" "n < 2147483648"
      "unat fdt + n < 2 ^ 64"
      using m2(2) assms(2) by (auto simp: sw_open_def buffer_def)
    have offs: "unat ?old = n - unat ?R" "unat ?new = unat ?O + unat ?S"
      using I by (simp_all add: unat_sub word_le_nat_alt unat_add_32)
    have nonneg: "\<not> ?old <s 0" "\<not> ?new <s 0"
      unfolding nonneg_iff offs using I by simp_all
    note casts = scast_nonneg [OF nonneg(1)] scast_nonneg [OF nonneg(2)]
    have addr: "unat (fdt + scast ?old) = unat fdt + (n - unat ?R)"
      "unat (fdt + scast ?new) = unat fdt + (unat ?O + unat ?S)"
      unfolding casts using offs I by (subst unat_add_of_nat; simp)+
    let ?m3 = "snd (memmove (fdt + scast ?new) (fdt + scast ?old) (ucast ?R) ?m2)"
    have blocks: "block (fdt + scast ?new) (ucast ?R)" "block (fdt + scast ?old) (ucast ?R)"
      unfolding block_def addr using I by simp_all
    from frame_memmove [OF this, of ?m2] have m3: "frame fdt n ?m2 ?m3" "sw_open fdt n ?m3"
      "same_header ?m2 ?m3 fdt"
      using in_buffer [of "fdt + scast ?new" "unat ?R" ?m2 ?m3 fdt n] m2(2) addr I by simp_all
    let ?m4 = "fdt_set_off_dt_strings fdt ?new ?m3"
    have "?new \<noteq> 0" using offs I by (auto simp: word_unat_eq_iff)
    then have m4: "frame fdt n ?m3 ?m4" "sw_open fdt n ?m4"
      unfolding fdt_set_off_dt_strings_def using m3(2) I assms(2)
      by (simp_all add: frame_header_field) (simp add: sw_open_def)
    obtain next_offset m5 where loop: "finish_loop fdt 0 ?m4 = (next_offset, m5)" by fastforce
    with finish_loop_safe [OF m4(2) assms(2), of 0] have m5: "frame fdt n ?m4 m5" "sw_open fdt n m5" "same_header ?m4 m5 fdt"
      by simp_all
    have upto: "frame fdt n m m5"
      using 2 m2 m3 m4 m5 by (blast intro: frame_trans)
    let ?m6 = "fdt_set_totalsize fdt (?new + fdt_size_dt_strings m5 fdt) m5"
    let ?m7 = "fdt_set_last_comp_version fdt FDT_LAST_COMPATIBLE_VERSION ?m6"
    let ?m8 = "fdt_set_magic fdt FDT_MAGIC ?m7"
    have fields: "frame fdt n m5 ?m6" "frame fdt n ?m6 ?m7" "frame fdt n ?m7 ?m8"
      unfolding fdt_setters using assms(2) I by (simp_all add: frame_header_field)
    have "frame fdt n m ?m8"
      by (rule frame_trans [OF upto], rule frame_trans [OF fields(1)], rule frame_trans [OF fields(2,3)])
    moreover have "sw_complete fdt n ?m8"
    proof -
      have "unat (?new + ?R) = unat ?O + unat ?S + unat ?R"
        using offs I by (subst unat_add_32) simp_all
      then show ?thesis
        using I offs O4 m5(2) same_header_fields [OF m5(3)] same_header_fields [OF m3(3)]
        by (simp add: sw_complete_def sw_open_def fdt_setters FDT_LAST_COMPATIBLE_VERSION_def)
    qed
    ultimately show ?thesis
      using True g 2 loop upto m5(2)
      by (auto simp: fdt_finish_def Let_def sw_safe_def sw_ok_def)
  qed
qed

section \<open>Runs\<close>

lemma sw_apply_safe:
  assumes "sw_ok fdt n m" "buffer fdt n" "small_call c"
  obtains r where "sw_apply fdt c m = Some r" "sw_safe fdt n m (snd r)"
proof (cases c)
  case (Add_reservemap_entry addr sz)
  with that show ?thesis
    using sw_add_reservemap_entry(1) [OF assms(1,2) surjective_pairing, of addr sz] by simp
next
  case Finish_reservemap
  with that show ?thesis using sw_finish_reservemap [OF assms(1,2)] by simp
next
  case (Begin_node name)
  with that assms(3) show ?thesis using sw_begin_node [OF assms(1,2), of name] by simp
next
  case End_node
  with that show ?thesis using sw_end_node [OF assms(1,2)] by simp
next
  case (Property_placeholder name len)
  with assms(3) have "length name < 48" "\<not> len <s 0" by simp_all
  with assms(1,2) obtain ret p m' where "fdt_property_placeholder fdt name len m = Some (ret, p, m')"
    "sw_safe fdt n m m'"
    by (rule sw_property_placeholder)
  with Property_placeholder that [of "(ret, m')"] show ?thesis by simp
next
  case (Property name val)
  with assms(3) have "length name < 48" "length val < 2147483648" by simp_all
  with assms(1,2) obtain ret m' where "fdt_property fdt name val m = Some (ret, m')" "sw_safe fdt n m m'"
    by (rule sw_property)
  with Property that [of "(ret, m')"] show ?thesis by simp
next
  case Finish
  with that show ?thesis using sw_finish [OF assms(1,2)] by simp
qed

lemma sw_run_safe:
  assumes "sw_ok fdt n m" "buffer fdt n" "list_all small_call cs"
  shows "\<exists>rets m'. sw_run fdt cs m = Some (rets, m') \<and> length rets = length cs \<and> sw_safe fdt n m m'"
  using assms(1,3)
proof (induction cs arbitrary: m)
  case Nil
  then show ?case by (simp add: sw_safe_refl)
next
  case (Cons c cs)
  have "small_call c" using Cons.prems(2) by simp
  then obtain ret m1 where c: "sw_apply fdt c m = Some (ret, m1)" "sw_safe fdt n m m1"
    by (rule sw_apply_safe [OF Cons.prems(1) assms(2)]) (metis prod.collapse)
  then have "sw_ok fdt n m1" by (simp add: sw_safe_def)
  with Cons.IH [of m1] Cons.prems(2) obtain rets m' where
    "sw_run fdt cs m1 = Some (rets, m')" "length rets = length cs" "sw_safe fdt n m1 m'"
    by auto
  with c show ?case
    by (auto simp: sw_safe_def intro: frame_trans)
qed


section \<open>Creating\<close>

lemma zero_field:
  assumes "\<And>k. k < 40 \<Longrightarrow> m (fdt + of_nat k) = 0" and "j \<le> 36"
  shows "fdt32_ld m (fdt + of_nat j) = 0"
proof -
  have "m (fdt + of_nat (j + i)) = 0" if "i < 4" for i
    using assms(2) that by (intro assms(1)) simp
  from this [of 0] this [of 1] this [of 2] this [of 3] show ?thesis
    by (simp add: fdt32_ld_def ac_simps)
qed

lemma sw_create:
  assumes "fdt_create_with_flags buf bufsize flags m = (0, m')" "unat buf + unat bufsize < 2 ^ 64"
  shows "buffer buf (unat bufsize)" "sw_open buf (unat bufsize) m'" "frame buf (unat bufsize) m m'"
    "fdt_size_dt_strings m' buf = 0"
proof -
  let ?hdr = "(40 + 16 - 1) AND NOT (16 - 1) :: u32"
  have hdr: "?hdr = 48" by code_simp
  have C: "\<not> bufsize <s ?hdr" "flags AND NOT FDT_CREATE_FLAGS_ALL = 0"
    using assms(1) by (auto simp: fdt_create_with_flags_def Let_def FDT_ERR_NOSPACE_def FDT_ERR_BADFLAGS_def
        split: if_splits)
  have nonneg: "\<not> bufsize <s 0"
    using C(1) by (simp add: hdr word_sless_alt)
  have "\<not> int (unat bufsize) < 48"
    using C(1) unfolding hdr word_sless_alt sint_nonneg [OF nonneg] by simp
  then have size: "48 \<le> unat bufsize" "unat bufsize < 2147483648"
    using nonneg unfolding nonneg_iff by linarith+
  show buf: "buffer buf (unat bufsize)"
    using assms(2) size by (simp add: buffer_def)
  have n: "unat (scast bufsize :: u64) = unat bufsize"
    unfolding scast_nonneg [OF nonneg] by simp
  have block: "block buf (scast bufsize)"
    using assms(2) by (simp add: block_def n)
  let ?m1 = "snd (memset buf 0 (scast bufsize) m)"
  have "?m1 (buf + of_nat k) = 0" if "k < 40" for k
    using block that size n unat_add_of_nat [of buf k] assms(2)
    by (simp add: memset_def memset_from_fills in_block_def)
  note zero = zero_field [of ?m1 buf, OF this]
  from zero [of 32] zero [of 36] have zero: "fdt_size_dt_strings ?m1 buf = 0" "fdt_size_dt_struct ?m1 buf = 0"
    by (simp_all add: fdt_getters)
  let ?m2 = "fdt_set_magic buf FDT_SW_MAGIC ?m1"
  let ?m3 = "fdt_set_version buf FDT_LAST_SUPPORTED_VERSION ?m2"
  let ?m4 = "fdt_set_last_comp_version buf flags ?m3"
  let ?m5 = "fdt_set_totalsize buf bufsize ?m4"
  let ?m6 = "fdt_set_off_mem_rsvmap buf 48 ?m5"
  let ?m7 = "fdt_set_off_dt_struct buf (fdt_off_mem_rsvmap ?m6 buf) ?m6"
  have m': "m' = fdt_set_off_dt_strings buf 0 ?m7"
    using assms(1) C by (simp add: fdt_create_with_flags_def Let_def hdr)
  show "sw_open buf (unat bufsize) m'" "fdt_size_dt_strings m' buf = 0"
    using zero size by (simp_all add: m' sw_open_def fdt_setters FDT_LAST_SUPPORTED_VERSION_def)
  have "frame buf (unat bufsize) m ?m1"
    using frame_memset [OF block] n by simp
  moreover have "frame buf (unat bufsize) ?m1 ?m2" "frame buf (unat bufsize) ?m2 ?m3"
    "frame buf (unat bufsize) ?m3 ?m4" "frame buf (unat bufsize) ?m4 ?m5"
    "frame buf (unat bufsize) ?m5 ?m6" "frame buf (unat bufsize) ?m6 ?m7" "frame buf (unat bufsize) ?m7 m'"
    unfolding m' fdt_setters using buf size by (simp_all add: frame_header_field)
  ultimately show "frame buf (unat bufsize) m m'"
    by (meson frame_trans)
qed

text \<open>The header of a finished tree is in order.\<close>

lemma sw_complete_header:
  assumes "sw_complete fdt n m" "n < 2147483648" "fdt AND 7 = 0"
  shows "fdt_check_header m fdt = 0"
proof -
  have "fdt_off_dt_struct m fdt mod FDT_TAGSIZE = 0"
    using assms(1) by (simp add: sw_complete_def FDT_TAGSIZE_def word_unat_eq_iff unat_mod_distrib)
  moreover have "unat (fdt_totalsize m fdt) < 2147483648" using assms(1,2) by (simp add: sw_complete_def)
  ultimately show ?thesis
    using assms(1,3)
    by (simp add: fdt_check_header_def sw_complete_def fdt_header_size_def fdt_header_size_priv_def
        FDT_V17_SIZE_def FDT_V16_SIZE_def FDT_V3_SIZE_def FDT_V2_SIZE_def FDT_V1_SIZE_def check_block_nat
        check_off_priv_def FDT_FIRST_SUPPORTED_VERSION_def FDT_LAST_SUPPORTED_VERSION_def INT_MAX_def
        word_le_nat_alt word_less_nat_alt)
qed

text \<open>
  A string that is longer than the buffer has room for is not refused: the space left wraps around,
  and the string is stored from an address below the buffer on.
\<close>

lemma sw_add_string_wraps:
  assumes "sw_open fdt n m" "buffer fdt n" "length s < 2147483647"
    and "n < unat (fdt_size_dt_strings m fdt) + length s + 1"
    and "unat (fdt_size_dt_strings m fdt) + length s + 1 \<le> unat fdt + n"
  defines "start \<equiv> fdt + of_nat n - of_nat (unat (fdt_size_dt_strings m fdt) + length s + 1)"
  shows "start < fdt" "snd (fdt_sw_add_string_priv fdt s m) start = hd (s @ [0])"
proof -
  let ?O = "fdt_off_dt_struct m fdt" and ?S = "fdt_size_dt_struct m fdt"
    and ?R = "fdt_size_dt_strings m fdt" and ?T = "fdt_totalsize m fdt"
  let ?len = "of_nat (length s + 1) :: u32"
  let ?off = "?R + ?len"
  let ?k = "unat ?R + length s + 1"
  have I: "unat ?T = n" "48 \<le> unat ?O" "unat ?O + unat ?S + unat ?R \<le> n" "n < 2147483648"
    "unat fdt + n < 2 ^ 64"
    using assms(1,2) by (auto simp: sw_open_def buffer_def)
  have len: "unat ?len = length s + 1"
    using assms(3) by (simp add: unat_of_nat del: of_nat_Suc of_nat_add)
  have off: "unat ?off = ?k"
    using unat_add_32 [of ?R ?len] len I assms(3) by linarith
  have fdtn: "unat (fdt + of_nat n) = unat fdt + n"
    using I by (intro unat_add_of_nat) simp
  have k: "unat (of_nat ?k :: u64) = ?k"
    using I assms(3) by (intro unat_of_nat_64) simp
  have start: "unat start = unat fdt + n - ?k"
    unfolding start_def using assms(5) fdtn k by (subst unat_sub) (simp_all only: word_le_nat_alt)
  then show below: "start < fdt"
    using assms(4,5) by (simp add: word_less_nat_alt)
  have "unat (?T - ?off) = 4294967296 + n - ?k"
    using I off assms(4) by (simp add: unat_sub_if_size word_le_nat_alt size_word.rep_eq)
  moreover have "unat (?O + ?S) = unat ?O + unat ?S"
    using I by (intro unat_add_32) simp
  ultimately have "\<not> ?T - ?off < ?O + ?S"
    using I assms(3) by (simp add: word_less_nat_alt)
  moreover have "fdt + ucast ?T - ucast ?off = start"
  proof -
    have "(of_nat n :: u64) = ucast ?T" unfolding I(1) [symmetric] by simp
    moreover have "(of_nat ?k :: u64) = ucast ?off" unfolding off [symmetric] by simp
    ultimately show ?thesis unfolding start_def by simp
  qed
  ultimately have run: "snd (fdt_sw_add_string_priv fdt s m) =
      fdt_set_size_dt_strings fdt ?off (store_bytes start (s @ [0]) m)"
    by (simp add: fdt_sw_add_string_priv_def Let_def)
  have "unat start + length (s @ [0]) \<le> 2 ^ 64"
    using start assms(5) I by simp
  then have "store_bytes start (s @ [0]) m start = (s @ [0]) ! 0"
    by (simp add: store_bytes_at)
  moreover have "fdt_set_size_dt_strings fdt v m' start = m' start" for v m'
    using frame_set_hdr [of fdt 32 m' v] below I unat_add_of_nat [of fdt 32]
    by (simp add: frame_def fdt_set_size_dt_strings_def word_less_nat_alt)
  ultimately show "snd (fdt_sw_add_string_priv fdt s m) start = hd (s @ [0])"
    unfolding run by (simp add: hd_conv_nth)
qed

end
