(* ===== verification/Fdt_Rw_Correct.thy ===== *)
theory Fdt_Rw_Correct
  imports Fdt_Sw_Correct
begin

text \<open>
  Changes of a complete tree stay in the tree: the layout \<^verbatim>\<open>fdt_rw_probe_\<close> establishes, splices
  that keep it, and from them every operation of \<^verbatim>\<open>lib/libfdt/fdt_rw.c\<close> that changes a tree where it
  is.
\<close>

section \<open>The layout of a tree that can be changed\<close>

definition rw_tree :: "u64 \<Rightarrow> nat \<Rightarrow> mem \<Rightarrow> bool" where
  "rw_tree fdt n m \<longleftrightarrow> fdt AND 7 = 0 \<and> fdt_magic m fdt = FDT_MAGIC \<and> 17 \<le> fdt_version m fdt \<and>
     fdt_last_comp_version m fdt \<le> 17 \<and> unat (fdt_totalsize m fdt) = n \<and>
     fdt_off_mem_rsvmap m fdt mod 8 = 0 \<and> fdt_off_dt_struct m fdt mod FDT_TAGSIZE = 0 \<and>
     40 \<le> unat (fdt_off_mem_rsvmap m fdt) \<and>
     unat (fdt_off_mem_rsvmap m fdt) \<le> unat (fdt_off_dt_struct m fdt) \<and>
     unat (fdt_off_dt_struct m fdt) + unat (fdt_size_dt_struct m fdt) \<le> unat (fdt_off_dt_strings m fdt) \<and>
     unat (fdt_off_dt_strings m fdt) + unat (fdt_size_dt_strings m fdt) \<le> n"

lemma rw_tree_valid:
  assumes "rw_tree fdt n m" "buffer fdt n"
  shows "valid_blob m fdt"
proof -
  have order: "fdt_last_comp_version m fdt \<le> fdt_version m fdt"
    using assms(1) by (auto simp: rw_tree_def)
  have "2 \<le> fdt_version m fdt"
    using assms(1) by (auto simp: rw_tree_def intro: order.trans [of 2 17])
  with order show ?thesis
    using assms
    by (simp add: rw_tree_def buffer_def valid_blob_def fdt_check_header_def fdt_header_size_def
        fdt_header_size_priv_def FDT_V17_SIZE_def FDT_V16_SIZE_def FDT_V3_SIZE_def FDT_V2_SIZE_def
        FDT_V1_SIZE_def check_block_nat check_off_priv_def FDT_FIRST_SUPPORTED_VERSION_def
        FDT_LAST_SUPPORTED_VERSION_def INT_MAX_def word_le_nat_alt word_less_nat_alt)
qed

lemma valid_buffer: "valid_blob m fdt \<Longrightarrow> buffer fdt (unat (fdt_totalsize m fdt))"
  using check_header_blocks(2) by (simp add: valid_blob_def buffer_def)

lemma valid_large: "valid_blob m fdt \<Longrightarrow> 17 \<le> fdt_version m fdt \<Longrightarrow> 40 \<le> unat (fdt_totalsize m fdt)"
  using check_header_blocks(5,6) [of m fdt] by (auto simp: valid_blob_def fdt_header_size_def
      fdt_header_size_priv_def FDT_V17_SIZE_def FDT_V16_SIZE_def FDT_V3_SIZE_def FDT_V2_SIZE_def
      FDT_V1_SIZE_def word_le_nat_alt)

text \<open>What every change guarantees.\<close>

definition rw_safe :: "u64 \<Rightarrow> nat \<Rightarrow> mem \<Rightarrow> mem \<Rightarrow> bool" where
  "rw_safe fdt n m m' \<longleftrightarrow> valid_blob m' fdt \<and> unat (fdt_totalsize m' fdt) = n \<and> frame fdt n m m'"

lemma rw_safe_trans: "rw_safe fdt n m m' \<Longrightarrow> rw_safe fdt n m' m'' \<Longrightarrow> rw_safe fdt n m m''"
  by (auto simp: rw_safe_def intro: frame_trans)

lemma rw_tree_safe: "rw_tree fdt n m \<Longrightarrow> buffer fdt n \<Longrightarrow> rw_safe fdt n m m"
  by (simp add: rw_safe_def rw_tree_valid) (simp add: rw_tree_def)

lemma rw_probe_cases:
  assumes "fdt_rw_probe_priv fdt m = (err, m1)" "valid_blob m fdt"
  obtains "err \<noteq> 0" "m1 = m"
  | "err = 0" "rw_tree fdt (unat (fdt_totalsize m fdt)) m1" "frame fdt (unat (fdt_totalsize m fdt)) m m1"
    "fdt_off_mem_rsvmap m1 fdt = fdt_off_mem_rsvmap m fdt"
    "unat (fdt_off_mem_rsvmap m1 fdt) + 16 \<le> unat (fdt_off_dt_struct m1 fdt)"
proof (cases "err = 0")
  case False
  have "m1 = m"
    using assms(1) False by (auto simp: fdt_rw_probe_priv_def split: if_splits)
  with False show ?thesis by (rule that(1))
next
  case True
  let ?n = "unat (fdt_totalsize m fdt)"
  have e: "- FDT_ERR_BADVERSION \<noteq> 0" "- FDT_ERR_BADLAYOUT \<noteq> 0" "\<not> (0 :: u32) <s 0"
    by (simp_all add: FDT_ERR_BADVERSION_def FDT_ERR_BADLAYOUT_def)
  have m1: "m1 = fdt_downgrade_version fdt m" and v: "17 \<le> fdt_version m fdt"
    and "\<not> fdt_blocks_misordered_priv m fdt 16 (fdt_size_dt_struct m fdt)"
    using assms(1) True e by (auto simp: fdt_rw_probe_priv_def not_less split: if_splits)
  note order = this(3) [unfolded fdt_blocks_misordered_priv_def]
  have H: "fdt_check_header m fdt = 0" using assms(2) by (simp add: valid_blob_def)
  note blocks = check_header_blocks [OF H]
  have hdr: "(40 + 8 - 1) AND NOT (8 - 1) = (40 :: u32)" by code_simp
  have sums: "unat (fdt_off_mem_rsvmap m fdt + 16) = unat (fdt_off_mem_rsvmap m fdt) + 16"
    "unat (fdt_off_dt_struct m fdt + fdt_size_dt_struct m fdt) =
      unat (fdt_off_dt_struct m fdt) + unat (fdt_size_dt_struct m fdt)"
    using blocks(2,4,6) v by (subst unat_add_32; simp)+
  have ordered: "40 \<le> unat (fdt_off_mem_rsvmap m fdt)"
    "unat (fdt_off_mem_rsvmap m fdt) + 16 \<le> unat (fdt_off_dt_struct m fdt)"
    "unat (fdt_off_dt_struct m fdt) + unat (fdt_size_dt_struct m fdt) \<le> unat (fdt_off_dt_strings m fdt)"
    using order unfolding hdr by (auto simp: not_less word_le_nat_alt sums)
  have align: "fdt_off_mem_rsvmap m fdt mod 8 = 0" "fdt_off_dt_struct m fdt mod FDT_TAGSIZE = 0"
    and magic: "fdt_magic m fdt = FDT_MAGIC"
    using H by (auto simp: fdt_check_header_def Let_def FDT_ERR_ALIGNMENT_def FDT_ERR_BADMAGIC_def
        FDT_ERR_BADVERSION_def FDT_ERR_TRUNCATED_def split: if_splits)
  have "frame fdt ?n m m1"
    unfolding m1 fdt_downgrade_version_def fdt_set_version_def
    using valid_buffer [OF assms(2)] blocks(2,4,6,8) ordered
    by (intro frame_if frame_header_field) simp_all
  moreover have "rw_tree fdt ?n m1"
    using blocks(1,8,10) v ordered align magic
    by (auto simp: rw_tree_def m1 fdt_downgrade_version_def fdt_set_version_def FDT_LAST_SUPPORTED_VERSION_def)
  moreover have "fdt_off_mem_rsvmap m1 fdt = fdt_off_mem_rsvmap m fdt"
    "fdt_off_dt_struct m1 fdt = fdt_off_dt_struct m fdt"
    by (simp_all add: m1 fdt_downgrade_version_def fdt_set_version_def)
  ultimately show ?thesis using ordered(2) True by (intro that(2)) simp_all
qed


section \<open>Splices\<close>

lemma splice_errors [simp]: "FDT_ERR_BADOFFSET \<noteq> 0"
  by (simp add: FDT_ERR_BADOFFSET_def)

lemma splice_cases:
  assumes "fdt_splice_priv fdt p oldlen newlen m = (err, m')" "rw_tree fdt n m" "buffer fdt n"
    and "p = fdt + of_nat k" "k < 2 ^ 32" "\<not> oldlen <s 0" "n + unat newlen < 2 ^ 32 + unat oldlen"
  obtains "err \<noteq> 0" "m' = m"
  | "err = 0" "k + unat oldlen \<le> unat (fdt_off_dt_strings m fdt) + unat (fdt_size_dt_strings m fdt)"
    "unat (fdt_off_dt_strings m fdt) + unat (fdt_size_dt_strings m fdt) + unat newlen \<le> n + unat oldlen"
    "unat p = unat fdt + k" "unat newlen < 2147483648" "frame p (n - k) m m'"
proof -
  let ?D = "fdt_data_size_priv m fdt"
  have I: "unat (fdt_totalsize m fdt) = n" "unat (fdt_off_dt_strings m fdt) + unat (fdt_size_dt_strings m fdt) \<le> n"
    "n < 2147483648" "unat fdt + n < 2 ^ 64"
    using assms(2,3) by (auto simp: rw_tree_def buffer_def)
  have D: "unat ?D = unat (fdt_off_dt_strings m fdt) + unat (fdt_size_dt_strings m fdt)"
    unfolding fdt_data_size_priv_def using I by (subst unat_add_32) simp_all
  have old: "unat oldlen < 2147483648" using assms(6) by (simp add: nonneg_iff)
  have k: "unat (of_nat k :: u64) = k" using assms(5) by (intro unat_of_nat_64) simp
  have soff: "p - fdt = of_nat k" by (simp add: assms(4))
  have sum: "unat (of_nat k + scast oldlen :: u64) = k + unat oldlen"
    unfolding scast_nonneg [OF assms(6)] using k old assms(5) by (subst unat_add_of_nat) simp_all
  show thesis
  proof (cases "k + unat oldlen \<le> unat ?D \<and> err = 0")
    case False
    have "of_nat k + scast oldlen > (ucast ?D :: u64)" if "\<not> k + unat oldlen \<le> unat ?D"
      using that unfolding word_less_nat_alt sum by simp
    then have "err \<noteq> 0 \<and> m' = m"
      using False assms(1) unfolding fdt_splice_priv_def Let_def soff
      by (auto simp: split: if_splits)
    then show ?thesis using that(1) by blast
  next
    case True
    have p: "unat p = unat fdt + k"
      unfolding assms(4) using True D I by (intro unat_add_of_nat) simp
    have c: "\<not> fdt_totalsize m fdt < ?D - oldlen + newlen"
      and m': "m' = snd (memmove (p + scast newlen) (p + scast oldlen) (fdt + ucast ?D - (p + scast oldlen)) m)"
      using True assms(1) by (auto simp: fdt_splice_priv_def Let_def split: if_splits)
    have "oldlen \<le> ?D" using True by (simp add: word_le_nat_alt)
    then have "unat (?D - oldlen) = unat ?D - unat oldlen" by (simp add: unat_sub word_le_nat_alt)
    moreover have "unat ?D - unat oldlen + unat newlen < 4294967296"
      using D I assms(7) True by simp
    ultimately have fits: "unat ?D - unat oldlen + unat newlen \<le> n"
      using c I by (subst (asm) word_less_nat_alt, subst (asm) unat_add_32) simp_all
    then have new: "unat newlen < 2147483648" and kn: "k + unat newlen \<le> n" using I True by linarith+
    then have "\<not> newlen <s 0" by (simp add: nonneg_iff)
    note casts = scast_nonneg [OF this] scast_nonneg [OF assms(6)]
    have d: "unat (p + scast newlen) = unat fdt + k + unat newlen"
      and s: "unat (p + scast oldlen) = unat fdt + k + unat oldlen"
      unfolding casts using p kn I order.strict_trans1 [of "k + unat oldlen" n "2 ^ 64"] True D
      by (subst unat_add_of_nat; simp)+
    have stop: "unat (fdt + ucast ?D) = unat fdt + unat ?D"
      using I D by (subst unat_add_64) simp_all
    have "unat (fdt + ucast ?D - (p + scast oldlen)) = unat ?D - k - unat oldlen"
      using s stop True by (subst unat_sub) (simp_all add: word_le_nat_alt)
    moreover from this have "block (p + scast newlen) (fdt + ucast ?D - (p + scast oldlen))"
      "block (p + scast oldlen) (fdt + ucast ?D - (p + scast oldlen))"
      using d s True fits I D by (simp_all add: block_def)
    ultimately have "frame (p + scast newlen) (unat ?D - k - unat oldlen) m m'"
      using frame_memmove [of "p + scast newlen" "fdt + ucast ?D - (p + scast oldlen)" "p + scast oldlen" m]
      by (simp add: m')
    moreover have "unat newlen + (unat ?D - k - unat oldlen) \<le> n - k"
      using conjunct1 [OF True] fits by linarith
    ultimately have "frame p (n - k) m m'"
      by (elim frame_mono) (simp_all add: d p)
    with True D fits p new show ?thesis by (intro that(2)) simp_all
  qed
qed

text \<open>The block of the structure grows or shrinks at a point inside it.\<close>

lemma splice_struct_cases:
  assumes "fdt_splice_struct_priv fdt p oldlen newlen m = (err, m')" "rw_tree fdt n m" "buffer fdt n"
    and "p = fdt + of_nat k" "k < 2 ^ 32" "unat (fdt_off_dt_struct m fdt) \<le> k"
    and "unat oldlen \<le> unat (fdt_size_dt_struct m fdt)" "n + unat newlen < 2 ^ 32 + unat oldlen"
  obtains "err \<noteq> 0" "m' = m"
  | "err = 0" "rw_tree fdt n m'" "frame fdt n m m'" "unat p = unat fdt + k" "k + unat newlen \<le> n" "40 \<le> k"
    "unat newlen < 2147483648"
    "unat (fdt_size_dt_struct m' fdt) + unat oldlen = unat (fdt_size_dt_struct m fdt) + unat newlen"
    "fdt_off_dt_struct m' fdt = fdt_off_dt_struct m fdt"
proof -
  let ?O = "fdt_off_dt_struct m fdt" and ?S = "fdt_size_dt_struct m fdt"
    and ?B = "fdt_off_dt_strings m fdt" and ?R = "fdt_size_dt_strings m fdt"
  have I: "unat (fdt_totalsize m fdt) = n" "unat ?B + unat ?R \<le> n" "40 \<le> unat ?O"
    "unat ?O + unat ?S \<le> unat ?B" "n < 2147483648" "unat fdt + n < 2 ^ 64"
    using assms(2,3) by (auto simp: rw_tree_def buffer_def)
  have old: "\<not> oldlen <s 0" using assms(7) I by (simp add: nonneg_iff)
  obtain e m1 where s: "fdt_splice_priv fdt p oldlen newlen m = (e, m1)" by fastforce
  from s assms(2,3,4,5) old assms(8) show thesis
  proof (cases rule: splice_cases)
    case 1
    with s assms(1) that(1) show ?thesis by (auto simp: fdt_splice_struct_priv_def Let_def)
  next
    case 2
    let ?delta = "newlen - oldlen"
    let ?m2 = "fdt_set_size_dt_struct fdt (fdt_size_dt_struct m1 fdt + ?delta) m1"
    have m': "m' = fdt_set_off_dt_strings fdt (fdt_off_dt_strings ?m2 fdt + ?delta) ?m2" "err = 0"
      using s 2 assms(1) by (auto simp: fdt_splice_struct_priv_def Let_def)
    have k: "40 \<le> k" using assms(6) I by simp
    have "same_header m m1 fdt"
      by (rule frame_same_header [OF 2(6)]) (use 2 k in simp)
    note same = same_header_fields [OF this]
    have shift: "unat (x + ?delta) + unat oldlen = unat x + unat newlen"
      if "unat oldlen \<le> unat x" "unat x \<le> n" for x :: u32
    proof -
      have sub: "unat (x - oldlen) = unat x - unat oldlen"
        using that by (simp add: unat_sub word_le_nat_alt)
      then have "unat (x - oldlen + newlen) = unat (x - oldlen) + unat newlen"
        using that 2 I by (intro unat_add_32) linarith
      moreover have "x + ?delta = x - oldlen + newlen" by simp
      ultimately show ?thesis
        using that sub by (simp only:)
    qed
    have "unat (?S + ?delta) + unat oldlen = unat ?S + unat newlen"
      "unat (?B + ?delta) + unat oldlen = unat ?B + unat newlen"
      using assms(7) I by (auto intro!: shift)
    note new = this
    have "rw_tree fdt n m'"
      using assms(2) new 2(3) I
      by (simp add: rw_tree_def m' fdt_set_size_dt_struct_def fdt_set_off_dt_strings_def same)
    moreover have "frame fdt n m m1"
      by (rule frame_mono [OF 2(6)]) (use 2 I in simp_all)
    moreover have "frame fdt n m1 ?m2" "frame fdt n ?m2 m'"
      unfolding m' fdt_set_size_dt_struct_def fdt_set_off_dt_strings_def using assms(3) I
      by (simp_all add: frame_header_field)
    moreover have "k + unat newlen \<le> n" using 2 by linarith
    ultimately show ?thesis
      using m'(2) 2 k new(1)
      by (intro that(2))
        (auto intro: frame_trans simp: m' fdt_set_size_dt_struct_def fdt_set_off_dt_strings_def same)
  qed
qed

text \<open>Stores behind the header do not disturb the layout.\<close>

lemma rw_store:
  assumes "rw_tree fdt n m" "buffer fdt n" "frame q j m m'" "unat fdt + 40 \<le> unat q" "unat q + j \<le> unat fdt + n"
  shows "rw_tree fdt n m'" "frame fdt n m m'" "same_header m m' fdt"
proof -
  show same: "same_header m m' fdt" using assms(3,4) by (rule frame_same_header)
  show "rw_tree fdt n m'" using assms(1) same_header_fields [OF same] by (simp add: rw_tree_def)
  show "frame fdt n m m'" using assms(3) by (rule frame_mono) (use assms in simp_all)
qed

lemma rw_st32:
  assumes "rw_tree fdt n m" "buffer fdt n" "unat fdt + 40 \<le> unat q" "unat q + 4 \<le> unat fdt + n"
  shows "rw_tree fdt n (st32 m q (cpu_to_fdt32 v))" "frame fdt n m (st32 m q (cpu_to_fdt32 v))"
proof -
  have "frame q 4 m (st32 m q (cpu_to_fdt32 v))"
    unfolding st_cpu_32 using assms by (intro frame_fdt32_st) (simp add: buffer_def)
  from rw_store [OF assms(1,2) this assms(3,4)]
  show "rw_tree fdt n (st32 m q (cpu_to_fdt32 v))" "frame fdt n m (st32 m q (cpu_to_fdt32 v))" by auto
qed

lemma rw_store_bytes:
  assumes "rw_tree fdt n m" "buffer fdt n" "unat fdt + 40 \<le> unat q" "unat q + length bs \<le> unat fdt + n"
  shows "rw_tree fdt n (store_bytes q bs m)" "frame fdt n m (store_bytes q bs m)"
proof -
  have "frame q (length bs) m (store_bytes q bs m)"
    using assms by (intro frame_store_bytes) (simp add: buffer_def)
  from rw_store [OF assms(1,2) this assms(3,4)]
  show "rw_tree fdt n (store_bytes q bs m)" "frame fdt n m (store_bytes q bs m)" by auto
qed


section \<open>What a change finds in the tree\<close>

lemma rw_sizes:
  assumes "rw_tree fdt n m" "buffer fdt n"
  shows "unat (fdt_totalsize m fdt) = n" "40 \<le> unat (fdt_off_dt_struct m fdt)"
    "unat (fdt_off_dt_struct m fdt) + unat (fdt_size_dt_struct m fdt) \<le> unat (fdt_off_dt_strings m fdt)"
    "unat (fdt_off_dt_strings m fdt) + unat (fdt_size_dt_strings m fdt) \<le> n"
    "n < 2147483648" "unat fdt + n < 2 ^ 64" "17 \<le> fdt_version m fdt"
  using assms by (auto simp: rw_tree_def buffer_def)

lemma tag_stop:
  assumes "fdt_next_tag m fdt x = (tag, next_offset)" "tag \<noteq> FDT_END" "rw_tree fdt n m" "buffer fdt n"
  obtains stop where "unat x + 4 \<le> stop" "stop \<le> unat (fdt_size_dt_struct m fdt)"
    "stop \<le> unat next_offset" "unat next_offset \<le> stop + 3" "4 dvd unat next_offset" "\<not> next_offset <s 0"
proof -
  note I = rw_sizes [OF assms(3,4)]
  obtain stop where P: "unat x + 4 \<le> unat stop"
    "unat stop \<le> unat next_offset" "unat next_offset \<le> unat stop + 3"
    "4 dvd unat next_offset" "fdt_offset_ptr m fdt x (stop - x) \<noteq> 0"
    by (rule fdt_next_tag_progress [OF assms(1,2)]) (rule that)
  have "unat (stop - x) = unat stop - unat x"
    using P(1) by (simp add: unat_sub word_le_nat_alt)
  with fdt_offset_ptr_bounds(3) [OF P(5) I(7)] P(1) have "unat stop \<le> unat (fdt_size_dt_struct m fdt)"
    by simp
  with P I that [of "unat stop"] show thesis by (simp add: nonneg_iff)
qed

lemma end_node_tag:
  assumes "fdt_next_tag m fdt x = (FDT_END_NODE, next_offset)" "4 dvd unat x" "rw_tree fdt n m" "buffer fdt n"
  shows "unat next_offset = unat x + 4" "unat x + 4 \<le> unat (fdt_size_dt_struct m fdt)"
proof -
  note I = rw_sizes [OF assms(3,4)]
  have ne: "FDT_END_NODE \<noteq> FDT_END" "FDT_END_NODE \<noteq> FDT_BEGIN_NODE" "FDT_END_NODE \<noteq> FDT_PROP"
    by (simp_all add: tag_values)
  obtain stop where "unat x + 4 \<le> stop" "stop \<le> unat (fdt_size_dt_struct m fdt)"
    by (rule tag_stop [OF assms(1) ne(1) assms(3,4)])
  then show fits: "unat x + 4 \<le> unat (fdt_size_dt_struct m fdt)" by simp
  have "fdt32_ld_priv m (fdt_offset_ptr m fdt x FDT_TAGSIZE) = FDT_END_NODE"
    by (rule fdt_next_tag_progress [OF assms(1) ne(1)]) simp
  then have "finish_tag m fdt x FDT_END_NODE (x + FDT_TAGSIZE) = (FDT_END_NODE, next_offset)"
    using assms(1) ne by (auto simp: fdt_next_tag_def Let_def split: if_splits)
  then have n: "next_offset = FDT_TAGALIGN (x + FDT_TAGSIZE)"
    using ne by (auto simp: finish_tag_def split: if_splits)
  have "unat (x + FDT_TAGSIZE) = unat x + 4"
    using fits I by (simp add: FDT_TAGSIZE_def unat_add_32)
  with assms(2) fits I show "unat next_offset = unat x + 4"
    unfolding n by (subst unat_tagalign) auto
qed

text \<open>The address of an offset into the structure.\<close>

lemma struct_ptr:
  "\<not> x <s 0 \<Longrightarrow> fdt_offset_ptr_priv m fdt x = fdt + of_nat (unat (fdt_off_dt_struct m fdt) + unat x)"
  by (simp add: fdt_offset_ptr_priv_def scast_nonneg)

text \<open>A property that is found has its place behind a node's tag; an error is negative.\<close>

lemma property_loop_cases:
  assumes "property_loop m fdt offset name = (prop, len, poffset)"
  shows "prop = 0 \<and> len <s 0 \<or>
    (\<exists>x next_offset. fdt_next_tag m fdt x = (FDT_PROP, next_offset) \<and> unat offset \<le> unat x \<and> prop \<noteq> 0 \<and>
      prop = fdt_offset_ptr_priv m fdt x \<and> len = prop_len m fdt x)"
  using assms
proof (induction m fdt offset name rule: property_loop.induct)
  case (1 m fdt offset name)
  show ?case
  proof (cases "offset <s 0")
    case True
    with "1.prems" show ?thesis by (auto simp: property_loop.simps [of m fdt offset])
  next
    case False
    obtain q l where pl: "fdt_get_property_by_offset_priv m fdt offset = (q, l)" by fastforce
    show ?thesis
    proof (cases "q = 0")
      case True
      with "1.prems" False pl show ?thesis by (auto simp: property_loop.simps [of m fdt offset])
    next
      case found: False
      then have here: "\<exists>next_offset. fdt_next_tag m fdt offset = (FDT_PROP, next_offset)"
        "q = fdt_offset_ptr_priv m fdt offset" "l = prop_len m fdt offset"
        and check: "\<not> fdt_check_prop_offset_priv m fdt offset <s 0"
        using pl by (auto simp: fdt_get_property_by_offset_priv_def fdt_check_prop_offset_priv_def
            prop_len_def Let_def split: if_splits prod.splits)
      show ?thesis
      proof (cases "fdt_string_eq_priv m fdt (fdt32_ld_priv m (q + 8)) name")
        case True
        with "1.prems" False pl here found show ?thesis
          by (auto simp: property_loop.simps [of m fdt offset])
      next
        case next_one: False
        let ?next = "fdt_next_property_offset m fdt offset"
        from "1.IH" [OF _ pl [symmetric], of] False found next_one "1.prems" pl
        have IH: "prop = 0 \<and> len <s 0 \<or>
          (\<exists>x next_offset. fdt_next_tag m fdt x = (FDT_PROP, next_offset) \<and> unat ?next \<le> unat x \<and> prop \<noteq> 0 \<and>
            prop = fdt_offset_ptr_priv m fdt x \<and> len = prop_len m fdt x)"
          by (simp add: property_loop.simps [of m fdt offset])
        show ?thesis
        proof (cases "?next <s 0")
          case True
          with next_one False pl found "1.prems" show ?thesis
            by (auto simp: property_loop.simps [of m fdt offset] property_loop.simps [of m fdt ?next])
        next
          case on: False
          then have "unat offset \<le> unat ?next"
            using check check_prop_offset_forward [OF check]
              nextprop_forward [of m fdt "fdt_check_prop_offset_priv m fdt offset"]
            by (auto simp: fdt_next_property_offset_def Let_def split: if_splits)
          from IH show ?thesis
          proof (elim disjE exE)
            fix x next_offset
            assume "fdt_next_tag m fdt x = (FDT_PROP, next_offset) \<and> unat ?next \<le> unat x \<and> prop \<noteq> 0 \<and>
              prop = fdt_offset_ptr_priv m fdt x \<and> len = prop_len m fdt x"
            with \<open>unat offset \<le> unat ?next\<close> show ?thesis by (intro disjI2 exI) auto
          qed simp
        qed
      qed
    qed
  qed
qed

lemma get_property_cases:
  assumes "fdt_get_property m fdt node name = (prop, len)" "rw_tree fdt n m" "buffer fdt n"
  obtains "prop = 0" "len <s 0"
  | x where "prop \<noteq> 0" "prop = fdt + of_nat (unat (fdt_off_dt_struct m fdt) + x)" "4 \<le> x" "\<not> len <s 0"
    "x + 12 + unat len \<le> unat (fdt_size_dt_struct m fdt)"
proof -
  let ?first = "fdt_first_property_offset m fdt node"
  have "\<not> fdt_version m fdt < 16"
    using rw_sizes(7) [OF assms(2,3)] by (simp add: word_less_nat_alt word_le_nat_alt)
  then obtain poffset where loop: "property_loop m fdt ?first name = (prop, len, poffset)"
    using assms(1) by (auto simp: fdt_get_property_def fdt_get_property_namelen_def
        fdt_get_property_namelen_priv_def split: prod.splits)
  show thesis
  proof (cases "prop = 0 \<and> len <s 0")
    case True
    with that(1) show ?thesis by simp
  next
    case False
    with property_loop_cases [OF loop] obtain x next_offset where
      x: "fdt_next_tag m fdt x = (FDT_PROP, next_offset)" "unat ?first \<le> unat x" "prop \<noteq> 0"
      "prop = fdt_offset_ptr_priv m fdt x" "len = prop_len m fdt x" by blast
    have "4 \<le> unat ?first"
    proof (cases "?first <s 0")
      case True
      then show ?thesis using nonneg_iff [of ?first] by simp
    next
      case first: False
      then show ?thesis
        using check_node_offset_forward [of m fdt node]
          nextprop_forward [of m fdt "fdt_check_node_offset_priv m fdt node"]
        by (auto simp: fdt_first_property_offset_def Let_def split: if_splits)
    qed
    with x(2) have "4 \<le> unat x" by simp
    with x prop_tag_span(1,4,5) [OF x(1)] rw_sizes(7) [OF assms(2,3)] that(2) [of "unat x"]
    show ?thesis by simp
  qed
qed


text \<open>The name of a node ends inside its tag.\<close>

lemma strlen_bounded:
  assumes "m (s + of_nat k) = 0" "k < 2 ^ 64"
  obtains l where "l \<le> k" "strlen s m = Some (of_nat l)"
proof
  let ?l = "LEAST j. m (s + of_nat j) = 0"
  show le: "?l \<le> k" by (rule Least_le) (rule assms(1))
  have end0: "m (s + of_nat ?l) = 0" by (rule LeastI) (rule assms(1))
  have "m (s + i) \<noteq> 0" if "i < of_nat ?l" for i
  proof -
    have "unat i < ?l"
      using that le assms(2) by (simp add: word_less_nat_alt unat_of_nat_64)
    from not_less_Least [OF this] show ?thesis by simp
  qed
  then show "strlen s m = Some (of_nat ?l)"
    unfolding strlen_def using end0 by (intro strlen_from_stops) auto
qed

lemma begin_node_name:
  assumes "fdt_next_tag m fdt x = (FDT_BEGIN_NODE, next_offset)" "rw_tree fdt n m" "buffer fdt n"
  obtains z where "unat x + 4 \<le> z" "z < unat (fdt_size_dt_struct m fdt)"
    "m (fdt + of_nat (unat (fdt_off_dt_struct m fdt) + z)) = 0"
proof -
  note I = rw_sizes [OF assms(2,3)]
  have ne: "FDT_BEGIN_NODE \<noteq> FDT_END" by (simp add: tag_values)
  obtain stop0 where x: "unat x + 4 \<le> stop0" "stop0 \<le> unat (fdt_size_dt_struct m fdt)"
    by (rule tag_stop [OF assms(1) ne assms(2,3)])
  have "fdt32_ld_priv m (fdt_offset_ptr m fdt x FDT_TAGSIZE) = FDT_BEGIN_NODE"
    by (rule fdt_next_tag_progress [OF assms(1) ne]) simp
  moreover obtain p stop where skip: "skip_name m fdt (x + FDT_TAGSIZE) = (p, stop)" by fastforce
  ultimately have p: "p \<noteq> 0" and fin: "finish_tag m fdt x FDT_BEGIN_NODE stop = (FDT_BEGIN_NODE, next_offset)"
    using assms(1) ne by (auto simp: fdt_next_tag_def Let_def split: if_splits)
  have o: "unat (x + FDT_TAGSIZE) = unat x + 4"
    using x I by (simp add: FDT_TAGSIZE_def unat_add_32)
  from skip_name_bounds [OF skip p] o
  have S: "unat x + 4 < unat stop" "m p = 0" "p = fdt_offset_ptr m fdt (stop - 1) 1" by auto
  then have one: "unat (stop - 1) = unat stop - 1" by (simp add: unat_sub word_le_nat_alt)
  have "fdt_offset_ptr m fdt (stop - 1) 1 \<noteq> 0" using S p by simp
  note ptr = fdt_offset_ptr_bounds(1) [OF this] fdt_offset_ptr_bounds(3) [OF this I(7)]
  show thesis
  proof (rule that [of "unat (stop - 1)"])
    show "unat x + 4 \<le> unat (stop - 1)" using S one by simp
    show "unat (stop - 1) < unat (fdt_size_dt_struct m fdt)" using ptr(2) by simp
    show "m (fdt + of_nat (unat (fdt_off_dt_struct m fdt) + unat (stop - 1))) = 0"
      using S ptr(1) by simp
  qed
qed

lemma get_name_cases:
  assumes "rw_tree fdt n m" "buffer fdt n"
  obtains len where "fdt_get_name m fdt node = Some (0, len)" "len <s 0"
  | x len where "fdt_get_name m fdt node = Some (fdt + of_nat (unat (fdt_off_dt_struct m fdt) + x), len)"
    "fdt + of_nat (unat (fdt_off_dt_struct m fdt) + x) \<noteq> 0"
    "4 \<le> x" "x + unat len + 1 \<le> unat (fdt_size_dt_struct m fdt)"
proof -
  let ?O = "fdt_off_dt_struct m fdt" and ?S = "fdt_size_dt_struct m fdt"
  note I = rw_sizes [OF assms]
  have v: "\<not> fdt_version m fdt < 0x10" using I(7) by (simp add: word_less_nat_alt word_le_nat_alt)
  show thesis
  proof (cases "fdt_ro_probe_priv m fdt <s 0 \<or> fdt_check_node_offset_priv m fdt node <s 0")
    case True
    then have "\<exists>len. fdt_get_name m fdt node = Some (0, len) \<and> len <s 0"
      by (cases "fdt_ro_probe_priv m fdt <s 0") (simp_all add: fdt_get_name_def Let_def)
    with that(1) show ?thesis by blast
  next
    case False
    then obtain next_offset where t: "fdt_next_tag m fdt node = (FDT_BEGIN_NODE, next_offset)"
      and node: "\<not> node <s 0"
      by (auto simp: fdt_check_node_offset_priv_def split: if_splits prod.splits)
    obtain z where z: "unat node + 4 \<le> z" "z < unat ?S" "m (fdt + of_nat (unat ?O + z)) = 0"
      by (rule begin_node_name [OF t assms])
    let ?name = "fdt_offset_ptr_priv m fdt node + 4"
    have name: "?name = fdt + of_nat (unat ?O + (unat node + 4))"
      using node by (simp add: struct_ptr)
    have "?name + of_nat (z - (unat node + 4)) = fdt + of_nat (unat ?O + z)"
      using z(1) by (simp add: name)
    with z(3) have "m (?name + of_nat (z - (unat node + 4))) = 0" by simp
    then obtain l where l: "l \<le> z - (unat node + 4)" "strlen ?name m = Some (of_nat l)"
      by (rule strlen_bounded) (use z I in simp)
    have len: "unat (ucast (of_nat l :: u64) :: u32) = l"
      using l(1) z(2) I by (simp add: unsigned_ucast_eq unat_of_nat take_bit_nat_eq_self)
    have "unat (fdt + of_nat (unat ?O + (unat node + 4))) = unat fdt + (unat ?O + (unat node + 4))"
      using z I by (intro unat_add_of_nat) simp
    then have "fdt + of_nat (unat ?O + (unat node + 4)) \<noteq> 0" by (auto simp: u64_eq_iff)
    moreover have "fdt_get_name m fdt node = Some (?name, ucast (of_nat l :: u64))"
      using False v l(2) by (simp add: fdt_get_name_def Let_def name_result_def)
    ultimately show ?thesis
      using that(2) [of "unat node + 4" "ucast (of_nat l :: u64)"] z l(1) len unfolding name by simp
  qed
qed

lemma subnode_loop_total:
  assumes "rw_tree fdt n m" "buffer fdt n"
  shows "\<exists>r. subnode_loop m fdt offset depth name = Some r"
  using assms
proof (induction m fdt offset depth name rule: subnode_loop.induct)
  case (1 m fdt offset depth name)
  obtain found where "fdt_nodename_eq_priv m fdt offset name = Some found"
    by (rule get_name_cases [OF "1.prems", of offset]) (auto simp: fdt_nodename_eq_priv_def)
  then show ?case
    using 1 by (cases "the depth = 1") (auto simp: subnode_loop.simps [of m fdt offset] split: prod.split)
qed

text \<open>Where a node ends.\<close>

lemma next_node_loop_end:
  assumes "next_node_loop m fdt offset depth = (r, depth')" "\<not> r <s 0" "4 dvd unat offset"
    and "rw_tree fdt n m" "buffer fdt n"
  shows "4 dvd unat r \<and> unat r \<le> unat (fdt_size_dt_struct m fdt)"
  using assms
proof (induction m fdt offset depth rule: next_node_loop.induct)
  case (1 m fdt offset depth)
  obtain tag next_offset where t: "fdt_next_tag m fdt offset = (tag, next_offset)" by fastforce
  show ?case
  proof (cases "tag = FDT_END")
    case True
    with t "1.prems"(1,2) show ?thesis
      by (auto simp: next_node_loop.simps [of m fdt offset] tag_values split: if_splits)
  next
    case False
    obtain stop where stop: "unat offset + 4 \<le> stop" "stop \<le> unat (fdt_size_dt_struct m fdt)"
      "4 dvd unat next_offset"
      by (rule tag_stop [OF t False "1.prems"(4,5)])
    show ?thesis
    proof (cases "tag = FDT_END_NODE")
      case True
      note e = end_node_tag [OF t [unfolded True] "1.prems"(3-5)]
      show ?thesis
        using t True "1.prems"(1) "1.IH"(1) [OF t [symmetric] _ True refl] "1.prems"(2,4,5) stop e
        by (auto simp: next_node_loop.simps [of m fdt offset] Let_def tag_values split: if_splits)
    next
      case other: False
      show ?thesis
        using t False other "1.prems" "1.IH"(2) [OF t [symmetric]] stop
        by (auto simp: next_node_loop.simps [of m fdt offset] split: if_splits)
    qed
  qed
qed


lemma next_node_end:
  assumes "fdt_next_node m fdt offset depth = (r, depth')" "\<not> r <s 0" "\<not> offset <s 0"
    and "rw_tree fdt n m" "buffer fdt n"
  shows "unat offset < unat r" "unat r \<le> unat (fdt_size_dt_struct m fdt)"
proof -
  let ?next = "fdt_check_node_offset_priv m fdt offset"
  show "unat offset < unat r" by (rule fdt_next_node_forward [OF assms(1-3)])
  have loop: "\<not> ?next <s 0" "next_node_loop m fdt ?next depth = (r, depth')"
    using assms(1-3) by (auto simp: fdt_next_node_def Let_def split: if_splits)
  then obtain tag where "fdt_next_tag m fdt offset = (tag, ?next)" "tag = FDT_BEGIN_NODE"
    by (auto simp: fdt_check_node_offset_priv_def split: if_splits prod.splits)
  then have "fdt_next_tag m fdt offset = (FDT_BEGIN_NODE, ?next)" by simp
  then have "4 dvd unat ?next"
    by (rule tag_stop [OF _ _ assms(4,5)]) (simp_all add: tag_values)
  from next_node_loop_end [OF loop(2) assms(2) this assms(4,5)]
  show "unat r \<le> unat (fdt_size_dt_struct m fdt)" by blast
qed

lemma node_end_loop_end:
  assumes "\<not> node_end_loop m fdt offset depth <s 0" "\<not> offset <s 0" "\<not> the depth <s 0"
    and "rw_tree fdt n m" "buffer fdt n"
  shows "unat offset < unat (node_end_loop m fdt offset depth) \<and>
    unat (node_end_loop m fdt offset depth) \<le> unat (fdt_size_dt_struct m fdt)"
  using assms
proof (induction m fdt offset depth rule: node_end_loop.induct)
  case (1 m fdt offset depth)
  obtain r d where nn: "fdt_next_node m fdt offset depth = (r, d)" by fastforce
  then have step: "node_end_loop m fdt offset depth = node_end_loop m fdt r d"
    using "1.prems"(2,3) by (simp add: node_end_loop.simps [of m fdt offset])
  show ?case
  proof (cases "r <s 0 \<or> the d <s 0")
    case True
    then have "node_end_loop m fdt offset depth = r"
      unfolding step by (auto simp: node_end_loop.simps [of m fdt r])
    then show ?thesis
      using next_node_end [OF nn _ "1.prems"(2,4,5)] "1.prems"(1) by simp
  next
    case False
    then show ?thesis
      using "1.IH" "1.prems" nn step next_node_end(1) [OF nn _ "1.prems"(2,4,5)] by auto
  qed
qed

section \<open>The memory reservations\<close>

lemma num_mem_rsv_loop_cases:
  assumes "rw_tree fdt n m" "buffer fdt n" "unat (fdt_off_mem_rsvmap m fdt) + 16 * i \<le> n + 16"
  shows "\<exists>r. num_mem_rsv_loop m fdt (of_nat i) = Some r \<and>
    (\<not> r <s 0 \<longrightarrow> i \<le> unat r \<and> unat (fdt_off_mem_rsvmap m fdt) + 16 * unat r + 16 \<le> n)"
  using assms(3)
proof (induction "n + 16 - 16 * i" arbitrary: i rule: less_induct)
  case less
  let ?rsv = "fdt_off_mem_rsvmap m fdt" and ?T = "fdt_totalsize m fdt"
  have I: "unat ?T = n" "40 \<le> unat ?rsv" "unat ?rsv \<le> n" "n < 2147483648"
    using assms(1,2) by (auto simp: rw_tree_def buffer_def)
  have i: "unat (of_nat i :: u32) = i" "unat (of_nat i * 16 :: u32) = 16 * i"
    using less.prems I by (simp_all add: unat_of_nat unat_word_ariths)
  show ?case
  proof (cases "fdt_mem_rsv m fdt (of_nat i) = 0")
    case True
    then show ?thesis by (subst num_mem_rsv_loop.simps) (simp add: FDT_ERR_TRUNCATED_def word_sless_alt)
  next
    case False
    have abs: "unat (?rsv + of_nat i * 16) = unat ?rsv + 16 * i"
      using less.prems I i by (subst unat_add_32) simp_all
    have "unat (ucast ?T - 16 :: u64) = n - 16"
      using I by (subst unat_sub) (simp_all add: word_le_nat_alt)
    then have fits: "unat ?rsv + 16 * i + 16 \<le> n"
      using False abs I by (auto simp: fdt_mem_rsv_def Let_def word_less_nat_alt not_less split: if_splits)
    show ?thesis
    proof (cases "fdt64_ld_priv m (fdt_mem_rsv m fdt (of_nat i) + 8) = 0")
      case True
      with False i fits show ?thesis by (subst num_mem_rsv_loop.simps) simp
    next
      case more: False
      have "n + 16 - 16 * Suc i < n + 16 - 16 * i" using fits by simp
      from less.hyps [OF this] fits
      obtain r where r: "num_mem_rsv_loop m fdt (of_nat (Suc i)) = Some r"
        "\<not> r <s 0 \<longrightarrow> Suc i \<le> unat r \<and> unat ?rsv + 16 * unat r + 16 \<le> n" by auto
      moreover have "num_mem_rsv_loop m fdt (of_nat i) = num_mem_rsv_loop m fdt (of_nat (Suc i))"
        using False more by (subst num_mem_rsv_loop.simps) (simp add: add.commute)
      ultimately show ?thesis by auto
    qed
  qed
qed

lemma num_mem_rsv_cases:
  assumes "rw_tree fdt n m" "buffer fdt n"
  obtains r where "fdt_num_mem_rsv m fdt = Some r"
    "\<not> r <s 0 \<Longrightarrow> unat (fdt_off_mem_rsvmap m fdt) + 16 * unat r + 16 \<le> n"
  using num_mem_rsv_loop_cases [OF assms, of 0] assms
  by (auto simp: fdt_num_mem_rsv_def rw_tree_def)

section \<open>Strings\<close>

lemma store_bytes_snoc: "store_bytes p (s @ [b]) m = (store_bytes p s m)(p + of_nat (length s) := b)"
  by (induction s arbitrary: p m) (simp_all add: add.assoc)

lemma splice_string_cases:
  assumes "fdt_splice_string_priv fdt newlen m = (err, m')" "rw_tree fdt n m" "buffer fdt n"
    and "unat newlen < 2147483648"
  obtains "err \<noteq> 0" "m' = m"
  | "err = 0" "rw_tree fdt n m'" "frame fdt n m m'"
    "unat (fdt_size_dt_strings m' fdt) = unat (fdt_size_dt_strings m fdt) + unat newlen"
    "fdt_off_dt_strings m' fdt = fdt_off_dt_strings m fdt"
    "fdt_off_dt_struct m' fdt = fdt_off_dt_struct m fdt"
    "fdt_size_dt_struct m' fdt = fdt_size_dt_struct m fdt"
    "unat (fdt_off_dt_strings m fdt) + unat (fdt_size_dt_strings m fdt) + unat newlen \<le> n"
proof -
  let ?B = "fdt_off_dt_strings m fdt" and ?R = "fdt_size_dt_strings m fdt"
  let ?p = "fdt + ucast ?B + ucast ?R"
  note I = rw_sizes [OF assms(2,3)]
  have p: "?p = fdt + of_nat (unat ?B + unat ?R)" by simp
  have small: "unat ?B + unat ?R < 2 ^ 32" "n + unat newlen < 2 ^ 32 + unat (0 :: u32)"
    using I assms(4) by simp_all
  obtain e m1 where s: "fdt_splice_priv fdt ?p 0 newlen m = (e, m1)" by fastforce
  have "\<not> (0 :: u32) <s 0" by simp
  with s assms(2,3) p small(1) show thesis
    using small(2)
  proof (cases rule: splice_cases)
    case 1
    with s assms(1) that(1) show ?thesis by (auto simp: fdt_splice_string_priv_def Let_def)
  next
    case 2
    have m': "m' = fdt_set_size_dt_strings fdt (fdt_size_dt_strings m1 fdt + newlen) m1" "err = 0"
      using s 2 assms(1) by (auto simp: fdt_splice_string_priv_def Let_def)
    have "same_header m m1 fdt"
      by (rule frame_same_header [OF 2(6)]) (use 2 I in simp)
    note same = same_header_fields [OF this]
    have R: "unat (?R + newlen) = unat ?R + unat newlen"
      using 2 I by (intro unat_add_32) simp
    have "rw_tree fdt n m'"
      using assms(2) R 2(3) by (simp add: rw_tree_def m' fdt_set_size_dt_strings_def same)
    moreover have "frame fdt n m m1"
      by (rule frame_mono [OF 2(6)]) (use 2 I in simp_all)
    moreover have "frame fdt n m1 m'"
      unfolding m' fdt_set_size_dt_strings_def using assms(3) I by (simp add: frame_header_field)
    ultimately show ?thesis
      using R 2(3) m'(2)
      by (intro that(2)) (auto intro: frame_trans simp: m' fdt_set_size_dt_strings_def same)
  qed
qed

lemma find_string_total:
  assumes "unat strtab + unat sz < 2 ^ 64" "length s < unat strtab + unat sz" "\<not> sz <s 0"
  obtains q where "fdt_find_string_len_priv m strtab sz s = Some q"
proof -
  have sum: "unat (strtab + scast sz) = unat strtab + unat sz"
    unfolding scast_nonneg [OF assms(3)] using assms(1) by (subst unat_add_of_nat) simp_all
  have len: "unat (of_nat (length s) + 1 :: u64) = length s + 1"
    using assms(1,2) unat_add_of_nat [of 1 "length s"] by (simp add: add.commute)
  have "unat (strtab + scast sz - (of_nat (length s) + 1)) = unat strtab + unat sz - (length s + 1)"
    using sum len assms(2) by (subst unat_sub) (simp_all add: word_le_nat_alt)
  then have "unat (strtab + scast sz - (of_nat (length s) + 1)) < 2 ^ 64 - 1"
    using assms(1) by simp
  from find_string_loop_total [OF this] that show thesis
    by (auto simp: fdt_find_string_len_priv_def Let_def)
qed

text \<open>The name of a property is found among the strings, is added behind them, or has no room.\<close>

lemma find_add_string_cases:
  assumes "rw_tree fdt n m" "buffer fdt n" "length s < 40"
  obtains off allocated m' where "fdt_find_add_string_priv fdt s m = Some (off, allocated, m')"
    "rw_tree fdt n m'" "frame fdt n m m'"
    "fdt_off_dt_struct m' fdt = fdt_off_dt_struct m fdt"
    "fdt_size_dt_struct m' fdt = fdt_size_dt_struct m fdt"
    "allocated \<Longrightarrow> length s + 1 \<le> unat (fdt_size_dt_strings m' fdt)"
proof -
  let ?B = "fdt_off_dt_strings m fdt" and ?R = "fdt_size_dt_strings m fdt"
  let ?strtab = "fdt + ucast ?B"
  note I = rw_sizes [OF assms(1,2)]
  have strtab: "unat ?strtab = unat fdt + unat ?B"
    using I by (subst unat_add_64) simp_all
  have "unat ?strtab + unat ?R < 2 ^ 64" "length s < unat ?strtab + unat ?R" "\<not> ?R <s 0"
    unfolding strtab nonneg_iff using I assms(3) by simp_all
  then obtain q where q: "fdt_find_string_len_priv m ?strtab ?R s = Some q"
    by (rule find_string_total)
  show thesis
  proof (cases "q = 0")
    case False
    with q assms(1) that [of "ucast (q - ?strtab)" False m] show ?thesis
      by (simp add: fdt_find_add_string_priv_def Let_def)
  next
    case True
    let ?len = "of_nat (length s) + 1 :: u32"
    have len: "unat ?len = length s + 1"
      using assms(3) by (simp add: unat_word_ariths unat_of_nat)
    obtain err m1 where s: "fdt_splice_string_priv fdt ?len m = (err, m1)" by fastforce
    have "unat ?len < 2147483648" using len assms(3) by simp
    with s assms(1,2) show ?thesis
    proof (cases rule: splice_string_cases)
      case 1
      with q s True assms(1) that [of err False m] show ?thesis
        by (simp add: fdt_find_add_string_priv_def Let_def)
    next
      case 2
      let ?new = "?strtab + ucast ?R"
      let ?m2 = "store_bytes ?new (s @ [0]) m1"
      have new: "unat ?new = unat fdt + unat ?B + unat ?R"
        using I strtab by (subst unat_add_64) simp_all
      have bounds: "unat fdt + 40 \<le> unat ?new" "unat ?new + length (s @ [0]) \<le> unat fdt + n"
        using new 2(8) len I by simp_all
      have m2: "rw_tree fdt n ?m2" "frame fdt n m1 ?m2"
        by (rule rw_store_bytes [OF 2(2) assms(2) bounds])+
      have "frame ?new (length (s @ [0])) m1 ?m2"
        using bounds(2) I by (intro frame_store_bytes) simp
      note same = same_header_fields [OF frame_same_header [OF this bounds(1)]]
      have "fdt_find_add_string_priv fdt s m = Some (ucast (?new - ?strtab), True, ?m2)"
        using q s True 2(1) by (simp add: fdt_find_add_string_priv_def Let_def store_bytes_snoc)
      then show ?thesis
        using m2 2 len by (rule_tac that [of "ucast (?new - ?strtab)" True ?m2])
          (auto intro: frame_trans simp: same)
    qed
  qed
qed

lemma del_last_string_tree:
  assumes "rw_tree fdt n m" "buffer fdt n" "length s < 40" "length s + 1 \<le> unat (fdt_size_dt_strings m fdt)"
  shows "rw_tree fdt n (fdt_del_last_string_priv fdt s m)" "frame fdt n m (fdt_del_last_string_priv fdt s m)"
proof -
  let ?R = "fdt_size_dt_strings m fdt"
  have len: "unat (of_nat (length s + 1) :: u32) = length s + 1"
    using assms(3) by (simp add: unat_of_nat del: of_nat_Suc of_nat_add)
  have le: "of_nat (length s + 1) \<le> ?R" unfolding word_le_nat_alt len by (rule assms(4))
  have "unat (?R - of_nat (length s + 1)) = unat ?R - (length s + 1)"
    unfolding unat_sub [OF le] len ..
  then show "rw_tree fdt n (fdt_del_last_string_priv fdt s m)"
    using assms(1) by (auto simp add: fdt_del_last_string_priv_def fdt_set_size_dt_strings_def rw_tree_def
        simp del: of_nat_Suc of_nat_add)
  show "frame fdt n m (fdt_del_last_string_priv fdt s m)"
    unfolding fdt_del_last_string_priv_def fdt_set_size_dt_strings_def
    using rw_sizes [OF assms(1,2)] assms(2) by (simp add: frame_header_field del: of_nat_Suc of_nat_add)
qed


section \<open>Properties\<close>

lemma unat_tagalign_32:
  assumes "unat x < 4294967293"
  shows "unat (FDT_TAGALIGN x) = (unat x + 3) div 4 * 4"
proof -
  have "unat (3 + x) = unat x + 3"
    using assms by (simp add: unat_word_ariths)
  then show ?thesis
    by (simp add: FDT_TAGALIGN_def FDT_TAGSIZE_def and_not_3 minus_mod_eq_div_mult)
qed

lemma tagalign_fits:
  assumes "unat x < 4294967293"
  shows "unat x \<le> unat (FDT_TAGALIGN x)" "unat (FDT_TAGALIGN x) \<le> unat x + 3"
  unfolding unat_tagalign_32 [OF assms] by presburger+

lemma unat_of_nat_length [simp]: "k < 4294967296 \<Longrightarrow> unat (of_nat k :: u32) = k"
  by (simp add: unat_of_nat)

lemma add_property_cases:
  assumes "rw_tree fdt n m" "buffer fdt n" "length name < 40" "unat len < 2147483632"
  obtains err p m' where
    "fdt_add_property_priv fdt node name (of_nat (length name)) len m = Some (err, p, m')"
    "rw_tree fdt n m'" "frame fdt n m m'"
    "err = 0 \<Longrightarrow> unat fdt + 40 \<le> unat p" "err = 0 \<Longrightarrow> unat p + 12 + unat len \<le> unat fdt + n"
proof -
  let ?next = "fdt_check_node_offset_priv m fdt node"
  have name: "take (unat (of_nat (length name) :: u32)) name = name"
    using assms(3) by simp
  obtain off allocated m1 where str: "fdt_find_add_string_priv fdt name m = Some (off, allocated, m1)"
    "rw_tree fdt n m1" "frame fdt n m m1" "fdt_off_dt_struct m1 fdt = fdt_off_dt_struct m fdt"
    "fdt_size_dt_struct m1 fdt = fdt_size_dt_struct m fdt"
    "allocated \<Longrightarrow> length name + 1 \<le> unat (fdt_size_dt_strings m1 fdt)"
    by (rule find_add_string_cases [OF assms(1-3)]) (rule that)
  show thesis
  proof (cases "?next <s 0 \<or> off <s 0")
    case True
    have "\<exists>err m'. fdt_add_property_priv fdt node name (of_nat (length name)) len m = Some (err, 0, m') \<and>
        err \<noteq> 0 \<and> (m' = m \<or> m' = m1)"
      using True str(1) name unfolding fdt_add_property_priv_def Let_def by (cases "?next <s 0") auto
    with that assms(1) str(2,3) show ?thesis by (metis frame_refl)
  next
    case False
    let ?entry = "fdt_offset_ptr_priv m1 fdt ?next" and ?proplen = "12 + FDT_TAGALIGN len"
    note I = rw_sizes [OF str(2) assms(2)]
    have "fdt_next_tag m fdt node = (FDT_BEGIN_NODE, ?next)"
      using False by (auto simp: fdt_check_node_offset_priv_def split: if_splits prod.splits)
    then obtain stop where "stop \<le> unat (fdt_size_dt_struct m fdt)" "unat ?next \<le> stop + 3"
      by (rule tag_stop [OF _ _ assms(1,2)]) (simp_all add: tag_values)
    then have next_bound: "unat ?next \<le> unat (fdt_size_dt_struct m1 fdt) + 3" using str(5) by simp
    have place: "?entry = fdt + of_nat (unat (fdt_off_dt_struct m1 fdt) + unat ?next)"
      using False by (simp add: struct_ptr)
    have len: "unat len \<le> unat (FDT_TAGALIGN len)" "unat (FDT_TAGALIGN len) \<le> unat len + 3"
      using tagalign_fits [of len] assms(4) by simp_all
    then have proplen: "unat ?proplen = 12 + unat (FDT_TAGALIGN len)"
      using assms(4) by (subst unat_add_32) simp_all
    obtain err m2 where sp: "fdt_splice_struct_priv fdt ?entry 0 ?proplen m1 = (err, m2)" by fastforce
    have "unat (fdt_off_dt_struct m1 fdt) + unat ?next < 2 ^ 32"
      "unat (fdt_off_dt_struct m1 fdt) \<le> unat (fdt_off_dt_struct m1 fdt) + unat ?next"
      "unat (0 :: u32) \<le> unat (fdt_size_dt_struct m1 fdt)" "n + unat ?proplen < 2 ^ 32 + unat (0 :: u32)"
      using next_bound I len proplen assms(4) by simp_all
    from sp str(2) assms(2) place this show ?thesis
    proof (cases rule: splice_struct_cases)
      case 1
      have run: "fdt_add_property_priv fdt node name (of_nat (length name)) len m = Some (err, ?entry,
          if allocated then fdt_del_last_string_priv fdt name m1 else m1)"
        using False str(1) name sp 1 by (simp add: fdt_add_property_priv_def Let_def fdt_offset_ptr_w_priv_def)
      show ?thesis
        using run that 1 str(2,3) del_last_string_tree [OF str(2) assms(2,3) str(6)]
        by (cases allocated) (auto intro: frame_trans)
    next
      case 2
      let ?m3 = "st32 m2 ?entry (cpu_to_fdt32 FDT_PROP)"
      let ?m4 = "st32 ?m3 (?entry + 8) (cpu_to_fdt32 off)"
      let ?m5 = "st32 ?m4 (?entry + 4) (cpu_to_fdt32 len)"
      have run: "fdt_add_property_priv fdt node name (of_nat (length name)) len m = Some (0, ?entry, ?m5)"
        using False str(1) name sp 2 by (simp add: fdt_add_property_priv_def Let_def fdt_offset_ptr_w_priv_def)
      have p: "unat fdt + 40 \<le> unat ?entry" "unat ?entry + 12 + unat len \<le> unat fdt + n"
        using 2 proplen len by simp_all
      have fields: "unat (?entry + 4) = unat ?entry + 4" "unat (?entry + 8) = unat ?entry + 8"
        using p I unat_add_of_nat [of ?entry 4] unat_add_of_nat [of ?entry 8] by simp_all
      have m3: "rw_tree fdt n ?m3" "frame fdt n m2 ?m3"
        by (rule rw_st32 [OF 2(2) assms(2)]; use p in simp)+
      have m4: "rw_tree fdt n ?m4" "frame fdt n ?m3 ?m4"
        by (rule rw_st32 [OF m3(1) assms(2)]; use p fields in simp)+
      have m5: "rw_tree fdt n ?m5" "frame fdt n ?m4 ?m5"
        by (rule rw_st32 [OF m4(1) assms(2)]; use p fields in simp)+
      have "frame fdt n m ?m5"
        by (rule frame_trans [OF str(3)], rule frame_trans [OF 2(3)], rule frame_trans [OF m3(2)],
            rule frame_trans [OF m4(2) m5(2)])
      with run m5(1) p show ?thesis by (rule_tac that) simp_all
    qed
  qed
qed

lemma resize_property_cases:
  assumes "fdt_resize_property_priv fdt node name len m = (err, prop, m')"
    and "rw_tree fdt n m" "buffer fdt n" "unat len < 2147483632"
  shows "rw_tree fdt n m' \<and> frame fdt n m m' \<and> (err \<noteq> 0 \<longrightarrow> m' = m) \<and>
    (err = 0 \<longrightarrow> unat fdt + 40 \<le> unat prop \<and> unat prop + 12 + unat len \<le> unat fdt + n)"
proof -
  obtain q oldlen where get: "fdt_get_property m fdt node name = (q, oldlen)" by fastforce
  then have get': "fdt_get_property_namelen_w m fdt node name = (q, oldlen)"
    by (simp add: fdt_get_property_namelen_w_def fdt_get_property_def)
  from get assms(2,3) show ?thesis
  proof (cases rule: get_property_cases)
    case 1
    with assms(1,2) get' show ?thesis by (auto simp: fdt_resize_property_priv_def)
  next
    case (2 x)
    note I = rw_sizes [OF assms(2,3)]
    let ?k = "unat (fdt_off_dt_struct m fdt) + x + 12"
    have k: "q + 12 = fdt + of_nat ?k" using 2(2) by (simp add: add.assoc)
    have old: "unat (FDT_TAGALIGN oldlen) \<le> unat oldlen + 3"
      using tagalign_fits [of oldlen] 2(5) I by simp
    have new: "unat len \<le> unat (FDT_TAGALIGN len)" "unat (FDT_TAGALIGN len) \<le> unat len + 3"
      using tagalign_fits [of len] assms(4) by simp_all
    obtain e m1 where sp: "fdt_splice_struct_priv fdt (q + 12) (FDT_TAGALIGN oldlen) (FDT_TAGALIGN len) m = (e, m1)"
      by fastforce
    have "?k < 2 ^ 32" "unat (fdt_off_dt_struct m fdt) \<le> ?k"
      "unat (FDT_TAGALIGN oldlen) \<le> unat (fdt_size_dt_struct m fdt)"
      "n + unat (FDT_TAGALIGN len) < 2 ^ 32 + unat (FDT_TAGALIGN oldlen)"
      using 2 old new I assms(4) by simp_all
    from sp assms(2,3) k this show ?thesis
    proof (cases rule: splice_struct_cases)
      case 1
      with assms(1,2) get' 2(1) sp show ?thesis by (auto simp: fdt_resize_property_priv_def)
    next
      case s: 2
      have q: "unat q = unat fdt + unat (fdt_off_dt_struct m fdt) + x"
        unfolding 2(2) using 2(5) I by (subst unat_add_of_nat) simp_all
      then have q4: "unat (q + 4) = unat q + 4" "unat (q + 12) = unat q + 12"
        using 2(5) I unat_add_of_nat [of q 4] unat_add_of_nat [of q 12] by simp_all
      have "rw_tree fdt n (st32 m1 (q + 4) (cpu_to_fdt32 len))"
        "frame fdt n m1 (st32 m1 (q + 4) (cpu_to_fdt32 len))"
        by (rule rw_st32 [OF s(2) assms(3)]; use q q4 s 2(5) I in simp)+
      moreover have "err = 0" "prop = q" "m' = st32 m1 (q + 4) (cpu_to_fdt32 len)"
        using assms(1) get' 2(1) sp s by (auto simp: fdt_resize_property_priv_def)
      ultimately show ?thesis
        using s q q4 new I by (auto intro: frame_trans)
    qed
  qed
qed


section \<open>The operations\<close>

text \<open>
  A result that is there, and a tree that is in order and has changed inside its total size only:
  of the tree behind the probe, and of the valid blob before it.
\<close>

definition tree_done :: "u64 \<Rightarrow> nat \<Rightarrow> mem \<Rightarrow> (u32 \<times> mem) option \<Rightarrow> bool" where
  "tree_done fdt n m r \<longleftrightarrow> (\<exists>ret m'. r = Some (ret, m') \<and> rw_tree fdt n m' \<and> frame fdt n m m')"

definition rw_done :: "u64 \<Rightarrow> mem \<Rightarrow> (u32 \<times> mem) option \<Rightarrow> bool" where
  "rw_done fdt m r \<longleftrightarrow> (\<exists>ret m'. r = Some (ret, m') \<and> rw_safe fdt (unat (fdt_totalsize m fdt)) m m')"

lemma tree_done_Some [simp]: "tree_done fdt n m (Some (ret, m')) \<longleftrightarrow> rw_tree fdt n m' \<and> frame fdt n m m'"
  by (simp add: tree_done_def)

lemma rw_done_same: "valid_blob m fdt \<Longrightarrow> rw_done fdt m (Some (ret, m))"
  by (simp add: rw_done_def rw_safe_def)

text \<open>Every operation starts with the probe.\<close>

lemma rw_probed:
  assumes "valid_blob m fdt" and "\<And>err. err \<noteq> 0 \<Longrightarrow> f (err, m) = Some (err, m)"
    and "\<And>m1 n. rw_tree fdt n m1 \<Longrightarrow> buffer fdt n \<Longrightarrow> fdt_off_mem_rsvmap m1 fdt = fdt_off_mem_rsvmap m fdt \<Longrightarrow>
      unat (fdt_off_mem_rsvmap m1 fdt) + 16 \<le> unat (fdt_off_dt_struct m1 fdt) \<Longrightarrow>
      fdt_rw_probe_priv fdt m = (0, m1) \<Longrightarrow> tree_done fdt n m1 (f (0, m1))"
  shows "rw_done fdt m (f (fdt_rw_probe_priv fdt m))"
proof -
  obtain err m1 where probe: "fdt_rw_probe_priv fdt m = (err, m1)" by fastforce
  then show ?thesis
    using assms(1)
  proof (cases rule: rw_probe_cases)
    case 1
    with probe assms(1,2) show ?thesis by (simp add: rw_done_same)
  next
    case 2
    let ?n = "unat (fdt_totalsize m fdt)"
    have "tree_done fdt ?n m1 (f (0, m1))"
      using probe 2 valid_buffer [OF assms(1)] by (intro assms(3)) simp_all
    then obtain ret m' where r: "f (0, m1) = Some (ret, m')" "rw_tree fdt ?n m'" "frame fdt ?n m1 m'"
      by (auto simp: tree_done_def)
    moreover have "unat (fdt_totalsize m' fdt) = ?n" using r(2) by (simp add: rw_tree_def)
    ultimately show ?thesis
      using probe 2 rw_tree_valid [OF r(2) valid_buffer [OF assms(1)]] frame_trans [OF 2(3) r(3)]
      by (simp add: rw_done_def rw_safe_def)
  qed
qed

lemma set_name_done:
  assumes "valid_blob m fdt" "length name < 2147483632"
  shows "rw_done fdt m (fdt_set_name fdt node name m)"
  unfolding fdt_set_name_def
proof (rule rw_probed [OF assms(1)], goal_cases)
  case (2 m n)
  note tree = 2(1,2)
  note I = rw_sizes [OF tree]
  from tree show ?case
  proof (cases rule: get_name_cases [where node = node])
    case (1 len)
    with tree show ?thesis by simp
  next
    case (2 x len)
    let ?k = "unat (fdt_off_dt_struct m fdt) + x"
    let ?old = "FDT_TAGALIGN (len + 1)" and ?new = "FDT_TAGALIGN (of_nat (length name) + 1)"
    have "unat (len + 1) = unat len + 1" using 2(4) I by (subst unat_add_32) simp_all
    then have old: "unat ?old \<le> unat len + 4" using tagalign_fits(2) [of "len + 1"] 2(4) I by simp
    have "unat (of_nat (length name) + 1 :: u32) = length name + 1"
      using assms(2) by (subst unat_add_32) simp_all
    then have new: "length name + 1 \<le> unat ?new" "unat ?new \<le> length name + 4"
      using tagalign_fits [of "of_nat (length name) + 1"] assms(2) by simp_all
    obtain err m2 where sp: "fdt_splice_struct_priv fdt (fdt + of_nat ?k) ?old ?new m = (err, m2)" by fastforce
    have "?k < 2 ^ 32" "unat (fdt_off_dt_struct m fdt) \<le> ?k"
      "unat ?old \<le> unat (fdt_size_dt_struct m fdt)" "n + unat ?new < 2 ^ 32 + unat ?old"
      using 2 old new I assms(2) by simp_all
    from sp tree refl this show ?thesis
    proof (cases rule: splice_struct_cases)
      case 1
      with 2(1,2) sp tree show ?thesis by simp
    next
      case s: 2
      let ?m3 = "store_bytes (fdt + of_nat ?k) (name @ [0]) m2"
      have "rw_tree fdt n ?m3" "frame fdt n m2 ?m3"
        by (rule rw_store_bytes [OF s(2) tree(2)]; use s new in simp)+
      with s(3) have "tree_done fdt n m (Some (0, ?m3))" by (auto intro: frame_trans)
      with 2(1,2) sp s show ?thesis by simp
    qed
  qed
qed simp


text \<open>A property is resized where it is, or added in front of the others.\<close>

lemma set_property_cases:
  assumes "rw_tree fdt n m" "buffer fdt n" "length name < 40" "unat len < 2147483632"
  obtains err p m' where
    "(case fdt_resize_property_priv fdt node (take (unat (of_nat (length name) :: u32)) name) len m of
        (err, p, m) \<Rightarrow>
          if err = - FDT_ERR_NOTFOUND
          then fdt_add_property_priv fdt node name (of_nat (length name)) len m
          else Some (err, p, m)) = Some (err, p, m')"
    "rw_tree fdt n m'" "frame fdt n m m'"
    "err = 0 \<Longrightarrow> unat fdt + 40 \<le> unat p" "err = 0 \<Longrightarrow> unat p + 12 + unat len \<le> unat fdt + n"
proof -
  obtain err p m1 where r: "fdt_resize_property_priv fdt node name len m = (err, p, m1)"
    by (metis prod_cases3)
  note resize = resize_property_cases [OF r assms(1,2,4)]
  show thesis
  proof (cases "err = - FDT_ERR_NOTFOUND")
    case False
    with r resize assms(3) that show ?thesis by simp
  next
    case True
    then have "m1 = m" using resize by (simp add: FDT_ERR_NOTFOUND_def)
    with True r assms(3) add_property_cases [OF assms, of node] that show ?thesis by simp metis
  qed
qed

lemma setprop_placeholder_done:
  assumes "valid_blob m fdt" "length name < 40" "unat len < 2147483632"
  shows "rw_done fdt m (map_option (\<lambda>(ret, p, m). (ret, m)) (fdt_setprop_placeholder fdt node name len m))"
  unfolding fdt_setprop_placeholder_def fdt_setprop_placeholder_namelen_def
proof (rule rw_probed [OF assms(1)], goal_cases)
  case (2 m n)
  obtain err p m' where set: "(case fdt_resize_property_priv fdt node (take (unat (of_nat (length name) :: u32)) name) len m of
        (err, p, m) \<Rightarrow>
          if err = - FDT_ERR_NOTFOUND
          then fdt_add_property_priv fdt node name (of_nat (length name)) len m
          else Some (err, p, m)) = Some (err, p, m')"
    "rw_tree fdt n m'" "frame fdt n m m'"
    by (rule set_property_cases [OF 2(1,2) assms(2,3)]) (rule that)
  then show ?case by simp
qed simp

lemma setprop_done:
  assumes "valid_blob m fdt" "length name < 40" "length val < 2147483632"
  shows "rw_done fdt m (fdt_setprop fdt node name val m)"
  unfolding fdt_setprop_def fdt_setprop_namelen_def fdt_setprop_placeholder_namelen_def
proof (rule rw_probed [OF assms(1)], goal_cases)
  case (2 m n)
  have len: "unat (of_nat (length val) :: u32) = length val" using assms(3) by simp
  then have "unat (of_nat (length val) :: u32) < 2147483632" using assms(3) by simp
  then obtain err p m' where set: "(case fdt_resize_property_priv fdt node (take (unat (of_nat (length name) :: u32)) name)
        (of_nat (length val)) m of
        (err, p, m) \<Rightarrow>
          if err = - FDT_ERR_NOTFOUND
          then fdt_add_property_priv fdt node name (of_nat (length name)) (of_nat (length val)) m
          else Some (err, p, m)) = Some (err, p, m')"
    "rw_tree fdt n m'" "frame fdt n m m'"
    "err = 0 \<Longrightarrow> unat fdt + 40 \<le> unat p"
    "err = 0 \<Longrightarrow> unat p + 12 + unat (of_nat (length val) :: u32) \<le> unat fdt + n"
    by (rule set_property_cases [OF 2(1,2) assms(2)]) (rule that)
  show ?case
  proof (cases "err = 0")
    case False
    with set show ?thesis by simp
  next
    case True
    note p = set(4,5) [OF True, unfolded len]
    have p12: "unat (p + 12) = unat p + 12"
      using p rw_sizes(6) [OF set(2) 2(2)] unat_add_of_nat [of p 12] by simp
    have "rw_tree fdt n (store_bytes (p + 12) val m')" "frame fdt n m' (store_bytes (p + 12) val m')"
      by (rule rw_store_bytes [OF set(2) 2(2)]; use p p12 in simp)+
    with set(1-3) True show ?thesis by (auto intro: frame_trans)
  qed
qed simp

lemma appendprop_done:
  assumes "valid_blob m fdt" "length name < 40" "length val < 1073741824"
  shows "rw_done fdt m (fdt_appendprop fdt node name val m)"
  unfolding fdt_appendprop_def Let_def
proof (rule rw_probed [OF assms(1)], goal_cases)
  case (2 m n)
  note tree = 2(1,2)
  note I = rw_sizes [OF tree]
  let ?len = "of_nat (length val) :: u32"
  have len: "unat ?len = length val" using assms(3) by simp
  obtain q oldlen where get: "fdt_get_property m fdt node name = (q, oldlen)" by fastforce
  from get tree show ?case
  proof (cases rule: get_property_cases)
    case 1
    have "unat ?len < 2147483632" using assms(3) len by simp
    from add_property_cases [OF tree assms(2) this, of node]
    obtain err p m' where add: "fdt_add_property_priv fdt node name (of_nat (length name)) ?len m = Some (err, p, m')"
      "rw_tree fdt n m'" "frame fdt n m m'" "err = 0 \<Longrightarrow> unat fdt + 40 \<le> unat p"
      "err = 0 \<Longrightarrow> unat p + 12 + unat ?len \<le> unat fdt + n" by metis
    show ?thesis
    proof (cases "err = 0")
      case False
      with add get 1 show ?thesis by (simp add: fdt_get_property_w_def)
    next
      case True
      note p = add(4,5) [OF True, unfolded len]
      have p12: "unat (p + 12) = unat p + 12"
        using p I unat_add_of_nat [of p 12] by simp
      have "rw_tree fdt n (store_bytes (p + 12) val m')" "frame fdt n m' (store_bytes (p + 12) val m')"
        by (rule rw_store_bytes [OF add(2) tree(2)]; use p p12 in simp)+
      with add(1-3) True get 1 show ?thesis by (auto intro: frame_trans simp: fdt_get_property_w_def)
    qed
  next
    case (2 x)
    let ?k = "unat (fdt_off_dt_struct m fdt) + x + 12"
    let ?old = "FDT_TAGALIGN oldlen" and ?new = "FDT_TAGALIGN (?len + oldlen)"
    have k: "q + 12 = fdt + of_nat ?k" using 2(2) by (simp add: add.assoc)
    have old: "unat oldlen \<le> unat ?old" "unat ?old \<le> unat oldlen + 3"
      using tagalign_fits [of oldlen] 2(5) I by simp_all
    have sum: "unat (?len + oldlen) = length val + unat oldlen"
      using 2(5) I len assms(3) by (subst unat_add_32) simp_all
    then have new: "length val + unat oldlen \<le> unat ?new" "unat ?new \<le> length val + unat oldlen + 3"
      using tagalign_fits [of "?len + oldlen"] 2(5) I assms(3) by simp_all
    obtain e m1 where sp: "fdt_splice_struct_priv fdt (q + 12) ?old ?new m = (e, m1)" by fastforce
    have "?k < 2 ^ 32" "unat (fdt_off_dt_struct m fdt) \<le> ?k"
      "unat ?old \<le> unat (fdt_size_dt_struct m fdt)" "n + unat ?new < 2 ^ 32 + unat ?old"
      using 2 old new I assms(3) by simp_all
    from sp tree k this show ?thesis
    proof (cases rule: splice_struct_cases)
      case 1
      with get 2(1) sp tree show ?thesis by (simp add: fdt_get_property_w_def)
    next
      case s: 2
      have q: "unat q = unat fdt + unat (fdt_off_dt_struct m fdt) + x"
        unfolding 2(2) using 2(5) I by (subst unat_add_of_nat) simp_all
      then have q4: "unat (q + 4) = unat q + 4" "unat (q + 12) = unat q + 12"
        using 2(5) I unat_add_of_nat [of q 4] unat_add_of_nat [of q 12] by simp_all
      have stop: "unat (q + 12 + scast oldlen) = unat q + 12 + unat oldlen"
        unfolding scast_nonneg [OF 2(4)] using q4 q 2(5) I by (subst unat_add_of_nat) simp_all
      let ?m2 = "st32 m1 (q + 4) (cpu_to_fdt32 (?len + oldlen))"
      let ?m3 = "store_bytes (q + 12 + scast oldlen) val ?m2"
      have m2: "rw_tree fdt n ?m2" "frame fdt n m1 ?m2"
        by (rule rw_st32 [OF s(2) tree(2)]; use q q4 s 2(5) I in simp)+
      have "rw_tree fdt n ?m3" "frame fdt n ?m2 ?m3"
        by (rule rw_store_bytes [OF m2(1) tree(2)]; use q q4 stop new s(5) I in simp)+
      with m2(2) s(3) have "tree_done fdt n m (Some (0, ?m3))" by (auto intro: frame_trans)
      with get 2(1) sp s(1) show ?thesis by (simp add: fdt_get_property_w_def)
    qed
  qed
qed simp

lemma delprop_done:
  assumes "valid_blob m fdt"
  shows "rw_done fdt m (Some (fdt_delprop fdt node name m))"
  unfolding fdt_delprop_def
proof (rule rw_probed [OF assms], goal_cases)
  case (2 m n)
  note tree = 2(1,2)
  note I = rw_sizes [OF tree]
  obtain q oldlen where get: "fdt_get_property m fdt node name = (q, oldlen)" by fastforce
  from get tree show ?case
  proof (cases rule: get_property_cases)
    case 1
    with get tree show ?thesis by (simp add: fdt_get_property_w_def)
  next
    case (2 x)
    let ?k = "unat (fdt_off_dt_struct m fdt) + x" and ?old = "12 + FDT_TAGALIGN oldlen"
    have "unat (FDT_TAGALIGN oldlen) \<le> unat oldlen + 3"
      using tagalign_fits [of oldlen] 2(5) I by simp
    then have old: "unat ?old \<le> 12 + unat oldlen + 3"
      using 2(5) I by (subst unat_add_32) simp_all
    obtain e m1 where sp: "fdt_splice_struct_priv fdt q ?old 0 m = (e, m1)" by fastforce
    have "?k < 2 ^ 32" "unat (fdt_off_dt_struct m fdt) \<le> ?k"
      "unat ?old \<le> unat (fdt_size_dt_struct m fdt)" "n + unat (0 :: u32) < 2 ^ 32 + unat ?old"
      using 2 old I by simp_all
    from sp tree 2(2) this show ?thesis
    proof (cases rule: splice_struct_cases)
      case 1
      with get 2(1) sp tree show ?thesis by (simp add: fdt_get_property_w_def)
    next
      case s: 2
      with get 2(1) sp show ?thesis by (simp add: fdt_get_property_w_def)
    qed
  qed
qed simp


text \<open>Behind the properties of a node is a place for a subnode.\<close>

lemma subnode_place_bounds:
  assumes "unat offset \<le> unat (fdt_size_dt_struct m fdt) + 3" "\<not> offset <s 0"
    and "rw_tree fdt n m" "buffer fdt n"
  shows "unat (subnode_place m fdt offset) \<le> unat (fdt_size_dt_struct m fdt) + 3 \<and>
    \<not> subnode_place m fdt offset <s 0"
  using assms
proof (induction m fdt offset rule: subnode_place.induct)
  case (1 m fdt offset)
  obtain tag next_offset where t: "fdt_next_tag m fdt offset = (tag, next_offset)" by fastforce
  show ?case
  proof (cases "tag = FDT_PROP \<or> tag = FDT_NOP")
    case False
    with t "1.prems" show ?thesis by (simp add: subnode_place.simps [of m fdt offset])
  next
    case True
    then have "tag \<noteq> FDT_END" by (auto simp: tag_values)
    then obtain stop where "stop \<le> unat (fdt_size_dt_struct m fdt)" "unat next_offset \<le> stop + 3"
      "\<not> next_offset <s 0"
      by (rule tag_stop [OF t _ "1.prems"(3,4)])
    with "1.IH" [OF t [symmetric] True] "1.prems" t True show ?thesis
      by (simp add: subnode_place.simps [of m fdt offset])
  qed
qed

lemma add_subnode_done:
  assumes "valid_blob m fdt" "length name < 2147483600"
  shows "rw_done fdt m (fdt_add_subnode fdt parent name m)"
  unfolding fdt_add_subnode_def fdt_add_subnode_namelen_def
proof (rule rw_probed [OF assms(1)], goal_cases)
  case (2 m n)
  note tree = 2(1,2)
  note I = rw_sizes [OF tree]
  obtain r where sub: "fdt_subnode_offset_namelen m fdt parent name = Some r"
    using subnode_loop_total [OF tree, of parent "Some 0" name] unfolding fdt_subnode_offset_namelen_def
    by (cases "fdt_ro_probe_priv m fdt <s 0") auto
  obtain tag next_offset where t: "fdt_next_tag m fdt parent = (tag, next_offset)" by fastforce
  show ?case
  proof (cases "r = - FDT_ERR_NOTFOUND \<and> tag = FDT_BEGIN_NODE")
    case False
    with sub t tree show ?thesis by (auto simp: Let_def)
  next
    case True
    then have "tag \<noteq> FDT_END" by (simp add: tag_values)
    then obtain stop where "stop \<le> unat (fdt_size_dt_struct m fdt)" "unat next_offset \<le> stop + 3"
      "\<not> next_offset <s 0"
      by (rule tag_stop [OF t _ tree])
    then have "unat next_offset \<le> unat (fdt_size_dt_struct m fdt) + 3" "\<not> next_offset <s 0" by simp_all
    note place = subnode_place_bounds [OF this tree]
    let ?x = "subnode_place m fdt next_offset" and ?len = "of_nat (length name) + 1 :: u32"
    let ?nh = "fdt_offset_ptr_priv m fdt ?x" and ?k = "unat (fdt_off_dt_struct m fdt) + unat (subnode_place m fdt next_offset)"
    let ?nodelen = "4 + FDT_TAGALIGN ?len + FDT_TAGSIZE"
    have nh: "?nh = fdt + of_nat ?k"
      using place by (simp add: struct_ptr)
    have len: "unat ?len = length name + 1" "\<not> ?len <s 0"
      using assms(2) unat_add_32 [of "of_nat (length name)" 1] by (simp_all add: nonneg_iff)
    have align: "length name + 1 \<le> unat (FDT_TAGALIGN ?len)" "unat (FDT_TAGALIGN ?len) \<le> length name + 4"
      using tagalign_fits [of ?len] len assms(2) by simp_all
    have align_size: "unat (FDT_TAGALIGN_size ?len) \<le> length name + 4"
      using tagalign_size_bounds(2) [OF len(2)] len(1) by simp
    have nodelen: "unat ?nodelen = unat (FDT_TAGALIGN ?len) + 8"
      using align assms(2) unat_add_32 [of 4 "FDT_TAGALIGN ?len"] unat_add_32 [of "4 + FDT_TAGALIGN ?len" FDT_TAGSIZE]
      by (simp add: FDT_TAGSIZE_def)
    obtain e m1 where sp: "fdt_splice_struct_priv fdt ?nh 0 ?nodelen m = (e, m1)" by fastforce
    have "?k < 2 ^ 32" "unat (fdt_off_dt_struct m fdt) \<le> ?k"
      "unat (0 :: u32) \<le> unat (fdt_size_dt_struct m fdt)" "n + unat ?nodelen < 2 ^ 32 + unat (0 :: u32)"
      using place I nodelen align assms(2) by simp_all
    from sp tree nh this show ?thesis
    proof (cases rule: splice_struct_cases)
      case 1
      with sub t tree True sp show ?thesis by (simp add: Let_def fdt_offset_ptr_w_priv_def)
    next
      case s: 2
      have fits: "unat ?nh + unat (FDT_TAGALIGN ?len) + 8 \<le> unat fdt + n" "unat fdt + 40 \<le> unat ?nh"
        using s nodelen by simp_all
      have nh4: "unat (?nh + 4) = unat ?nh + 4"
        using fits I unat_add_of_nat [of ?nh 4] by simp
      let ?m2 = "st32 m1 ?nh (cpu_to_fdt32 FDT_BEGIN_NODE)"
      let ?m3 = "snd (memset (?nh + 4) 0 (FDT_TAGALIGN_size ?len) ?m2)"
      let ?m4 = "store_bytes (?nh + 4) name ?m3"
      let ?fin = "?nh + scast ?nodelen - ucast FDT_TAGSIZE"
      let ?m5 = "st32 ?m4 ?fin (cpu_to_fdt32 FDT_END_NODE)"
      have m2: "rw_tree fdt n ?m2" "frame fdt n m1 ?m2"
        by (rule rw_st32 [OF s(2) tree(2)]; use fits in simp)+
      have "block (?nh + 4) (FDT_TAGALIGN_size ?len)"
        using nh4 align align_size fits I by (simp add: block_def)
      then have "frame (?nh + 4) (unat (FDT_TAGALIGN_size ?len)) ?m2 ?m3" by (rule frame_memset)
      then have m3: "rw_tree fdt n ?m3" "frame fdt n ?m2 ?m3"
        using nh4 align align_size fits rw_store [OF m2(1) tree(2)] by simp_all
      have m4: "rw_tree fdt n ?m4" "frame fdt n ?m3 ?m4"
        by (rule rw_store_bytes [OF m3(1) tree(2)]; use nh4 fits align in simp)+
      have nonneg: "\<not> ?nodelen <s 0" using s(7) by (simp add: nonneg_iff)
      have "unat (?nh + scast ?nodelen) = unat ?nh + unat ?nodelen"
        unfolding scast_nonneg [OF nonneg] using fits nodelen I by (subst unat_add_of_nat) simp_all
      then have stop: "unat ?fin = unat ?nh + unat (FDT_TAGALIGN ?len) + 4"
        using nodelen by (subst unat_sub) (simp_all add: FDT_TAGSIZE_def word_le_nat_alt)
      have m5: "rw_tree fdt n ?m5" "frame fdt n ?m4 ?m5"
        by (rule rw_st32 [OF m4(1) tree(2)]; use fits stop in simp)+
      have "frame fdt n m ?m5"
        by (rule frame_trans [OF s(3)], rule frame_trans [OF m2(2)], rule frame_trans [OF m3(2)],
            rule frame_trans [OF m4(2) m5(2)])
      with m5(1) sub t True sp s(1) show ?thesis
        by (simp add: Let_def fdt_offset_ptr_w_priv_def)
    qed
  qed
qed simp

lemma del_node_done:
  assumes "valid_blob m fdt"
  shows "rw_done fdt m (Some (fdt_del_node fdt node m))"
  unfolding fdt_del_node_def Let_def
proof (rule rw_probed [OF assms], goal_cases)
  case (2 m n)
  note tree = 2(1,2)
  note I = rw_sizes [OF tree]
  let ?fin = "fdt_node_end_offset_priv m fdt node"
  show ?case
  proof (cases "?fin <s 0")
    case True
    with tree show ?thesis by simp
  next
    case False
    have node: "\<not> node <s 0"
      using False by (auto simp: fdt_node_end_offset_priv_def node_end_loop.simps [of m fdt node])
    have e: "unat node < unat ?fin" "unat ?fin \<le> unat (fdt_size_dt_struct m fdt)"
      using node_end_loop_end [OF _ node _ tree, of "Some 0"] False
      by (simp_all add: fdt_node_end_offset_priv_def)
    let ?k = "unat (fdt_off_dt_struct m fdt) + unat node"
    have len: "unat (?fin - node) = unat ?fin - unat node"
      using e by (subst unat_sub) (simp_all add: word_le_nat_alt)
    obtain r m1 where sp: "fdt_splice_struct_priv fdt (fdt_offset_ptr_priv m fdt node) (?fin - node) 0 m = (r, m1)"
      by fastforce
    have "?k < 2 ^ 32" "unat (fdt_off_dt_struct m fdt) \<le> ?k"
      "unat (?fin - node) \<le> unat (fdt_size_dt_struct m fdt)" "n + unat (0 :: u32) < 2 ^ 32 + unat (?fin - node)"
      using e len I by simp_all
    from sp tree struct_ptr [OF node] this show ?thesis
    proof (cases rule: splice_struct_cases)
      case 1
      with False sp tree show ?thesis by (simp add: fdt_offset_ptr_w_priv_def)
    next
      case s: 2
      with False sp show ?thesis by (simp add: fdt_offset_ptr_w_priv_def)
    qed
  qed
qed simp


text \<open>
  One reservation more or less: the structure and the strings move by the sixteen bytes of an entry.
\<close>

lemma shift_entry:
  fixes x old new :: u32
  assumes "old = 0 \<and> new = 1 \<or> old = 1 \<and> new = 0" "16 * unat old \<le> unat x" "unat x + 16 * unat new < 4294967296"
  shows "unat (x + (new - old) * 16) + 16 * unat old = unat x + 16 * unat new"
    and "x mod FDT_TAGSIZE = 0 \<Longrightarrow> (x + (new - old) * 16) mod FDT_TAGSIZE = 0"
proof -
  show shift: "unat (x + (new - old) * 16) + 16 * unat old = unat x + 16 * unat new"
  proof (cases "old = 0")
    case True
    with assms show ?thesis using unat_add_32 [of x 16] by auto
  next
    case False
    with assms have "x + (new - old) * 16 = x - 16" "16 \<le> unat x" "unat new = 0" "unat old = 1" by auto
    then show ?thesis by (simp add: unat_sub word_le_nat_alt)
  qed
  assume "x mod FDT_TAGSIZE = 0"
  then have "4 dvd unat x"
    by (simp add: FDT_TAGSIZE_def word_unat_eq_iff unat_mod_distrib mod_eq_0_iff_dvd)
  then have "4 dvd unat (x + (new - old) * 16) + 16 * unat old"
    unfolding shift by (intro dvd_add dvd_mult2) simp_all
  then have "4 dvd unat (x + (new - old) * 16)"
    by (simp add: dvd_add_left_iff)
  then show "(x + (new - old) * 16) mod FDT_TAGSIZE = 0"
    by (simp add: FDT_TAGSIZE_def word_unat_eq_iff unat_mod_distrib mod_eq_0_iff_dvd)
qed

lemma splice_mem_rsv_cases:
  assumes "fdt_splice_mem_rsv_priv fdt p old new m = (err, m')" "rw_tree fdt n m" "buffer fdt n"
    and "p = fdt + of_nat k" "k < 2 ^ 32" "unat (fdt_off_mem_rsvmap m fdt) \<le> k"
    and "unat (fdt_off_mem_rsvmap m fdt) + 16 * unat old \<le> unat (fdt_off_dt_struct m fdt)"
    and "old = 0 \<and> new = 1 \<or> old = 1 \<and> new = 0"
  obtains "err \<noteq> 0" "m' = m"
  | "err = 0" "rw_tree fdt n m'" "frame fdt n m m'" "unat p = unat fdt + k" "40 \<le> k" "k + 16 * unat new \<le> n"
proof -
  let ?O = "fdt_off_dt_struct m fdt" and ?S = "fdt_size_dt_struct m fdt"
    and ?B = "fdt_off_dt_strings m fdt" and ?R = "fdt_size_dt_strings m fdt"
  note I = rw_sizes [OF assms(2,3)]
  have rsv: "40 \<le> unat (fdt_off_mem_rsvmap m fdt)" using assms(2) by (simp add: rw_tree_def)
  have entry: "unat (old * 16) = 16 * unat old" "unat (new * 16) = 16 * unat new" "\<not> old * 16 <s 0"
    "n + unat (new * 16) < 2 ^ 32 + unat (old * 16)"
    using assms(8) I by (auto simp: nonneg_iff)
  obtain e m1 where s: "fdt_splice_priv fdt p (old * 16) (new * 16) m = (e, m1)" by fastforce
  from s assms(2-5) entry(3,4) show thesis
  proof (cases rule: splice_cases)
    case 1
    with s assms(1) that(1) show ?thesis by (auto simp: fdt_splice_mem_rsv_priv_def Let_def)
  next
    case 2
    let ?delta = "(new - old) * 16"
    let ?m2 = "fdt_set_off_dt_struct fdt (fdt_off_dt_struct m1 fdt + ?delta) m1"
    have m': "m' = fdt_set_off_dt_strings fdt (fdt_off_dt_strings ?m2 fdt + ?delta) ?m2" "err = 0"
      using s 2 assms(1) by (auto simp: fdt_splice_mem_rsv_priv_def Let_def)
    have k: "40 \<le> k" using assms(6) rsv by simp
    have "same_header m m1 fdt"
      by (rule frame_same_header [OF 2(6)]) (use 2 k in simp)
    note same = same_header_fields [OF this]
    have "16 * unat old \<le> unat ?O" "unat ?O + 16 * unat new < 4294967296"
      "16 * unat old \<le> unat ?B" "unat ?B + 16 * unat new < 4294967296"
      using assms(7) I 2 entry by simp_all
    note O = shift_entry [OF assms(8) this(1,2)] and B = shift_entry(1) [OF assms(8) this(3,4)]
    have "rw_tree fdt n m'"
      using assms(2,7) O B 2(3) entry I
      by (simp add: rw_tree_def m' fdt_set_off_dt_struct_def fdt_set_off_dt_strings_def same)
    moreover have "frame fdt n m m1"
      by (rule frame_mono [OF 2(6)]) (use 2 I in simp_all)
    moreover have "frame fdt n m1 ?m2" "frame fdt n ?m2 m'"
      unfolding m' fdt_set_off_dt_struct_def fdt_set_off_dt_strings_def using assms(3) I
      by (simp_all add: frame_header_field)
    moreover have "k + 16 * unat new \<le> n" using 2(2,3) entry by linarith
    ultimately show ?thesis
      using m'(2) 2(4) k by (intro that(2)) (auto intro: frame_trans)
  qed
qed

lemma mem_rsv_ptr:
  assumes "\<not> i <s 0"
  shows "fdt_mem_rsv_priv m fdt i = fdt + of_nat (unat (fdt_off_mem_rsvmap m fdt) + unat i * 16)"
  by (simp add: fdt_mem_rsv_priv_def scast_nonneg [OF assms])

lemma add_mem_rsv_done:
  assumes "valid_blob m fdt" "fdt_num_mem_rsv (snd (fdt_rw_probe_priv fdt m)) fdt = Some i" "\<not> i <s 0"
  shows "rw_done fdt m (fdt_add_mem_rsv fdt addr sz m)"
  unfolding fdt_add_mem_rsv_def
proof (rule rw_probed [OF assms(1)], goal_cases)
  case (2 m1 n)
  note tree = 2(1,2)
  note I = rw_sizes [OF tree]
  have num: "fdt_num_mem_rsv m1 fdt = Some i" using assms(2) 2(5) by simp
  then have i: "unat (fdt_off_mem_rsvmap m1 fdt) + 16 * unat i + 16 \<le> n"
    using assms(3) by (rule_tac num_mem_rsv_cases [OF tree]) auto
  let ?k = "unat (fdt_off_mem_rsvmap m1 fdt) + unat i * 16"
  let ?re = "fdt_mem_rsv_priv m1 fdt i"
  obtain e m2 where sp: "fdt_splice_mem_rsv_priv fdt ?re 0 1 m1 = (e, m2)" by fastforce
  have "?k < 2 ^ 32" "unat (fdt_off_mem_rsvmap m1 fdt) \<le> ?k"
    "unat (fdt_off_mem_rsvmap m1 fdt) + 16 * unat (0 :: u32) \<le> unat (fdt_off_dt_struct m1 fdt)"
    using i I 2(4) by simp_all
  from sp tree mem_rsv_ptr [OF assms(3)] this disjI1 [OF conjI [OF refl refl]] show ?case
  proof (cases rule: splice_mem_rsv_cases)
    case 1
    with num sp tree show ?thesis by (simp add: Let_def fdt_mem_rsv_w_priv_def)
  next
    case s: 2
    let ?m3 = "st64 m2 ?re (cpu_to_fdt64 addr)"
    let ?m4 = "st64 ?m3 (?re + 8) (cpu_to_fdt64 sz)"
    have re: "unat fdt + 40 \<le> unat ?re" "unat ?re + 16 \<le> unat fdt + n" using s by simp_all
    then have re8: "unat (?re + 8) = unat ?re + 8"
      using I unat_add_of_nat [of ?re 8] by simp
    have "frame ?re 8 m2 ?m3" "frame (?re + 8) 8 ?m3 ?m4"
      using re re8 I by (simp_all add: frame_st64)
    note stores = this
    have m3: "rw_tree fdt n ?m3" "frame fdt n m2 ?m3"
      by (rule rw_store [OF s(2) tree(2) stores(1)]; use re in simp)+
    have m4: "rw_tree fdt n ?m4" "frame fdt n ?m3 ?m4"
      by (rule rw_store [OF m3(1) tree(2) stores(2)]; use re re8 in simp)+
    with m3 s num sp show ?thesis by (auto simp: Let_def fdt_mem_rsv_w_priv_def intro: frame_trans)
  qed
qed simp

lemma del_mem_rsv_done:
  assumes "valid_blob m fdt" "\<not> i <s 0"
  shows "rw_done fdt m (fdt_del_mem_rsv fdt i m)"
  unfolding fdt_del_mem_rsv_def Let_def
proof (rule rw_probed [OF assms(1)], goal_cases)
  case (2 m1 n)
  note tree = 2(1,2)
  note I = rw_sizes [OF tree]
  obtain r where r: "fdt_num_mem_rsv m1 fdt = Some r"
    "\<not> r <s 0 \<Longrightarrow> unat (fdt_off_mem_rsvmap m1 fdt) + 16 * unat r + 16 \<le> n"
    by (rule num_mem_rsv_cases [OF tree]) (rule that)
  show ?case
  proof (cases "r \<le>s i")
    case True
    with r tree show ?thesis by simp
  next
    case False
    then have "sint i < sint r" by (simp add: word_sle_eq)
    moreover have "0 \<le> sint i" using assms(2) by (simp add: word_sless_alt)
    ultimately have r0: "\<not> r <s 0" by (simp add: word_sless_alt)
    have "unat i < unat r"
      using \<open>sint i < sint r\<close> by (simp only: sint_nonneg [OF assms(2)] sint_nonneg [OF r0] of_nat_less_iff)
    then have i: "unat (fdt_off_mem_rsvmap m1 fdt) + 16 * unat i + 16 \<le> n"
      using r(2) [OF r0] by simp
    let ?k = "unat (fdt_off_mem_rsvmap m1 fdt) + unat i * 16"
    have re: "fdt_mem_rsv_priv m fdt i = fdt + of_nat ?k"
      using mem_rsv_ptr [OF assms(2), of m fdt] 2(3) by simp
    obtain e m2 where sp: "fdt_splice_mem_rsv_priv fdt (fdt_mem_rsv_priv m fdt i) 1 0 m1 = (e, m2)" by fastforce
    have "?k < 2 ^ 32" "unat (fdt_off_mem_rsvmap m1 fdt) \<le> ?k"
      "unat (fdt_off_mem_rsvmap m1 fdt) + 16 * unat (1 :: u32) \<le> unat (fdt_off_dt_struct m1 fdt)"
      using i I 2(4) by simp_all
    from sp tree re this disjI2 [OF conjI [OF refl refl]] show ?thesis
    proof (cases rule: splice_mem_rsv_cases)
      case 1
      with r False sp tree show ?thesis by (simp add: fdt_mem_rsv_w_priv_def)
    next
      case s: 2
      with r False sp show ?thesis by (simp add: fdt_mem_rsv_w_priv_def)
    qed
  qed
qed simp

section \<open>Sequences of changes\<close>

datatype rw_call =
    Set_name u32 "u8 list"
  | Set_property u32 "u8 list" "u8 list"
  | Set_placeholder u32 "u8 list" u32
  | Append_property u32 "u8 list" "u8 list"
  | Delete_property u32 "u8 list"
  | Add_subnode u32 "u8 list"
  | Delete_node u32
  | Add_reservation u64 u64
  | Delete_reservation u32

fun rw_apply :: "u64 \<Rightarrow> rw_call \<Rightarrow> mem \<Rightarrow> (u32 \<times> mem) option" where
  "rw_apply fdt (Set_name node name) m = fdt_set_name fdt node name m"
| "rw_apply fdt (Set_property node name val) m = fdt_setprop fdt node name val m"
| "rw_apply fdt (Set_placeholder node name len) m =
     map_option (\<lambda>(ret, p, m). (ret, m)) (fdt_setprop_placeholder fdt node name len m)"
| "rw_apply fdt (Append_property node name val) m = fdt_appendprop fdt node name val m"
| "rw_apply fdt (Delete_property node name) m = Some (fdt_delprop fdt node name m)"
| "rw_apply fdt (Add_subnode parent name) m = fdt_add_subnode fdt parent name m"
| "rw_apply fdt (Delete_node node) m = Some (fdt_del_node fdt node m)"
| "rw_apply fdt (Add_reservation addr sz) m = fdt_add_mem_rsv fdt addr sz m"
| "rw_apply fdt (Delete_reservation i) m = fdt_del_mem_rsv fdt i m"

text \<open>
  Names of properties are shorter than the header, values and names of nodes fit an \<^verbatim>\<open>int\<close> with the
  tags around them, and a reservation is added only where the list of reservations has an end.
\<close>

fun rw_call_ok :: "mem \<Rightarrow> u64 \<Rightarrow> rw_call \<Rightarrow> bool" where
  "rw_call_ok m fdt (Set_name node name) \<longleftrightarrow> length name < 2147483600"
| "rw_call_ok m fdt (Set_property node name val) \<longleftrightarrow> length name < 40 \<and> length val < 2147483600"
| "rw_call_ok m fdt (Set_placeholder node name len) \<longleftrightarrow> length name < 40 \<and> len < 2147483600"
| "rw_call_ok m fdt (Append_property node name val) \<longleftrightarrow> length name < 40 \<and> length val < 1073741824"
| "rw_call_ok m fdt (Add_subnode parent name) \<longleftrightarrow> length name < 2147483600"
| "rw_call_ok m fdt (Add_reservation addr sz) \<longleftrightarrow>
     (case fdt_num_mem_rsv (snd (fdt_rw_probe_priv fdt m)) fdt of None \<Rightarrow> False | Some i \<Rightarrow> \<not> i <s 0)"
| "rw_call_ok m fdt (Delete_reservation i) \<longleftrightarrow> \<not> i <s 0"
| "rw_call_ok m fdt _ \<longleftrightarrow> True"

inductive rw_steps :: "u64 \<Rightarrow> mem \<Rightarrow> mem \<Rightarrow> bool" for fdt :: u64 and m :: mem where
  start: "rw_steps fdt m m"
| call: "rw_steps fdt m m1 \<Longrightarrow> rw_call_ok m1 fdt c \<Longrightarrow> rw_apply fdt c m1 = Some (ret, m2) \<Longrightarrow> rw_steps fdt m m2"

lemma rw_apply_done: "valid_blob m fdt \<Longrightarrow> rw_call_ok m fdt c \<Longrightarrow> rw_done fdt m (rw_apply fdt c m)"
  by (cases c)
    (auto simp: word_less_nat_alt set_name_done setprop_done setprop_placeholder_done appendprop_done
      delprop_done add_subnode_done del_node_done add_mem_rsv_done del_mem_rsv_done split: option.splits)

lemma rw_steps_safe:
  assumes "rw_steps fdt m m'" "valid_blob m fdt"
  shows "rw_safe fdt (unat (fdt_totalsize m fdt)) m m'"
  using assms
proof (induction rule: rw_steps.induct)
  case start
  then show ?case by (simp add: rw_safe_def)
next
  case (call m1 c ret m2)
  then have m1: "rw_safe fdt (unat (fdt_totalsize m fdt)) m m1" by simp
  then have "valid_blob m1 fdt" "unat (fdt_totalsize m1 fdt) = unat (fdt_totalsize m fdt)"
    by (simp_all add: rw_safe_def)
  with rw_apply_done [OF this(1) call(2)] call(3) m1 show ?case
    by (auto simp: rw_done_def intro: rw_safe_trans)
qed

end
