(* ===== verification/Fdt_Inplace.thy ===== *)
theory Fdt_Inplace
  imports Fdt_Frame
begin

text \<open>
  Changing the value of a property where it is: the walk over the tags does not look at values, so
  the nodes, the properties, their names and their places stay the same.
\<close>

section \<open>Reading the same bytes\<close>

definition same_at :: "mem \<Rightarrow> mem \<Rightarrow> u64 \<Rightarrow> nat \<Rightarrow> bool" where
  "same_at m m' fdt k \<longleftrightarrow> m' (fdt + of_nat k) = m (fdt + of_nat k)"

lemma ld_same:
  assumes "\<And>j. j < 4 \<Longrightarrow> same_at m m' fdt (k + j)"
  shows "fdt32_ld_priv m' (fdt + of_nat k) = fdt32_ld_priv m (fdt + of_nat k)"
  using assms [of 0] assms [of 1] assms [of 2] assms [of 3]
  by (simp add: native_32 fdt32_ld_def same_at_def ac_simps)

lemma offset_ptr_same:
  assumes "same_header m m' fdt"
  shows "fdt_offset_ptr m' fdt offset len = fdt_offset_ptr m fdt offset len"
    "fdt_offset_ptr_priv m' fdt offset = fdt_offset_ptr_priv m fdt offset"
  using same_header_fields [OF assms] by (auto simp: fdt_offset_ptr_def fdt_offset_ptr_priv_def Let_def)

lemma checks_same:
  assumes "same_header m m' fdt"
  shows "fdt_ro_probe_priv m' fdt = fdt_ro_probe_priv m fdt" "fdt_check_header m' fdt = fdt_check_header m fdt"
    "string_limit m' fdt off l = string_limit m fdt off l"
  unfolding fdt_ro_probe_priv_def fdt_check_header_def fdt_header_size_def string_limit_def
    same_header_fields [OF assms] by (rule refl)+

text \<open>What a walk reads: an offset into the structure that lies in the blob.\<close>

definition same_struct :: "mem \<Rightarrow> mem \<Rightarrow> u64 \<Rightarrow> nat \<Rightarrow> nat \<Rightarrow> bool" where
  "same_struct m m' fdt i j \<longleftrightarrow>
     (\<forall>k. i \<le> k \<and> k < j \<and> unat (fdt_off_dt_struct m fdt) + k < unat (fdt_totalsize m fdt) \<longrightarrow>
       same_at m m' fdt (unat (fdt_off_dt_struct m fdt) + k))"

lemma same_struct_mono: "same_struct m m' fdt i j \<Longrightarrow> i \<le> i' \<Longrightarrow> j' \<le> j \<Longrightarrow> same_struct m m' fdt i' j'"
  by (auto simp: same_struct_def)

lemma ld_struct:
  assumes "fdt_offset_ptr m fdt offset 4 \<noteq> 0" "same_struct m m' fdt (unat offset) (unat offset + 4)"
  shows "fdt32_ld_priv m' (fdt_offset_ptr m fdt offset 4) = fdt32_ld_priv m (fdt_offset_ptr m fdt offset 4)"
  unfolding fdt_offset_ptr_bounds(1) [OF assms(1)]
  using fdt_offset_ptr_bounds(2) [OF assms(1)] assms(2)
  by (intro ld_same) (simp add: same_struct_def add.assoc)

lemma skip_name_same:
  assumes "skip_name m fdt offset = (p, stop)" "same_header m m' fdt"
    and "\<And>j. (p \<noteq> 0 \<Longrightarrow> j \<le> unat stop) \<Longrightarrow> same_struct m m' fdt (unat offset) j"
  shows "skip_name m' fdt offset = (p, stop)"
  using assms
proof (induction m fdt offset rule: skip_name.induct)
  case (1 m fdt offset)
  let ?q = "fdt_offset_ptr m fdt offset 1"
  show ?case
  proof (cases "?q = 0")
    case True
    with "1.prems"(1,2) show ?thesis
      by (simp add: skip_name.simps [of m fdt offset] skip_name.simps [of m' fdt offset] offset_ptr_same)
  next
    case False
    note q = fdt_offset_ptr_bounds(1,2) [OF False]
    have "unat offset < 2147483648" using fdt_offset_ptr_nonneg [OF False] by (simp add: nonneg_iff)
    then have next_offset: "unat (offset + 1) = unat offset + 1" by (simp add: unat_add_32)
    have "unat offset < unat stop" if "p \<noteq> 0"
      using skip_name_bounds [OF "1.prems"(1) that] by simp
    then have "same_struct m m' fdt (unat offset) (unat offset + 1)"
      by (intro "1.prems"(3)) simp
    then have here: "m' ?q = m ?q"
      using q by (auto simp: same_struct_def same_at_def dest: spec [of _ "unat offset"])
    show ?thesis
    proof (cases "m ?q = 0")
      case True
      with False here "1.prems"(1,2) show ?thesis
        by (simp add: skip_name.simps [of m fdt offset] skip_name.simps [of m' fdt offset] offset_ptr_same)
    next
      case on: False
      then have "skip_name m fdt (offset + 1) = (p, stop)"
        using "1.prems"(1) False by (simp add: skip_name.simps [of m fdt offset])
      moreover have "same_struct m m' fdt (unat (offset + 1)) j" if "p \<noteq> 0 \<Longrightarrow> j \<le> unat stop" for j
        by (rule same_struct_mono [OF "1.prems"(3) [OF that]]) (simp_all add: next_offset)
      ultimately have "skip_name m' fdt (offset + 1) = (p, stop)"
        using "1.IH" [OF refl _ _ "1.prems"(2)] False on by blast
      with False on here "1.prems"(2) show ?thesis
        by (simp add: skip_name.simps [of m' fdt offset] offset_ptr_same)
    qed
  qed
qed

text \<open>
  A tag reads its own bytes: four, eight for a property, and those of the name for a node. The end
  and the errors may look at everything behind their offset.
\<close>

lemma next_tag_same:
  assumes "fdt_next_tag m fdt offset = (tag, next_offset)" "same_header m m' fdt"
    and "\<And>j. (tag = FDT_PROP \<Longrightarrow> j \<le> unat offset + 8) \<Longrightarrow>
      (tag \<noteq> FDT_PROP \<Longrightarrow> tag \<noteq> FDT_END \<Longrightarrow> j \<le> unat next_offset) \<Longrightarrow> same_struct m m' fdt (unat offset) j"
  shows "fdt_next_tag m' fdt offset = (tag, next_offset)"
proof -
  let ?tagp = "fdt_offset_ptr m fdt offset FDT_TAGSIZE" and ?o = "offset + FDT_TAGSIZE"
  let ?tag = "fdt32_ld_priv m ?tagp"
  note fields = same_header_fields [OF assms(2)] and ptrs = offset_ptr_same [OF assms(2)]
  have fin: "finish_tag m' fdt = finish_tag m fdt" "prop_stop m' fdt = prop_stop m fdt"
    by (simp_all add: fun_eq_iff finish_tag_def prop_stop_def ptrs fields)
  show ?thesis
  proof (cases "?tagp = 0")
    case True
    with assms(1) show ?thesis by (simp add: fdt_next_tag_def ptrs)
  next
    case False
    then have "unat offset < 2147483648" using fdt_offset_ptr_nonneg [OF False] by (simp add: nonneg_iff)
    then have o: "unat ?o = unat offset + 4" by (simp add: FDT_TAGSIZE_def unat_add_32)
    have progress: "unat offset + 4 \<le> unat next_offset" if "tag \<noteq> FDT_END"
      by (rule fdt_next_tag_progress [OF assms(1) that]) linarith
    then have "same_struct m m' fdt (unat offset) (unat offset + 4)"
      by (intro assms(3)) auto
    then have tag: "fdt32_ld_priv m' ?tagp = ?tag"
      using False ld_struct [of m fdt offset m'] by (simp add: FDT_TAGSIZE_def)
    consider "?tag = FDT_BEGIN_NODE" | "?tag = FDT_PROP" | "?tag \<noteq> FDT_BEGIN_NODE" "?tag \<noteq> FDT_PROP" by blast
    then show ?thesis
    proof cases
      case 1
      obtain p stop where skip: "skip_name m fdt ?o = (p, stop)" by fastforce
      have "skip_name m' fdt ?o = (p, stop)"
      proof (rule skip_name_same [OF skip assms(2)])
        fix j assume j: "p \<noteq> 0 \<Longrightarrow> j \<le> unat stop"
        have "same_struct m m' fdt (unat offset) j"
        proof (rule assms(3))
          assume "tag = FDT_PROP"
          with assms(1) False 1 skip show "j \<le> unat offset + 8"
            by (auto simp: fdt_next_tag_def finish_tag_def tag_values Let_def split: if_splits)
        next
          assume tag: "tag \<noteq> FDT_PROP" "tag \<noteq> FDT_END"
          then have p: "p \<noteq> 0" and next_offset: "next_offset = FDT_TAGALIGN stop"
            using assms(1) False 1 skip by (auto simp: fdt_next_tag_def finish_tag_def Let_def split: if_splits)
          have "unat stop < 2147483700" using skip_name_bounds [OF skip p] by simp
          with j [OF p] show "j \<le> unat next_offset"
            unfolding next_offset using tagalign_bounds(1) order.trans by blast
        qed
        then show "same_struct m m' fdt (unat ?o) j" by (rule same_struct_mono) (simp_all add: o)
      qed
      with assms(1) False 1 skip tag show ?thesis
        by (auto simp: fdt_next_tag_def Let_def ptrs fin split: if_splits)
    next
      case 2
      have "same_struct m m' fdt (unat offset) (unat offset + 8)"
        using assms(1) False 2 by (intro assms(3))
          (auto simp: fdt_next_tag_def finish_tag_def tag_values Let_def split: if_splits)
      then have "same_struct m m' fdt (unat ?o) (unat ?o + 4)"
        by (rule same_struct_mono) (simp_all add: o)
      then have "fdt_offset_ptr m fdt ?o 4 \<noteq> 0 \<Longrightarrow> fdt32_ld_priv m' (fdt_offset_ptr m fdt ?o 4) =
          fdt32_ld_priv m (fdt_offset_ptr m fdt ?o 4)"
        by (rule_tac ld_struct)
      with assms(1) False 2 tag show ?thesis
        by (auto simp: fdt_next_tag_def Let_def ptrs fin tag_values split: if_splits)
    next
      case 3
      with assms(1) False tag show ?thesis by (auto simp: fdt_next_tag_def Let_def ptrs fin split: if_splits)
    qed
  qed
qed


section \<open>The walk from the root\<close>

definition tag_steps :: "mem \<Rightarrow> u64 \<Rightarrow> (u32 \<times> u32) set" where
  "tag_steps m fdt = {(a, b). \<exists>tag. fdt_next_tag m fdt a = (tag, b) \<and> tag \<noteq> FDT_END}"

lemma tag_stepsI: "fdt_next_tag m fdt a = (tag, b) \<Longrightarrow> tag \<noteq> FDT_END \<Longrightarrow> (a, b) \<in> tag_steps m fdt"
  by (auto simp: tag_steps_def)

lemma tag_steps_forward: "(a, b) \<in> tag_steps m fdt \<Longrightarrow> unat a < unat b"
  by (auto simp: tag_steps_def elim!: fdt_next_tag_progress)

lemma tag_steps_forward_star: "(a, b) \<in> (tag_steps m fdt)\<^sup>* \<Longrightarrow> unat a \<le> unat b"
  by (induction rule: rtrancl_induct) (auto dest: tag_steps_forward)

text \<open>Of two offsets of the walk one is behind the other's tag.\<close>

lemma walk_linear:
  assumes "(r, a) \<in> (tag_steps m fdt)\<^sup>*" "(r, b) \<in> (tag_steps m fdt)\<^sup>*"
  obtains "a = b"
  | c where "(a, c) \<in> tag_steps m fdt" "unat c \<le> unat b"
  | c where "(b, c) \<in> tag_steps m fdt" "unat c \<le> unat a"
proof -
  have "single_valued (tag_steps m fdt)"
    by (auto simp: single_valued_def tag_steps_def)
  from single_valued_confluent [OF this assms]
  have "(a, b) \<in> (tag_steps m fdt)\<^sup>* \<or> (b, a) \<in> (tag_steps m fdt)\<^sup>*" .
  then show thesis
  proof
    assume "(a, b) \<in> (tag_steps m fdt)\<^sup>*"
    then show thesis
      by (cases rule: converse_rtranclE) (use that in \<open>auto dest: tag_steps_forward_star\<close>)
  next
    assume "(b, a) \<in> (tag_steps m fdt)\<^sup>*"
    then show thesis
      by (cases rule: converse_rtranclE) (use that in \<open>auto dest: tag_steps_forward_star\<close>)
  qed
qed

section \<open>A changed value\<close>

text \<open>
  The property is at the offset \<open>x\<close> of the walk of a tree of the current version, whose strings are
  behind its structure; the memories differ in its value only.
\<close>

definition value_changed :: "u64 \<Rightarrow> u32 \<Rightarrow> mem \<Rightarrow> mem \<Rightarrow> bool" where
  "value_changed fdt x m m' \<longleftrightarrow> valid_blob m fdt \<and> 17 \<le> fdt_version m fdt \<and>
     unat (fdt_off_dt_struct m fdt) + unat (fdt_size_dt_struct m fdt) \<le> unat (fdt_off_dt_strings m fdt) \<and>
     (0, x) \<in> (tag_steps m fdt)\<^sup>* \<and> fst (fdt_next_tag m fdt x) = FDT_PROP \<and>
     frame (fdt_offset_ptr_priv m fdt x + 12) (unat (prop_len m fdt x)) m m'"

lemma value_place:
  assumes "value_changed fdt x m m'"
  obtains next_offset where "fdt_next_tag m fdt x = (FDT_PROP, next_offset)" "(x, next_offset) \<in> tag_steps m fdt"
    "unat x + 12 + unat (prop_len m fdt x) \<le> unat (fdt_size_dt_struct m fdt)"
    "unat x + 12 + unat (prop_len m fdt x) \<le> unat next_offset"
    "unat (fdt_offset_ptr_priv m fdt x + 12) = unat fdt + (unat (fdt_off_dt_struct m fdt) + unat x + 12)"
    "40 \<le> unat (fdt_off_dt_struct m fdt)"
proof -
  have A: "valid_blob m fdt" "17 \<le> fdt_version m fdt" "fst (fdt_next_tag m fdt x) = FDT_PROP"
    using assms by (simp_all add: value_changed_def)
  then obtain next_offset where t: "fdt_next_tag m fdt x = (FDT_PROP, next_offset)"
    by (metis prod.collapse)
  have "28 \<le> unat (fdt_off_dt_struct m fdt)" and O: "40 \<le> unat (fdt_off_dt_struct m fdt)"
    using A(1,2) check_header_blocks(5) [of m fdt]
    by (auto simp: valid_blob_def fdt_header_size_def fdt_header_size_priv_def FDT_V17_SIZE_def
      FDT_V16_SIZE_def FDT_V3_SIZE_def FDT_V2_SIZE_def FDT_V1_SIZE_def word_le_nat_alt word_less_nat_alt)
  note p = valid_prop_ptr(1) [OF A(1) t] and span = prop_tag_span [OF t]
  have "unat (fdt_offset_ptr_priv m fdt x) + 12 < 2 ^ 64"
    using p span(2) A(1) by (simp add: valid_blob_def)
  then have "unat (fdt_offset_ptr_priv m fdt x + 12) = unat (fdt_offset_ptr_priv m fdt x) + 12"
    using unat_add_of_nat [of "fdt_offset_ptr_priv m fdt x" 12] by simp
  with t p O span(5,6) A(2) show thesis
    by (intro that [of next_offset]) (auto intro: tag_stepsI simp: tag_values)
qed

lemma value_same_at:
  assumes "value_changed fdt x m m'" "k < unat (fdt_totalsize m fdt)"
    and "k < unat (fdt_off_dt_struct m fdt) + unat x + 12 \<or>
      unat (fdt_off_dt_struct m fdt) + unat x + 12 + unat (prop_len m fdt x) \<le> k"
  shows "same_at m m' fdt k"
proof -
  obtain next_offset :: u32 where "unat (fdt_offset_ptr_priv m fdt x + 12) =
      unat fdt + (unat (fdt_off_dt_struct m fdt) + unat x + 12)"
    by (rule value_place [OF assms(1)])
  moreover have "unat (fdt + of_nat k) = unat fdt + k"
    using assms(1,2) by (intro unat_add_of_nat) (simp add: value_changed_def valid_blob_def)
  ultimately show ?thesis
    using assms(1,3) by (auto simp: value_changed_def frame_def same_at_def)
qed

lemma value_same_header:
  assumes "value_changed fdt x m m'"
  shows "same_header m m' fdt"
proof -
  obtain next_offset :: u32 where "unat (fdt_offset_ptr_priv m fdt x + 12) =
      unat fdt + (unat (fdt_off_dt_struct m fdt) + unat x + 12)" "40 \<le> unat (fdt_off_dt_struct m fdt)"
    by (rule value_place [OF assms])
  with assms show ?thesis
    by (intro frame_same_header [of "fdt_offset_ptr_priv m fdt x + 12"]) (auto simp: value_changed_def)
qed

lemma value_same_struct:
  assumes "value_changed fdt x m m'" "j \<le> unat x + 12 \<or> unat x + 12 + unat (prop_len m fdt x) \<le> i"
  shows "same_struct m m' fdt i j"
  unfolding same_struct_def using assms(2) by (auto intro!: value_same_at [OF assms(1)])

lemma value_next_tag:
  assumes "value_changed fdt x m m'" "(0, offset) \<in> (tag_steps m fdt)\<^sup>*"
  shows "fdt_next_tag m' fdt offset = fdt_next_tag m fdt offset"
proof -
  obtain next_x where x: "fdt_next_tag m fdt x = (FDT_PROP, next_x)" "(x, next_x) \<in> tag_steps m fdt"
    "unat x + 12 + unat (prop_len m fdt x) \<le> unat next_x"
    by (rule value_place [OF assms(1)])
  obtain tag next_offset where t: "fdt_next_tag m fdt offset = (tag, next_offset)" by fastforce
  have "fdt_next_tag m' fdt offset = (tag, next_offset)"
  proof (rule next_tag_same [OF t value_same_header [OF assms(1)]])
    fix j
    assume own: "tag = FDT_PROP \<Longrightarrow> j \<le> unat offset + 8"
      and other: "tag \<noteq> FDT_PROP \<Longrightarrow> tag \<noteq> FDT_END \<Longrightarrow> j \<le> unat next_offset"
    have x0: "(0, x) \<in> (tag_steps m fdt)\<^sup>*" using assms(1) by (simp add: value_changed_def)
    from assms(2) x0 show "same_struct m m' fdt (unat offset) j"
    proof (cases rule: walk_linear)
      case 1
      with t x own show ?thesis by (intro value_same_struct [OF assms(1)]) simp
    next
      case (2 c)
      then have "c = next_offset" "tag \<noteq> FDT_END" using t by (auto simp: tag_steps_def)
      moreover have "unat offset + 8 \<le> unat next_offset" if "tag = FDT_PROP"
        using prop_tag_span(6) [of m fdt offset] t that by simp
      ultimately have "j \<le> unat x"
        using 2(2) own other by (cases "tag = FDT_PROP") auto
      then show ?thesis by (intro value_same_struct [OF assms(1)]) simp
    next
      case (3 c)
      then have "c = next_x" using x(1) by (auto simp: tag_steps_def)
      with 3(2) x(3) show ?thesis by (intro value_same_struct [OF assms(1)]) simp
    qed
  qed
  with t show ?thesis by simp
qed


section \<open>What stays the same\<close>

lemma walk_step: "(0, a) \<in> (tag_steps m fdt)\<^sup>* \<Longrightarrow> fdt_next_tag m fdt a = (tag, b) \<Longrightarrow> tag \<noteq> FDT_END \<Longrightarrow>
    (0, b) \<in> (tag_steps m fdt)\<^sup>*"
  by (auto intro: rtrancl_into_rtrancl tag_stepsI)

lemma value_tags_from:
  assumes "value_changed fdt x m m'" "(0, offset) \<in> (tag_steps m fdt)\<^sup>*"
  shows "tags_from m' fdt offset = tags_from m fdt offset"
  using assms
proof (induction m fdt offset rule: tags_from.induct)
  case (1 m fdt offset)
  obtain tag next_offset where t: "fdt_next_tag m fdt offset = (tag, next_offset)" by fastforce
  with value_next_tag [OF "1.prems"] "1.IH" [OF t [symmetric]] "1.prems" show ?case
    by (cases "tag = FDT_END")
      (auto simp: tags_from.simps [of m fdt offset] tags_from.simps [of m' fdt offset] intro: walk_step)
qed

lemma value_props_from:
  assumes "value_changed fdt x m m'" "(0, offset) \<in> (tag_steps m fdt)\<^sup>*"
  shows "props_from m' fdt offset = props_from m fdt offset"
  using assms
proof (induction m fdt offset rule: props_from.induct)
  case (1 m fdt offset)
  obtain tag next_offset where t: "fdt_next_tag m fdt offset = (tag, next_offset)" by fastforce
  have "tag \<noteq> FDT_END" if "tag = FDT_PROP \<or> tag = FDT_NOP" using that by (auto simp: tag_values)
  with t value_next_tag [OF "1.prems"] "1.IH" [OF t [symmetric]] "1.prems" show ?case
    by (auto simp: props_from.simps [of m fdt offset] props_from.simps [of m' fdt offset] intro: walk_step)
qed

lemma tags_from_walk:
  assumes "(a, tag) \<in> set (tags_from m fdt offset)" "(0, offset) \<in> (tag_steps m fdt)\<^sup>*"
  shows "(0, a) \<in> (tag_steps m fdt)\<^sup>*"
  using assms
proof (induction m fdt offset rule: tags_from.induct)
  case (1 m fdt offset)
  obtain t next_offset where t: "fdt_next_tag m fdt offset = (t, next_offset)" by fastforce
  with 1 walk_step [OF "1.prems"(2) t] show ?case
    by (auto simp: tags_from.simps [of m fdt offset] split: if_splits)
qed

lemma node_walk: "n \<in> set (nodes_from m fdt 0) \<Longrightarrow> (0, n) \<in> (tag_steps m fdt)\<^sup>*"
  by (auto simp: nodes_from_def dest: tags_from_walk)

lemma props_from_walk:
  assumes "n \<in> set (props_from m fdt offset)" "(0, offset) \<in> (tag_steps m fdt)\<^sup>*"
  shows "(0, n) \<in> (tag_steps m fdt)\<^sup>* \<and> fst (fdt_next_tag m fdt n) = FDT_PROP"
  using assms
proof (induction m fdt offset rule: props_from.induct)
  case (1 m fdt offset)
  obtain tag next_offset where t: "fdt_next_tag m fdt offset = (tag, next_offset)" by fastforce
  have "tag \<noteq> FDT_END" if "tag = FDT_PROP \<or> tag = FDT_NOP" using that by (auto simp: tag_values)
  with 1 t walk_step [OF "1.prems"(2) t] show ?case
    by (auto simp: props_from.simps [of m fdt offset] split: if_splits)
qed

text \<open>The fields of every property of the walk.\<close>

lemma value_prop_field:
  assumes "value_changed fdt x m m'" "(0, n) \<in> (tag_steps m fdt)\<^sup>*" "fst (fdt_next_tag m fdt n) = FDT_PROP"
    and "f = 4 \<or> f = 8"
  shows "fdt32_ld_priv m' (fdt_offset_ptr_priv m' fdt n + f) = fdt32_ld_priv m (fdt_offset_ptr_priv m fdt n + f)"
proof -
  obtain next_x where x: "fdt_next_tag m fdt x = (FDT_PROP, next_x)" "(x, next_x) \<in> tag_steps m fdt"
    "unat x + 12 + unat (prop_len m fdt x) \<le> unat next_x"
    by (rule value_place [OF assms(1)])
  obtain next_offset where t: "fdt_next_tag m fdt n = (FDT_PROP, next_offset)"
    using assms(3) by (metis prod.collapse)
  note span = prop_tag_span [OF t]
  let ?k = "unat (fdt_off_dt_struct m fdt) + unat n + unat f"
  have x0: "(0, x) \<in> (tag_steps m fdt)\<^sup>*" using assms(1) by (simp add: value_changed_def)
  from assms(2) x0 have "unat n \<le> unat x \<or> unat x + 12 + unat (prop_len m fdt x) \<le> unat n"
  proof (cases rule: walk_linear)
    case (2 c)
    then show ?thesis using tag_steps_forward [OF 2(1)] by simp
  next
    case (3 c)
    then have "c = next_x" using x(1) by (auto simp: tag_steps_def)
    with 3(2) x(3) show ?thesis by simp
  qed simp
  then have "same_at m m' fdt (?k + j)" if "j < 4" for j
    using that assms(4) span(2) by (intro value_same_at [OF assms(1)]) auto
  then have "fdt32_ld_priv m' (fdt + of_nat ?k) = fdt32_ld_priv m (fdt + of_nat ?k)"
    by (rule ld_same)
  moreover have "fdt_offset_ptr_priv m fdt n + f = fdt + of_nat ?k"
    unfolding span(1) by (simp add: add.assoc)
  ultimately show ?thesis
    by (simp only: offset_ptr_same [OF value_same_header [OF assms(1)]])
qed

text \<open>The strings.\<close>

lemma memchr_from_same:
  "(\<And>k. k < n \<Longrightarrow> m' (p + k) = m (p + k)) \<Longrightarrow> memchr_from p c n i m' = memchr_from p c n i m"
proof (induction i rule: up_loop_induct [where n = n])
  case (step i)
  then show ?case
    by (cases "i < n") (simp_all add: memchr_from.simps [of p c n i])
qed

lemma bytes_at_same:
  "(\<And>i. i < length s \<Longrightarrow> m' (p + of_nat i) = m (p + of_nat i)) \<Longrightarrow> bytes_at m' p s = bytes_at m p s"
proof (induction s arbitrary: p)
  case (Cons b s)
  have "m' (p + 1 + of_nat i) = m (p + 1 + of_nat i)" if "i < length s" for i
    using Cons.prems [of "Suc i"] that by (simp add: add.assoc)
  from Cons.IH [OF this] Cons.prems [of 0] show ?case by simp
qed simp


lemma value_get_string:
  assumes "value_changed fdt x m m'"
  shows "fdt_get_string m' fdt off = fdt_get_string m fdt off"
    and "fdt_get_string m fdt off = (p, slen) \<Longrightarrow> p \<noteq> 0 \<Longrightarrow> i < unat slen \<Longrightarrow> m' (p + of_nat i) = m (p + of_nat i)"
proof -
  let ?B = "fdt_off_dt_strings m fdt" and ?R = "fdt_size_dt_strings m fdt" and ?T = "fdt_totalsize m fdt"
  have V: "valid_blob m fdt" "17 \<le> fdt_version m fdt"
    "unat (fdt_off_dt_struct m fdt) + unat (fdt_size_dt_struct m fdt) \<le> unat ?B"
    using assms by (simp_all add: value_changed_def)
  have I: "unat ?B + unat ?R \<le> unat ?T" "unat ?T < 2147483648" "fdt_magic m fdt = FDT_MAGIC"
    using V(1) check_header_blocks(2,8) [of m fdt]
    by (auto simp: valid_blob_def fdt_check_header_def FDT_ERR_BADMAGIC_def FDT_ERR_ALIGNMENT_def split: if_splits)
  obtain next_offset :: u32 where x: "unat x + 12 + unat (prop_len m fdt x) \<le> unat (fdt_size_dt_struct m fdt)"
    by (rule value_place [OF assms])
  note fields = same_header_fields [OF value_same_header [OF assms]]
  note checks = checks_same [OF value_same_header [OF assms]]
  let ?s = "fdt + ucast (off + ?B)"
  have same: "m' (?s + k) = m (?s + k)" if "string_limit m fdt off l = Inr n" "k < n" for l n k
  proof -
    have off: "off < ?R" and n: "n \<le> ucast (?R - off)"
      using that(1) I(3) V(2) by (auto simp: string_limit_def not_le split: if_splits)
    have "unat (?R - off) = unat ?R - unat off"
      using off by (simp add: unat_sub order.strict_implies_order)
    then have k: "unat off + unat k < unat ?R"
      using that(2) n off by (simp add: word_less_nat_alt word_le_nat_alt)
    have B: "unat (off + ?B) = unat off + unat ?B"
      using I off by (subst unat_add_32) (simp_all add: word_less_nat_alt)
    have "?s + k = fdt + of_nat (unat (off + ?B) + unat k)"
      by simp
    then have "?s + k = fdt + of_nat (unat off + unat ?B + unat k)"
      unfolding B .
    moreover have "same_at m m' fdt (unat off + unat ?B + unat k)"
      using k I x V(3) by (intro value_same_at [OF assms]) auto
    ultimately show ?thesis by (simp only: same_at_def)
  qed
  have chr: "memchr ?s 0 n m' = memchr ?s 0 n m" if "string_limit m fdt off l = Inr n" for l n
    unfolding memchr_def by (intro memchr_from_same same [OF that])
  show "fdt_get_string m' fdt off = fdt_get_string m fdt off"
    unfolding fdt_get_string_def checks fields Let_def
    by (auto simp: chr split: sum.split)
  assume g: "fdt_get_string m fdt off = (p, slen)" "p \<noteq> 0" "i < unat slen"
  then obtain l n where n: "string_limit m fdt off l = Inr n" "p = ?s" "memchr ?s 0 n m \<noteq> 0"
    "slen = ucast (memchr ?s 0 n m - ?s)"
    by (auto simp: fdt_get_string_def Let_def split: if_splits sum.splits)
  have "memchr ?s 0 n m - ?s < n" by (rule memchr_range [OF n(3)])
  moreover have "i < unat (memchr ?s 0 n m - ?s)"
    using g(3) unfolding n(4) by (rule order.strict_trans2)
      (simp add: unsigned_ucast_eq take_bit_nat_less_eq_self)
  ultimately have "of_nat i < n"
    using unat_lt_64 [of n] by (simp add: word_less_nat_alt unat_of_nat_64)
  with same [OF n(1)] n(2) show "m' (p + of_nat i) = m (p + of_nat i)" by simp
qed

lemma value_prop_named:
  assumes "value_changed fdt x m m'" "(0, n) \<in> (tag_steps m fdt)\<^sup>*" "fst (fdt_next_tag m fdt n) = FDT_PROP"
    and "length name < 4294967296"
  shows "prop_named m' fdt name n = prop_named m fdt name n"
proof -
  let ?off = "fdt32_ld_priv m (fdt_offset_ptr_priv m fdt n + 8)"
  obtain p slen where g: "fdt_get_string m fdt ?off = (p, slen)" by fastforce
  have "bytes_at m' p name = bytes_at m p name" if "p \<noteq> 0" "slen = of_nat (length name)"
    using value_get_string(2) [OF assms(1) g that(1)] that(2) assms(4)
    by (intro bytes_at_same) (simp add: unat_of_nat)
  then show ?thesis
    using value_prop_field [OF assms(1-3), of 8] g
    by (auto simp: prop_named_def fdt_string_eq_priv_def value_get_string(1) [OF assms(1)])
qed

text \<open>
  The nodes are the same, and so are the properties they have and the places of their values.
\<close>

lemma find_cong_set: "(\<And>k. k \<in> set xs \<Longrightarrow> P k = Q k) \<Longrightarrow> find P xs = find Q xs"
  by (induction xs) auto

lemma value_getprop:
  assumes "value_changed fdt x m m'" "node \<in> set (nodes_from m fdt 0)" "length name < 4294967296"
  shows "nodes_from m' fdt 0 = nodes_from m fdt 0"
    and "fdt_getprop m fdt node name = (p, len) \<Longrightarrow> p \<noteq> 0 \<Longrightarrow> fdt_getprop m' fdt node name = (p, len)"
    and "fst (fdt_getprop m' fdt node name) = fst (fdt_getprop m fdt node name)"
proof -
  show nodes: "nodes_from m' fdt 0 = nodes_from m fdt 0"
    by (simp add: nodes_from_def value_tags_from [OF assms(1)])
  note header = value_same_header [OF assms(1)]
  have valid: "valid_blob m fdt" "valid_blob m' fdt"
    using assms(1) same_header_fields [OF header]
    by (simp_all add: value_changed_def valid_blob_def checks_same [OF header])
  have node: "(0, node) \<in> (tag_steps m fdt)\<^sup>*" using assms(2) by (rule node_walk)
  have "fst (fdt_next_tag m fdt node) = FDT_BEGIN_NODE"
    using nodes_from_member [OF assms(2)] by simp
  then have first: "(0, snd (fdt_next_tag m fdt node)) \<in> (tag_steps m fdt)\<^sup>*"
    by (intro walk_step [OF node, of FDT_BEGIN_NODE]) (simp_all add: prod_eq_iff tag_values)
  have props: "node_props m' fdt node = node_props m fdt node"
    by (simp add: node_props_def value_next_tag [OF assms(1) node] value_props_from [OF assms(1) first])
  have member: "(0, k) \<in> (tag_steps m fdt)\<^sup>* \<and> fst (fdt_next_tag m fdt k) = FDT_PROP"
    if "k \<in> set (node_props m fdt node)" for k
    using props_from_walk [OF _ first] that by (simp add: node_props_def)
  have find: "find (prop_named m' fdt name) (node_props m fdt node) =
      find (prop_named m fdt name) (node_props m fdt node)"
    by (intro find_cong_set value_prop_named [OF assms(1) _ _ assms(3)]) (use member in auto)
  have len: "prop_len m' fdt k = prop_len m fdt k" if "k \<in> set (node_props m fdt node)" for k
    using value_prop_field [OF assms(1), of k 4] member [OF that] by (simp add: prop_len_def)
  have new: "\<not> fdt_version m fdt < 16"
    using assms(1) by (simp add: value_changed_def word_less_nat_alt word_le_nat_alt)
  have data: "property_data m' fdt q k = property_data m fdt q k" for q k
    using new by (simp add: property_data_def same_header_fields [OF header])
  obtain e e' where e: "fdt_getprop m fdt node name =
    (case find (prop_named m fdt name) (node_props m fdt node) of
       Some k \<Rightarrow> (property_data m fdt (fdt_offset_ptr_priv m fdt k) k, prop_len m fdt k)
     | None \<Rightarrow> (0, e))" and e': "fdt_getprop m' fdt node name =
    (case find (prop_named m' fdt name) (node_props m' fdt node) of
       Some k \<Rightarrow> (property_data m' fdt (fdt_offset_ptr_priv m' fdt k) k, prop_len m' fdt k)
     | None \<Rightarrow> (0, e'))"
    using getprop_first [OF valid(1) assms(2), of name] getprop_first [OF valid(2), of node name] nodes assms(2)
    by auto
  show "fdt_getprop m fdt node name = (p, len) \<Longrightarrow> p \<noteq> 0 \<Longrightarrow> fdt_getprop m' fdt node name = (p, len)"
    and "fst (fdt_getprop m' fdt node name) = fst (fdt_getprop m fdt node name)"
    using find_member [of _ "node_props m fdt node"] len unfolding e e' props find data
    by (auto simp: offset_ptr_same [OF header] split: option.splits)
qed


section \<open>Setting a value in place\<close>

lemma bytes_at_nth: "bytes_at m p s \<longleftrightarrow> (\<forall>i < length s. m (p + of_nat i) = s ! i)"
proof (induction s arbitrary: p)
  case (Cons b s)
  then show ?case by (simp add: All_less_Suc2 add.assoc)
qed simp

end
