(* ===== verification/Fdt_Overlay.thy ===== *)
theory Fdt_Overlay
  imports Fdt_Rw
begin

text \<open>
  Applying an overlay to a tree (\<^verbatim>\<open>lib/libfdt/fdt_overlay.c\<close>). The base tree at \<open>fdt\<close> and the overlay
  at \<open>fdto\<close> are two blobs of one memory, which do not overlap. Names and values the C code passes on
  by pointer are read into lists of bytes at the call (\<open>string_at\<close>, \<open>data_at\<close>).

  The functions that recurse into subnodes are defined together with their loop over the subnodes;
  the recursion ends because the offsets grow, whatever is written meanwhile.
\<close>

section \<open>Going on to subnodes\<close>

lemma next_subnode_forward: "\<not> offset <s 0 \<Longrightarrow> \<not> next_subnode_loop m fdt offset depth <s 0 \<Longrightarrow>
  unat offset < unat (next_subnode_loop m fdt offset depth)"
proof (induction m fdt offset depth rule: next_subnode_loop.induct)
  case (1 m fdt offset depth)
  obtain r d where r: "fdt_next_node m fdt offset depth = (r, d)"
    by (cases "fdt_next_node m fdt offset depth")
  have step: "unat offset < unat r" if "\<not> r <s 0"
    using fdt_next_node_forward [OF r that "1.prems"(1)] .
  from "1.IH" [OF r [symmetric]] "1.prems" step r show ?case
    by (auto simp: next_subnode_loop.simps [of m fdt offset] split: if_splits
        intro: less_trans)
qed

text \<open>A node has as many steps left as a subnode, and one more; a negative subnode has none.\<close>

definition node_steps :: "u32 \<Rightarrow> nat" where
  "node_steps node = 2 * nodes_left node"

definition child_steps :: "u32 \<Rightarrow> nat" where
  "child_steps child = (if child <s 0 then 0 else Suc (2 * offsets_left child))"

lemma first_subnode_steps: "child_steps (fdt_first_subnode m fdt node) < node_steps node"
proof -
  obtain r d where r: "fdt_next_node m fdt node (Some 0) = (r, d)"
    by (cases "fdt_next_node m fdt node (Some 0)")
  have "0 < nodes_left node"
    using nonneg_iff [of node] by (cases "node <s 0") (simp_all add: nodes_left_def offsets_left_def)
  moreover have "offsets_left r < nodes_left node" if "\<not> r <s 0"
    using nodes_left_next [OF r that] that by (simp add: nodes_left_def)
  ultimately show ?thesis
    using r by (auto simp: child_steps_def node_steps_def fdt_first_subnode_def)
qed

lemma enter_subnode_steps: "\<not> child <s 0 \<Longrightarrow> node_steps child < child_steps child"
  by (simp add: child_steps_def node_steps_def nodes_left_def)

lemma next_subnode_steps: "\<not> child <s 0 \<Longrightarrow> child_steps (fdt_next_subnode m fdt child) < child_steps child"
  using next_subnode_forward [of child m fdt "Some 1"]
    offsets_left_less [of child "fdt_next_subnode m fdt child"]
  by (auto simp: child_steps_def fdt_next_subnode_def)

section \<open>Values in the blob\<close>

definition data_at :: "mem \<Rightarrow> u64 \<Rightarrow> nat \<Rightarrow> u8 list" where
  "data_at m p n = map (\<lambda>i. m (p + of_nat i)) [0..<n]"

section \<open>The target of a fragment\<close>

definition overlay_get_target_phandle :: "mem \<Rightarrow> u64 \<Rightarrow> u32 \<Rightarrow> u32" where
  "overlay_get_target_phandle m fdto fragment =
     (case fdt_getprop m fdto fragment (chars ''target'') of (val, len) \<Rightarrow>
        if val = 0 then 0
        else if len \<noteq> 4 \<or> fdt32_to_cpu (ld32 m val) = - 1 then - 1
        else fdt32_to_cpu (ld32 m val))"

text \<open>The offset or an error, and the target path when there is one.\<close>

definition fdt_overlay_target_offset :: "mem \<Rightarrow> u64 \<Rightarrow> u64 \<Rightarrow> u32 \<Rightarrow> (u32 \<times> u64) option" where
  "fdt_overlay_target_offset m fdt fdto fragment_offset =
     (let phandle = overlay_get_target_phandle m fdto fragment_offset
      in if phandle = - 1 then Some (- FDT_ERR_BADPHANDLE, 0)
         else let (path, path_len) =
                    (if phandle = 0 then fdt_getprop m fdto fragment_offset (chars ''target-path'')
                     else (0, 0))
              in map_option (\<lambda>ret.
                   (if ret <s 0 \<and> path_len = - FDT_ERR_NOTFOUND then - FDT_ERR_BADOVERLAY else ret, path))
                 (if phandle = 0 then
                    (if path \<noteq> 0 then Option.bind (string_at m path) (fdt_path_offset m fdt)
                     else Some path_len)
                  else Some (fdt_node_offset_by_phandle m fdt phandle)))"

section \<open>Moving the overlay's phandles\<close>

definition overlay_phandle_add_offset :: "u64 \<Rightarrow> u32 \<Rightarrow> u8 list \<Rightarrow> u32 \<Rightarrow> mem \<Rightarrow> u32 \<times> mem" where
  "overlay_phandle_add_offset fdt node name delta m =
     (case fdt_getprop_w m fdt node name of (valp, len) \<Rightarrow>
        if valp = 0 then (len, m)
        else if len \<noteq> 4 then (- FDT_ERR_BADPHANDLE, m)
        else let val = fdt32_ld m valp
             in if val + delta < val \<or> val + delta = - 1 then (- FDT_ERR_NOPHANDLES, m)
                else (0, fdt32_st valp (val + delta) m))"

function overlay_adjust_node_phandles :: "u64 \<Rightarrow> u32 \<Rightarrow> u32 \<Rightarrow> mem \<Rightarrow> u32 \<times> mem"
  and adjust_children :: "u64 \<Rightarrow> u32 \<Rightarrow> u32 \<Rightarrow> mem \<Rightarrow> u32 \<times> mem" where
  "overlay_adjust_node_phandles fdto node delta m =
     (case overlay_phandle_add_offset fdto node (chars ''phandle'') delta m of (ret, m) \<Rightarrow>
        if ret \<noteq> 0 \<and> ret \<noteq> - FDT_ERR_NOTFOUND then (ret, m)
        else (case overlay_phandle_add_offset fdto node (chars ''linux,phandle'') delta m of (ret, m) \<Rightarrow>
                if ret \<noteq> 0 \<and> ret \<noteq> - FDT_ERR_NOTFOUND then (ret, m)
                else adjust_children fdto (fdt_first_subnode m fdto node) delta m))"
| "adjust_children fdto child delta m =
     (if child <s 0 then (0, m)
      else (case overlay_adjust_node_phandles fdto child delta m of (ret, m) \<Rightarrow>
              if ret \<noteq> 0 then (ret, m)
              else adjust_children fdto (fdt_next_subnode m fdto child) delta m))"
  by pat_completeness auto
termination
  by (relation "measure (case_sum (\<lambda>(fdto, node, delta, m). node_steps node)
      (\<lambda>(fdto, child, delta, m). child_steps child))")
    (simp_all add: first_subnode_steps enter_subnode_steps next_subnode_steps)

declare overlay_adjust_node_phandles.simps [simp del] adjust_children.simps [simp del]

definition overlay_adjust_local_phandles :: "u64 \<Rightarrow> u32 \<Rightarrow> mem \<Rightarrow> u32 \<times> mem" where
  "overlay_adjust_local_phandles fdto delta m = overlay_adjust_node_phandles fdto 0 delta m"

section \<open>Updating references\<close>

text \<open>
  \<^verbatim>\<open>overlay_update_local_node_references\<close> and \<^verbatim>\<open>overlay_update_node_conflicting_references\<close> walk the
  fixups in the same way and differ in what they do with a reference: \<open>upd\<close> is its new value, if
  there is one. The place of the reference is the fixup's number behind the start of the property,
  whatever the property's length.
\<close>

function update_refs :: "(u32 \<Rightarrow> u32 option) \<Rightarrow> u64 \<Rightarrow> u64 \<Rightarrow> u32 \<Rightarrow> u32 \<Rightarrow> mem \<Rightarrow> mem" where
  "update_refs upd tree_val fixup_val fixup_len i m =
     (if i <s fixup_len then
        let refp = tree_val + ucast (fdt32_ld_priv m (fixup_val + scast i * 4))
        in update_refs upd tree_val fixup_val fixup_len (i + 1)
             (case upd (fdt32_ld m refp) of None \<Rightarrow> m | Some v \<Rightarrow> fdt32_st refp v m)
      else m)"
  by pat_completeness auto
termination
proof (relation "measure (\<lambda>(upd, tree_val, fixup_val, fixup_len, i, m). nat (sint fixup_len - sint i))",
    goal_cases)
  case (2 upd tree_val fixup_val fixup_len i m refp)
  then have "sint i < sint fixup_len" by (simp add: word_sless_alt)
  moreover from this have "sint (i + 1) = sint i + 1"
    using sint_lt [of fixup_len] sint_ge [of i]
    by (simp add: sint_word_ariths signed_take_bit_int_eq_self_iff)
  ultimately show ?case by simp
qed simp

declare update_refs.simps [simp del]

text \<open>One property of the fixups: what the function returns, or \<open>None\<close> to go on.\<close>

definition fixup_property ::
  "(u32 \<Rightarrow> u32 option) \<Rightarrow> u64 \<Rightarrow> u32 \<Rightarrow> u32 \<Rightarrow> mem \<Rightarrow> (u32 option \<times> mem) option" where
  "fixup_property upd fdto tree_node fixup_prop m =
     (case fdt_getprop_by_offset m fdto fixup_prop of (fixup_val, name, fixup_len) \<Rightarrow>
        if fixup_val = 0 then Some (Some fixup_len, m)
        else if (scast fixup_len :: u64) mod 4 \<noteq> 0 then Some (Some (- FDT_ERR_BADOVERLAY), m)
        else let fixup_len = ucast ((scast fixup_len :: u64) div 4)
             in map_option (\<lambda>name.
                  case fdt_getprop_w m fdto tree_node name of (tree_val, tree_len) \<Rightarrow>
                    if tree_val = 0 then
                      (Some (if tree_len = - FDT_ERR_NOTFOUND then - FDT_ERR_BADOVERLAY else tree_len), m)
                    else (None, update_refs upd tree_val fixup_val fixup_len 0 m))
                (string_at m (the name)))"

text \<open>All of them, and what the function returns if it does.\<close>

function fixup_properties ::
  "(u32 \<Rightarrow> u32 option) \<Rightarrow> u64 \<Rightarrow> u32 \<Rightarrow> u32 \<Rightarrow> mem \<Rightarrow> (u32 option \<times> mem) option" where
  "fixup_properties upd fdto tree_node fixup_prop m =
     (if fixup_prop <s 0 then Some (None, m)
      else (case fixup_property upd fdto tree_node fixup_prop m of
              None \<Rightarrow> None
            | Some (Some ret, m) \<Rightarrow> Some (Some ret, m)
            | Some (None, m) \<Rightarrow>
                fixup_properties upd fdto tree_node (fdt_next_property_offset m fdto fixup_prop) m))"
  by pat_completeness auto
termination
  by (relation "measure (\<lambda>(upd, fdto, tree_node, fixup_prop, m). offsets_left fixup_prop)")
    (simp_all add: next_property_left)

declare fixup_properties.simps [simp del]

text \<open>The node of the tree that a fixup node belongs to.\<close>

definition fixup_child :: "mem \<Rightarrow> u64 \<Rightarrow> u32 \<Rightarrow> u32 \<Rightarrow> u32 option" where
  "fixup_child m fdto tree_node child =
     Option.bind (fdt_get_name m fdto child) (\<lambda>(name, namelen).
       Option.bind (string_at m name) (fdt_subnode_offset m fdto tree_node))"

function fixup_node ::
    "(u32 \<Rightarrow> u32 option) \<Rightarrow> u64 \<Rightarrow> u32 \<Rightarrow> u32 \<Rightarrow> mem \<Rightarrow> (u32 \<times> mem) option"
  and fixup_children ::
    "(u32 \<Rightarrow> u32 option) \<Rightarrow> u64 \<Rightarrow> u32 \<Rightarrow> u32 \<Rightarrow> mem \<Rightarrow> (u32 \<times> mem) option" where
  "fixup_node upd fdto tree_node node m =
     (case fixup_properties upd fdto tree_node (fdt_first_property_offset m fdto node) m of
        None \<Rightarrow> None
      | Some (Some ret, m) \<Rightarrow> Some (ret, m)
      | Some (None, m) \<Rightarrow> fixup_children upd fdto tree_node (fdt_first_subnode m fdto node) m)"
| "fixup_children upd fdto tree_node child m =
     (if child <s 0 then Some (0, m)
      else (case fixup_child m fdto tree_node child of
              None \<Rightarrow> None
            | Some tree_child \<Rightarrow>
                if tree_child = - FDT_ERR_NOTFOUND then Some (- FDT_ERR_BADOVERLAY, m)
                else if tree_child <s 0 then Some (tree_child, m)
                else (case fixup_node upd fdto tree_child child m of
                        None \<Rightarrow> None
                      | Some (ret, m) \<Rightarrow>
                          if ret \<noteq> 0 then Some (ret, m)
                          else fixup_children upd fdto tree_node (fdt_next_subnode m fdto child) m)))"
  by pat_completeness auto
termination
  by (relation "measure (case_sum (\<lambda>(upd, fdto, tree_node, node, m). node_steps node)
      (\<lambda>(upd, fdto, tree_node, child, m). child_steps child))")
    (simp_all add: first_subnode_steps enter_subnode_steps next_subnode_steps)

declare fixup_node.simps [simp del] fixup_children.simps [simp del]

definition overlay_update_local_node_references ::
  "u64 \<Rightarrow> u32 \<Rightarrow> u32 \<Rightarrow> u32 \<Rightarrow> mem \<Rightarrow> (u32 \<times> mem) option" where
  "overlay_update_local_node_references fdto tree_node node delta m =
     fixup_node (\<lambda>v. Some (v + delta)) fdto tree_node node m"

definition overlay_update_local_references :: "u64 \<Rightarrow> u32 \<Rightarrow> mem \<Rightarrow> (u32 \<times> mem) option" where
  "overlay_update_local_references fdto delta m =
     Option.bind (fdt_path_offset m fdto (chars ''/__local_fixups__'')) (\<lambda>fixups.
       if fixups <s 0 then Some (if fixups = - FDT_ERR_NOTFOUND then 0 else fixups, m)
       else overlay_update_local_node_references fdto 0 fixups delta m)"

definition overlay_update_node_conflicting_references ::
  "u64 \<Rightarrow> u32 \<Rightarrow> u32 \<Rightarrow> u32 \<Rightarrow> u32 \<Rightarrow> mem \<Rightarrow> (u32 \<times> mem) option" where
  "overlay_update_node_conflicting_references fdto tree_node node fdt_phandle fdto_phandle m =
     fixup_node (\<lambda>v. if v = fdto_phandle then Some fdt_phandle else None) fdto tree_node node m"

definition overlay_update_local_conflicting_references ::
  "u64 \<Rightarrow> u32 \<Rightarrow> u32 \<Rightarrow> mem \<Rightarrow> (u32 \<times> mem) option" where
  "overlay_update_local_conflicting_references fdto fdt_phandle fdto_phandle m =
     Option.bind (fdt_path_offset m fdto (chars ''/__local_fixups__'')) (\<lambda>fixups.
       if fixups = - FDT_ERR_NOTFOUND then Some (0, m)
       else if fixups <s 0 then Some (fixups, m)
       else overlay_update_node_conflicting_references fdto 0 fixups fdt_phandle fdto_phandle m)"

section \<open>Resolving references to the base tree\<close>

text \<open>\<^verbatim>\<open>strtoul\<close> in base 10 with its end pointer, a local variable of the caller.\<close>

definition strtoul_end :: "u64 \<Rightarrow> mem \<Rightarrow> (u64 \<times> u64) option" where
  "strtoul_end nptr m = Option.bind (strtoul_skip nptr m) (\<lambda>nptr. strtoul_digits nptr 10 0 m)"

lemma strtoul_strtoul_end:
  "strtoul nptr endptr 10 m =
   map_option (\<lambda>(result, stop). (result, if endptr \<noteq> 0 then st64 m endptr stop else m)) (strtoul_end nptr m)"
  by (auto simp: strtoul_def strtoul_end_def split: option.splits)

definition overlay_fixup_one_phandle ::
  "u64 \<Rightarrow> u32 \<Rightarrow> u8 list \<Rightarrow> u8 list \<Rightarrow> u32 \<Rightarrow> u32 \<Rightarrow> mem \<Rightarrow> (u32 \<times> mem) option" where
  "overlay_fixup_one_phandle fdto symbols_off path name poffset phandle m =
     (if symbols_off <s 0 then Some (symbols_off, m)
      else map_option (\<lambda>fixup_off.
             if fixup_off = - FDT_ERR_NOTFOUND then (- FDT_ERR_BADOVERLAY, m)
             else if fixup_off <s 0 then (fixup_off, m)
             else fdt_setprop_inplace_namelen_partial fdto fixup_off name poffset (cell_bytes phandle) m)
           (fdt_path_offset_namelen m fdto path))"

text \<open>
  A fixup is a string \<open>path:name:offset\<close>. The result is the error, or the path, the name, the offset
  and the length of the string.
\<close>

definition parse_fixup ::
  "mem \<Rightarrow> u64 \<Rightarrow> u32 \<Rightarrow> (u32 + u8 list \<times> u8 list \<times> u32 \<times> u32) option" where
  "parse_fixup m fixup_str len =
     (let fixup_end = memchr fixup_str 0 (scast len) m
      in if fixup_end = 0 then Some (Inl (- FDT_ERR_BADOVERLAY))
         else let fixup_len = ucast (fixup_end - fixup_str);
                  sep = memchr fixup_str 0x3A (ucast fixup_len) m
              in if sep = 0 \<or> m sep \<noteq> 0x3A then Some (Inl (- FDT_ERR_BADOVERLAY))
                 else let path_len = ucast (sep - fixup_str)
                      in if path_len = fixup_len - 1 then Some (Inl (- FDT_ERR_BADOVERLAY))
                         else let rest = fixup_len - (path_len + 1);
                                  name = sep + 1;
                                  sep = memchr name 0x3A (ucast rest) m
                              in if sep = 0 \<or> m sep \<noteq> 0x3A then Some (Inl (- FDT_ERR_BADOVERLAY))
                                 else let name_len = ucast (sep - name) :: u32
                                      in if name_len = 0 then Some (Inl (- FDT_ERR_BADOVERLAY))
                                         else map_option (\<lambda>(poffset, endptr).
                                                if m endptr \<noteq> 0 \<or> endptr \<le> sep + 1
                                                then Inl (- FDT_ERR_BADOVERLAY)
                                                else Inr (data_at m fixup_str (unat path_len),
                                                       data_at m name (unat name_len), ucast poffset, fixup_len))
                                              (strtoul_end (sep + 1) m))"

text \<open>The bytes of the property that are left, at most those of a positive \<^verbatim>\<open>int\<close> after the first round.\<close>

definition fixup_left :: "u32 \<Rightarrow> nat" where
  "fixup_left len = (if len <s 0 then 2147483648 else unat len)"

lemma parse_fixup_left:
  assumes "parse_fixup m value len = Some (Inr (path, name, poffset, fixup_len))"
    and "0 <s len - (fixup_len + 1)"
  shows "fixup_left (len - (fixup_len + 1)) < fixup_left len"
proof -
  let ?fin = "memchr value 0 (scast len) m"
  have nonzero: "?fin \<noteq> 0" and fixup_len: "fixup_len = ucast (?fin - value)"
    using assms(1) by (auto simp: parse_fixup_def Let_def split: if_splits)
  have nonneg: "\<not> len - (fixup_len + 1) <s 0"
    using assms(2) by (simp add: word_sless_alt)
  then have below: "unat (len - (fixup_len + 1)) < 2147483648"
    by (simp add: nonneg_iff)
  show ?thesis
  proof (cases "len <s 0")
    case True
    with nonneg below show ?thesis by (simp add: fixup_left_def)
  next
    case False
    then have len: "unat len < 2147483648"
      by (simp add: nonneg_iff)
    then have "unat (scast len :: u64) = unat len"
      unfolding scast_nonneg [OF False] by (intro unat_of_nat_64) simp
    then have "unat (?fin - value) < unat len"
      using memchr_range [OF nonzero] by (simp add: word_less_nat_alt)
    moreover from this have "unat fixup_len = unat (?fin - value)"
      unfolding fixup_len using len by (simp add: unsigned_ucast_eq take_bit_nat_eq_self)
    ultimately have "unat fixup_len < unat len" by simp
    then have "unat (fixup_len + 1) = unat fixup_len + 1" "fixup_len + 1 \<le> len"
      using len by (simp_all add: unat_add_32 word_le_nat_alt)
    then show ?thesis
      using False nonneg \<open>unat fixup_len < unat len\<close> by (simp add: fixup_left_def unat_sub)
  qed
qed

function fixup_strings :: "u64 \<Rightarrow> u32 \<Rightarrow> u32 \<Rightarrow> u64 \<Rightarrow> u32 \<Rightarrow> mem \<Rightarrow> (u32 \<times> mem) option" where
  "fixup_strings fdto symbols_off phandle value len m =
     (case parse_fixup m value len of
        None \<Rightarrow> None
      | Some (Inl err) \<Rightarrow> Some (err, m)
      | Some (Inr (path, name, poffset, fixup_len)) \<Rightarrow>
          (case overlay_fixup_one_phandle fdto symbols_off path name poffset phandle m of
             None \<Rightarrow> None
           | Some (ret, m) \<Rightarrow>
               if ret \<noteq> 0 then Some (ret, m)
               else if 0 <s len - (fixup_len + 1) then
                 fixup_strings fdto symbols_off phandle (value + ucast (fixup_len + 1))
                   (len - (fixup_len + 1)) m
               else Some (0, m)))"
  by pat_completeness auto
termination
  by (relation "measure (\<lambda>(fdto, symbols_off, phandle, value, len, m). fixup_left len)")
    (auto intro: parse_fixup_left)

declare fixup_strings.simps [simp del]

definition overlay_fixup_phandle ::
  "u64 \<Rightarrow> u64 \<Rightarrow> u32 \<Rightarrow> u32 \<Rightarrow> mem \<Rightarrow> (u32 \<times> mem) option" where
  "overlay_fixup_phandle fdt fdto symbols_off property m =
     (case fdt_getprop_by_offset m fdto property of (value, label, len) \<Rightarrow>
        if value = 0 then Some (if len = - FDT_ERR_NOTFOUND then - FDT_ERR_INTERNAL else len, m)
        else Option.bind (string_at m (the label)) (\<lambda>label.
          case fdt_getprop m fdt symbols_off label of (symbol_path, prop_len) \<Rightarrow>
            if symbol_path = 0 then Some (prop_len, m)
            else Option.bind (Option.bind (string_at m symbol_path) (fdt_path_offset m fdt)) (\<lambda>symbol_off.
              if symbol_off <s 0 then Some (symbol_off, m)
              else let phandle = fdt_get_phandle m fdt symbol_off
                   in if phandle = 0 then Some (- FDT_ERR_NOTFOUND, m)
                      else fixup_strings fdto symbols_off phandle value len m)))"

function fixup_labels :: "u64 \<Rightarrow> u64 \<Rightarrow> u32 \<Rightarrow> u32 \<Rightarrow> mem \<Rightarrow> (u32 \<times> mem) option" where
  "fixup_labels fdt fdto symbols_off property m =
     (if property <s 0 then Some (0, m)
      else (case overlay_fixup_phandle fdt fdto symbols_off property m of
              None \<Rightarrow> None
            | Some (ret, m) \<Rightarrow>
                if ret \<noteq> 0 then Some (ret, m)
                else fixup_labels fdt fdto symbols_off (fdt_next_property_offset m fdto property) m))"
  by pat_completeness auto
termination
  by (relation "measure (\<lambda>(fdt, fdto, symbols_off, property, m). offsets_left property)")
    (simp_all add: next_property_left)

declare fixup_labels.simps [simp del]

definition overlay_fixup_phandles :: "u64 \<Rightarrow> u64 \<Rightarrow> mem \<Rightarrow> (u32 \<times> mem) option" where
  "overlay_fixup_phandles fdt fdto m =
     Option.bind (fdt_path_offset m fdto (chars ''/__fixups__'')) (\<lambda>fixups_off.
       if fixups_off = - FDT_ERR_NOTFOUND then Some (0, m)
       else if fixups_off <s 0 then Some (fixups_off, m)
       else Option.bind (fdt_path_offset m fdt (chars ''/__symbols__'')) (\<lambda>symbols_off.
         if symbols_off <s 0 \<and> symbols_off \<noteq> - FDT_ERR_NOTFOUND then Some (symbols_off, m)
         else fixup_labels fdt fdto symbols_off (fdt_first_property_offset m fdto fixups_off) m))"

section \<open>Keeping the base tree's phandles\<close>

text \<open>One of the two properties that can hold the phandle: the error, or zero.\<close>

definition replace_phandle :: "u64 \<Rightarrow> u32 \<Rightarrow> u8 list \<Rightarrow> u32 \<Rightarrow> mem \<Rightarrow> u32 \<times> mem" where
  "replace_phandle fdto node name fdt_phandle m =
     (case fdt_getprop m fdto node name of (php, len) \<Rightarrow>
        if php \<noteq> 0 \<and> len = 4 then fdt_setprop_inplace_u32 fdto node name fdt_phandle m else (0, m))"

definition overlay_adjust_local_conflicting_phandle :: "u64 \<Rightarrow> u32 \<Rightarrow> u32 \<Rightarrow> mem \<Rightarrow> u32 \<times> mem" where
  "overlay_adjust_local_conflicting_phandle fdto node fdt_phandle m =
     (case replace_phandle fdto node (chars ''phandle'') fdt_phandle m of (ret, m) \<Rightarrow>
        if ret \<noteq> 0 then (ret, m)
        else replace_phandle fdto node (chars ''linux,phandle'') fdt_phandle m)"

text \<open>The work on the node itself.\<close>

definition keep_phandle :: "u64 \<Rightarrow> u32 \<Rightarrow> u64 \<Rightarrow> u32 \<Rightarrow> mem \<Rightarrow> (u32 \<times> mem) option" where
  "keep_phandle fdt fdtnode fdto fdtonode m =
     (let fdt_phandle = fdt_get_phandle m fdt fdtnode;
          fdto_phandle = fdt_get_phandle m fdto fdtonode
      in if fdt_phandle \<noteq> 0 \<and> fdto_phandle \<noteq> 0 then
           (case overlay_adjust_local_conflicting_phandle fdto fdtonode fdt_phandle m of (ret, m) \<Rightarrow>
              if ret \<noteq> 0 then Some (ret, m)
              else overlay_update_local_conflicting_references fdto fdt_phandle fdto_phandle m)
         else Some (0, m))"

text \<open>The node of the base tree with the name of a subnode of the overlay.\<close>

definition matching_child :: "mem \<Rightarrow> u64 \<Rightarrow> u32 \<Rightarrow> u64 \<Rightarrow> u32 \<Rightarrow> u32 option" where
  "matching_child m fdt fdtnode fdto child =
     Option.bind (fdt_get_name m fdto child) (\<lambda>(name, namelen).
       Option.bind (string_at m name) (fdt_subnode_offset m fdt fdtnode))"

function overlay_prevent_phandle_overwrite_node ::
    "u64 \<Rightarrow> u32 \<Rightarrow> u64 \<Rightarrow> u32 \<Rightarrow> mem \<Rightarrow> (u32 \<times> mem) option"
  and prevent_children :: "u64 \<Rightarrow> u32 \<Rightarrow> u64 \<Rightarrow> u32 \<Rightarrow> mem \<Rightarrow> (u32 \<times> mem) option" where
  "overlay_prevent_phandle_overwrite_node fdt fdtnode fdto fdtonode m =
     (case keep_phandle fdt fdtnode fdto fdtonode m of
        None \<Rightarrow> None
      | Some (ret, m) \<Rightarrow>
          if ret \<noteq> 0 then Some (ret, m)
          else prevent_children fdt fdtnode fdto (fdt_first_subnode m fdto fdtonode) m)"
| "prevent_children fdt fdtnode fdto child m =
     (if child <s 0 then Some (0, m)
      else (case matching_child m fdt fdtnode fdto child of
              None \<Rightarrow> None
            | Some fdtchild \<Rightarrow>
                if fdtchild = - FDT_ERR_NOTFOUND then
                  prevent_children fdt fdtnode fdto (fdt_next_subnode m fdto child) m
                else (case overlay_prevent_phandle_overwrite_node fdt fdtchild fdto child m of
                        None \<Rightarrow> None
                      | Some (ret, m) \<Rightarrow>
                          if ret \<noteq> 0 then Some (ret, m)
                          else prevent_children fdt fdtnode fdto (fdt_next_subnode m fdto child) m)))"
  by pat_completeness auto
termination
  by (relation "measure (case_sum (\<lambda>(fdt, fdtnode, fdto, node, m). node_steps node)
      (\<lambda>(fdt, fdtnode, fdto, child, m). child_steps child))")
    (simp_all add: first_subnode_steps enter_subnode_steps next_subnode_steps)

declare overlay_prevent_phandle_overwrite_node.simps [simp del] prevent_children.simps [simp del]

text \<open>One fragment: nothing to do without an overlay or without a target in the base tree.\<close>

definition prevent_fragment :: "u64 \<Rightarrow> u64 \<Rightarrow> u32 \<Rightarrow> mem \<Rightarrow> (u32 \<times> mem) option" where
  "prevent_fragment fdt fdto fragment m =
     Option.bind (fdt_subnode_offset m fdto fragment (chars ''__overlay__'')) (\<lambda>overlay.
       if overlay = - FDT_ERR_NOTFOUND then Some (0, m)
       else if overlay <s 0 then Some (overlay, m)
       else Option.bind (fdt_overlay_target_offset m fdt fdto fragment) (\<lambda>(target, path).
         if target = - FDT_ERR_NOTFOUND then Some (0, m)
         else if target <s 0 then Some (target, m)
         else overlay_prevent_phandle_overwrite_node fdt target fdto overlay m))"

function each_fragment ::
  "(u32 \<Rightarrow> mem \<Rightarrow> (u32 \<times> mem) option) \<Rightarrow> u64 \<Rightarrow> u32 \<Rightarrow> mem \<Rightarrow> (u32 \<times> mem) option" where
  "each_fragment step fdto fragment m =
     (if fragment <s 0 then Some (0, m)
      else (case step fragment m of
              None \<Rightarrow> None
            | Some (ret, m) \<Rightarrow>
                if ret \<noteq> 0 then Some (ret, m)
                else each_fragment step fdto (fdt_next_subnode m fdto fragment) m))"
  by pat_completeness auto
termination
  by (relation "measure (\<lambda>(step, fdto, fragment, m). child_steps fragment)")
    (simp_all add: next_subnode_steps)

declare each_fragment.simps [simp del]

definition overlay_prevent_phandle_overwrite :: "u64 \<Rightarrow> u64 \<Rightarrow> mem \<Rightarrow> (u32 \<times> mem) option" where
  "overlay_prevent_phandle_overwrite fdt fdto m =
     each_fragment (prevent_fragment fdt fdto) fdto (fdt_first_subnode m fdto 0) m"

section \<open>Merging\<close>

definition apply_property :: "u64 \<Rightarrow> u32 \<Rightarrow> u64 \<Rightarrow> u32 \<Rightarrow> mem \<Rightarrow> (u32 \<times> mem) option" where
  "apply_property fdt target fdto property m =
     (case fdt_getprop_by_offset m fdto property of (prop, name, prop_len) \<Rightarrow>
        if prop_len = - FDT_ERR_NOTFOUND then Some (- FDT_ERR_INTERNAL, m)
        else if prop_len <s 0 then Some (prop_len, m)
        else Option.bind (string_at m (the name)) (\<lambda>name.
               fdt_setprop fdt target name (data_at m prop (unat prop_len)) m))"

function apply_properties :: "u64 \<Rightarrow> u32 \<Rightarrow> u64 \<Rightarrow> u32 \<Rightarrow> mem \<Rightarrow> (u32 \<times> mem) option" where
  "apply_properties fdt target fdto property m =
     (if property <s 0 then Some (0, m)
      else (case apply_property fdt target fdto property m of
              None \<Rightarrow> None
            | Some (ret, m) \<Rightarrow>
                if ret \<noteq> 0 then Some (ret, m)
                else apply_properties fdt target fdto (fdt_next_property_offset m fdto property) m))"
  by pat_completeness auto
termination
  by (relation "measure (\<lambda>(fdt, target, fdto, property, m). offsets_left property)")
    (simp_all add: next_property_left)

declare apply_properties.simps [simp del]

text \<open>The node of the target for a subnode of the overlay, added if it is not there.\<close>

definition add_child :: "u64 \<Rightarrow> u32 \<Rightarrow> u64 \<Rightarrow> u32 \<Rightarrow> mem \<Rightarrow> (u32 \<times> mem) option" where
  "add_child fdt target fdto subnode m =
     Option.bind (fdt_get_name m fdto subnode) (\<lambda>(name, namelen).
       Option.bind (string_at m name) (\<lambda>name.
         Option.bind (fdt_add_subnode fdt target name m) (\<lambda>(nnode, m).
           if nnode = - FDT_ERR_EXISTS then
             map_option (\<lambda>nnode. (if nnode = - FDT_ERR_NOTFOUND then - FDT_ERR_INTERNAL else nnode, m))
               (fdt_subnode_offset m fdt target name)
           else Some (nnode, m))))"

function overlay_apply_node :: "u64 \<Rightarrow> u32 \<Rightarrow> u64 \<Rightarrow> u32 \<Rightarrow> mem \<Rightarrow> (u32 \<times> mem) option"
  and apply_children :: "u64 \<Rightarrow> u32 \<Rightarrow> u64 \<Rightarrow> u32 \<Rightarrow> mem \<Rightarrow> (u32 \<times> mem) option" where
  "overlay_apply_node fdt target fdto node m =
     (case apply_properties fdt target fdto (fdt_first_property_offset m fdto node) m of
        None \<Rightarrow> None
      | Some (ret, m) \<Rightarrow>
          if ret \<noteq> 0 then Some (ret, m)
          else apply_children fdt target fdto (fdt_first_subnode m fdto node) m)"
| "apply_children fdt target fdto subnode m =
     (if subnode <s 0 then Some (0, m)
      else (case add_child fdt target fdto subnode m of
              None \<Rightarrow> None
            | Some (nnode, m) \<Rightarrow>
                if nnode <s 0 then Some (nnode, m)
                else (case overlay_apply_node fdt nnode fdto subnode m of
                        None \<Rightarrow> None
                      | Some (ret, m) \<Rightarrow>
                          if ret \<noteq> 0 then Some (ret, m)
                          else apply_children fdt target fdto (fdt_next_subnode m fdto subnode) m)))"
  by pat_completeness auto
termination
  by (relation "measure (case_sum (\<lambda>(fdt, target, fdto, node, m). node_steps node)
      (\<lambda>(fdt, target, fdto, child, m). child_steps child))")
    (simp_all add: first_subnode_steps enter_subnode_steps next_subnode_steps)

declare overlay_apply_node.simps [simp del] apply_children.simps [simp del]

definition merge_fragment :: "u64 \<Rightarrow> u64 \<Rightarrow> u32 \<Rightarrow> mem \<Rightarrow> (u32 \<times> mem) option" where
  "merge_fragment fdt fdto fragment m =
     Option.bind (fdt_subnode_offset m fdto fragment (chars ''__overlay__'')) (\<lambda>overlay.
       if overlay = - FDT_ERR_NOTFOUND then Some (0, m)
       else if overlay <s 0 then Some (overlay, m)
       else Option.bind (fdt_overlay_target_offset m fdt fdto fragment) (\<lambda>(target, path).
         if target <s 0 then Some (target, m) else overlay_apply_node fdt target fdto overlay m))"

definition overlay_merge :: "u64 \<Rightarrow> u64 \<Rightarrow> mem \<Rightarrow> (u32 \<times> mem) option" where
  "overlay_merge fdt fdto m =
     each_fragment (merge_fragment fdt fdto) fdto (fdt_first_subnode m fdto 0) m"

section \<open>The symbols\<close>

partial_function (option) path_len_loop :: "mem \<Rightarrow> u64 \<Rightarrow> u32 \<Rightarrow> u32 \<Rightarrow> u32 option" where
  "path_len_loop m fdt nodeoffset len =
     (case fdt_get_name m fdt nodeoffset of
        None \<Rightarrow> None
      | Some (name, namelen) \<Rightarrow>
          if name = 0 then Some namelen
          else if namelen = 0 then Some (if len = 0 then len + 1 else len)
          else let nodeoffset = fdt_parent_offset m fdt nodeoffset
               in if nodeoffset <s 0 then Some nodeoffset
                  else path_len_loop m fdt nodeoffset (len + (namelen + 1)))"

definition get_path_len :: "mem \<Rightarrow> u64 \<Rightarrow> u32 \<Rightarrow> u32 option" where
  "get_path_len m fdt nodeoffset =
     (if fdt_ro_probe_priv m fdt <s 0 then Some (fdt_ro_probe_priv m fdt)
      else path_len_loop m fdt nodeoffset 0)"

text \<open>
  What the value of an overlay symbol says: an error, nothing that ends up in the target tree, or
  the name of the fragment and the place and the length of the path below its \<^verbatim>\<open>__overlay__\<close> node.
\<close>

definition symbol_place ::
  "mem \<Rightarrow> u64 \<Rightarrow> u32 \<Rightarrow> (u32 + (u8 list \<times> u64 \<times> u32) option) option" where
  "symbol_place m path path_len =
     (let e = path + scast path_len
      in if path_len <s 1 \<or> memchr path 0 (scast path_len) m \<noteq> path + scast (path_len - 1)
         then Some (Inl (- FDT_ERR_BADVALUE))
         else if m path \<noteq> 0x2F then Some (Inl (- FDT_ERR_BADVALUE))
         else map_option (\<lambda>s.
                if s = 0 then Inr None
                else let frag_name = data_at m (path + 1) (unat (s - path - 1))
                     in if 13 <s e - s \<and> bytes_at m s (chars ''/__overlay__/'')
                        then Inr (Some (frag_name, s + 13, ucast (e - (s + 13) - 1)))
                        else if e - s = 13 \<and> bytes_at m s (chars ''/__overlay__'')
                        then Inr (Some (frag_name, 0, 0))
                        else Inr None)
              (strchr (path + 1) 0x2F m))"

text \<open>
  The target's path is copied, or built in place; the walk does not look at the property's value
  meanwhile.
\<close>

definition put_target_path ::
  "u64 \<Rightarrow> u32 \<Rightarrow> u64 \<Rightarrow> u32 \<Rightarrow> u64 \<Rightarrow> mem \<Rightarrow> (u32 \<times> mem) option" where
  "put_target_path fdt target target_path len buf m =
     (if 1 <s len then
        if target_path = 0 then
          map_option (\<lambda>(ret, bs). (ret, store_bytes buf bs m))
            (fdt_get_path m fdt target (data_at m buf (unat (len + 1))))
        else Some (0, snd (memcpy buf target_path (scast (len + 1)) m))
      else Some (0, m))"

text \<open>What the function returns, or \<open>None\<close> to go on with the next symbol.\<close>

definition write_symbol ::
  "u64 \<Rightarrow> u64 \<Rightarrow> u32 \<Rightarrow> u8 list \<Rightarrow> u32 \<Rightarrow> u32 \<Rightarrow> u64 \<Rightarrow> u32 \<Rightarrow> u64 \<Rightarrow> u32 \<Rightarrow> mem \<Rightarrow>
   (u32 option \<times> mem) option" where
  "write_symbol fdt fdto root_sym name fragment target target_path len rel_path rel_path_len m =
     Option.bind (fdt_setprop_placeholder fdt root_sym name
         (len + (if 1 <s len then 1 else 0) + rel_path_len + 1) m) (\<lambda>(ret, p, m).
       if ret <s 0 then Some (Some ret, m)
       else Option.bind (if target_path = 0 then fdt_overlay_target_offset m fdt fdto fragment
                         else Some (target, target_path)) (\<lambda>(target, target_path).
         if target <s 0 then Some (Some target, m)
         else let buf = the p
              in map_option (\<lambda>(ret, m).
                   if ret <s 0 then (Some ret, m)
                   else let len = (if 1 <s len then len else len - 1);
                            m = m(buf + scast len := 0x2F);
                            m = snd (memcpy (buf + scast len + 1) rel_path (scast rel_path_len) m)
                        in (None, m(buf + scast (len + 1 + rel_path_len) := 0)))
                 (put_target_path fdt target target_path len buf m)))"

definition symbol_property :: "u64 \<Rightarrow> u64 \<Rightarrow> u32 \<Rightarrow> u32 \<Rightarrow> mem \<Rightarrow> (u32 option \<times> mem) option" where
  "symbol_property fdt fdto root_sym prop m =
     (case fdt_getprop_by_offset m fdto prop of (path, name, path_len) \<Rightarrow>
        if path = 0 then Some (Some path_len, m)
        else (case symbol_place m path path_len of
                None \<Rightarrow> None
              | Some (Inl err) \<Rightarrow> Some (Some err, m)
              | Some (Inr None) \<Rightarrow> Some (None, m)
              | Some (Inr (Some (frag_name, rel_path, rel_path_len))) \<Rightarrow>
                  Option.bind (fdt_subnode_offset_namelen m fdto 0 frag_name) (\<lambda>fragment.
                    if fragment <s 0 then Some (Some (- FDT_ERR_BADOVERLAY), m)
                    else Option.bind (fdt_subnode_offset m fdto fragment (chars ''__overlay__'')) (\<lambda>ret.
                      if ret <s 0 then Some (Some (- FDT_ERR_BADOVERLAY), m)
                      else Option.bind (fdt_overlay_target_offset m fdt fdto fragment)
                        (\<lambda>(target, target_path).
                          if target <s 0 then Some (Some target, m)
                          else Option.bind (if target_path = 0 then get_path_len m fdt target
                                            else map_option ucast (strlen target_path m)) (\<lambda>len.
                            if target_path = 0 \<and> len <s 0 then Some (Some len, m)
                            else Option.bind (string_at m (the name)) (\<lambda>name.
                              write_symbol fdt fdto root_sym name fragment target target_path len
                                rel_path rel_path_len m)))))))"

function symbol_properties :: "u64 \<Rightarrow> u64 \<Rightarrow> u32 \<Rightarrow> u32 \<Rightarrow> mem \<Rightarrow> (u32 \<times> mem) option" where
  "symbol_properties fdt fdto root_sym prop m =
     (if prop <s 0 then Some (0, m)
      else (case symbol_property fdt fdto root_sym prop m of
              None \<Rightarrow> None
            | Some (Some ret, m) \<Rightarrow> Some (ret, m)
            | Some (None, m) \<Rightarrow>
                symbol_properties fdt fdto root_sym (fdt_next_property_offset m fdto prop) m))"
  by pat_completeness auto
termination
  by (relation "measure (\<lambda>(fdt, fdto, root_sym, prop, m). offsets_left prop)")
    (simp_all add: next_property_left)

declare symbol_properties.simps [simp del]

definition overlay_symbol_update :: "u64 \<Rightarrow> u64 \<Rightarrow> mem \<Rightarrow> (u32 \<times> mem) option" where
  "overlay_symbol_update fdt fdto m =
     Option.bind (fdt_subnode_offset m fdto 0 (chars ''__symbols__'')) (\<lambda>ov_sym.
       if ov_sym <s 0 then Some (0, m)
       else Option.bind (fdt_subnode_offset m fdt 0 (chars ''__symbols__'')) (\<lambda>root_sym.
         Option.bind (if root_sym = - FDT_ERR_NOTFOUND then fdt_add_subnode fdt 0 (chars ''__symbols__'') m
                      else Some (root_sym, m)) (\<lambda>(root_sym, m).
           if root_sym <s 0 then Some (root_sym, m)
           else symbol_properties fdt fdto root_sym (fdt_first_property_offset m fdto ov_sym) m)))"

section \<open>The application\<close>

text \<open>\<^verbatim>\<open>if (ret) goto err;\<close> between two steps.\<close>

definition and_then ::
  "(u32 \<times> mem) option \<Rightarrow> (mem \<Rightarrow> (u32 \<times> mem) option) \<Rightarrow> (u32 \<times> mem) option" where
  "and_then r f = Option.bind r (\<lambda>(ret, m). if ret \<noteq> 0 then Some (ret, m) else f m)"

definition overlay_steps :: "u64 \<Rightarrow> u64 \<Rightarrow> mem \<Rightarrow> (u32 \<times> mem) option" where
  "overlay_steps fdt fdto m =
     (case fdt_find_max_phandle m fdt of (ret, delta) \<Rightarrow>
        and_then (and_then (and_then (and_then (and_then (and_then
          (Some (ret, m))
          (\<lambda>m. Some (overlay_adjust_local_phandles fdto (the delta) m)))
          (overlay_update_local_references fdto (the delta)))
          (overlay_fixup_phandles fdt fdto))
          (overlay_prevent_phandle_overwrite fdt fdto))
          (overlay_merge fdt fdto))
          (overlay_symbol_update fdt fdto))"

definition fdt_overlay_apply :: "u64 \<Rightarrow> u64 \<Rightarrow> mem \<Rightarrow> (u32 \<times> mem) option" where
  "fdt_overlay_apply fdt fdto m =
     (if fdt_ro_probe_priv m fdt <s 0 then Some (fdt_ro_probe_priv m fdt, m)
      else if fdt_ro_probe_priv m fdto <s 0 then Some (fdt_ro_probe_priv m fdto, m)
      else map_option (\<lambda>(ret, m).
             if ret \<noteq> 0 then (ret, fdt_set_magic fdt (- 1) (fdt_set_magic fdto (- 1) m))
             else (0, fdt_set_magic fdto (- 1) m))
           (overlay_steps fdt fdto m))"

end
