(* ===== verification/Blob.thy ===== *)
theory Blob
  imports Fdt_Correct
begin

text \<open>
  A concrete device tree blob, at which the properties of the library and of the kernel's searches
  are applied: a root with a memory node and a serial port.
\<close>

section \<open>A blob as big-endian cells\<close>

definition cells_mem :: "u64 \<Rightarrow> u32 list \<Rightarrow> mem" where
  "cells_mem base cells a =
     (let i = uint (a - base)
      in if i < 4 * int (length cells)
         then ucast (drop_bit (8 * (3 - nat (i mod 4))) (cells ! nat (i div 4))) else 0)"

definition small_cells :: "u32 list" where
  "small_cells =
     [0xd00dfeed, 219, 56, 192, 40, 17, 16, 0, 27, 136,
      0, 0, 0, 0,
      1, 0,
        1, 0x6d656d6f, 0x72790000,
          3, 7, 0, 0x6d656d6f, 0x72790000,
          3, 12, 12, 0, 0x80000000, 0x08000000,
        2,
        1, 0x75617274, 0,
          3, 8, 16, 0x6e733136, 0x35353000,
          3, 12, 12, 0, 0x10000000, 0x100,
        2,
      2,
      9,
      0x64657669, 0x63655f74, 0x79706500, 0x72656700, 0x636f6d70, 0x61746962, 0x6c650000]"

definition small_blob :: mem where
  "small_blob = cells_mem 0x1000 small_cells"

text \<open>An aligned element is one of the cells.\<close>

lemma cells_byte:
  assumes "uint (p - base) = 4 * int k" "k < length cells" "4 * int (length cells) < 2 ^ 32"
    and "x = 0 \<or> x = 1 \<or> x = 2 \<or> x = 3"
  shows "cells_mem base cells (p + word_of_int x) = ucast (drop_bit (8 * (3 - nat x)) (cells ! k))"
proof -
  have "uint (p - base) + x < 2 ^ 64" using assms by auto
  then have "uint ((p - base) + word_of_int x) = uint (p - base) + x"
    using assms(4) by (subst uint_add_lem [THEN iffD1]) auto
  moreover have shift: "p + word_of_int x - base = (p - base) + word_of_int x" by simp
  ultimately have "uint (p + word_of_int x - base) = 4 * int k + x"
    unfolding shift assms(1) by simp
  moreover have "4 * int k + x < 4 * int (length cells)" using assms(2,4) by auto
  moreover have "(4 * int k + x) div 4 = int k" "(4 * int k + x) mod 4 = x" using assms(4) by auto
  ultimately show ?thesis by (simp add: cells_mem_def Let_def)
qed

lemma cells_word:
  assumes "uint (p - base) = 4 * int k" "k < length cells" "4 * int (length cells) < 2 ^ 32"
  shows "fdt32_ld_priv (cells_mem base cells) p = cells ! k"
  using cells_byte [OF assms, of 0] cells_byte [OF assms, of 1] cells_byte [OF assms, of 2]
    cells_byte [OF assms, of 3] join_bytes_32 [of "cells ! k"]
  by (simp add: native_32 fdt32_ld_def)

lemma small_word:
  assumes "p = 0x1000 + 4 * of_nat k" "k < 55"
  shows "fdt32_ld_priv small_blob p = small_cells ! k"
proof -
  have "unat (4 * of_nat k :: u64) = 4 * k"
    using assms(2) by (simp add: unat_word_ariths unat_of_nat_64)
  then have "uint (4 * of_nat k :: u64) = 4 * int k" by (metis of_nat_mult of_nat_numeral uint_nat)
  with assms show ?thesis
    unfolding small_blob_def by (intro cells_word) (simp_all add: small_cells_def)
qed

section \<open>Its header, tags and strings\<close>

lemma small_header:
  "fdt_totalsize small_blob 0x1000 = 219" "fdt_off_dt_struct small_blob 0x1000 = 56"
  "fdt_version small_blob 0x1000 = 17" "fdt_magic small_blob 0x1000 = FDT_MAGIC"
  "fdt_ro_probe_priv small_blob 0x1000 = 219" "fdt_check_header small_blob 0x1000 = 0"
  by code_simp+

lemma small_valid: "valid_blob small_blob 0x1000"
  by (simp add: valid_blob_def small_header)

lemma small_ptr:
  "fdt_offset_ptr small_blob 0x1000 offset len =
     (if unat offset < 2 ^ 31 \<and> unat offset + unat len \<le> 136 then 0x1038 + of_nat (unat offset) else 0)"
proof -
  have "fdt_size_dt_struct small_blob 0x1000 = 136" by code_simp
  then show ?thesis by (auto simp: offset_ptr_exact small_header)
qed

lemma small_bytes:
  "small_blob 0x103C = 0"
  "small_blob 0x1044 = 0x6D" "small_blob 0x1045 = 0x65" "small_blob 0x1046 = 0x6D"
  "small_blob 0x1047 = 0x6F" "small_blob 0x1048 = 0x72" "small_blob 0x1049 = 0x79" "small_blob 0x104A = 0"
  "small_blob 0x1080 = 0x75" "small_blob 0x1081 = 0x61" "small_blob 0x1082 = 0x72" "small_blob 0x1083 = 0x74"
  "small_blob 0x1084 = 0"
  by (simp_all add: small_blob_def cells_mem_def small_cells_def)

lemma small_words:
  "fdt32_ld_priv small_blob 0x1038 = 1"
  "fdt32_ld_priv small_blob 0x1040 = 1"
  "fdt32_ld_priv small_blob 0x104C = 3"
  "fdt32_ld_priv small_blob 0x1050 = 7"
  "fdt32_ld_priv small_blob 0x1054 = 0"
  "fdt32_ld_priv small_blob 0x1060 = 3"
  "fdt32_ld_priv small_blob 0x1064 = 12"
  "fdt32_ld_priv small_blob 0x1068 = 12"
  "fdt32_ld_priv small_blob 0x1078 = 2"
  "fdt32_ld_priv small_blob 0x107C = 1"
  "fdt32_ld_priv small_blob 0x1088 = 3"
  "fdt32_ld_priv small_blob 0x108C = 8"
  "fdt32_ld_priv small_blob 0x1090 = 16"
  "fdt32_ld_priv small_blob 0x109C = 3"
  "fdt32_ld_priv small_blob 0x10A0 = 12"
  "fdt32_ld_priv small_blob 0x10A4 = 12"
  "fdt32_ld_priv small_blob 0x10B4 = 2"
  "fdt32_ld_priv small_blob 0x10B8 = 2"
  "fdt32_ld_priv small_blob 0x10BC = 9"
  by (simp_all add: small_cells_def
    small_word [of _ 14] small_word [of _ 16] small_word [of _ 19] small_word [of _ 20]
    small_word [of _ 21] small_word [of _ 24] small_word [of _ 25] small_word [of _ 26]
    small_word [of _ 30] small_word [of _ 31] small_word [of _ 34] small_word [of _ 35]
    small_word [of _ 36] small_word [of _ 39] small_word [of _ 40] small_word [of _ 41]
    small_word [of _ 45] small_word [of _ 46] small_word [of _ 47])

lemma small_tags:
  "fdt_next_tag small_blob 0x1000 0 = (FDT_BEGIN_NODE, 8)"
  "fdt_next_tag small_blob 0x1000 8 = (FDT_BEGIN_NODE, 20)"
  "fdt_next_tag small_blob 0x1000 20 = (FDT_PROP, 40)"
  "fdt_next_tag small_blob 0x1000 40 = (FDT_PROP, 64)"
  "fdt_next_tag small_blob 0x1000 64 = (FDT_END_NODE, 68)"
  "fdt_next_tag small_blob 0x1000 68 = (FDT_BEGIN_NODE, 80)"
  "fdt_next_tag small_blob 0x1000 80 = (FDT_PROP, 100)"
  "fdt_next_tag small_blob 0x1000 100 = (FDT_PROP, 124)"
  "fdt_next_tag small_blob 0x1000 124 = (FDT_END_NODE, 128)"
  "fdt_next_tag small_blob 0x1000 128 = (FDT_END_NODE, 132)"
  "fdt_next_tag small_blob 0x1000 132 = (FDT_END, 136)"
  by (simp_all add: fdt_next_tag_def finish_tag_def prop_stop_def FDT_TAGALIGN_def FDT_TAGSIZE_def
      Let_def small_ptr small_words small_bytes small_header tag_values INT_MAX_def
      skip_name.simps [of small_blob])

lemma small_nodes: "nodes_from small_blob 0x1000 0 = [0, 8, 68]"
  by (simp add: nodes_from_tag [OF small_tags(1)] nodes_from_tag [OF small_tags(2)]
      nodes_from_tag [OF small_tags(3)] nodes_from_tag [OF small_tags(4)]
      nodes_from_tag [OF small_tags(5)] nodes_from_tag [OF small_tags(6)]
      nodes_from_tag [OF small_tags(7)] nodes_from_tag [OF small_tags(8)]
      nodes_from_tag [OF small_tags(9)] nodes_from_tag [OF small_tags(10)]
      nodes_from_tag [OF small_tags(11)] tag_values)

lemma small_props:
  "node_props small_blob 0x1000 0 = []" "node_props small_blob 0x1000 8 = [20, 40]"
  "node_props small_blob 0x1000 68 = [80, 100]"
  by (simp_all add: node_props_def small_tags props_from.simps [of small_blob] tag_values)

lemma small_strings:
  "fdt_get_string small_blob 0x1000 0 = (0x10C0, 11)" "fdt_get_string small_blob 0x1000 12 = (0x10CC, 3)"
  "fdt_get_string small_blob 0x1000 16 = (0x10D0, 10)"
  by code_simp+

lemma small_prop_ptrs:
  "fdt_offset_ptr_priv small_blob 0x1000 20 = 0x104C" "fdt_offset_ptr_priv small_blob 0x1000 40 = 0x1060"
  "fdt_offset_ptr_priv small_blob 0x1000 80 = 0x1088" "fdt_offset_ptr_priv small_blob 0x1000 100 = 0x109C"
  by (simp_all add: fdt_offset_ptr_priv_def small_header)

lemma small_prop_lens:
  "prop_len small_blob 0x1000 20 = 7" "prop_len small_blob 0x1000 40 = 12"
  "prop_len small_blob 0x1000 80 = 8" "prop_len small_blob 0x1000 100 = 12"
  by (simp_all add: prop_len_def small_prop_ptrs small_words)

lemma small_names:
  "bytes_at small_blob 0x10C0 (chars ''device_type'')" "bytes_at small_blob 0x10CC (chars ''reg'')"
  "bytes_at small_blob 0x10D0 (chars ''compatible'')"
  by code_simp+

lemma small_named:
  "prop_named small_blob 0x1000 (chars ''device_type'') 20"
  "\<not> prop_named small_blob 0x1000 (chars ''reg'') 20" "prop_named small_blob 0x1000 (chars ''reg'') 40"
  "prop_named small_blob 0x1000 (chars ''compatible'') 80"
  "\<not> prop_named small_blob 0x1000 (chars ''device_type'') 80"
  "\<not> prop_named small_blob 0x1000 (chars ''device_type'') 100"
  "\<not> prop_named small_blob 0x1000 (chars ''reg'') 80" "prop_named small_blob 0x1000 (chars ''reg'') 100"
  "\<not> prop_named small_blob 0x1000 (chars ''compatible'') 20"
  "\<not> prop_named small_blob 0x1000 (chars ''compatible'') 40"
  using small_names
  by (simp_all add: prop_named_def fdt_string_eq_priv_def small_prop_ptrs small_words small_strings chars_def)

end
