(* ===== verification/Paging.thy ===== *)
theory Paging
  imports Allocator
begin

text \<open>
  Sv39 page tables (\<^verbatim>\<open>src/kernel/Paging.cpp\<close>, \<^verbatim>\<open>include/kernel/Paging.hpp\<close>,
  \<^verbatim>\<open>include/utility/AddressMapping.hpp\<close>): the page-table entry format, creating and zeroing
  tables, mapping a page or a range, and looking a virtual address up.

  The source has each of map, map-range and query twice, for the time before paging is on (tables
  are dereferenced at their physical address) and after it (through the direct map). The two
  copies differ in the pointer conversion only, so the body is written once over \<open>ptr\<close> (the
  conversion, \<open>phys_to_ptr_early\<close> or \<open>phys_to_virt\<close>) and \<open>tr\<close> (what the processor does to an
  address the kernel dereferences: nothing before paging is on, the MMU's translation after).
  Each copy of the source is an instance.
\<close>

section \<open>Address mapping\<close>

definition KERNEL_DIRECT_MAP_BASE :: u64 where
  "KERNEL_DIRECT_MAP_BASE = 0xFFFFFFC000000000"

definition phys_to_virt :: "u64 \<Rightarrow> u64" where
  "phys_to_virt physical_address = physical_address + KERNEL_DIRECT_MAP_BASE"

definition virt_to_phys :: "u64 \<Rightarrow> u64" where
  "virt_to_phys virtual_address = virtual_address - KERNEL_DIRECT_MAP_BASE"

definition phys_to_virt_ptr :: "u64 \<Rightarrow> u64" where
  "phys_to_virt_ptr physical_address = phys_to_virt physical_address"

definition phys_to_ptr_early :: "u64 \<Rightarrow> u64" where
  "phys_to_ptr_early physical_address = physical_address"

section \<open>Page-table entries\<close>

abbreviation PAGE_SIZE :: u64 where "PAGE_SIZE \<equiv> 4096"

abbreviation PAGE_TABLE_ENTRIES :: u64 where "PAGE_TABLE_ENTRIES \<equiv> 512"

definition PTE_V :: u64 where "PTE_V = push_bit 0 1"
definition PTE_R :: u64 where "PTE_R = push_bit 1 1"
definition PTE_W :: u64 where "PTE_W = push_bit 2 1"
definition PTE_X :: u64 where "PTE_X = push_bit 3 1"
definition PTE_U :: u64 where "PTE_U = push_bit 4 1"
definition PTE_G :: u64 where "PTE_G = push_bit 5 1"
definition PTE_A :: u64 where "PTE_A = push_bit 6 1"
definition PTE_D :: u64 where "PTE_D = push_bit 7 1"

lemmas pte_consts = PTE_V_def PTE_R_def PTE_W_def PTE_X_def PTE_U_def PTE_G_def PTE_A_def PTE_D_def

definition sv39_vpn2 :: "u64 \<Rightarrow> u64" where
  "sv39_vpn2 virtual_address = drop_bit 30 virtual_address AND 0x1FF"

definition sv39_vpn1 :: "u64 \<Rightarrow> u64" where
  "sv39_vpn1 virtual_address = drop_bit 21 virtual_address AND 0x1FF"

definition sv39_vpn0 :: "u64 \<Rightarrow> u64" where
  "sv39_vpn0 virtual_address = drop_bit 12 virtual_address AND 0x1FF"

definition pte_from_phys_addr :: "u64 \<Rightarrow> u64 \<Rightarrow> u64" where
  "pte_from_phys_addr physical_address flags =
     (let ppn = drop_bit 12 physical_address in push_bit 10 ppn OR flags)"

definition phys_addr_from_pte :: "u64 \<Rightarrow> u64" where
  "phys_addr_from_pte pte =
     (let ppn = drop_bit 10 pte AND 0xFFFFFFFFFFF in push_bit 12 ppn)"

definition pte_is_valid :: "u64 \<Rightarrow> bool" where
  "pte_is_valid pte \<longleftrightarrow> pte AND PTE_V \<noteq> 0"

definition pte_is_leaf :: "u64 \<Rightarrow> bool" where
  "pte_is_leaf pte \<longleftrightarrow> pte AND (PTE_R OR PTE_W OR PTE_X) \<noteq> 0"

section \<open>Tables\<close>

text \<open>
  \<open>table->entries[i]\<close> is the eight bytes at \<open>table + 8 * i\<close>. The zeroing loop runs \<open>i\<close> up to the
  512 entries.
\<close>

function paging_zero_from :: "(u64 \<Rightarrow> u64) \<Rightarrow> u64 \<Rightarrow> u64 \<Rightarrow> mem \<Rightarrow> mem" where
  "paging_zero_from tr table i m =
     (if i < PAGE_TABLE_ENTRIES
      then paging_zero_from tr table (i + 1) (st64 m (tr (table + 8 * i)) 0)
      else m)"
  by pat_completeness auto
termination
  by (relation "measure (\<lambda>(tr, table, i, m). 512 - unat i)")
    (auto simp: word_less_nat_alt unat_simps)

declare paging_zero_from.simps [simp del]

definition paging_zero_table :: "(u64 \<Rightarrow> u64) \<Rightarrow> u64 \<Rightarrow> mem \<Rightarrow> mem" where
  "paging_zero_table tr table m = paging_zero_from tr table 0 m"

definition paging_create_root_table ::
  "physical_page_allocator \<Rightarrow> mem \<Rightarrow> u64 \<times> physical_page_allocator \<times> mem" where
  "paging_create_root_table allocator m =
     (case physical_alloc_page allocator of (root_phys, allocator) \<Rightarrow>
        if root_phys = 0 then (0, allocator, m)
        else let root = phys_to_ptr_early root_phys;
                 m = paging_zero_table (\<lambda>a. a) root m
             in (root, allocator, m))"

section \<open>Mapping a page\<close>

text \<open>
  The step from a table to the next level, which \<^verbatim>\<open>paging_map\<close> makes for levels 2 and 1: an
  invalid entry gets a fresh zeroed table, a leaf refuses, anything else is followed. \<open>None\<close> is
  the early \<^verbatim>\<open>return false\<close>; memory and allocator keep what was done before it.
\<close>

definition paging_descend ::
  "(u64 \<Rightarrow> u64) \<Rightarrow> (u64 \<Rightarrow> u64) \<Rightarrow> u64 \<Rightarrow> physical_page_allocator \<Rightarrow> mem \<Rightarrow>
   u64 option \<times> physical_page_allocator \<times> mem" where
  "paging_descend ptr tr entry_ref allocator m =
     (let l_entry = ld64 m (tr entry_ref)
      in if \<not> pte_is_valid l_entry then
           (case physical_alloc_page allocator of (new_page_phys, allocator) \<Rightarrow>
              if new_page_phys = 0 then (None, allocator, m)
              else let level = ptr new_page_phys;
                       m = paging_zero_table tr level m;
                       m = st64 m (tr entry_ref) (pte_from_phys_addr new_page_phys PTE_V)
                   in (Some level, allocator, m))
         else if pte_is_leaf l_entry then (None, allocator, m)
         else (Some (ptr (phys_addr_from_pte l_entry)), allocator, m))"

definition paging_map_with ::
  "(u64 \<Rightarrow> u64) \<Rightarrow> (u64 \<Rightarrow> u64) \<Rightarrow> u64 \<Rightarrow> u64 \<Rightarrow> u64 \<Rightarrow> u64 \<Rightarrow>
   physical_page_allocator \<Rightarrow> mem \<Rightarrow> bool \<times> physical_page_allocator \<times> mem" where
  "paging_map_with ptr tr root virtual_address physical_address flags allocator m =
     (if root = 0 then (False, allocator, m)
      else if virtual_address AND (PAGE_SIZE - 1) \<noteq> 0 then (False, allocator, m)
      else if physical_address AND (PAGE_SIZE - 1) \<noteq> 0 then (False, allocator, m)
      else let vpn2 = sv39_vpn2 virtual_address;
               vpn1 = sv39_vpn1 virtual_address;
               vpn0 = sv39_vpn0 virtual_address
           in case paging_descend ptr tr (root + 8 * vpn2) allocator m of
                (None, allocator, m) \<Rightarrow> (False, allocator, m)
              | (Some level1, allocator, m) \<Rightarrow>
                  (case paging_descend ptr tr (level1 + 8 * vpn1) allocator m of
                     (None, allocator, m) \<Rightarrow> (False, allocator, m)
                   | (Some level0, allocator, m) \<Rightarrow>
                       let l0_entry = tr (level0 + 8 * vpn0)
                       in if pte_is_valid (ld64 m l0_entry) then (False, allocator, m)
                          else (True, allocator,
                                st64 m l0_entry (pte_from_phys_addr physical_address
                                  (flags OR PTE_V OR PTE_A OR PTE_D)))))"

definition paging_map_early ::
  "u64 \<Rightarrow> u64 \<Rightarrow> u64 \<Rightarrow> u64 \<Rightarrow> physical_page_allocator \<Rightarrow> mem \<Rightarrow>
   bool \<times> physical_page_allocator \<times> mem" where
  "paging_map_early = paging_map_with phys_to_ptr_early (\<lambda>a. a)"

definition paging_map ::
  "(u64 \<Rightarrow> u64) \<Rightarrow> u64 \<Rightarrow> u64 \<Rightarrow> u64 \<Rightarrow> u64 \<Rightarrow> physical_page_allocator \<Rightarrow> mem \<Rightarrow>
   bool \<times> physical_page_allocator \<times> mem" where
  "paging_map tr = paging_map_with phys_to_virt_ptr tr"

section \<open>Mapping a range\<close>

text \<open>
  The loop runs while \<open>mapped < page_aligned_size\<close>. The rounded size is at most
  \<open>2 ^ 64 - 4096\<close>, so \<open>mapped\<close> never wraps and the loop ends.
\<close>

function paging_map_range_from ::
  "(u64 \<Rightarrow> u64) \<Rightarrow> (u64 \<Rightarrow> u64) \<Rightarrow> u64 \<Rightarrow> u64 \<Rightarrow> u64 \<Rightarrow> u64 \<Rightarrow> u64 \<Rightarrow> u64 \<Rightarrow>
   physical_page_allocator \<Rightarrow> mem \<Rightarrow> bool \<times> physical_page_allocator \<times> mem" where
  "paging_map_range_from ptr tr root virtual_start physical_start sz flags mapped allocator m =
     (let page_aligned_size = align_up sz PAGE_SIZE
      in if mapped < page_aligned_size then
           (case paging_map_with ptr tr root (virtual_start + mapped) (physical_start + mapped)
                   flags allocator m of
              (False, allocator, m) \<Rightarrow> (False, allocator, m)
            | (True, allocator, m) \<Rightarrow>
                paging_map_range_from ptr tr root virtual_start physical_start sz flags
                  (mapped + PAGE_SIZE) allocator m)
         else (True, allocator, m))"
  by pat_completeness auto
termination
proof (relation "measure (\<lambda>(ptr, tr, root, vs, ps, sz, flags, mapped, al, m).
    2 ^ 64 - unat mapped)", goal_cases)
  case (2 ptr tr root vs ps sz flags mapped al m x)
  then have "unat mapped < 2 ^ 64 - 4096"
    using align_up_le_max [of sz] by (simp add: word_less_nat_alt)
  then show ?case
    by (simp add: unat_simps)
qed simp

declare paging_map_range_from.simps [simp del]

definition paging_map_range_with ::
  "(u64 \<Rightarrow> u64) \<Rightarrow> (u64 \<Rightarrow> u64) \<Rightarrow> u64 \<Rightarrow> u64 \<Rightarrow> u64 \<Rightarrow> u64 \<Rightarrow> u64 \<Rightarrow>
   physical_page_allocator \<Rightarrow> mem \<Rightarrow> bool \<times> physical_page_allocator \<times> mem" where
  "paging_map_range_with ptr tr root virtual_start physical_start sz flags allocator m =
     (if sz = 0 then (True, allocator, m)
      else paging_map_range_from ptr tr root virtual_start physical_start sz flags 0 allocator m)"

definition paging_map_range_early ::
  "u64 \<Rightarrow> u64 \<Rightarrow> u64 \<Rightarrow> u64 \<Rightarrow> u64 \<Rightarrow> physical_page_allocator \<Rightarrow> mem \<Rightarrow>
   bool \<times> physical_page_allocator \<times> mem" where
  "paging_map_range_early = paging_map_range_with phys_to_ptr_early (\<lambda>a. a)"

definition paging_map_range ::
  "(u64 \<Rightarrow> u64) \<Rightarrow> u64 \<Rightarrow> u64 \<Rightarrow> u64 \<Rightarrow> u64 \<Rightarrow> u64 \<Rightarrow> physical_page_allocator \<Rightarrow> mem \<Rightarrow>
   bool \<times> physical_page_allocator \<times> mem" where
  "paging_map_range tr = paging_map_range_with phys_to_virt_ptr tr"

section \<open>Looking an address up\<close>

text \<open>The result is the returned flag and the two out parameters \<open>pa\<close> and \<open>flags\<close>.\<close>

definition paging_query_with ::
  "(u64 \<Rightarrow> u64) \<Rightarrow> (u64 \<Rightarrow> u64) \<Rightarrow> u64 \<Rightarrow> u64 \<Rightarrow> mem \<Rightarrow> bool \<times> u64 \<times> u64" where
  "paging_query_with ptr tr root va m =
     (if root = 0 then (False, 0, 0)
      else let vpn2 = sv39_vpn2 va;
               vpn1 = sv39_vpn1 va;
               vpn0 = sv39_vpn0 va;
               page_offset = va AND (PAGE_SIZE - 1);
               l2_entry = ld64 m (tr (root + 8 * vpn2))
           in if \<not> pte_is_valid l2_entry \<or> pte_is_leaf l2_entry then (False, 0, 0)
              else let level1 = ptr (phys_addr_from_pte l2_entry);
                       l1_entry = ld64 m (tr (level1 + 8 * vpn1))
                   in if \<not> pte_is_valid l1_entry \<or> pte_is_leaf l1_entry then (False, 0, 0)
                      else let level0 = ptr (phys_addr_from_pte l1_entry);
                               l0_entry = ld64 m (tr (level0 + 8 * vpn0))
                           in if \<not> pte_is_valid l0_entry \<or> \<not> pte_is_leaf l0_entry
                              then (False, 0, 0)
                              else let phys_page = phys_addr_from_pte l0_entry
                                   in (True, phys_page + page_offset, l0_entry AND 0x3FF))"

definition paging_query_early :: "u64 \<Rightarrow> u64 \<Rightarrow> mem \<Rightarrow> bool \<times> u64 \<times> u64" where
  "paging_query_early = paging_query_with phys_to_ptr_early (\<lambda>a. a)"

definition paging_query :: "(u64 \<Rightarrow> u64) \<Rightarrow> u64 \<Rightarrow> u64 \<Rightarrow> mem \<Rightarrow> bool \<times> u64 \<times> u64" where
  "paging_query tr = paging_query_with phys_to_virt_ptr tr"

end
