(* ===== verification/Paging_Tables.thy ===== *)
theory Paging_Tables
  imports Paging
begin

text \<open>
  Facts about page-table entries and single tables: the entry format round trip, which slots of
  which tables a store touches, and the effect of the zeroing loop. Everything is at physical
  addresses; \<open>Paging_View\<close> carries it over to tables reached through the direct map.
\<close>

section \<open>Entry format\<close>

lemma pte_flag_values:
  "PTE_V = 1" "PTE_R = 2" "PTE_W = 4" "PTE_X = 8" "PTE_U = 16" "PTE_G = 32" "PTE_A = 64"
  "PTE_D = 128"
  by (simp_all add: pte_consts)

lemma pte_is_valid_bit: "pte_is_valid e \<longleftrightarrow> bit e 0"
  by (simp add: pte_is_valid_def pte_flag_values and_one_eq bit_0 odd_iff_mod_2_eq_one)

lemma and_10_mask: "(e AND 0x3FF) AND 14 = e AND (14 :: u64)" "(e AND 0x3FF) AND 1 = e AND (1 :: u64)"
  by (simp_all add: and.assoc)

lemma and_mask_bits:
  "(x :: u64) AND 0x1FF = take_bit 9 x"
  "(x :: u64) AND 0x3FF = take_bit 10 x"
  "(x :: u64) AND 0xFFFFFFFFFFF = take_bit 44 x"
  by (simp_all add: take_bit_eq_mask mask_eq_exp_minus_1)

lemma pte_low_bits:
  assumes "unat flags < 1024"
  shows "pte_from_phys_addr pa flags AND 0x3FF = flags"
proof -
  have "take_bit 10 flags = flags"
    using assms by (simp add: u64_eq_iff unat_take_bit_64)
  moreover have "take_bit 10 (push_bit 10 (drop_bit 12 pa) :: u64) = 0"
    by (simp add: take_bit_push_bit)
  ultimately show ?thesis
    unfolding pte_from_phys_addr_def Let_def and_mask_bits take_bit_or by simp
qed

lemma pte_high_bits:
  assumes "unat pa < 2 ^ 56" "unat flags < 1024"
  shows "drop_bit 54 (pte_from_phys_addr pa flags) = 0"
proof -
  have fl: "drop_bit 54 flags = 0" and pa: "drop_bit 12 pa = take_bit 44 (drop_bit 12 pa)"
    using assms by (simp_all only: u64_eq_iff unat_drop_bit_64 unat_take_bit_64) simp_all
  have "drop_bit 54 (push_bit 10 (take_bit 44 x)) = 0" for x :: u64
    by (simp add: bit_eq_iff bit_simps)
  then show ?thesis
    unfolding pte_from_phys_addr_def Let_def drop_bit_or fl by (subst pa) simp
qed

lemma pte_valid_iff:
  "unat flags < 1024 \<Longrightarrow> pte_is_valid (pte_from_phys_addr pa flags) \<longleftrightarrow> pte_is_valid flags"
  by (metis and_10_mask(2) pte_flag_values(1) pte_is_valid_def pte_low_bits)

lemma pte_leaf_iff:
  "unat flags < 1024 \<Longrightarrow> pte_is_leaf (pte_from_phys_addr pa flags) \<longleftrightarrow> pte_is_leaf flags"
  using and_10_mask(1) [of "pte_from_phys_addr pa flags"]
  by (simp add: pte_is_leaf_def pte_flag_values pte_low_bits)

lemma pte_roundtrip:
  assumes "page_aligned pa" and "unat pa < 2 ^ 56" and "unat flags < 1024"
  shows "phys_addr_from_pte (pte_from_phys_addr pa flags) = pa"
proof -
  have pa: "take_bit 44 (drop_bit 12 pa) = drop_bit 12 pa"
    using assms(2) by (simp only: u64_eq_iff unat_take_bit_64 unat_drop_bit_64) simp
  have fl: "drop_bit 10 flags = 0"
    using assms(3) by (simp only: u64_eq_iff unat_drop_bit_64) simp
  have "drop_bit 10 (push_bit 10 (drop_bit 12 pa)) = drop_bit 12 pa"
    using assms(2) unat_lt_64 [of pa]
    by (simp only: u64_eq_iff unat_drop_bit_64 push_bit_eq_mult)
      (simp add: unat_word_ariths unat_drop_bit_64)
  then have "phys_addr_from_pte (pte_from_phys_addr pa flags) = push_bit 12 (drop_bit 12 pa)"
    unfolding phys_addr_from_pte_def pte_from_phys_addr_def Let_def and_mask_bits drop_bit_or
    by (simp add: fl pa)
  with assms(1) show ?thesis
    by simp
qed

lemma phys_addr_from_pte_aligned [simp]: "page_aligned (phys_addr_from_pte e)"
  by (simp add: phys_addr_from_pte_def page_aligned_def Let_def take_bit_push_bit)

lemma pte_pointer:
  "pte_is_valid (pte_from_phys_addr pa PTE_V)" "\<not> pte_is_leaf (pte_from_phys_addr pa PTE_V)"
  by (simp_all add: pte_valid_iff pte_leaf_iff pte_flag_values)
    (simp_all add: pte_is_valid_def pte_is_leaf_def pte_flag_values)

lemma pte_zero [simp]: "\<not> pte_is_valid 0"
  by (simp add: pte_is_valid_def)

section \<open>Indices\<close>

lemma unat_vpn:
  "unat (sv39_vpn2 va) = unat va div 2 ^ 30 mod 512"
  "unat (sv39_vpn1 va) = unat va div 2 ^ 21 mod 512"
  "unat (sv39_vpn0 va) = unat va div 2 ^ 12 mod 512"
  unfolding sv39_vpn2_def sv39_vpn1_def sv39_vpn0_def and_mask_bits unat_take_bit_64 unat_drop_bit_64
  by simp_all

lemma vpn_lt [simp]:
  "sv39_vpn2 va < 512" "sv39_vpn1 va < 512" "sv39_vpn0 va < 512"
  by (simp_all add: word_less_nat_alt unat_vpn)

text \<open>The three indices determine the page of an address, up to the bits above bit 38.\<close>

lemma vpn_page:
  "unat (sv39_vpn2 va) * 2 ^ 18 + unat (sv39_vpn1 va) * 2 ^ 9 + unat (sv39_vpn0 va) =
   page_of va mod 2 ^ 27"
proof -
  have "page_of va mod 2 ^ 27 = page_of va div 2 ^ 18 mod 512 * 2 ^ 18 + page_of va mod 2 ^ 18"
    using mod_mult2_eq [of "page_of va" "2 ^ 18" 512] by simp
  also have "page_of va mod 2 ^ 18 = page_of va div 2 ^ 9 mod 512 * 2 ^ 9 + page_of va mod 512"
    using mod_mult2_eq [of "page_of va" "2 ^ 9" 512] by simp
  finally show ?thesis
    by (simp add: unat_vpn page_of_def div_mult2_eq [symmetric])
qed

lemma base512_digits:
  fixes a b c :: nat
  assumes "b < 512" and "c < 512"
  shows "(a * 2 ^ 18 + b * 2 ^ 9 + c) div 2 ^ 18 = a"
    and "(a * 2 ^ 18 + b * 2 ^ 9 + c) div 2 ^ 9 mod 512 = b"
    and "(a * 2 ^ 18 + b * 2 ^ 9 + c) mod 512 = c"
proof -
  have "(a * 2 ^ 18 + b * 2 ^ 9 + c) div 2 ^ 9 = a * 512 + b"
    using assms by (simp add: div_add1_eq)
  moreover have "(a * 512 + b) div 512 = a"
    using assms by simp
  ultimately show "(a * 2 ^ 18 + b * 2 ^ 9 + c) div 2 ^ 9 mod 512 = b"
    "(a * 2 ^ 18 + b * 2 ^ 9 + c) div 2 ^ 18 = a"
    using assms div_mult2_eq [of "a * 2 ^ 18 + b * 2 ^ 9 + c" "2 ^ 9" "2 ^ 9"] by simp_all
  show "(a * 2 ^ 18 + b * 2 ^ 9 + c) mod 512 = c"
    using assms by (simp add: mod_add_eq [symmetric])
qed

lemma vpn_eq_iff:
  "sv39_vpn2 a = sv39_vpn2 b \<and> sv39_vpn1 a = sv39_vpn1 b \<and> sv39_vpn0 a = sv39_vpn0 b \<longleftrightarrow>
   page_of a mod 2 ^ 27 = page_of b mod 2 ^ 27" (is "?l \<longleftrightarrow> ?r")
proof
  show ?r if ?l
    using that vpn_page [of a] vpn_page [of b] by simp
  have lt: "unat (sv39_vpn1 v) < 512" "unat (sv39_vpn0 v) < 512" for v
    by (simp_all add: unat_vpn)
  show ?l if ?r
    using that base512_digits [OF lt, of "unat (sv39_vpn2 a)" a a]
      base512_digits [OF lt, of "unat (sv39_vpn2 b)" b b]
    unfolding vpn_page u64_eq_iff by simp
qed

section \<open>Slots of tables\<close>

text \<open>\<open>entry m t i\<close> is \<open>entries[i]\<close> of the table at the physical address \<open>t\<close>.\<close>

definition entry :: "mem \<Rightarrow> u64 \<Rightarrow> u64 \<Rightarrow> u64" where
  "entry m t i = ld64 m (t + 8 * i)"

lemma unat_slot:
  assumes "page_aligned t" and "i < 512"
  shows "unat (t + 8 * i) = unat t + 8 * unat i"
proof -
  have i: "unat i < 512"
    using assms(2) by (simp add: word_less_nat_alt)
  then have "of_nat (8 * unat i) = 8 * i"
    by simp
  with i assms(1) show ?thesis
    using unat_page_add [of t "8 * unat i"] by simp
qed

lemma slot_aligned8: "page_aligned t \<Longrightarrow> i < 512 \<Longrightarrow> 8 dvd unat (t + 8 * i)"
  by (auto simp: unat_slot page_aligned_iff intro!: dvd_add elim: dvd_trans [rotated])

lemma page_of_slot: "page_aligned t \<Longrightarrow> i < 512 \<Longrightarrow> page_of (t + 8 * i) = page_of t"
  by (auto simp: unat_slot page_of_def page_aligned_iff word_less_nat_alt)

lemma slot_inj:
  assumes "page_aligned t" "page_aligned u" "i < 512" "j < 512"
  shows "t + 8 * i = u + 8 * j \<longleftrightarrow> t = u \<and> i = j"
proof
  assume eq: "t + 8 * i = u + 8 * j"
  with assms have "page_of t = page_of u"
    using page_of_slot [of t i] page_of_slot [of u j] by simp
  with assms have "t = u" by (simp add: page_of_inj)
  moreover from this assms eq have "8 * unat i = 8 * unat j"
    using unat_slot [of u i] unat_slot [of u j] by simp
  ultimately show "t = u \<and> i = j"
    by (simp add: u64_eq_iff)
qed simp

lemma entry_st64 [mem_simps]:
  assumes "page_aligned t" "page_aligned u" "i < 512" "j < 512"
  shows "entry (st64 m (t + 8 * i) v) u j = (if u = t \<and> j = i then v else entry m u j)"
  using assms slot_inj [of t u i j]
  by (auto simp: entry_def ld64_st64_aligned_other slot_aligned8)

lemma st64_slot_outside:
  assumes "page_aligned t" "i < 512" and "page_of a \<noteq> page_of t"
  shows "st64 m (t + 8 * i) v a = m a"
proof (rule st64_aligned_other)
  show "8 dvd unat (t + 8 * i)"
    using assms by (simp add: slot_aligned8)
  have "page_of a \<noteq> page_of (t + 8 * i)"
    using assms by (simp add: page_of_slot)
  then show "unat a div 8 \<noteq> unat (t + 8 * i) div 8"
    unfolding page_of_def using div_mult2_eq [of "unat a" 8 512]
      div_mult2_eq [of "unat (t + 8 * i)" 8 512] by auto
qed

section \<open>Zeroing\<close>

lemma st64_zero_bytes:
  assumes "8 dvd unat a"
  shows "st64 m a 0 b = (if unat b div 8 = unat a div 8 then 0 else m b)"
proof (cases "unat b div 8 = unat a div 8")
  case True
  then have "unat b = unat a + unat b mod 8"
    using assms div_mult_mod_eq [of "unat b" 8] by (auto simp: dvd_def)
  with assms have "b = a + of_nat (unat b mod 8)"
    by (simp add: u64_eq_iff unat_add_aligned8)
  moreover have "st64 m a 0 (a + of_nat k) = 0" if "k < 8" for k
    using that by (auto simp: st64_def numeral_eq_Suc less_Suc_eq)
  ultimately show ?thesis
    using True by (metis mod_less_divisor zero_less_numeral)
next
  case False
  with assms show ?thesis by (simp add: st64_aligned_other)
qed

lemma div8_page: "(n :: nat) div 8 = 512 * (n div 4096) + n mod 4096 div 8"
proof -
  have "n mod 4096 div 8 = n div 8 mod 512"
    using mod_mult2_eq [of n 8 512] by simp
  moreover have "n div 4096 = n div 8 div 512"
    using div_mult2_eq [of n 8 512] by simp
  ultimately show ?thesis
    by (simp only: mult_div_mod_eq)
qed

lemma digits_512:
  assumes "512 * a + x = 512 * b + y" and "x < 512" and "y < (512 :: nat)"
  shows "a = b \<and> x = y"
proof
  have "(512 * a + x) div 512 = a" "(512 * b + y) div 512 = b"
    using assms(2,3) by simp_all
  with assms(1) show "a = b" by simp
  with assms(1) show "x = y" by simp
qed

lemma paging_zero_from_bytes:
  assumes "page_aligned t" and "i \<le> 512"
  shows "paging_zero_from (\<lambda>a. a) t i m b =
    (if page_of b = page_of t \<and> unat i \<le> unat b mod 4096 div 8 then 0 else m b)"
  using assms(2)
proof (induction "512 - unat i" arbitrary: i m)
  case 0
  then have "i = 512"
    by (simp add: u64_eq_iff word_le_nat_alt)
  moreover have "unat b mod 4096 div 8 < 512"
    by (simp add: less_mult_imp_div_less)
  ultimately show ?case
    by (simp add: paging_zero_from.simps not_le)
next
  case (Suc k)
  from Suc.hyps(2) have lt: "i < 512" and ui: "unat (i + 1) = unat i + 1"
    by (simp_all add: word_less_nat_alt unat_simps)
  have slot: "unat b div 8 = unat (t + 8 * i) div 8 \<longleftrightarrow>
      page_of b = page_of t \<and> unat b mod 4096 div 8 = unat i" (is "?l \<longleftrightarrow> ?r")
  proof -
    obtain q where q: "unat t = 4096 * q"
      using assms(1) by (auto simp: page_aligned_iff)
    have i: "unat i < 512"
      using lt by (simp add: word_less_nat_alt)
    have "unat (t + 8 * i) div 8 = 512 * q + unat i"
      using assms(1) lt q by (simp add: unat_slot)
    moreover have "unat b div 8 = 512 * page_of b + unat b mod 4096 div 8"
      unfolding page_of_def by (rule div8_page)
    moreover have "unat b mod 4096 div 8 < 512" by (simp add: less_mult_imp_div_less)
    moreover have "page_of t = q"
      using q by (simp add: page_of_def)
    ultimately show ?thesis
      using i digits_512 [of "page_of b" "unat b mod 4096 div 8" q "unat i"] by auto
  qed
  have "paging_zero_from (\<lambda>a. a) t i m b = paging_zero_from (\<lambda>a. a) t (i + 1) (st64 m (t + 8 * i) 0) b"
    using lt by (subst paging_zero_from.simps) simp
  also have "\<dots> = (if page_of b = page_of t \<and> unat i + 1 \<le> unat b mod 4096 div 8 then 0
      else st64 m (t + 8 * i) 0 b)"
    using Suc.hyps lt ui by (subst Suc.hyps(1)) (auto simp: word_le_nat_alt word_less_nat_alt)
  also have "\<dots> = (if page_of b = page_of t \<and> unat i \<le> unat b mod 4096 div 8 then 0 else m b)"
    using slot assms(1) lt by (auto simp: st64_zero_bytes slot_aligned8)
  finally show ?case .
qed

lemma paging_zero_table_bytes:
  "page_aligned t \<Longrightarrow>
     paging_zero_table (\<lambda>a. a) t m b = (if page_of b = page_of t then 0 else m b)"
  by (simp add: paging_zero_table_def paging_zero_from_bytes)

lemma entry_zero_table [mem_simps]:
  assumes "page_aligned t" "page_aligned u" "j < 512"
  shows "entry (paging_zero_table (\<lambda>a. a) t m) u j = (if u = t then 0 else entry m u j)"
proof -
  have pg: "page_of (u + 8 * j + of_nat k) = page_of u" if "k < 8" for k
  proof -
    have "unat (u + 8 * j + of_nat k) = unat (u + 8 * j) + k"
      using that assms by (intro unat_add_aligned8 slot_aligned8)
    then have "unat (u + 8 * j + of_nat k) = unat u + (8 * unat j + k)"
      using assms by (simp add: unat_slot)
    moreover have "8 * unat j + k < 4096"
      using that assms(3) by (simp add: word_less_nat_alt)
    ultimately show ?thesis
      using assms(2) by (auto simp: page_of_def page_aligned_iff)
  qed
  show ?thesis
  proof (cases "u = t")
    case True
    with assms pg show ?thesis
      by (auto simp: entry_def paging_zero_table_bytes intro!: ld64_zero)
  next
    case False
    with assms have "page_of u \<noteq> page_of t"
      by (auto dest: page_of_inj)
    with False assms pg show ?thesis
      by (auto simp: entry_def paging_zero_table_bytes intro!: ld64_cong)
  qed
qed

end
