(* ===== verification/Paging_Correct.thy ===== *)
theory Paging_Correct
  imports Paging_Tables
begin

text \<open>
  Correctness of mapping at physical addresses. \<open>pt_lookup\<close> reads a tree of tables as a partial
  function from virtual addresses to entries; \<open>pt_inv\<close> says the tables form a tree of pages the
  allocator has given out, by a labelling of each table with the indices that lead to it. Mapping a
  page is then one update of the partial function, and nothing else changes.
\<close>

section \<open>The abstract mapping\<close>

definition follow :: "mem \<Rightarrow> u64 \<Rightarrow> u64 \<Rightarrow> u64 option" where
  "follow m t i =
     (if pte_is_valid (entry m t i) \<and> \<not> pte_is_leaf (entry m t i)
      then Some (phys_addr_from_pte (entry m t i)) else None)"

definition pt_lookup :: "mem \<Rightarrow> u64 \<Rightarrow> u64 \<Rightarrow> u64 option" where
  "pt_lookup m r va =
     (case follow m r (sv39_vpn2 va) of
        None \<Rightarrow> None
      | Some t1 \<Rightarrow>
          (case follow m t1 (sv39_vpn1 va) of
             None \<Rightarrow> None
           | Some t0 \<Rightarrow>
               if pte_is_valid (entry m t0 (sv39_vpn0 va))
               then Some (entry m t0 (sv39_vpn0 va)) else None))"

text \<open>The virtual page of an address: Sv39 ignores what is above bit 38.\<close>

definition vpage :: "u64 \<Rightarrow> nat" where
  "vpage va = page_of va mod 2 ^ 27"

definition spec_map :: "(u64 \<Rightarrow> u64 option) \<Rightarrow> u64 \<Rightarrow> u64 \<Rightarrow> (u64 \<Rightarrow> u64 option)" where
  "spec_map f va e = (\<lambda>va'. if vpage va' = vpage va then Some e else f va')"

lemma vpage_eq_iff:
  "vpage a = vpage b \<longleftrightarrow>
     sv39_vpn2 a = sv39_vpn2 b \<and> sv39_vpn1 a = sv39_vpn1 b \<and> sv39_vpn0 a = sv39_vpn0 b"
  by (simp add: vpage_def vpn_eq_iff)

section \<open>The invariant\<close>

definition table_ok ::
  "(u64 \<rightharpoonup> u64 list) \<Rightarrow> nat \<Rightarrow> physical_page_allocator \<Rightarrow> mem \<Rightarrow> u64 \<Rightarrow> u64 list \<Rightarrow> bool" where
  "table_ok lab lo al m t p \<longleftrightarrow>
     page_aligned t \<and> lo \<le> unat t \<and> unat t + 4096 \<le> unat (al_current al) \<and> length p \<le> 2 \<and>
     (length p < 2 \<longrightarrow> (\<forall>i < 512. pte_is_valid (entry m t i) \<longrightarrow>
        \<not> pte_is_leaf (entry m t i) \<and> drop_bit 54 (entry m t i) = 0 \<and>
        lab (phys_addr_from_pte (entry m t i)) = Some (p @ [i])))"

definition pt_inv ::
  "(u64 \<rightharpoonup> u64 list) \<Rightarrow> nat \<Rightarrow> physical_page_allocator \<Rightarrow> mem \<Rightarrow> u64 \<Rightarrow> bool" where
  "pt_inv lab lo al m r \<longleftrightarrow>
     allocator_ok al \<and> 0 < lo \<and> lab r = Some [] \<and>
     (\<forall>t p. lab t = Some p \<longrightarrow> table_ok lab lo al m t p)"

text \<open>
  What any sequence of these operations may do to the rest: new tables come from fresh pages, and
  only bytes of tables are written.
\<close>

definition pt_ext ::
  "(u64 \<rightharpoonup> u64 list) \<Rightarrow> physical_page_allocator \<Rightarrow> mem \<Rightarrow>
   (u64 \<rightharpoonup> u64 list) \<Rightarrow> physical_page_allocator \<Rightarrow> mem \<Rightarrow> bool" where
  "pt_ext lab al m lab' al' m' \<longleftrightarrow>
     lab \<subseteq>\<^sub>m lab' \<and> al_end al' = al_end al \<and> unat (al_current al) \<le> unat (al_current al') \<and>
     (\<forall>t. lab' t \<noteq> None \<longrightarrow> lab t \<noteq> None \<or> unat (al_current al) \<le> unat t) \<and>
     (\<forall>a. (\<forall>t. lab' t \<noteq> None \<longrightarrow> page_of a \<noteq> page_of t) \<longrightarrow> m' a = m a)"

lemma pt_ext_refl [simp]: "pt_ext lab al m lab al m"
  by (simp add: pt_ext_def)

lemma pt_ext_trans [trans]:
  assumes "pt_ext lab al m lab' al' m'" and "pt_ext lab' al' m' lab'' al'' m''"
  shows "pt_ext lab al m lab'' al'' m''"
proof -
  have sub: "lab' t \<noteq> None \<Longrightarrow> lab'' t \<noteq> None" for t
    using assms(2) by (auto simp: pt_ext_def map_le_def dom_def)
  show ?thesis
    unfolding pt_ext_def
  proof (intro conjI allI impI)
    show "lab \<subseteq>\<^sub>m lab''"
      using assms by (auto simp: pt_ext_def intro: map_le_trans)
    show "m'' a = m a" if "\<forall>t. lab'' t \<noteq> None \<longrightarrow> page_of a \<noteq> page_of t" for a
      using that assms sub by (metis pt_ext_def)
    show "lab t \<noteq> None \<or> unat (al_current al) \<le> unat t" if "lab'' t \<noteq> None" for t
      using that assms unfolding pt_ext_def by (meson le_trans)
  qed (use assms in \<open>auto simp: pt_ext_def\<close>)
qed

lemma pt_ext_lab: "pt_ext lab al m lab' al' m' \<Longrightarrow> lab t = Some p \<Longrightarrow> lab' t = Some p"
  by (auto simp: pt_ext_def map_le_def dom_def)

lemma pt_inv_table: "pt_inv lab lo al m r \<Longrightarrow> lab t = Some p \<Longrightarrow> table_ok lab lo al m t p"
  by (simp add: pt_inv_def)

lemma pt_inv_root: "pt_inv lab lo al m r \<Longrightarrow> lab r = Some []"
  by (simp add: pt_inv_def)

lemma pt_inv_aligned: "pt_inv lab lo al m r \<Longrightarrow> lab t = Some p \<Longrightarrow> page_aligned t"
  using pt_inv_table table_ok_def by blast

lemma pt_inv_root_nonnull: "pt_inv lab lo al m r \<Longrightarrow> r \<noteq> 0"
  unfolding pt_inv_def table_ok_def by fastforce

lemma pt_inv_below:
  "pt_inv lab lo al m r \<Longrightarrow> lab t = Some p \<Longrightarrow> unat t + 4096 \<le> unat (al_current al)"
  using pt_inv_table table_ok_def by blast

lemma pt_inv_fresh: "pt_inv lab lo al m r \<Longrightarrow> lab (al_current al) = None"
  by (cases "lab (al_current al)") (auto dest: pt_inv_below)

lemma follow_label:
  assumes "pt_inv lab lo al m r" "lab t = Some p" "length p < 2" "i < 512" "follow m t i = Some u"
  shows "lab u = Some (p @ [i])"
  using assms pt_inv_table [OF assms(1,2)]
  by (auto simp: follow_def table_ok_def split: if_splits)

text \<open>Inner tables hold no leaves, so an entry there is followed exactly when it is valid.\<close>

lemma follow_None:
  assumes "pt_inv lab lo al m r" "lab t = Some p" "length p < 2" "i < 512"
  shows "follow m t i = None \<longleftrightarrow> \<not> pte_is_valid (entry m t i)"
  using assms pt_inv_table [OF assms(1,2)] by (auto simp: follow_def table_ok_def)

section \<open>Linking a fresh table\<close>

definition link_table :: "mem \<Rightarrow> u64 \<Rightarrow> u64 \<Rightarrow> u64 \<Rightarrow> mem" where
  "link_table m t i n =
     st64 (paging_zero_table (\<lambda>a. a) n m) (t + 8 * i) (pte_from_phys_addr n PTE_V)"

lemma entry_link_table:
  assumes "page_aligned t" "page_aligned n" "page_aligned u" "i < 512" "j < 512"
  shows "entry (link_table m t i n) u j =
    (if u = t \<and> j = i then pte_from_phys_addr n PTE_V else if u = n then 0 else entry m u j)"
  using assms by (simp add: link_table_def mem_simps)

lemma pte_pointer_addr:
  "page_aligned n \<Longrightarrow> unat n < 2 ^ 56 \<Longrightarrow> phys_addr_from_pte (pte_from_phys_addr n PTE_V) = n"
  by (simp add: pte_roundtrip pte_flag_values)

lemma pte_pointer_high: "unat n < 2 ^ 56 \<Longrightarrow> drop_bit 54 (pte_from_phys_addr n PTE_V) = 0"
  by (simp add: pte_high_bits pte_flag_values)

lemma follow_link_table:
  assumes "page_aligned t" "page_aligned n" "page_aligned u" "i < 512" "j < 512" "unat n < 2 ^ 56"
  shows "follow (link_table m t i n) u j =
    (if u = t \<and> j = i then Some n else if u = n then None else follow m u j)"
  using assms
  by (auto simp: follow_def entry_link_table pte_pointer pte_pointer_addr)

lemma link_table_outside:
  assumes "page_aligned t" "page_aligned n" "i < 512"
    and "page_of a \<noteq> page_of t" "page_of a \<noteq> page_of n"
  shows "link_table m t i n a = m a"
  using assms by (simp add: link_table_def st64_slot_outside paging_zero_table_bytes)

lemma paging_descend_cases:
  assumes inv: "pt_inv lab lo al m r" and t: "lab t = Some p" "length p < 2" and i: "i < 512"
  obtains
    (full) "paging_descend (\<lambda>a. a) (\<lambda>a. a) (t + 8 * i) al m = (None, al, m)"
      and "follow m t i = None" and "unat (al_end al) < unat (al_current al) + 4096"
  | (old) u where "paging_descend (\<lambda>a. a) (\<lambda>a. a) (t + 8 * i) al m = (Some u, al, m)"
      and "follow m t i = Some u"
  | (new) "paging_descend (\<lambda>a. a) (\<lambda>a. a) (t + 8 * i) al m =
        (Some (al_current al), al\<lparr>al_current := al_current al + 4096\<rparr>,
         link_table m t i (al_current al))"
      and "follow m t i = None" and "unat (al_current al) + 4096 \<le> unat (al_end al)"
proof -
  have ok: "allocator_ok al" and nz: "al_current al \<noteq> 0"
    using inv by (auto simp: pt_inv_def allocator_ok_def)
  show ?thesis
  proof (cases "pte_is_valid (entry m t i)")
    case True
    moreover have "\<not> pte_is_leaf (entry m t i)"
      using True i t pt_inv_table [OF inv t(1)] by (auto simp: table_ok_def)
    ultimately show ?thesis
      by (intro old [of "phys_addr_from_pte (entry m t i)"])
        (simp_all add: paging_descend_def entry_def follow_def Let_def)
  next
    case False
    show ?thesis
    proof (cases "unat (al_current al) + 4096 \<le> unat (al_end al)")
      case True
      with False nz show ?thesis
        by (intro new) (simp_all add: paging_descend_def entry_def follow_def Let_def
            physical_alloc_page_eq [OF ok] link_table_def)
    next
      case nospace: False
      with False show ?thesis
        by (intro full) (simp_all add: paging_descend_def entry_def follow_def Let_def
            physical_alloc_page_eq [OF ok])
    qed
  qed
qed

lemma allocator_ok_advance:
  assumes "allocator_ok al" "unat (al_current al) + 4096 \<le> unat (al_end al)"
  shows "allocator_ok (al\<lparr>al_current := al_current al + 4096\<rparr>)"
    and "unat (al_current al + 4096) = unat (al_current al) + 4096"
  using assms pages.alloc_ok [OF assms(1)]
  by (auto simp: physical_alloc_page_eq unat_simps allocator_ok_def)

text \<open>How the new table reads, seen from any labelled table.\<close>

lemma link_table_reads:
  assumes inv: "pt_inv lab lo al m r" and t: "lab t = Some p" and i: "i < 512"
    and space: "unat (al_current al) + 4096 \<le> unat (al_end al)" and j: "j < 512"
  defines "n \<equiv> al_current al"
  shows "lab u = Some q \<Longrightarrow> entry (link_table m t i n) u j =
           (if u = t \<and> j = i then pte_from_phys_addr n PTE_V else entry m u j)"
    and "lab u = Some q \<Longrightarrow> follow (link_table m t i n) u j =
           (if u = t \<and> j = i then Some n else follow m u j)"
    and "entry (link_table m t i n) n j = 0" and "follow (link_table m t i n) n j = None"
    and "page_aligned n" and "unat n < 2 ^ 56" and "lab n = None"
proof -
  show n: "page_aligned n" "unat n < 2 ^ 56" and fresh: "lab n = None"
    using inv space pt_inv_fresh [OF inv] by (auto simp: n_def pt_inv_def allocator_ok_def)
  have "page_aligned t" "t \<noteq> n"
    using pt_inv_aligned [OF inv t] t fresh by auto
  with n i j show "entry (link_table m t i n) n j = 0" "follow (link_table m t i n) n j = None"
    by (simp_all add: entry_link_table follow_link_table)
  assume u: "lab u = Some q"
  then have "page_aligned u" "u \<noteq> n"
    using pt_inv_aligned [OF inv u] fresh by auto
  with n i j \<open>page_aligned t\<close> show
    "entry (link_table m t i n) u j =
       (if u = t \<and> j = i then pte_from_phys_addr n PTE_V else entry m u j)"
    "follow (link_table m t i n) u j = (if u = t \<and> j = i then Some n else follow m u j)"
    by (simp_all add: entry_link_table follow_link_table)
qed

lemma link_table_lookup:
  assumes inv: "pt_inv lab lo al m r" and t: "lab t = Some p" "length p < 2" and i: "i < 512"
    and space: "unat (al_current al) + 4096 \<le> unat (al_end al)"
    and none: "follow m t i = None"
  shows "pt_lookup (link_table m t i (al_current al)) r = pt_lookup m r"
proof
  fix va
  let ?n = "al_current al" and ?v2 = "sv39_vpn2 va" and ?v1 = "sv39_vpn1 va"
  have r: "lab r = Some []"
    using inv by (rule pt_inv_root)
  note reads = link_table_reads [OF inv t(1) i space]
  have t1: "lab t1 = Some [?v2]" if "follow m r ?v2 = Some t1" for t1
    using follow_label [OF inv r _ _ that] by simp
  have t0: "lab t0 = Some [?v2, ?v1]" "t0 \<noteq> t"
    if "follow m r ?v2 = Some t1" "follow m t1 ?v1 = Some t0" for t1 t0
    using follow_label [OF inv t1 [OF that(1)] _ _ that(2)] t by auto
  show "pt_lookup (link_table m t i ?n) r va = pt_lookup m r va"
  proof (cases "r = t \<and> ?v2 = i")
    case True
    then have "follow (link_table m t i ?n) r ?v2 = Some ?n"
      by (simp add: reads(2) [OF _ t(1)] i)
    with True none show ?thesis
      by (simp add: pt_lookup_def reads(4))
  next
    case False
    then have r2: "follow (link_table m t i ?n) r ?v2 = follow m r ?v2"
      by (auto simp: reads(2) [OF _ r])
    show ?thesis
    proof (cases "follow m r ?v2")
      case None
      with r2 show ?thesis by (simp add: pt_lookup_def)
    next
      case (Some u)
      with r2 none show ?thesis
        by (auto simp: pt_lookup_def reads(2) [OF _ t1 [OF Some]] reads(1) [OF _ t0(1)] reads(3)
            t0(2) split: option.split)
    qed
  qed
qed

lemma link_table_ext:
  assumes inv: "pt_inv lab lo al m r" and t: "lab t = Some p" and i: "i < 512"
    and space: "unat (al_current al) + 4096 \<le> unat (al_end al)"
  defines "n \<equiv> al_current al"
  shows "pt_ext lab al m (lab(n \<mapsto> q)) (al\<lparr>al_current := al_current al + 4096\<rparr>)
           (link_table m t i n)"
  unfolding pt_ext_def
proof (intro conjI allI impI)
  have ok: "allocator_ok al"
    using inv by (simp add: pt_inv_def)
  note reads = link_table_reads [OF inv t i space i, folded n_def]
  show "lab \<subseteq>\<^sub>m lab(n \<mapsto> q)"
    using reads(7) by (auto simp: map_le_def)
  show "link_table m t i n a = m a"
    if "\<forall>u. (lab(n \<mapsto> q)) u \<noteq> None \<longrightarrow> page_of a \<noteq> page_of u" for a
    using that t pt_inv_aligned [OF inv t] reads(5) i
    by (intro link_table_outside) (auto split: if_splits)
  show "lab u \<noteq> None \<or> unat (al_current al) \<le> unat u" if "(lab(n \<mapsto> q)) u \<noteq> None" for u
    using that by (auto simp: n_def split: if_splits)
  show "unat (al_current al) \<le> unat (al_current (al\<lparr>al_current := al_current al + 4096\<rparr>))"
    using allocator_ok_advance [OF ok space] by simp
qed simp

lemma link_table_inv:
  assumes inv: "pt_inv lab lo al m r" and t: "lab t = Some p" "length p < 2" and i: "i < 512"
    and space: "unat (al_current al) + 4096 \<le> unat (al_end al)"
  defines "n \<equiv> al_current al" and "al' \<equiv> al\<lparr>al_current := al_current al + 4096\<rparr>"
  shows "pt_inv (lab(n \<mapsto> p @ [i])) lo al' (link_table m t i n) r"
  unfolding pt_inv_def
proof (intro conjI allI impI)
  have ok: "allocator_ok al" and r: "lab r = Some []"
    using inv by (auto simp: pt_inv_def)
  note adv = allocator_ok_advance [OF ok space]
  note reads = link_table_reads [OF inv t(1) i space, folded n_def]
  note new = reads(5-7) [OF i]
  show "allocator_ok al'" "0 < lo" "(lab(n \<mapsto> p @ [i])) r = Some []"
    using adv inv r new(3) by (auto simp: al'_def pt_inv_def)
  fix u q assume u: "(lab(n \<mapsto> p @ [i])) u = Some q"
  show "table_ok (lab(n \<mapsto> p @ [i])) lo al' (link_table m t i n) u q"
  proof (cases "u = n")
    case True
    moreover have "lo \<le> unat n"
      using pt_inv_table [OF inv t(1)] by (auto simp: table_ok_def n_def)
    ultimately show ?thesis
      using u t(2) adv reads(3) new(1) by (auto simp: table_ok_def al'_def n_def)
  next
    case False
    with u have lu: "lab u = Some q" by simp
    note tab = pt_inv_table [OF inv lu]
    have "\<not> pte_is_leaf (entry (link_table m t i n) u j) \<and>
        drop_bit 54 (entry (link_table m t i n) u j) = 0 \<and>
        (lab(n \<mapsto> p @ [i])) (phys_addr_from_pte (entry (link_table m t i n) u j)) = Some (q @ [j])"
      if j: "length q < 2" "j < 512" "pte_is_valid (entry (link_table m t i n) u j)" for j
    proof (cases "u = t \<and> j = i")
      case True
      with lu t j new show ?thesis
        by (simp add: reads(1) pte_pointer pte_pointer_addr pte_pointer_high)
    next
      case False
      with j have "entry (link_table m t i n) u j = entry m u j"
        by (auto simp: reads(1) [OF _ lu])
      with j tab new(3) show ?thesis
        by (auto simp: table_ok_def)
    qed
    with tab adv show ?thesis
      by (auto simp: table_ok_def al'_def)
  qed
qed

section \<open>One level down\<close>

lemma paging_descend_step:
  assumes inv: "pt_inv lab lo al m r" and t: "lab t = Some p" "length p < 2" and i: "i < 512"
  obtains
    (fail) "paging_descend (\<lambda>a. a) (\<lambda>a. a) (t + 8 * i) al m = (None, al, m)"
      and "follow m t i = None" and "unat (al_end al) < unat (al_current al) + 4096"
  | (down) u lab' al' m' where
      "paging_descend (\<lambda>a. a) (\<lambda>a. a) (t + 8 * i) al m = (Some u, al', m')"
      and "pt_inv lab' lo al' m' r" and "pt_ext lab al m lab' al' m'"
      and "lab' u = Some (p @ [i])" and "follow m' t i = Some u"
      and "pt_lookup m' r = pt_lookup m r"
      and "\<And>u' q j x. lab u' = Some q \<Longrightarrow> j < 512 \<Longrightarrow> follow m u' j = Some x \<Longrightarrow>
             follow m' u' j = Some x"
      and "follow m t i \<noteq> None \<Longrightarrow> al' = al"
      and "unat (al_current al') \<le> unat (al_current al) + 4096"
      and "unat (al_current al') \<le> max (unat (al_current al)) (unat (al_end al))"
proof (cases rule: paging_descend_cases [OF inv t i])
  case 1
  then show ?thesis by (rule fail)
next
  case (2 u)
  then show ?thesis
    using inv follow_label [OF inv t i 2(2)] by (intro down [of u al m lab]) simp_all
next
  case 3
  note reads = link_table_reads [OF inv t(1) i 3(3)]
  have "allocator_ok al"
    using inv by (simp add: pt_inv_def)
  from allocator_ok_advance [OF this 3(3)] 3 show ?thesis
    using link_table_inv [OF inv t i 3(3)] link_table_ext [OF inv t(1) i 3(3)]
      link_table_lookup [OF inv t i 3(3,2)] reads(2) [OF i t(1)]
    by (intro down [of "al_current al" "al\<lparr>al_current := al_current al + 4096\<rparr>"
          "link_table m t i (al_current al)" "lab(al_current al \<mapsto> p @ [i])"])
      (auto simp: reads(2))
qed

section \<open>The last level\<close>

lemma store_leaf:
  assumes inv: "pt_inv lab lo al m r"
    and path: "follow m r (sv39_vpn2 va) = Some t1" "follow m t1 (sv39_vpn1 va) = Some t0"
    and e: "pte_is_valid e"
  defines "m' \<equiv> st64 m (t0 + 8 * sv39_vpn0 va) e"
  shows "pt_inv lab lo al m' r" and "pt_ext lab al m lab al m'"
    and "pt_lookup m' r = spec_map (pt_lookup m r) va e"
proof -
  have r: "lab r = Some []"
    using inv by (rule pt_inv_root)
  have t1: "lab t1 = Some [sv39_vpn2 va]"
    using follow_label [OF inv r _ _ path(1)] by simp
  then have t0: "lab t0 = Some [sv39_vpn2 va, sv39_vpn1 va]"
    using follow_label [OF inv t1 _ _ path(2)] by simp
  have ent: "entry m' u j = (if u = t0 \<and> j = sv39_vpn0 va then e else entry m u j)"
    if "lab u = Some q" "j < 512" for u q j
    using that pt_inv_aligned [OF inv t0] pt_inv_aligned [OF inv that(1)]
    by (simp add: m'_def entry_st64)
  have fol: "follow m' u j = follow m u j" if "lab u = Some q" "length q < 2" "j < 512" for u q j
    using that t0 by (auto simp: follow_def ent)
  show "pt_inv lab lo al m' r"
    unfolding pt_inv_def
  proof (intro conjI allI impI)
    fix u q assume u: "lab u = Some q"
    then show "table_ok lab lo al m' u q"
      using pt_inv_table [OF inv u] t0 by (auto simp: table_ok_def ent)
  qed (use inv in \<open>auto simp: pt_inv_def\<close>)
  have "m' a = m a" if "\<forall>t. lab t \<noteq> None \<longrightarrow> page_of a \<noteq> page_of t" for a
    using that t0 pt_inv_aligned [OF inv t0] by (auto simp: m'_def intro!: st64_slot_outside)
  then show "pt_ext lab al m lab al m'"
    by (simp add: pt_ext_def)
  show "pt_lookup m' r = spec_map (pt_lookup m r) va e"
  proof
    fix va'
    have l1: "lab u1 = Some [sv39_vpn2 va']" if "follow m r (sv39_vpn2 va') = Some u1" for u1
      using follow_label [OF inv r _ _ that] by simp
    have l0: "lab u0 = Some [sv39_vpn2 va', sv39_vpn1 va']"
      if "follow m r (sv39_vpn2 va') = Some u1" "follow m u1 (sv39_vpn1 va') = Some u0" for u1 u0
      using follow_label [OF inv l1 [OF that(1)] _ _ that(2)] by simp
    show "pt_lookup m' r va' = spec_map (pt_lookup m r) va e va'"
      using path e t0
      by (auto simp: spec_map_def vpage_eq_iff pt_lookup_def fol [OF r] fol [OF l1] ent [OF l0]
          split: option.split dest: l0)
  qed
qed

section \<open>Mapping a page\<close>

lemma phys_to_ptr_early_id: "phys_to_ptr_early = (\<lambda>a. a)"
  by (simp add: fun_eq_iff phys_to_ptr_early_def)

definition leaf_pte :: "u64 \<Rightarrow> u64 \<Rightarrow> u64" where
  "leaf_pte pa flags = pte_from_phys_addr pa (flags OR PTE_V OR PTE_A OR PTE_D)"

lemma unat_lt_1024_iff: "unat (x :: u64) < 1024 \<longleftrightarrow> drop_bit 10 x = 0"
  by (simp only: u64_eq_iff unat_drop_bit_64) (simp add: div_eq_0_iff)

lemma unat_flags_or:
  "unat flags < 1024 \<Longrightarrow> unat (flags OR PTE_V OR PTE_A OR PTE_D) < 1024"
  unfolding unat_lt_1024_iff drop_bit_or by (simp add: pte_flag_values)

lemma leaf_pte_valid [simp]: "pte_is_valid (leaf_pte pa flags)"
  by (simp add: leaf_pte_def pte_is_valid_bit pte_from_phys_addr_def Let_def pte_flag_values bit_simps)

lemma phys_addr_leaf_pte:
  "page_aligned pa \<Longrightarrow> unat pa < 2 ^ 56 \<Longrightarrow> unat flags < 1024 \<Longrightarrow>
     phys_addr_from_pte (leaf_pte pa flags) = pa"
  unfolding leaf_pte_def by (intro pte_roundtrip unat_flags_or)

text \<open>How many fresh tables the mapping of an address can take.\<close>

definition l1_table :: "mem \<Rightarrow> u64 \<Rightarrow> u64 \<Rightarrow> u64 option" where
  "l1_table m r va = follow m r (sv39_vpn2 va)"

definition l0_table :: "mem \<Rightarrow> u64 \<Rightarrow> u64 \<Rightarrow> u64 option" where
  "l0_table m r va =
     (case l1_table m r va of None \<Rightarrow> None | Some t1 \<Rightarrow> follow m t1 (sv39_vpn1 va))"

definition tables_needed :: "mem \<Rightarrow> u64 \<Rightarrow> u64 \<Rightarrow> nat" where
  "tables_needed m r va =
     (if l0_table m r va \<noteq> None then 0 else if l1_table m r va \<noteq> None then 1 else 2)"

lemma pt_lookup_l0: "pt_lookup m r va \<noteq> None \<Longrightarrow> l0_table m r va \<noteq> None"
  by (auto simp: pt_lookup_def l0_table_def l1_table_def split: option.splits)

lemma paging_map_early_step:
  assumes inv: "pt_inv lab lo al m r"
    and al: "page_aligned va" "page_aligned pa"
    and run: "paging_map_early r va pa flags al m = (ok, al', m')"
  obtains lab' where "pt_inv lab' lo al' m' r" and "pt_ext lab al m lab' al' m'"
    and "pt_lookup m' r =
           (if ok then spec_map (pt_lookup m r) va (leaf_pte pa flags) else pt_lookup m r)"
    and "ok \<Longrightarrow> pt_lookup m r va = None"
    and "unat (al_current al') \<le> unat (al_current al) + 4096 * tables_needed m r va"
    and "pt_lookup m r va = None \<Longrightarrow>
           unat (al_current al) + 4096 * tables_needed m r va \<le> unat (al_end al) \<Longrightarrow> ok"
    and "unat (al_current al') \<le> max (unat (al_current al)) (unat (al_end al))"
proof -
  have nz: "r \<noteq> 0" using inv by (rule pt_inv_root_nonnull)
  note map_def = paging_map_early_def paging_map_with_def phys_to_ptr_early_id
  note need_def = tables_needed_def l0_table_def l1_table_def
  have al0: "va AND (PAGE_SIZE - 1) = 0" "pa AND (PAGE_SIZE - 1) = 0"
    using al by (simp_all add: page_aligned_def)
  have root: "length ([] :: u64 list) < 2" by simp
  show ?thesis
  proof (cases rule: paging_descend_step [OF inv pt_inv_root [OF inv] root vpn_lt(1) [of va]])
    case 1
    with run nz al0 have "ok = False \<and> al' = al \<and> m' = m" by (auto simp: map_def Let_def)
    with 1 inv show ?thesis
      by (intro that [of lab]) (auto simp: need_def)
  next
    case A: (2 t1 lab1 al1 m1)
    from A(4) have t1: "lab1 t1 = Some [sv39_vpn2 va]" by simp
    have one: "length [sv39_vpn2 va] < 2" by simp
    have l1: "follow m r (sv39_vpn2 va) \<noteq> None \<Longrightarrow> follow m r (sv39_vpn2 va) = Some t1"
      using A(5) A(7) [OF pt_inv_root [OF inv] vpn_lt(1)] by auto
    have t1_old: "follow m1 t1 (sv39_vpn1 va) = Some t0"
      if "follow m r (sv39_vpn2 va) \<noteq> None" "follow m t1 (sv39_vpn1 va) = Some t0" for t0
      using A(7) [OF follow_label [OF inv pt_inv_root [OF inv] _ vpn_lt(1) l1 [OF that(1)]]
          vpn_lt(2) that(2)] by simp
    show ?thesis
    proof (cases rule: paging_descend_step [OF A(2) t1 one vpn_lt(2) [of va]])
      case 1
      with run nz al0 A(1) have res: "ok = False" "al' = al1" "m' = m1"
        by (auto simp: map_def Let_def)
      have l0: "l0_table m r va = None"
        using 1(2) l1 t1_old
        by (cases "follow m r (sv39_vpn2 va)"; cases "follow m t1 (sv39_vpn1 va)")
          (auto simp: l0_table_def l1_table_def)
      then have "unat (al_current al1) \<le> unat (al_current al) + 4096 * tables_needed m r va"
        "unat (al_end al) < unat (al_current al) + 4096 * tables_needed m r va"
        using 1(3) A(3,8,9) l1 by (auto simp: tables_needed_def l1_table_def pt_ext_def)
      with res A show ?thesis
        by (intro that [of lab1]) auto
    next
      case B: (2 t0 lab2 al2 m2)
      have ext: "pt_ext lab al m lab2 al2 m2"
        using A(3) B(3) by (rule pt_ext_trans)
      have same: "pt_lookup m2 r = pt_lookup m r"
        using A(6) B(6) by simp
      have path: "follow m2 r (sv39_vpn2 va) = Some t1" "follow m2 t1 (sv39_vpn1 va) = Some t0"
        using B(7) [OF pt_inv_root [OF A(2)] vpn_lt(1) A(5)] B(5) by simp_all
      have look: "pt_lookup m r va \<noteq> None \<longleftrightarrow> pte_is_valid (entry m2 t0 (sv39_vpn0 va))"
        using path by (simp add: pt_lookup_def flip: same)
      have cost: "unat (al_current al2) \<le> unat (al_current al) + 4096 * tables_needed m r va"
      proof (cases "follow m r (sv39_vpn2 va)")
        case None
        with A(9) B(9) show ?thesis by (simp add: need_def)
      next
        case l1_some: (Some u)
        with l1 A(8) have "u = t1" "al1 = al" by simp_all
        with l1_some B(8,9) t1_old show ?thesis
          by (cases "follow m t1 (sv39_vpn1 va)") (simp_all add: need_def)
      qed
      have top: "unat (al_current al2) \<le> max (unat (al_current al)) (unat (al_end al))"
        using A(3,10) B(10) by (simp add: pt_ext_def max_def split: if_splits)
      show ?thesis
      proof (cases "pte_is_valid (entry m2 t0 (sv39_vpn0 va))")
        case True
        with run nz al0 A(1) B(1) have "ok = False \<and> al' = al2 \<and> m' = m2"
          by (auto simp: map_def Let_def entry_def)
        with True B(2) ext same look cost top show ?thesis
          by (intro that [of lab2]) auto
      next
        case False
        with run nz al0 A(1) B(1) have res: "ok = True" "al' = al2"
          "m' = st64 m2 (t0 + 8 * sv39_vpn0 va) (leaf_pte pa flags)"
          by (auto simp: map_def Let_def entry_def leaf_pte_def)
        note st = store_leaf [OF B(2) path leaf_pte_valid [of pa flags], folded res(3)]
        show ?thesis
          using res(1,2) st ext same look False cost top
          by (intro that [of lab2]) (auto intro: pt_ext_trans)
      qed
    qed
  qed
qed

section \<open>Looking an address up\<close>

lemma paging_query_early_eq:
  assumes "r \<noteq> 0"
  shows "paging_query_early r va m =
    (case pt_lookup m r va of
       None \<Rightarrow> (False, 0, 0)
     | Some e \<Rightarrow> if pte_is_leaf e then (True, phys_addr_from_pte e + take_bit 12 va, e AND 0x3FF)
                else (False, 0, 0))"
  using assms
  by (auto simp: paging_query_early_def paging_query_with_def phys_to_ptr_early_id pt_lookup_def
      follow_def entry_def Let_def split: option.split)

lemma query_leaf_pte:
  assumes "r \<noteq> 0" and "pt_lookup m r va = Some (leaf_pte pa flags)"
    and "page_aligned pa" "unat pa < 2 ^ 56" "unat flags < 1024" "pte_is_leaf flags"
  shows "paging_query_early r va m =
    (True, pa + take_bit 12 va, flags OR PTE_V OR PTE_A OR PTE_D)"
proof -
  have "pte_is_leaf (leaf_pte pa flags)"
    unfolding leaf_pte_def pte_leaf_iff [OF unat_flags_or [OF assms(5)]]
    using assms(6)
    by (auto simp: pte_is_leaf_def pte_flag_values bit_eq_iff bit_and_iff bit_or_iff)
  moreover have "leaf_pte pa flags AND 0x3FF = flags OR PTE_V OR PTE_A OR PTE_D"
    using assms(5) by (simp add: leaf_pte_def pte_low_bits unat_flags_or)
  ultimately show ?thesis
    using assms by (simp add: paging_query_early_eq phys_addr_leaf_pte)
qed

end
