(* ===== verification/Paging_Range.thy ===== *)
theory Paging_Range
  imports Paging_Correct
begin

text \<open>
  Mapping a range at physical addresses: what the loop of \<^verbatim>\<open>paging_map_range_early\<close> does to the
  abstract mapping on success and on failure, and how many tables it can take.
\<close>

section \<open>What the loop does\<close>

text \<open>
  The offsets the loop still has to map, from \<open>mapped\<close> to the rounded size.
\<close>

definition in_range :: "u64 \<Rightarrow> u64 \<Rightarrow> u64 \<Rightarrow> bool" where
  "in_range mapped sz d \<longleftrightarrow> page_aligned d \<and> mapped \<le> d \<and> d < align_up sz PAGE_SIZE"

definition range_mapped ::
  "(u64 \<Rightarrow> u64 option) \<Rightarrow> (u64 \<Rightarrow> u64 option) \<Rightarrow> u64 \<Rightarrow> u64 \<Rightarrow> u64 \<Rightarrow> u64 \<Rightarrow> u64 \<Rightarrow> bool" where
  "range_mapped f g vs ps sz flags mapped \<longleftrightarrow>
     (\<forall>d. in_range mapped sz d \<longrightarrow>
        f (vs + d) = None \<and> g (vs + d) = Some (leaf_pte (ps + d) flags))"

lemma page_aligned_plus [simp]: "page_aligned a \<Longrightarrow> page_aligned b \<Longrightarrow> page_aligned (a + b)"
  by (rule page_aligned_add)

lemma dvd_less_step:
  fixes x y k :: nat
  assumes "k dvd x" "k dvd y" "x < y"
  shows "x + k \<le> y"
  using dvd_imp_le [of k "y - x"] dvd_diff_nat [of k y x] assms by simp

lemma page_step:
  assumes "page_aligned d" "d < align_up sz PAGE_SIZE"
  shows "unat (d + PAGE_SIZE) = unat d + 4096" and "d + PAGE_SIZE \<le> align_up sz PAGE_SIZE"
proof -
  have "unat d < 2 ^ 64 - 4096"
    using assms(2) align_up_le_max [of sz] by (simp add: word_less_nat_alt)
  then show *: "unat (d + PAGE_SIZE) = unat d + 4096"
    by (simp add: unat_simps)
  have "unat d + 4096 \<le> unat (align_up sz PAGE_SIZE)"
    using assms page_aligned_align_up [of sz]
    by (intro dvd_less_step) (simp_all add: page_aligned_iff word_less_nat_alt)
  with * show "d + PAGE_SIZE \<le> align_up sz PAGE_SIZE"
    by (simp add: word_le_nat_alt)
qed

lemma in_range_step:
  assumes "page_aligned mapped" "mapped < align_up sz PAGE_SIZE"
  shows "in_range mapped sz d \<longleftrightarrow> d = mapped \<or> in_range (mapped + PAGE_SIZE) sz d"
proof -
  note step = page_step [OF assms]
  have "mapped + PAGE_SIZE \<le> d" if "page_aligned d" "mapped \<le> d" "d \<noteq> mapped"
    using that assms(1) step(1) dvd_less_step [of 4096 "unat mapped" "unat d"]
    by (simp add: page_aligned_iff word_le_nat_alt u64_eq_iff)
  then show ?thesis
    using assms step(1) by (auto simp: in_range_def word_le_nat_alt)
qed

lemma in_range_none: "\<not> mapped < align_up sz PAGE_SIZE \<Longrightarrow> \<not> in_range mapped sz d"
  by (auto simp: in_range_def)

lemma in_range_self:
  "page_aligned mapped \<Longrightarrow> mapped < align_up sz PAGE_SIZE \<Longrightarrow> in_range mapped sz mapped"
  by (simp add: in_range_def)

lemma pt_lookup_vpage: "vpage a = vpage b \<Longrightarrow> pt_lookup m r a = pt_lookup m r b"
  unfolding vpage_eq_iff pt_lookup_def by (elim conjE) (simp only:)

lemma spec_map_extends:
  "pt_lookup m r va = None \<Longrightarrow> pt_lookup m r \<subseteq>\<^sub>m spec_map (pt_lookup m r) va e"
  by (auto simp: map_le_def spec_map_def) (metis option.distinct(1) pt_lookup_vpage)

lemma map_le_None: "f \<subseteq>\<^sub>m g \<Longrightarrow> g x = None \<Longrightarrow> f x = None"
  by (metis domIff map_le_def)

abbreviation map_from ::
  "u64 \<Rightarrow> u64 \<Rightarrow> u64 \<Rightarrow> u64 \<Rightarrow> u64 \<Rightarrow> u64 \<Rightarrow> physical_page_allocator \<Rightarrow> mem \<Rightarrow>
   bool \<times> physical_page_allocator \<times> mem" where
  "map_from \<equiv> paging_map_range_from (\<lambda>a. a) (\<lambda>a. a)"

lemma map_from_unfold:
  "map_from r vs ps sz flags mapped al m =
     (if mapped < align_up sz PAGE_SIZE then
        (case paging_map_early r (vs + mapped) (ps + mapped) flags al m of
           (False, al, m) \<Rightarrow> (False, al, m)
         | (True, al, m) \<Rightarrow> map_from r vs ps sz flags (mapped + PAGE_SIZE) al m)
      else (True, al, m))"
  by (subst paging_map_range_from.simps)
    (simp add: Let_def paging_map_early_def phys_to_ptr_early_id)

lemma map_from_induct:
  fixes P :: "u64 \<Rightarrow> physical_page_allocator \<Rightarrow> mem \<Rightarrow> bool"
  assumes "\<And>mapped al m.
    (\<And>al' m'. mapped < align_up sz PAGE_SIZE \<Longrightarrow>
       paging_map_early r (vs + mapped) (ps + mapped) flags al m = (True, al', m') \<Longrightarrow>
       P (mapped + PAGE_SIZE) al' m') \<Longrightarrow> P mapped al m"
  shows "P mapped al m"
proof (induction "2 ^ 64 - unat mapped" arbitrary: mapped al m rule: less_induct)
  case less
  show ?case
  proof (rule assms)
    fix al' m' assume "mapped < align_up sz PAGE_SIZE"
    then have "unat mapped < 2 ^ 64 - 4096"
      using align_up_le_max [of sz] by (simp add: word_less_nat_alt)
    then have "2 ^ 64 - unat (mapped + PAGE_SIZE) < 2 ^ 64 - unat mapped"
      by (simp add: unat_simps)
    then show "P (mapped + PAGE_SIZE) al' m'"
      by (rule less)
  qed
qed

lemma map_from_correct:
  assumes "pt_inv lab lo al m r" "page_aligned vs" "page_aligned ps" "page_aligned mapped"
    and "map_from r vs ps sz flags mapped al m = (ok, al', m')"
  shows "\<exists>lab'. pt_inv lab' lo al' m' r \<and> pt_ext lab al m lab' al' m' \<and>
    pt_lookup m r \<subseteq>\<^sub>m pt_lookup m' r \<and>
    unat (al_current al') \<le> max (unat (al_current al)) (unat (al_end al)) \<and>
    (ok \<longrightarrow> range_mapped (pt_lookup m r) (pt_lookup m' r) vs ps sz flags mapped) \<and>
    (\<forall>va. (\<forall>d. in_range mapped sz d \<longrightarrow> vpage va \<noteq> vpage (vs + d)) \<longrightarrow>
       pt_lookup m' r va = pt_lookup m r va)"
  using assms
proof (induction mapped al m arbitrary: lab
    rule: map_from_induct [where r = r and vs = vs and ps = ps and sz = sz and flags = flags])
  case (1 mapped al m)
  show ?case
  proof (cases "mapped < align_up sz PAGE_SIZE")
    case False
    with 1 show ?thesis
      by (intro exI [of _ lab])
        (auto simp: map_from_unfold [of r vs ps sz flags mapped] range_mapped_def in_range_none)
  next
    case True
    obtain ok1 al1 m1 where
      run: "paging_map_early r (vs + mapped) (ps + mapped) flags al m = (ok1, al1, m1)"
      by (cases "paging_map_early r (vs + mapped) (ps + mapped) flags al m")
    have al: "page_aligned (vs + mapped)" "page_aligned (ps + mapped)"
      using 1 by simp_all
    obtain lab1 where S: "pt_inv lab1 lo al1 m1 r" "pt_ext lab al m lab1 al1 m1"
      "pt_lookup m1 r = (if ok1 then spec_map (pt_lookup m r) (vs + mapped)
         (leaf_pte (ps + mapped) flags) else pt_lookup m r)"
      "ok1 \<Longrightarrow> pt_lookup m r (vs + mapped) = None"
      "unat (al_current al1) \<le> max (unat (al_current al)) (unat (al_end al))"
      by (rule paging_map_early_step [OF 1(2) al run]) blast
    show ?thesis
    proof (cases ok1)
      case False
      with 1 True run have "\<not> ok" "al' = al1" "m' = m1"
        by (auto simp: map_from_unfold [of r vs ps sz flags mapped])
      with S False show ?thesis by auto
    next
      case ok1: True
      with 1 True run have rest:
        "map_from r vs ps sz flags (mapped + PAGE_SIZE) al1 m1 = (ok, al', m')"
        by (auto simp: map_from_unfold [of r vs ps sz flags mapped])
      have nxt: "page_aligned (mapped + PAGE_SIZE)"
        using 1 by (intro page_aligned_plus) (simp_all add: page_aligned_def)
      have run1: "paging_map_early r (vs + mapped) (ps + mapped) flags al m = (True, al1, m1)"
        using run ok1 by simp
      from 1(1) [OF True run1 S(1) 1(3,4) nxt rest] ok1
      obtain lab' where I: "pt_inv lab' lo al' m' r" "pt_ext lab1 al1 m1 lab' al' m'"
        "pt_lookup m1 r \<subseteq>\<^sub>m pt_lookup m' r"
        "unat (al_current al') \<le> max (unat (al_current al1)) (unat (al_end al1))"
        "ok \<longrightarrow> range_mapped (pt_lookup m1 r) (pt_lookup m' r) vs ps sz flags (mapped + PAGE_SIZE)"
        "\<forall>va. (\<forall>d. in_range (mapped + PAGE_SIZE) sz d \<longrightarrow> vpage va \<noteq> vpage (vs + d)) \<longrightarrow>
           pt_lookup m' r va = pt_lookup m1 r va"
        by auto
      have S3: "pt_lookup m1 r = spec_map (pt_lookup m r) (vs + mapped) (leaf_pte (ps + mapped) flags)"
        using S(3) ok1 by simp
      have sub: "pt_lookup m r \<subseteq>\<^sub>m pt_lookup m1 r"
        unfolding S3 by (rule spec_map_extends [OF S(4) [OF ok1]])
      have "pt_lookup m1 r (vs + mapped) = Some (leaf_pte (ps + mapped) flags)"
        by (simp add: S3 spec_map_def)
      then have here: "pt_lookup m' r (vs + mapped) = Some (leaf_pte (ps + mapped) flags)"
        using I(3) by (metis map_le_def domI)
      have "range_mapped (pt_lookup m r) (pt_lookup m' r) vs ps sz flags mapped" if ok
        using that I(5) here S(4) [OF ok1] map_le_None [OF sub]
        by (auto simp: range_mapped_def in_range_step [OF 1(5) True])
      moreover have "pt_lookup m' r va = pt_lookup m r va"
        if "\<forall>d. in_range mapped sz d \<longrightarrow> vpage va \<noteq> vpage (vs + d)" for va
        using that I(6) by (simp add: in_range_step [OF 1(5) True] S3 spec_map_def)
      moreover have "unat (al_current al') \<le> max (unat (al_current al)) (unat (al_end al))"
        using I(4) S(2,5) by (simp add: pt_ext_def max_def split: if_splits)
      ultimately show ?thesis
        using I(1) pt_ext_trans [OF S(2) I(2)] map_le_trans [OF sub I(3)] by blast
    qed
  qed
qed

section \<open>How many tables it takes\<close>

text \<open>
  A new last-level table is needed where a page number is a multiple of \<open>2 ^ 9\<close>, a new middle table
  where it is a multiple of \<open>2 ^ 18\<close>; and up to two for the first page.
\<close>

definition table_index :: "u64 \<Rightarrow> nat" where
  "table_index va = page_of va div 2 ^ 9 + page_of va div 2 ^ 18"

lemma vpn_page_of:
  "unat (sv39_vpn2 va) = page_of va div 2 ^ 18 mod 512"
  "unat (sv39_vpn1 va) = page_of va div 2 ^ 9 mod 512"
  by (simp_all add: unat_vpn page_of_def div_mult2_eq [symmetric])

lemma table_index_mono: "page_of a \<le> page_of b \<Longrightarrow> table_index a \<le> table_index b"
  unfolding table_index_def by (intro add_mono div_le_mono)

lemma tables_needed_step:
  assumes "pt_lookup m r va \<noteq> None" "unat va + 4096 < 2 ^ 64"
  shows "tables_needed m r (va + PAGE_SIZE) + table_index va \<le> table_index (va + PAGE_SIZE)"
proof -
  let ?va = "va + PAGE_SIZE" and ?p = "page_of va"
  have page: "page_of ?va = Suc ?p"
    using assms by (simp add: page_of_def unat_simps)
  have l0: "l0_table m r va \<noteq> None"
    using assms(1) by (rule pt_lookup_l0)
  then have l1: "l1_table m r va \<noteq> None"
    by (cases "l1_table m r va") (auto simp: l0_table_def)
  have v2: "sv39_vpn2 ?va = sv39_vpn2 va" if "Suc ?p div 2 ^ 18 = ?p div 2 ^ 18"
    using that by (simp only: u64_eq_iff vpn_page_of page)
  have v1: "sv39_vpn1 ?va = sv39_vpn1 va" if "Suc ?p div 2 ^ 9 = ?p div 2 ^ 9"
    using that by (simp only: u64_eq_iff vpn_page_of page)
  have nested: "Suc ?p div 2 ^ 18 = ?p div 2 ^ 18" if "Suc ?p div 2 ^ 9 = ?p div 2 ^ 9"
    using that div_mult2_eq [of "Suc ?p" "2 ^ 9" "2 ^ 9"] div_mult2_eq [of ?p "2 ^ 9" "2 ^ 9"]
    by simp
  show ?thesis
  proof (cases "Suc ?p div 2 ^ 9 = ?p div 2 ^ 9")
    case True
    have "l0_table m r ?va = l0_table m r va"
      unfolding l0_table_def l1_table_def v1 [OF True] v2 [OF nested [OF True]] ..
    with l0 have "tables_needed m r ?va = 0"
      by (simp add: tables_needed_def)
    then show ?thesis
      by (simp add: table_index_mono page)
  next
    case False
    then have n9: "?p div 2 ^ 9 + 1 \<le> Suc ?p div 2 ^ 9"
      using div_le_mono [of ?p "Suc ?p" "2 ^ 9"] by linarith
    show ?thesis
    proof (cases "Suc ?p div 2 ^ 18 = ?p div 2 ^ 18")
      case True
      with v2 l1 have "tables_needed m r ?va \<le> 1"
        by (simp add: tables_needed_def l1_table_def)
      with True n9 show ?thesis
        by (simp add: table_index_def page)
    next
      case False
      then have "?p div 2 ^ 18 + 1 \<le> Suc ?p div 2 ^ 18"
        using div_le_mono [of ?p "Suc ?p" "2 ^ 18"] by linarith
      moreover have "tables_needed m r ?va \<le> 2"
        by (simp add: tables_needed_def)
      ultimately show ?thesis
        using n9 by (simp add: table_index_def page)
    qed
  qed
qed

text \<open>
  The last page of the range; the tables of the whole range are counted up to it. The range may
  not wrap, and must not be longer than the 512 gigabytes Sv39 can tell apart.
\<close>

definition range_ok :: "u64 \<Rightarrow> u64 \<Rightarrow> bool" where
  "range_ok vs sz \<longleftrightarrow> page_aligned vs \<and>
     unat vs + unat (align_up sz PAGE_SIZE) \<le> 2 ^ 64 \<and> unat (align_up sz PAGE_SIZE) \<le> 2 ^ 39"

definition last_page :: "u64 \<Rightarrow> u64 \<Rightarrow> u64" where
  "last_page vs sz = vs + (align_up sz PAGE_SIZE - PAGE_SIZE)"

lemma range_ok_distinct:
  assumes ok: "range_ok vs sz" and "in_range mapped sz d" "in_range mapped sz d'" "d \<noteq> d'"
  shows "vpage (vs + d) \<noteq> vpage (vs + d')"
proof
  assume eq: "vpage (vs + d) = vpage (vs + d')"
  have page: "page_of (vs + x) = page_of vs + page_of x" if "in_range mapped sz x" for x
    using that ok by (auto simp: in_range_def range_ok_def page_of_def unat_simps word_less_nat_alt
        page_aligned_iff)
  have lt: "page_of x < 2 ^ 27" if "in_range mapped sz x" for x
    using that ok by (simp add: in_range_def range_ok_def page_of_def word_less_nat_alt
        div_less_iff_less_mult)
  have "(page_of vs + page_of d) mod 2 ^ 27 = (page_of vs + page_of d') mod 2 ^ 27"
    using eq page assms(2,3) by (simp add: vpage_def)
  then have "page_of d mod 2 ^ 27 = page_of d' mod 2 ^ 27"
    by (simp add: nat_mod_eq_iff) 
  with lt assms(2,3) have "page_of d = page_of d'"
    by simp
  with assms show False
    using page_of_inj [of d d'] by (simp add: in_range_def)
qed

text \<open>
  Enough room for the tables is all a fresh range needs; the bound on the pages taken is part of
  the statement.
\<close>

lemma range_ok_add:
  assumes "range_ok vs sz" "mapped < align_up sz PAGE_SIZE"
  shows "unat (vs + mapped) = unat vs + unat mapped"
  using assms by (simp add: range_ok_def word_less_nat_alt unat_simps)

lemma range_ok_last:
  assumes "range_ok vs sz" "in_range 0 sz d"
  shows "page_of (vs + d) \<le> page_of (last_page vs sz)"
proof -
  have le: "unat d + 4096 \<le> unat (align_up sz PAGE_SIZE)"
    using page_step [of d sz] assms(2) by (simp add: in_range_def word_le_nat_alt)
  then have page: "PAGE_SIZE \<le> align_up sz PAGE_SIZE"
    by (simp add: word_le_nat_alt)
  have "unat (last_page vs sz) = unat vs + (unat (align_up sz PAGE_SIZE) - 4096)"
    using assms(1) le unat_diff_64 [OF page]
    unfolding last_page_def range_ok_def by (elim conjE) (simp add: unat_add_64)
  with le show ?thesis
    using range_ok_add [OF assms(1)] assms(2) by (simp add: page_of_def in_range_def div_le_mono)
qed

lemma map_from_total:
  assumes "range_ok vs sz" "page_aligned ps"
    and "pt_inv lab lo al m r" "page_aligned mapped" "mapped < align_up sz PAGE_SIZE"
    and "\<And>d. in_range mapped sz d \<Longrightarrow> pt_lookup m r (vs + d) = None"
  defines "cost \<equiv> \<lambda>m mapped. tables_needed m r (vs + mapped) +
    (table_index (last_page vs sz) - table_index (vs + mapped))"
  assumes "unat (al_current al) + 4096 * cost m mapped \<le> unat (al_end al)"
    and "map_from r vs ps sz flags mapped al m = (ok, al', m')"
  shows "ok \<and> unat (al_current al') \<le> unat (al_current al) + 4096 * cost m mapped"
  using assms(3-6,8,9)
proof (induction mapped al m arbitrary: lab
    rule: map_from_induct [where r = r and vs = vs and ps = ps and sz = sz and flags = flags])
  case (1 mapped al m)
  note range = assms(1) and here = 1(4) and fresh = 1(5)
  obtain ok1 al1 m1 where
    run: "paging_map_early r (vs + mapped) (ps + mapped) flags al m = (ok1, al1, m1)"
    by (cases "paging_map_early r (vs + mapped) (ps + mapped) flags al m")
  have al: "page_aligned (vs + mapped)" "page_aligned (ps + mapped)"
    using 1 assms(1,2) by (simp_all add: range_ok_def)
  have none: "pt_lookup m r (vs + mapped) = None"
    using 1 by (simp add: in_range_self)
  have needed: "unat (al_current al) + 4096 * tables_needed m r (vs + mapped) \<le> unat (al_end al)"
    using 1(6) by (simp add: cost_def)
  obtain lab1 where S: "pt_inv lab1 lo al1 m1 r" "pt_ext lab al m lab1 al1 m1"
    "pt_lookup m1 r = spec_map (pt_lookup m r) (vs + mapped) (leaf_pte (ps + mapped) flags)"
    "unat (al_current al1) \<le> unat (al_current al) + 4096 * tables_needed m r (vs + mapped)" ok1
    by (rule paging_map_early_step [OF 1(2) al run]) (use none needed in auto)
  have rest: "map_from r vs ps sz flags (mapped + PAGE_SIZE) al1 m1 = (ok, al', m')"
    using 1(7) here run S(5) by (simp add: map_from_unfold [of r vs ps sz flags mapped])
  show ?case
  proof (cases "mapped + PAGE_SIZE < align_up sz PAGE_SIZE")
    case False
    with rest S(4) show ?thesis
      by (simp add: map_from_unfold [of r vs ps sz flags "mapped + PAGE_SIZE"] cost_def)
  next
    case True
    note step = page_step [OF 1(3) here]
    have nxt: "page_aligned (mapped + PAGE_SIZE)"
      using 1(3) by (intro page_aligned_plus) (simp_all add: page_aligned_def)
    have "unat (vs + mapped) + 4096 < 2 ^ 64"
      using range True step(1) range_ok_add [OF range here]
      by (simp add: range_ok_def word_less_nat_alt)
    then have "tables_needed m1 r (vs + mapped + PAGE_SIZE) + table_index (vs + mapped) \<le>
        table_index (vs + mapped + PAGE_SIZE)"
      by (intro tables_needed_step) (simp add: S(3) spec_map_def)
    moreover have "table_index (vs + mapped + PAGE_SIZE) \<le> table_index (last_page vs sz)"
      using range_ok_last [OF range, of "mapped + PAGE_SIZE"] True nxt
      by (intro table_index_mono) (simp add: in_range_def add.assoc)
    ultimately have cost: "cost m1 (mapped + PAGE_SIZE) + tables_needed m r (vs + mapped) \<le> cost m mapped"
      by (simp add: cost_def add.assoc)
    have fresh1: "pt_lookup m1 r (vs + d) = None" if "in_range (mapped + PAGE_SIZE) sz d" for d
    proof -
      have d: "in_range mapped sz d" "d \<noteq> mapped"
        using that step(1) 1(3) by (auto simp: in_range_step [OF 1(3) here] in_range_def word_le_nat_alt)
      with range_ok_distinct [OF range d(1) in_range_self [OF 1(3) here]] fresh
      show ?thesis by (simp add: S(3) spec_map_def)
    qed
    have "ok \<and> unat (al_current al') \<le> unat (al_current al1) + 4096 * cost m1 (mapped + PAGE_SIZE)"
    proof (rule 1(1) [OF here _ S(1) nxt True fresh1 _ rest])
      show "paging_map_early r (vs + mapped) (ps + mapped) flags al m = (True, al1, m1)"
        using run S(5) by simp
      show "unat (al_current al1) + 4096 * cost m1 (mapped + PAGE_SIZE) \<le> unat (al_end al1)"
        using S(2,4) cost 1(6) by (simp add: pt_ext_def)
    qed
    with S(4) cost show ?thesis by simp
  qed
qed

section \<open>The range operation\<close>

lemma align_up_0 [simp]: "align_up 0 4096 = 0"
  by (simp add: align_up_def)

lemma paging_map_range_early_eq:
  "paging_map_range_early r vs ps sz flags al m = map_from r vs ps sz flags 0 al m"
  by (simp add: paging_map_range_early_def paging_map_range_with_def phys_to_ptr_early_id
      map_from_unfold [of r vs ps 0])

lemmas paging_map_range_early_correct =
  map_from_correct [where mapped = 0, simplified, folded paging_map_range_early_eq]

end
