(* ===== verification/Paging_View.thy ===== *)
theory Paging_View
  imports Paging_Range
begin

text \<open>
  The two copies of the page-table code. After \<^verbatim>\<open>paging_init\<close> the kernel reaches its tables through
  the direct map, so every pointer is a virtual address the processor translates. As long as the
  translation of the direct map gives back the physical address, the late copy
  (\<^verbatim>\<open>paging_map\<close>, \<^verbatim>\<open>paging_map_range\<close>, \<^verbatim>\<open>paging_query\<close>) computes what the early one does.
\<close>

section \<open>The interface: a view of the tables\<close>

locale table_view =
  fixes ptr tr :: "u64 \<Rightarrow> u64" and lo hi :: nat
  assumes ptr_add: "ptr (p + d) = ptr p + d"
    and tr_ptr: "lo \<le> unat p \<Longrightarrow> unat p < hi \<Longrightarrow> tr (ptr p) = p"
    and ptr_nonnull: "lo \<le> unat p \<Longrightarrow> unat p < hi \<Longrightarrow> ptr p \<noteq> 0"
begin

text \<open>A table whose page lies in the viewed memory: its slots are seen where they are.\<close>

definition viewed :: "u64 \<Rightarrow> bool" where
  "viewed t \<longleftrightarrow> page_aligned t \<and> lo \<le> unat t \<and> unat t + 4096 \<le> hi"

lemma tr_slot:
  assumes "viewed t" "i < 512"
  shows "tr (ptr t + 8 * i) = t + 8 * i"
proof -
  have "unat (t + 8 * i) = unat t + 8 * unat i"
    using assms by (simp add: viewed_def unat_slot)
  moreover have "unat i < 512"
    using assms(2) by (simp add: word_less_nat_alt)
  ultimately show ?thesis
    using assms(1) tr_ptr [of "t + 8 * i"] by (simp add: viewed_def ptr_add)
qed

lemma zero_from_view:
  "viewed t \<Longrightarrow> paging_zero_from tr (ptr t) i m = paging_zero_from (\<lambda>a. a) t i m"
proof (induction "512 - unat i" arbitrary: i m rule: less_induct)
  case less
  show ?case
  proof (cases "i < 512")
    case True
    then have "512 - unat (i + 1) < 512 - unat i"
      by (simp add: word_less_nat_alt unat_simps)
    with less True show ?thesis
      by (simp add: paging_zero_from.simps [of _ _ i] tr_slot)
  qed (simp add: paging_zero_from.simps)
qed

lemma zero_table_view:
  "viewed t \<Longrightarrow> paging_zero_table tr (ptr t) m = paging_zero_table (\<lambda>a. a) t m"
  by (simp add: paging_zero_table_def zero_from_view)

lemma pt_inv_viewed:
  "pt_inv lab lo al m r \<Longrightarrow> unat (al_current al) \<le> hi \<Longrightarrow> lab t = Some p \<Longrightarrow> viewed t"
  using pt_inv_table [of lab lo al m r t p] by (auto simp: table_ok_def viewed_def)

lemma descend_view:
  assumes inv: "pt_inv lab lo al m r" and hi: "unat (al_end al) \<le> hi"
    and t: "lab t = Some p" "viewed t" and i: "i < 512"
  shows "paging_descend ptr tr (ptr t + 8 * i) al m =
    apfst (map_option ptr) (paging_descend (\<lambda>a. a) (\<lambda>a. a) (t + 8 * i) al m)"
proof -
  have ok: "allocator_ok al" and nz: "al_current al \<noteq> 0"
    using inv by (auto simp: pt_inv_def allocator_ok_def)
  have "lo \<le> unat (al_current al)" and aligned: "page_aligned (al_current al)"
    using pt_inv_table [OF inv t(1)] ok by (auto simp: table_ok_def allocator_ok_def)
  then have fresh: "viewed (al_current al)" if "unat (al_current al) + 4096 \<le> unat (al_end al)"
    using that hi by (simp add: viewed_def)
  show ?thesis
    using nz
    by (auto simp: paging_descend_def Let_def tr_slot [OF t(2) i] physical_alloc_page_eq [OF ok]
        zero_table_view [OF fresh])
qed

lemma map_view:
  assumes inv: "pt_inv lab lo al m r" and hi: "unat (al_end al) \<le> hi"
    and cur: "unat (al_current al) \<le> hi"
  shows "paging_map_with ptr tr (ptr r) va pa flags al m = paging_map_early r va pa flags al m"
proof (cases "page_aligned va \<and> page_aligned pa")
  case False
  then show ?thesis
    by (auto simp: paging_map_early_def paging_map_with_def page_aligned_def)
next
  case True
  note root = pt_inv_root [OF inv]
  have vr: "viewed r"
    using pt_inv_viewed [OF inv _ root] hi cur by simp
  have nz: "r \<noteq> 0" "ptr r \<noteq> 0"
    using pt_inv_root_nonnull [OF inv] ptr_nonnull [of r] vr by (auto simp: viewed_def)
  have len: "length ([] :: u64 list) < 2" "\<And>x. length [x :: u64] < 2" by simp_all
  note defs = paging_map_early_def paging_map_with_def phys_to_ptr_early_id
  have al0: "va AND (PAGE_SIZE - 1) = 0" "pa AND (PAGE_SIZE - 1) = 0"
    using True by (simp_all add: page_aligned_def)
  note d2 = descend_view [OF inv hi root vr vpn_lt(1) [of va]]
  show ?thesis
  proof (cases rule: paging_descend_step [OF inv root len(1) vpn_lt(1) [of va]])
    case 1
    with nz al0 d2 show ?thesis by (simp add: defs Let_def)
  next
    case A: (2 t1 lab1 al1 m1)
    from A(4) have t1: "lab1 t1 = Some [sv39_vpn2 va]" by simp
    have hi1: "unat (al_end al1) \<le> hi" and cur1: "unat (al_current al1) \<le> hi"
      using A(3,10) hi cur by (simp_all add: pt_ext_def max_def split: if_splits)
    note v1 = pt_inv_viewed [OF A(2) cur1 t1]
    note d1 = descend_view [OF A(2) hi1 t1 v1 vpn_lt(2) [of va]]
    show ?thesis
    proof (cases rule: paging_descend_step [OF A(2) t1 len(2) vpn_lt(2) [of va]])
      case 1
      with nz al0 d2 d1 A(1) show ?thesis by (simp add: defs Let_def)
    next
      case B: (2 t0 lab0 al2 m2)
      have cur2: "unat (al_current al2) \<le> hi"
        using B(10) cur1 hi1 by (simp add: max_def split: if_splits)
      have "viewed t0"
        using pt_inv_viewed [OF B(2) cur2 B(4)] .
      with nz al0 d2 d1 A(1) B(1) show ?thesis
        by (simp add: defs Let_def tr_slot)
    qed
  qed
qed

lemma map_range_view:
  assumes "pt_inv lab lo al m r" and "unat (al_end al) \<le> hi" and "unat (al_current al) \<le> hi"
    and "page_aligned vs" "page_aligned ps" "page_aligned mapped"
  shows "paging_map_range_from ptr tr (ptr r) vs ps sz flags mapped al m =
    map_from r vs ps sz flags mapped al m"
  using assms
proof (induction mapped al m arbitrary: lab
    rule: map_from_induct [where r = r and vs = vs and ps = ps and sz = sz and flags = flags])
  case (1 mapped al m)
  note view = map_view [OF 1(2-4)]
  note unfold = paging_map_range_from.simps [of ptr tr _ _ _ _ _ mapped]
    map_from_unfold [of _ _ _ _ _ mapped]
  show ?case
  proof (cases "mapped < align_up sz PAGE_SIZE")
    case False
    then show ?thesis by (simp add: unfold)
  next
    case True
    obtain ok1 al1 m1 where
      run: "paging_map_early r (vs + mapped) (ps + mapped) flags al m = (ok1, al1, m1)"
      by (cases "paging_map_early r (vs + mapped) (ps + mapped) flags al m")
    have al: "page_aligned (vs + mapped)" "page_aligned (ps + mapped)"
      using 1 by simp_all
    obtain lab1 where S: "pt_inv lab1 lo al1 m1 r" "pt_ext lab al m lab1 al1 m1"
      "unat (al_current al1) \<le> max (unat (al_current al)) (unat (al_end al))"
      by (rule paging_map_early_step [OF 1(2) al run]) blast
    show ?thesis
    proof (cases ok1)
      case False
      with True view run show ?thesis by (simp add: unfold)
    next
      case ok1: True
      have "page_aligned (mapped + PAGE_SIZE)"
        using 1(7) by (intro page_aligned_plus) (simp_all add: page_aligned_def)
      moreover have "unat (al_end al1) \<le> hi" "unat (al_current al1) \<le> hi"
        using S(2,3) 1(3,4) by (simp_all add: pt_ext_def max_def split: if_splits)
      ultimately show ?thesis
        using 1(1) [OF True _ S(1)] 1(5,6) True view run ok1 by (simp add: unfold)
    qed
  qed
qed

lemma query_view:
  assumes inv: "pt_inv lab lo al m r" and cur: "unat (al_current al) \<le> hi"
  shows "paging_query_with ptr tr (ptr r) va m = paging_query_early r va m"
proof -
  note root = pt_inv_root [OF inv]
  have vr: "viewed r"
    using pt_inv_viewed [OF inv cur root] .
  have nz: "r \<noteq> 0" "ptr r \<noteq> 0"
    using pt_inv_root_nonnull [OF inv] ptr_nonnull [of r] vr by (auto simp: viewed_def)
  have t1: "lab t1 = Some [sv39_vpn2 va]" if "follow m r (sv39_vpn2 va) = Some t1" for t1
    using follow_label [OF inv root _ _ that] by simp
  have t0: "lab t0 = Some [sv39_vpn2 va, sv39_vpn1 va]"
    if "follow m r (sv39_vpn2 va) = Some t1" "follow m t1 (sv39_vpn1 va) = Some t0" for t1 t0
    using follow_label [OF inv t1 [OF that(1)] _ _ that(2)] by simp
  note seen = tr_slot [OF pt_inv_viewed [OF inv cur]]
  show ?thesis
    using nz t1 t0
    by (auto simp: paging_query_with_def paging_query_early_def phys_to_ptr_early_id Let_def
        tr_slot [OF vr] follow_def entry_def seen [OF t1] seen [OF t0])
qed

end

section \<open>The two views of the program\<close>

interpretation early: table_view phys_to_ptr_early "\<lambda>a. a" 1 "2 ^ 64"
  by unfold_locales (auto simp: phys_to_ptr_early_def)

lemma phys_to_virt_nonnull: "unat p < 2 ^ 38 \<Longrightarrow> phys_to_virt p \<noteq> 0"
  by (auto simp: phys_to_virt_def KERNEL_DIRECT_MAP_BASE_def eq_neg_iff_add_eq_0 [symmetric])

lemma virt_to_phys_inverse [simp]: "virt_to_phys (phys_to_virt p) = p"
  by (simp add: phys_to_virt_def virt_to_phys_def)

interpretation late: table_view phys_to_virt_ptr virt_to_phys 1 "2 ^ 38"
  by unfold_locales (auto simp: phys_to_virt_ptr_def phys_to_virt_nonnull, simp add: phys_to_virt_def)

text \<open>
  What the late copy relies on: the processor's translation of direct-map addresses of the
  memory the allocator hands out.
\<close>

definition direct_map :: "(u64 \<Rightarrow> u64) \<Rightarrow> nat \<Rightarrow> nat \<Rightarrow> bool" where
  "direct_map tr lo hi \<longleftrightarrow>
     hi \<le> 2 ^ 38 \<and> (\<forall>p. lo \<le> unat p \<and> unat p < hi \<longrightarrow> tr (phys_to_virt p) = p)"

lemma direct_map_view: "direct_map tr lo hi \<Longrightarrow> table_view phys_to_virt_ptr tr lo hi"
  by (rule table_view.intro)
    (auto simp: direct_map_def phys_to_virt_ptr_def phys_to_virt_nonnull, simp add: phys_to_virt_def)

lemma virt_to_phys_direct: "direct_map virt_to_phys lo (2 ^ 38)"
  by (simp add: direct_map_def)

theorem paging_map_late:
  assumes "direct_map tr lo hi" and "pt_inv lab lo al m r"
    and "unat (al_end al) \<le> hi" "unat (al_current al) \<le> hi"
  shows "paging_map tr (phys_to_virt r) va pa flags al m = paging_map_early r va pa flags al m"
  using table_view.map_view [OF direct_map_view [OF assms(1)] assms(2-4)]
  by (simp add: paging_map_def phys_to_virt_ptr_def)

lemma paging_map_range_late:
  assumes "direct_map tr lo hi" and "pt_inv lab lo al m r"
    and "unat (al_end al) \<le> hi" "unat (al_current al) \<le> hi" "page_aligned vs" "page_aligned ps"
  shows "paging_map_range tr (phys_to_virt r) vs ps sz flags al m =
    paging_map_range_early r vs ps sz flags al m"
  using table_view.map_range_view [OF direct_map_view [OF assms(1)] assms(2-6), of 0]
  unfolding paging_map_range_early_eq
  by (simp add: paging_map_range_def paging_map_range_with_def phys_to_virt_ptr_def
      map_from_unfold [of r vs ps 0])

lemma paging_query_late:
  assumes "direct_map tr lo hi" and "pt_inv lab lo al m r" and "unat (al_current al) \<le> hi"
  shows "paging_query tr (phys_to_virt r) va m = paging_query_early r va m"
  using table_view.query_view [OF direct_map_view [OF assms(1)] assms(2,3)]
  by (simp add: paging_query_def phys_to_virt_ptr_def)

end
