(* ===== verification/Mmu.thy ===== *)
theory Mmu
  imports Paging_Correct Csr
begin

text \<open>
  The address translation of the processor the kernel programs: the Sv39 page-table walk and the
  permission check of the RISC-V privileged architecture, as far as the tables of this kernel
  exercise them (\<open>MXR\<close> is never set, and the accessed and dirty bits are not set by hardware, so a
  clear one faults). It is the counterpart of \<^verbatim>\<open>Paging.cpp\<close>: what the entries that code writes mean.
\<close>

section \<open>The page-table walk\<close>

datatype privilege = UserMode | SupervisorMode

datatype access = LoadAccess | StoreAccess | FetchAccess

definition sv39_canonical :: "u64 \<Rightarrow> bool" where
  "sv39_canonical va \<longleftrightarrow> drop_bit 38 va = 0 \<or> drop_bit 38 va = mask 26"

definition vpn_at :: "nat \<Rightarrow> u64 \<Rightarrow> u64" where
  "vpn_at level va = take_bit 9 (drop_bit (12 + 9 * level) va)"

definition pte_ppn :: "u64 \<Rightarrow> u64" where
  "pte_ppn pte = take_bit 44 (drop_bit 10 pte)"

text \<open>
  The walk from a table at a level down: the physical address and the leaf entry, or \<open>None\<close> for a
  page fault. A leaf above level 0 maps a superpage, which must be aligned.
\<close>

fun hw_walk :: "nat \<Rightarrow> mem \<Rightarrow> u64 \<Rightarrow> u64 \<Rightarrow> (u64 \<times> u64) option" where
  "hw_walk level m table va =
     (let pte = ld64 m (table + 8 * vpn_at level va)
      in if \<not> bit pte 0 \<or> \<not> bit pte 1 \<and> bit pte 2 \<or> drop_bit 54 pte \<noteq> 0 then None
         else if bit pte 1 \<or> bit pte 3 then
           (if take_bit (9 * level) (pte_ppn pte) \<noteq> 0 then None
            else Some (push_bit 12 (pte_ppn pte) + take_bit (12 + 9 * level) va, pte))
         else (case level of
                 0 \<Rightarrow> None
               | Suc level' \<Rightarrow> hw_walk level' m (push_bit 12 (pte_ppn pte)) va))"

declare hw_walk.simps [simp del]

definition access_allowed :: "u64 \<Rightarrow> privilege \<Rightarrow> access \<Rightarrow> u64 \<Rightarrow> bool" where
  "access_allowed sstatus priv acc pte \<longleftrightarrow>
     bit pte 6 \<and>
     (case acc of
        LoadAccess \<Rightarrow> bit pte 1
      | StoreAccess \<Rightarrow> bit pte 2 \<and> bit pte 7
      | FetchAccess \<Rightarrow> bit pte 3) \<and>
     (case priv of
        UserMode \<Rightarrow> bit pte 4
      | SupervisorMode \<Rightarrow> bit pte 4 \<longrightarrow> acc \<noteq> FetchAccess \<and> bit sstatus 18)"

text \<open>\<open>satp\<close> holds the mode (0 is no translation, 8 is Sv39) and the page number of the root.\<close>

definition mmu_translate :: "machine \<Rightarrow> privilege \<Rightarrow> access \<Rightarrow> u64 \<Rightarrow> u64 option" where
  "mmu_translate s priv acc va =
     (let satp = csr_satp s
      in if drop_bit 60 satp = 0 then Some va
         else if drop_bit 60 satp \<noteq> 8 \<or> \<not> sv39_canonical va then None
         else (case hw_walk 2 (pmem s) (push_bit 12 (take_bit 44 satp)) va of
                 None \<Rightarrow> None
               | Some (pa, pte) \<Rightarrow>
                   if access_allowed (csr_sstatus s) priv acc pte then Some pa else None))"

section \<open>The code's tables mean what the code looks up\<close>

lemma vpn_at_eq:
  "vpn_at 2 va = sv39_vpn2 va" "vpn_at 1 va = sv39_vpn1 va" "vpn_at 0 va = sv39_vpn0 va"
  by (simp_all add: vpn_at_def sv39_vpn2_def sv39_vpn1_def sv39_vpn0_def and_mask_bits)

lemma push_ppn: "push_bit 12 (pte_ppn pte) = phys_addr_from_pte pte"
  by (simp add: pte_ppn_def phys_addr_from_pte_def and_mask_bits)

lemma bit_flag: "n < 64 \<Longrightarrow> bit (push_bit n 1 :: u64) k \<longleftrightarrow> k = n"
  unfolding bit_push_bit_iff bit_1_iff by auto

lemma bit_pte_flags:
  "bit PTE_V k \<longleftrightarrow> k = 0" "bit PTE_R k \<longleftrightarrow> k = 1" "bit PTE_W k \<longleftrightarrow> k = 2" "bit PTE_X k \<longleftrightarrow> k = 3"
  "bit PTE_U k \<longleftrightarrow> k = 4" "bit PTE_A k \<longleftrightarrow> k = 6" "bit PTE_D k \<longleftrightarrow> k = 7"
  unfolding pte_consts by (rule bit_flag; simp)+

lemma and_flag_iff:
  "e AND PTE_R \<noteq> 0 \<longleftrightarrow> bit e 1" "e AND PTE_W \<noteq> 0 \<longleftrightarrow> bit e 2" "e AND PTE_X \<noteq> 0 \<longleftrightarrow> bit e 3"
  "e AND PTE_U \<noteq> 0 \<longleftrightarrow> bit e 4"
proof -
  have *: "e AND push_bit n 1 \<noteq> 0 \<longleftrightarrow> bit e n" for n
    by (simp add: bit_iff_and_push_bit_not_eq_0)
  show "e AND PTE_R \<noteq> 0 \<longleftrightarrow> bit e 1" "e AND PTE_W \<noteq> 0 \<longleftrightarrow> bit e 2" "e AND PTE_X \<noteq> 0 \<longleftrightarrow> bit e 3"
    "e AND PTE_U \<noteq> 0 \<longleftrightarrow> bit e 4"
    unfolding pte_consts by (rule *)+
qed

lemma and_flag_zero: "e AND PTE_U = 0 \<longleftrightarrow> \<not> bit e 4"
  using and_flag_iff(4) by blast

lemma pte_is_leaf_bits: "pte_is_leaf e \<longleftrightarrow> bit e 1 \<or> bit e 2 \<or> bit e 3"
proof -
  have "x = 0 \<longleftrightarrow> (\<forall>n < 64. \<not> bit x n)" for x :: u64
    by (auto intro: bit_word_eqI)
  then have "pte_is_leaf e \<longleftrightarrow> (\<exists>n < 64. bit e n \<and> (n = 1 \<or> n = 2 \<or> n = 3))"
    unfolding pte_is_leaf_def by (simp add: bit_and_iff bit_or_iff bit_pte_flags)
  moreover have "(1 :: nat) < 64" "(2 :: nat) < 64" "(3 :: nat) < 64"
    by simp_all
  ultimately show ?thesis
    by blast
qed

lemma hw_walk_follow:
  assumes "follow m t (vpn_at (Suc l) va) = Some u" "drop_bit 54 (entry m t (vpn_at (Suc l) va)) = 0"
  shows "hw_walk (Suc l) m t va = hw_walk l m u va"
  using assms
  by (subst hw_walk.simps) (simp add: follow_def entry_def Let_def push_ppn pte_is_valid_bit
      pte_is_leaf_bits split: if_splits)

lemma hw_walk_invalid: "\<not> pte_is_valid (entry m t (vpn_at l va)) \<Longrightarrow> hw_walk l m t va = None"
  by (subst hw_walk.simps) (simp add: entry_def Let_def pte_is_valid_bit)

definition leaf_well_formed :: "u64 \<Rightarrow> bool" where
  "leaf_well_formed e \<longleftrightarrow> (bit e 1 \<or> bit e 3) \<and> (bit e 2 \<longrightarrow> bit e 1) \<and> drop_bit 54 e = 0"

text \<open>Below an intact root the walk of the processor finds what \<open>pt_lookup\<close> finds.\<close>

lemma hw_walk_lookup:
  assumes inv: "pt_inv lab lo al m r"
  shows "pt_lookup m r va = None \<Longrightarrow> hw_walk 2 m r va = None"
    and "pt_lookup m r va = Some e \<Longrightarrow> hw_walk 2 m r va =
           (if leaf_well_formed e then Some (phys_addr_from_pte e + take_bit 12 va, e) else None)"
proof -
  note root = pt_inv_root [OF inv]
  note vpn = vpn_at_eq [of va, simplified numeral_2_eq_2 One_nat_def]
  have high: "drop_bit 54 (entry m t i) = 0"
    if "lab t = Some p" "length p < 2" "i < 512" "follow m t i \<noteq> None" for t p i
    using pt_inv_table [OF inv that(1)] that by (auto simp: table_ok_def follow_def split: if_splits)
  have t1: "lab t1 = Some [sv39_vpn2 va]" if "follow m r (sv39_vpn2 va) = Some t1" for t1
    using follow_label [OF inv root _ _ that] by simp
  have step2: "hw_walk 2 m r va = hw_walk 1 m t1 va" if "follow m r (sv39_vpn2 va) = Some t1" for t1
    using hw_walk_follow [of m r 1 va t1] high [OF root] that
    by (simp add: vpn numeral_2_eq_2)
  have step1: "hw_walk 1 m t1 va = hw_walk 0 m t0 va"
    if "follow m r (sv39_vpn2 va) = Some t1" "follow m t1 (sv39_vpn1 va) = Some t0" for t1 t0
    using hw_walk_follow [of m t1 0 va t0] high [OF t1 [OF that(1)]] that by (simp add: vpn)
  show "hw_walk 2 m r va = None" if "pt_lookup m r va = None"
  proof (cases "follow m r (sv39_vpn2 va)")
    case None
    then show ?thesis
      using follow_None [OF inv root] by (intro hw_walk_invalid) (simp add: vpn_at_eq)
  next
    case (Some u1)
    show ?thesis
    proof (cases "follow m u1 (sv39_vpn1 va)")
      case None
      then have "hw_walk 1 m u1 va = None"
        using follow_None [OF inv t1 [OF Some]] vpn_at_eq(2) [of va]
        by (intro hw_walk_invalid) simp
      with step2 [OF Some] show ?thesis by simp
    next
      case u0: (Some u0)
      with Some that have "hw_walk 0 m u0 va = None"
        by (intro hw_walk_invalid) (simp add: vpn_at_eq pt_lookup_def split: if_splits)
      with step2 [OF Some] step1 [OF Some u0] show ?thesis by simp
    qed
  qed
  show "hw_walk 2 m r va =
      (if leaf_well_formed e then Some (phys_addr_from_pte e + take_bit 12 va, e) else None)"
    if look: "pt_lookup m r va = Some e"
  proof -
    from look obtain u1 u0 where u: "follow m r (sv39_vpn2 va) = Some u1"
      "follow m u1 (sv39_vpn1 va) = Some u0" "entry m u0 (sv39_vpn0 va) = e" "pte_is_valid e"
      by (auto simp: pt_lookup_def split: option.splits if_splits)
    then have "hw_walk 0 m u0 va =
        (if leaf_well_formed e then Some (phys_addr_from_pte e + take_bit 12 va, e) else None)"
      by (subst hw_walk.simps)
        (auto simp: vpn_at_eq entry_def leaf_well_formed_def pte_is_valid_bit push_ppn)
    with step2 [OF u(1)] step1 [OF u(1,2)] show ?thesis by simp
  qed
qed

text \<open>What the entries written for a region allow.\<close>

lemma leaf_pte_low:
  assumes "unat flags < 1024" "k < 10"
  shows "bit (leaf_pte pa flags) k \<longleftrightarrow> bit flags k \<or> k = 0 \<or> k = 6 \<or> k = 7"
proof -
  have "bit (leaf_pte pa flags) k \<longleftrightarrow> bit (leaf_pte pa flags AND 0x3FF) k"
    unfolding and_mask_bits using assms(2) by (simp add: bit_simps)
  also have "leaf_pte pa flags AND 0x3FF = flags OR PTE_V OR PTE_A OR PTE_D"
    using assms(1) by (simp add: leaf_pte_def pte_low_bits unat_flags_or)
  finally show ?thesis
    by (auto simp: bit_or_iff bit_pte_flags)
qed

lemma leaf_pte_well_formed:
  assumes "unat pa < 2 ^ 56" "unat flags < 1024" "bit flags 1 \<or> bit flags 3" "bit flags 2 \<longrightarrow> bit flags 1"
  shows "leaf_well_formed (leaf_pte pa flags)"
  using assms pte_high_bits [OF assms(1) unat_flags_or [OF assms(2)]]
  by (simp add: leaf_well_formed_def leaf_pte_low) (simp add: leaf_pte_def)

end
