(* ===== verification/Paging_Init.thy ===== *)
theory Paging_Init
  imports Paging_View Mmu
begin

text \<open>
  Turning paging on (\<^verbatim>\<open>paging_init\<close> in \<^verbatim>\<open>src/kernel/Paging.cpp\<close>): the kernel's sections, the UART
  page and the device tree are mapped at their physical addresses, all of RAM in the direct map,
  and \<open>satp\<close> is switched to the new tables. The symbols of the linker script are a record.
\<close>

section \<open>The code\<close>

record kernel_layout =
  ks_text_start :: u64
  ks_text_end :: u64
  ks_rodata_start :: u64
  ks_rodata_end :: u64
  ks_data_start :: u64
  ks_data_end :: u64
  ks_bss_start :: u64
  ks_bss_end :: u64

text \<open>The result is the returned flag, the \<open>root\<close> out parameter, the allocator and the machine.\<close>

definition paging_init ::
  "kernel_layout \<Rightarrow> physical_page_allocator \<Rightarrow> platform_info \<Rightarrow> machine \<Rightarrow>
   bool \<times> u64 \<times> physical_page_allocator \<times> machine" where
  "paging_init L allocator platform s =
     (case paging_create_root_table allocator (pmem s) of (root, allocator, m) \<Rightarrow>
      if root = 0 then (False, root, allocator, s\<lparr>pmem := m\<rparr>)
      else
      (case paging_map_range_early root (ks_text_start L) (ks_text_start L)
             (ks_text_end L - ks_text_start L) (PTE_R OR PTE_X) allocator m of
        (False, allocator, m) \<Rightarrow> (False, root, allocator, s\<lparr>pmem := m\<rparr>)
      | (True, allocator, m) \<Rightarrow>
      (case paging_map_range_early root (ks_rodata_start L) (ks_rodata_start L)
             (ks_rodata_end L - ks_rodata_start L) PTE_R allocator m of
        (False, allocator, m) \<Rightarrow> (False, root, allocator, s\<lparr>pmem := m\<rparr>)
      | (True, allocator, m) \<Rightarrow>
      (case paging_map_range_early root (ks_data_start L) (ks_data_start L)
             (ks_data_end L - ks_data_start L) (PTE_R OR PTE_W) allocator m of
        (False, allocator, m) \<Rightarrow> (False, root, allocator, s\<lparr>pmem := m\<rparr>)
      | (True, allocator, m) \<Rightarrow>
      (case paging_map_range_early root (ks_bss_start L) (ks_bss_start L)
             (ks_bss_end L - ks_bss_start L) (PTE_R OR PTE_W) allocator m of
        (False, allocator, m) \<Rightarrow> (False, root, allocator, s\<lparr>pmem := m\<rparr>)
      | (True, allocator, m) \<Rightarrow>
      let uart_page = pf_uart_base platform AND NOT (PAGE_SIZE - 1) in
      (case paging_map_range_early root uart_page uart_page PAGE_SIZE (PTE_R OR PTE_W)
             allocator m of
        (False, allocator, m) \<Rightarrow> (False, root, allocator, s\<lparr>pmem := m\<rparr>)
      | (True, allocator, m) \<Rightarrow>
      let dtb_page_base = pf_dtb_addr platform AND NOT (PAGE_SIZE - 1);
          dtb_page_end = align_up (pf_dtb_addr platform + pf_dtb_size platform) PAGE_SIZE in
      (case paging_map_range_early root dtb_page_base dtb_page_base (dtb_page_end - dtb_page_base)
             (PTE_R OR PTE_W) allocator m of
        (False, allocator, m) \<Rightarrow> (False, root, allocator, s\<lparr>pmem := m\<rparr>)
      | (True, allocator, m) \<Rightarrow>
      (case paging_map_range_early root (phys_to_virt (pf_ram_base platform))
             (pf_ram_base platform) (pf_ram_size platform) (PTE_R OR PTE_W) allocator m of
        (False, allocator, m) \<Rightarrow> (False, root, allocator, s\<lparr>pmem := m\<rparr>)
      | (True, allocator, m) \<Rightarrow>
      let root_phys = root;
          satp_value = make_satp_sv39 root_phys;
          s = csr_write_satp satp_value (s\<lparr>pmem := m\<rparr>);
          root = phys_to_virt_ptr root_phys;
          s = s\<lparr>g_kernel_root := root\<rparr>
      in (True, root, allocator, s)))))))))"

section \<open>The regions it maps\<close>

type_synonym region = "u64 \<times> u64 \<times> u64 \<times> u64"

definition kernel_regions :: "kernel_layout \<Rightarrow> platform_info \<Rightarrow> region list" where
  "kernel_regions L platform =
     (let uart_page = pf_uart_base platform AND NOT (PAGE_SIZE - 1);
          dtb_page_base = pf_dtb_addr platform AND NOT (PAGE_SIZE - 1);
          dtb_page_end = align_up (pf_dtb_addr platform + pf_dtb_size platform) PAGE_SIZE
      in [(ks_text_start L, ks_text_start L, ks_text_end L - ks_text_start L, PTE_R OR PTE_X),
          (ks_rodata_start L, ks_rodata_start L, ks_rodata_end L - ks_rodata_start L, PTE_R),
          (ks_data_start L, ks_data_start L, ks_data_end L - ks_data_start L, PTE_R OR PTE_W),
          (ks_bss_start L, ks_bss_start L, ks_bss_end L - ks_bss_start L, PTE_R OR PTE_W),
          (uart_page, uart_page, PAGE_SIZE, PTE_R OR PTE_W),
          (dtb_page_base, dtb_page_base, dtb_page_end - dtb_page_base, PTE_R OR PTE_W),
          (phys_to_virt (pf_ram_base platform), pf_ram_base platform, pf_ram_size platform,
             PTE_R OR PTE_W)])"

fun map_regions ::
  "u64 \<Rightarrow> region list \<Rightarrow> physical_page_allocator \<Rightarrow> mem \<Rightarrow>
   bool \<times> physical_page_allocator \<times> mem" where
  "map_regions r [] al m = (True, al, m)"
| "map_regions r ((vs, ps, sz, flags) # rs) al m =
     (case paging_map_range_early r vs ps sz flags al m of
        (False, al, m) \<Rightarrow> (False, al, m)
      | (True, al, m) \<Rightarrow> map_regions r rs al m)"

lemma paging_init_eq:
  "paging_init L al platform s =
     (case paging_create_root_table al (pmem s) of (root, al, m) \<Rightarrow>
        if root = 0 then (False, root, al, s\<lparr>pmem := m\<rparr>)
        else (case map_regions root (kernel_regions L platform) al m of
          (False, al, m) \<Rightarrow> (False, root, al, s\<lparr>pmem := m\<rparr>)
        | (True, al, m) \<Rightarrow>
            (True, phys_to_virt root, al,
             (csr_write_satp (make_satp_sv39 root) (s\<lparr>pmem := m\<rparr>))
               \<lparr>g_kernel_root := phys_to_virt root\<rparr>)))"
  by (simp add: paging_init_def kernel_regions_def Let_def phys_to_virt_ptr_def
      split: prod.split bool.split)

text \<open>An address belongs to a region at an offset \<open>d\<close> (a multiple of the page size).\<close>

definition region_page :: "region \<Rightarrow> u64 \<Rightarrow> bool" where
  "region_page R d = (case R of (vs, ps, sz, flags) \<Rightarrow> in_range 0 sz d)"

definition regions_mapped :: "(u64 \<Rightarrow> u64 option) \<Rightarrow> region list \<Rightarrow> bool" where
  "regions_mapped f rs \<longleftrightarrow>
     (\<forall>(vs, ps, sz, flags) \<in> set rs. \<forall>d. in_range 0 sz d \<longrightarrow>
        f (vs + d) = Some (leaf_pte (ps + d) flags))"

definition outside_regions :: "region list \<Rightarrow> u64 \<Rightarrow> bool" where
  "outside_regions rs va \<longleftrightarrow>
     (\<forall>(vs, ps, sz, flags) \<in> set rs. \<forall>d. in_range 0 sz d \<longrightarrow> vpage va \<noteq> vpage (vs + d))"

text \<open>
  No alignment has to be assumed: a region whose addresses are not page-aligned is refused unless
  it is empty.
\<close>

lemma map_range_correct:
  assumes inv: "pt_inv lab lo al m r"
    and run: "paging_map_range_early r vs ps sz flags al m = (ok, al', m')"
  shows "\<exists>lab'. pt_inv lab' lo al' m' r \<and> pt_ext lab al m lab' al' m' \<and>
    pt_lookup m r \<subseteq>\<^sub>m pt_lookup m' r \<and>
    unat (al_current al') \<le> max (unat (al_current al)) (unat (al_end al)) \<and>
    (ok \<longrightarrow> range_mapped (pt_lookup m r) (pt_lookup m' r) vs ps sz flags 0) \<and>
    (\<forall>va. (\<forall>d. in_range 0 sz d \<longrightarrow> vpage va \<noteq> vpage (vs + d)) \<longrightarrow>
       pt_lookup m' r va = pt_lookup m r va)"
proof (cases "page_aligned vs \<and> page_aligned ps")
  case True
  with paging_map_range_early_correct [OF inv _ _ run] show ?thesis by blast
next
  case False
  then have "paging_map_early r vs ps flags al m = (False, al, m)"
    by (auto simp: paging_map_early_def paging_map_with_def page_aligned_def)
  then have "al' = al \<and> m' = m \<and> (ok \<longrightarrow> \<not> 0 < align_up sz PAGE_SIZE)"
    using run by (auto simp: paging_map_range_early_eq map_from_unfold [of r vs ps sz flags 0]
        split: if_splits)
  with inv show ?thesis
    by (intro exI [of _ lab]) (auto simp: range_mapped_def in_range_none)
qed

lemma map_regions_correct:
  assumes "pt_inv lab lo al m r" and "map_regions r rs al m = (ok, al', m')"
  shows "\<exists>lab'. pt_inv lab' lo al' m' r \<and> pt_ext lab al m lab' al' m' \<and>
    pt_lookup m r \<subseteq>\<^sub>m pt_lookup m' r \<and>
    unat (al_current al') \<le> max (unat (al_current al)) (unat (al_end al)) \<and>
    (ok \<longrightarrow> regions_mapped (pt_lookup m' r) rs) \<and>
    (\<forall>va. outside_regions rs va \<longrightarrow> pt_lookup m' r va = pt_lookup m r va)"
  using assms
proof (induction rs arbitrary: lab al m)
  case Nil
  then show ?case by (intro exI [of _ lab]) (auto simp: regions_mapped_def)
next
  case (Cons R rs)
  obtain vs ps sz flags where R: "R = (vs, ps, sz, flags)" by (cases R)
  obtain ok1 al1 m1 where run: "paging_map_range_early r vs ps sz flags al m = (ok1, al1, m1)"
    by (cases "paging_map_range_early r vs ps sz flags al m")
  from map_range_correct [OF Cons.prems(1) run] obtain lab1 where
    S: "pt_inv lab1 lo al1 m1 r" "pt_ext lab al m lab1 al1 m1"
      "pt_lookup m r \<subseteq>\<^sub>m pt_lookup m1 r"
      "unat (al_current al1) \<le> max (unat (al_current al)) (unat (al_end al))"
      "ok1 \<longrightarrow> range_mapped (pt_lookup m r) (pt_lookup m1 r) vs ps sz flags 0"
      "\<forall>va. (\<forall>d. in_range 0 sz d \<longrightarrow> vpage va \<noteq> vpage (vs + d)) \<longrightarrow>
         pt_lookup m1 r va = pt_lookup m r va"
    by blast
  show ?case
  proof (cases ok1)
    case False
    with Cons.prems(2) run R have "\<not> ok" "al' = al1" "m' = m1" by auto
    with S R show ?thesis by (auto simp: outside_regions_def)
  next
    case ok1: True
    with Cons.prems(2) run R have rest: "map_regions r rs al1 m1 = (ok, al', m')" by simp
    from Cons.IH [OF S(1) rest] obtain lab' where
      I: "pt_inv lab' lo al' m' r" "pt_ext lab1 al1 m1 lab' al' m'"
        "pt_lookup m1 r \<subseteq>\<^sub>m pt_lookup m' r"
        "unat (al_current al') \<le> max (unat (al_current al1)) (unat (al_end al1))"
        "ok \<longrightarrow> regions_mapped (pt_lookup m' r) rs"
        "\<forall>va. outside_regions rs va \<longrightarrow> pt_lookup m' r va = pt_lookup m1 r va"
      by blast
    have "regions_mapped (pt_lookup m' r) (R # rs)" if ok
    proof -
      have "pt_lookup m' r (vs + d) = Some (leaf_pte (ps + d) flags)" if "in_range 0 sz d" for d
        using that S(5) ok1 I(3) by (auto simp: range_mapped_def map_le_def dom_def)
      with I(5) \<open>ok\<close> R show ?thesis by (auto simp: regions_mapped_def)
    qed
    moreover have "pt_lookup m' r va = pt_lookup m r va" if "outside_regions (R # rs) va" for va
      using that S(6) I(6) R by (auto simp: outside_regions_def)
    moreover have "unat (al_current al') \<le> max (unat (al_current al)) (unat (al_end al))"
      using I(4) S(2,4) by (simp add: pt_ext_def max_def split: if_splits)
    ultimately show ?thesis
      using I(1) pt_ext_trans [OF S(2) I(2)] map_le_trans [OF S(3) I(3)] by blast
  qed
qed

section \<open>The root table\<close>

lemma create_root_inv:
  assumes ok: "allocator_ok al" and run: "paging_create_root_table al m = (root, al1, m1)"
  shows "root = 0 \<Longrightarrow> al1 = al \<and> m1 = m \<and> unat (al_end al) < unat (al_current al) + 4096"
    and "root \<noteq> 0 \<Longrightarrow> pt_inv [root \<mapsto> []] (unat (al_current al)) al1 m1 root \<and>
           pt_ext Map.empty al m [root \<mapsto> []] al1 m1 \<and> pt_lookup m1 root = Map.empty \<and>
           unat (al_current al1) = unat (al_current al) + 4096 \<and>
           unat (al_current al1) \<le> unat (al_end al)"
proof -
  have nz: "al_current al \<noteq> 0" and cur: "page_aligned (al_current al)"
    using ok by (auto simp: allocator_ok_def)
  show "al1 = al \<and> m1 = m \<and> unat (al_end al) < unat (al_current al) + 4096" if "root = 0"
    using that run nz
    by (auto simp: paging_create_root_table_def physical_alloc_page_eq [OF ok]
        phys_to_ptr_early_def Let_def split: if_splits)
  assume "root \<noteq> 0"
  with run have space: "unat (al_current al) + 4096 \<le> unat (al_end al)" and
    eq: "root = al_current al" "al1 = al\<lparr>al_current := al_current al + 4096\<rparr>"
      "m1 = paging_zero_table (\<lambda>a. a) (al_current al) m"
    by (auto simp: paging_create_root_table_def physical_alloc_page_eq [OF ok]
        phys_to_ptr_early_def Let_def split: if_splits)
  note adv = allocator_ok_advance [OF ok space]
  have zero: "entry m1 root i = 0" if "i < 512" for i
    using that cur by (simp add: eq entry_zero_table)
  have inv: "pt_inv [root \<mapsto> []] (unat (al_current al)) al1 m1 root"
    using adv cur ok zero by (auto simp: pt_inv_def table_ok_def eq allocator_ok_def)
  have "m1 a = m a" if "page_of a \<noteq> page_of root" for a
    using that cur by (simp add: eq paging_zero_table_bytes)
  then have "pt_ext Map.empty al m [root \<mapsto> []] al1 m1"
    using adv by (auto simp: pt_ext_def eq)
  moreover have "pt_lookup m1 root = Map.empty"
    by (simp add: fun_eq_iff pt_lookup_def follow_def zero)
  ultimately show "pt_inv [root \<mapsto> []] (unat (al_current al)) al1 m1 root \<and>
      pt_ext Map.empty al m [root \<mapsto> []] al1 m1 \<and> pt_lookup m1 root = Map.empty \<and>
      unat (al_current al1) = unat (al_current al) + 4096 \<and>
      unat (al_current al1) \<le> unat (al_end al)"
    using inv adv space by (simp add: eq)
qed

section \<open>What \<open>paging_init\<close> establishes\<close>

text \<open>
  The tables of a kernel whose paging is on: \<open>root\<close> is the direct-map pointer to an intact tree at
  the physical address \<open>r\<close> in \<open>satp\<close>, and the tree maps the regions and nothing else.
\<close>

definition kernel_tables ::
  "kernel_layout \<Rightarrow> platform_info \<Rightarrow> nat \<Rightarrow> (u64 \<rightharpoonup> u64 list) \<Rightarrow> u64 \<Rightarrow>
   physical_page_allocator \<Rightarrow> machine \<Rightarrow> bool" where
  "kernel_tables L platform lo lab r al s \<longleftrightarrow>
     pt_inv lab lo al (pmem s) r \<and> unat r < 2 ^ 56 \<and>
     csr_satp s = make_satp_sv39 r \<and> g_kernel_root s = phys_to_virt r \<and>
     regions_mapped (pt_lookup (pmem s) r) (kernel_regions L platform) \<and>
     (\<forall>va. outside_regions (kernel_regions L platform) va \<longrightarrow> pt_lookup (pmem s) r va = None)"

lemma paging_init_success:
  assumes ok: "allocator_ok al" and run: "paging_init L al platform s = (True, root, al', s')"
  obtains lab r where "kernel_tables L platform (unat (al_current al)) lab r al' s'"
    and "root = phys_to_virt r" and "pt_ext Map.empty al (pmem s) lab al' (pmem s')"
    and "unat (al_current al') \<le> unat (al_end al)"
proof -
  obtain r al1 m1 where c: "paging_create_root_table al (pmem s) = (r, al1, m1)"
    by (cases "paging_create_root_table al (pmem s)")
  with run have nz: "r \<noteq> 0" by (auto simp: paging_init_eq)
  note C = create_root_inv(2) [OF ok c nz]
  obtain al2 m2 where reg: "map_regions r (kernel_regions L platform) al1 m1 = (True, al2, m2)"
    and res: "root = phys_to_virt r" "al' = al2"
      "s' = (csr_write_satp (make_satp_sv39 r) (s\<lparr>pmem := m2\<rparr>))\<lparr>g_kernel_root := phys_to_virt r\<rparr>"
    using run c nz by (auto simp: paging_init_eq split: prod.splits bool.splits)
  from C map_regions_correct [OF _ reg, of "[r \<mapsto> []]" "unat (al_current al)"] obtain lab where
    I: "pt_inv lab (unat (al_current al)) al2 m2 r" "pt_ext [r \<mapsto> []] al1 m1 lab al2 m2"
      "unat (al_current al2) \<le> max (unat (al_current al1)) (unat (al_end al1))"
      "regions_mapped (pt_lookup m2 r) (kernel_regions L platform)"
      "\<forall>va. outside_regions (kernel_regions L platform) va \<longrightarrow>
         pt_lookup m2 r va = pt_lookup m1 r va"
    by auto
  have "unat r < 2 ^ 56"
    using I(1) pt_inv_below [OF I(1) pt_inv_root [OF I(1)]]
    by (auto simp: pt_inv_def allocator_ok_def)
  then have "kernel_tables L platform (unat (al_current al)) lab r al' s'"
    using I C by (simp add: kernel_tables_def res csr_write_satp_def)
  moreover have "pt_ext Map.empty al (pmem s) lab al' (pmem s')"
    using pt_ext_trans [OF _ I(2)] C by (simp add: res csr_write_satp_def)
  moreover have "unat (al_current al') \<le> unat (al_end al)"
    using I(3) C by (simp add: res pt_ext_def)
  ultimately show ?thesis
    using that res(1) by blast
qed

lemma region_entry:
  assumes "kernel_tables L platform lo lab r al s" "pt_lookup (pmem s) r va = Some e"
  obtains vs ps sz flags d where "(vs, ps, sz, flags) \<in> set (kernel_regions L platform)"
    and "in_range 0 sz d" and "vpage va = vpage (vs + d)" and "e = leaf_pte (ps + d) flags"
proof -
  from assms have "\<not> outside_regions (kernel_regions L platform) va"
    by (auto simp: kernel_tables_def)
  then obtain vs ps sz flags d where R: "(vs, ps, sz, flags) \<in> set (kernel_regions L platform)"
    "in_range 0 sz d" "vpage va = vpage (vs + d)"
    unfolding outside_regions_def by fastforce
  then have "pt_lookup (pmem s) r (vs + d) = Some (leaf_pte (ps + d) flags)"
    using assms(1) by (auto simp: kernel_tables_def regions_mapped_def)
  with R assms(2) pt_lookup_vpage [OF R(3)] show ?thesis
    by (intro that [of vs ps sz flags d]) simp_all
qed

text \<open>The permissions of the regions: none is both writable and executable, none is a user page.\<close>

lemma region_flags:
  assumes "(vs, ps, sz, flags) \<in> set (kernel_regions L platform)"
  shows "unat flags < 1024" and "\<not> (bit flags 2 \<and> bit flags 3)" and "\<not> bit flags 4" and "bit flags 1"
  using assms
  by (auto simp: kernel_regions_def Let_def bit_or_iff bit_pte_flags)
    (auto simp: pte_flag_values)

text \<open>A translation inside a region, from the entry of its page.\<close>

lemma page_split: "(x AND NOT (4096 - 1)) + take_bit 12 x = (x :: u64)"
  unfolding and_not_4095 by simp

lemma offset_split:
  assumes "page_aligned vs"
  shows "vpage (vs + x) = vpage (vs + (x AND NOT (4096 - 1)))"
    and "take_bit 12 (vs + x) = take_bit 12 x"
proof -
  have "vs + x = (vs + (x AND NOT (4096 - 1))) + of_nat (unat (take_bit 12 x))"
    unfolding of_nat_unat ucast_id add.assoc page_split ..
  moreover have "page_aligned (vs + (x AND NOT (4096 - 1)))"
    using assms page_aligned_and_not by (rule page_aligned_add)
  moreover have "unat (take_bit 12 x) < 4096"
    by (simp add: unat_take_bit_64)
  ultimately show "vpage (vs + x) = vpage (vs + (x AND NOT (4096 - 1)))"
    by (metis page_of_add vpage_def)
  obtain k where k: "unat vs = 4096 * k"
    using assms by (auto simp: page_aligned_iff)
  have "unat (vs + x) mod 4096 = (unat vs + unat x) mod 4096"
    unfolding unat_word_ariths by (simp add: mod_mod_cancel)
  then show "take_bit 12 (vs + x) = take_bit 12 x"
    by (simp only: u64_eq_iff unat_take_bit_64 k) simp
qed

lemma in_range_page: "x < align_up sz PAGE_SIZE \<Longrightarrow> in_range 0 sz (x AND NOT (4096 - 1))"
  using page_aligned_and_not [of x] unat_and_not_4095 [of x]
  by (auto simp: in_range_def word_less_nat_alt)

definition region_allows :: "u64 \<Rightarrow> access \<Rightarrow> bool" where
  "region_allows flags acc \<longleftrightarrow>
     flags AND (case acc of LoadAccess \<Rightarrow> PTE_R | StoreAccess \<Rightarrow> PTE_W | FetchAccess \<Rightarrow> PTE_X) \<noteq> 0"

lemma region_allows_bit:
  "region_allows flags acc \<longleftrightarrow>
     bit flags (case acc of LoadAccess \<Rightarrow> 1 | StoreAccess \<Rightarrow> 2 | FetchAccess \<Rightarrow> 3)"
  by (cases acc) (simp_all add: region_allows_def and_flag_iff bit_pte_flags)

lemma region_translate:
  assumes tables: "kernel_tables L platform lo lab r al s"
    and reg: "(vs, ps, sz, flags) \<in> set (kernel_regions L platform)"
    and al: "page_aligned vs" "page_aligned ps"
    and bound: "unat ps + unat (align_up sz PAGE_SIZE) \<le> 2 ^ 56"
    and x: "x < align_up sz PAGE_SIZE" and can: "sv39_canonical (vs + x)"
  shows "mmu_translate s SupervisorMode acc (vs + x) =
    (if region_allows flags acc then Some (ps + x) else None)"
proof -
  let ?d = "x AND NOT (4096 - 1)" and ?e = "leaf_pte (ps + (x AND NOT (4096 - 1))) flags"
  have inv: "pt_inv lab lo al (pmem s) r" and r: "unat r < 2 ^ 56" "csr_satp s = make_satp_sv39 r"
    using tables by (auto simp: kernel_tables_def)
  have "pt_lookup (pmem s) r (vs + ?d) = Some ?e"
    using tables reg in_range_page [OF x] by (auto simp: kernel_tables_def regions_mapped_def)
  then have look: "pt_lookup (pmem s) r (vs + x) = Some ?e"
    using pt_lookup_vpage [OF offset_split(1) [OF al(1)]] by metis
  have d: "unat ?d \<le> unat x" "unat x < unat (align_up sz PAGE_SIZE)"
    using x unfolding unat_and_not_4095 by (simp_all add: word_less_nat_alt)
  then have "unat (ps + ?d) = unat ps + unat ?d"
    using bound by (intro unat_add_64) simp
  with d bound have small: "unat (ps + ?d) < 2 ^ 56" by simp
  have aligned: "page_aligned (ps + ?d)"
    using al(2) page_aligned_and_not by (rule page_aligned_add)
  note flags = region_flags [OF reg]
  have wf: "leaf_well_formed ?e"
    using small flags by (intro leaf_pte_well_formed) simp_all
  from hw_walk_lookup(2) [OF inv look]
  have "hw_walk 2 (pmem s) r (vs + x) = Some (ps + x, ?e)"
    unfolding phys_addr_leaf_pte [OF aligned small flags(1)] offset_split(2) [OF al(1)]
      add.assoc page_split using wf by simp
  moreover have "access_allowed (csr_sstatus s) SupervisorMode acc ?e \<longleftrightarrow> region_allows flags acc"
    using flags by (auto simp: access_allowed_def leaf_pte_low region_allows_bit split: access.splits)
  moreover have "r AND NOT (4096 - 1) = r"
    using pt_inv_aligned [OF inv pt_inv_root [OF inv]]
    unfolding and_not_4095 page_aligned_def by simp
  then have "push_bit 12 (take_bit 44 (csr_satp s)) = r"
    using make_satp_mode(2) [OF r(1)] r(2) by simp
  ultimately show ?thesis
    using make_satp_mode(1) [OF r(1)] can
    by (simp add: mmu_translate_def Let_def r(2) SATP_MODE_SV39_def)
qed

text \<open>The direct map is translated to the physical addresses, for as long as \<open>satp\<close> is this one.\<close>

lemma phys_to_virt_canonical: "unat p < 2 ^ 38 \<Longrightarrow> sv39_canonical (phys_to_virt p)"
proof -
  assume p: "unat p < 2 ^ 38"
  then have "unat (phys_to_virt p) = unat p + (2 ^ 26 - 1) * 2 ^ 38"
    by (simp add: phys_to_virt_def KERNEL_DIRECT_MAP_BASE_def unat_add_64)
  with p have "unat (drop_bit 38 (phys_to_virt p)) = 2 ^ 26 - 1"
    by (simp add: unat_drop_bit_64)
  then have "drop_bit 38 (phys_to_virt p) = mask 26"
    by (simp add: u64_eq_iff mask_eq_exp_minus_1)
  then show ?thesis by (simp add: sv39_canonical_def)
qed

lemma direct_map_region:
  "(phys_to_virt (pf_ram_base platform), pf_ram_base platform, pf_ram_size platform,
    PTE_R OR PTE_W) \<in> set (kernel_regions L platform)"
  by (simp add: kernel_regions_def Let_def)

lemma direct_map_translate:
  assumes "kernel_tables L platform lo lab r al s" and "page_aligned (pf_ram_base platform)"
    and "unat (pf_ram_base platform) + unat (align_up (pf_ram_size platform) PAGE_SIZE) \<le> 2 ^ 38"
    and p: "unat (pf_ram_base platform) \<le> unat p"
      "unat p < unat (pf_ram_base platform) + unat (align_up (pf_ram_size platform) PAGE_SIZE)"
  shows "mmu_translate s SupervisorMode acc (phys_to_virt p) =
    (if acc = FetchAccess then None else Some p)"
proof -
  let ?x = "p - pf_ram_base platform"
  have "page_aligned (phys_to_virt (pf_ram_base platform))"
    unfolding phys_to_virt_def using assms(2)
    by (rule page_aligned_add) (simp add: KERNEL_DIRECT_MAP_BASE_def page_aligned_def)
  moreover have "unat ?x = unat p - unat (pf_ram_base platform)"
    using p(1) by (simp add: unat_diff_64 word_le_nat_alt)
  then have "?x < align_up (pf_ram_size platform) PAGE_SIZE"
    using p by (simp add: word_less_nat_alt)
  moreover have v: "phys_to_virt (pf_ram_base platform) + ?x = phys_to_virt p"
    by (simp add: phys_to_virt_def)
  moreover have "sv39_canonical (phys_to_virt p)"
    using assms(3) p(2) by (intro phys_to_virt_canonical) simp
  ultimately show ?thesis
    using region_translate [OF assms(1) direct_map_region, of ?x acc] assms(2,3)
    by (cases acc) (simp_all add: region_allows_bit bit_or_iff bit_pte_flags)
qed

section \<open>When it succeeds\<close>

text \<open>
  Regions that do not overlap in the virtual space, and room for their tables, are enough. The
  conditions are computed from the layout.
\<close>

definition region_pages :: "region \<Rightarrow> nat" where
  "region_pages R = (case R of (vs, ps, sz, flags) \<Rightarrow> unat (align_up sz PAGE_SIZE) div 4096)"

definition region_ok :: "region \<Rightarrow> bool" where
  "region_ok R = (case R of (vs, ps, sz, flags) \<Rightarrow>
     page_aligned vs \<and> page_aligned ps \<and> unat vs + unat (align_up sz PAGE_SIZE) \<le> 2 ^ 64 \<and>
     vpage vs + region_pages R \<le> 2 ^ 27)"

definition regions_apart :: "region \<Rightarrow> region \<Rightarrow> bool" where
  "regions_apart R R' \<longleftrightarrow>
     vpage (fst R) + region_pages R \<le> vpage (fst R') \<or>
     vpage (fst R') + region_pages R' \<le> vpage (fst R)"

definition region_tables :: "region \<Rightarrow> nat" where
  "region_tables R = (case R of (vs, ps, sz, flags) \<Rightarrow>
     if align_up sz PAGE_SIZE = 0 then 0
     else 2 + (table_index (last_page vs sz) - table_index vs))"

lemma region_vpage:
  assumes "region_ok (vs, ps, sz, flags)" "in_range 0 sz d"
  shows "vpage vs \<le> vpage (vs + d)"
    and "vpage (vs + d) < vpage vs + region_pages (vs, ps, sz, flags)"
proof -
  have "unat vs + unat d < 2 ^ 64" "4096 dvd unat vs" "4096 dvd unat d"
    and lt: "unat d < unat (align_up sz PAGE_SIZE)"
    using assms by (auto simp: region_ok_def in_range_def word_less_nat_alt page_aligned_iff)
  then have p: "page_of (vs + d) = page_of vs + page_of d"
    by (auto simp: page_of_def unat_add_64)
  have "4096 dvd unat (align_up sz PAGE_SIZE)"
    using page_aligned_align_up [of sz] by (simp add: page_aligned_iff)
  with lt \<open>4096 dvd unat d\<close> have d: "page_of d < region_pages (vs, ps, sz, flags)"
    by (auto simp: page_of_def region_pages_def)
  have "vpage vs + page_of d < 2 ^ 27"
    using d assms(1) by (simp add: region_ok_def)
  then have "vpage (vs + d) = vpage vs + page_of d"
    using p mod_add_left_eq [of "page_of vs" "2 ^ 27" "page_of d"] by (simp add: vpage_def)
  with d show "vpage vs \<le> vpage (vs + d)"
    "vpage (vs + d) < vpage vs + region_pages (vs, ps, sz, flags)"
    by simp_all
qed

lemma region_range_ok: "region_ok (vs, ps, sz, flags) \<Longrightarrow> range_ok vs sz"
  using page_aligned_align_up [of sz]
  by (auto simp: region_ok_def range_ok_def region_pages_def page_aligned_iff)

lemma tables_needed_le: "tables_needed m r va \<le> 2"
  by (simp add: tables_needed_def)

lemma map_range_total:
  assumes "region_ok (vs, ps, sz, flags)" and inv: "pt_inv lab lo al m r"
    and fresh: "\<And>d. in_range 0 sz d \<Longrightarrow> pt_lookup m r (vs + d) = None"
    and room: "unat (al_current al) + 4096 * region_tables (vs, ps, sz, flags) \<le> unat (al_end al)"
    and run: "paging_map_range_early r vs ps sz flags al m = (ok, al', m')"
  shows "ok \<and> unat (al_current al') \<le> unat (al_current al) + 4096 * region_tables (vs, ps, sz, flags)"
proof (cases "align_up sz PAGE_SIZE = 0")
  case True
  with run show ?thesis
    by (simp add: paging_map_range_early_eq map_from_unfold [of r vs ps sz flags 0])
next
  case False
  then have pos: "0 < align_up sz PAGE_SIZE" by (simp add: word_neq_0_conv)
  have "tables_needed m r vs + (table_index (last_page vs sz) - table_index vs) \<le>
      region_tables (vs, ps, sz, flags)"
    using False tables_needed_le [of m r vs] by (simp add: region_tables_def)
  then show ?thesis
    using map_from_total [OF region_range_ok [OF assms(1)] _ inv, of ps 0 flags ok al' m']
      assms(1) pos fresh room run
    by (simp add: region_ok_def paging_map_range_early_eq)
qed

lemma map_regions_total:
  assumes "pt_inv lab lo al m r" and "\<forall>R \<in> set rs. region_ok R" and "sorted_wrt regions_apart rs"
    and "\<And>vs ps sz flags d. (vs, ps, sz, flags) \<in> set rs \<Longrightarrow> in_range 0 sz d \<Longrightarrow>
           pt_lookup m r (vs + d) = None"
    and "unat (al_current al) + 4096 * sum_list (map region_tables rs) \<le> unat (al_end al)"
  shows "case map_regions r rs al m of (ok, al', m') \<Rightarrow>
    ok \<and> unat (al_current al') \<le> unat (al_current al) + 4096 * sum_list (map region_tables rs)"
  using assms
proof (induction rs arbitrary: lab al m)
  case (Cons R rs)
  obtain vs ps sz flags where R: "R = (vs, ps, sz, flags)" by (cases R)
  obtain ok1 al1 m1 where run: "paging_map_range_early r vs ps sz flags al m = (ok1, al1, m1)"
    by (cases "paging_map_range_early r vs ps sz flags al m")
  have ok: "region_ok (vs, ps, sz, flags)" using Cons.prems(2) R by simp
  have room: "unat (al_current al) + 4096 * region_tables (vs, ps, sz, flags) \<le> unat (al_end al)"
    using Cons.prems(5) R by simp
  have fresh: "pt_lookup m r (vs + d) = None" if "in_range 0 sz d" for d
    using Cons.prems(4) [of vs ps sz flags d] that R by simp
  have S: ok1 "unat (al_current al1) \<le> unat (al_current al) + 4096 * region_tables (vs, ps, sz, flags)"
    using map_range_total [OF ok Cons.prems(1) fresh room run] by simp_all
  from map_range_correct [OF Cons.prems(1) run] obtain lab1 where
    T: "pt_inv lab1 lo al1 m1 r" "pt_ext lab al m lab1 al1 m1"
      "\<forall>va. (\<forall>d. in_range 0 sz d \<longrightarrow> vpage va \<noteq> vpage (vs + d)) \<longrightarrow>
         pt_lookup m1 r va = pt_lookup m r va"
    by blast
  have "case map_regions r rs al1 m1 of (ok, al', m') \<Rightarrow>
      ok \<and> unat (al_current al') \<le> unat (al_current al1) + 4096 * sum_list (map region_tables rs)"
  proof (rule Cons.IH [OF T(1)])
    fix vs' ps' sz' flags' d'
    assume R': "(vs', ps', sz', flags') \<in> set rs" "in_range 0 sz' d'"
    have apart: "regions_apart R (vs', ps', sz', flags')" and ok': "region_ok (vs', ps', sz', flags')"
      using Cons.prems(2,3) R'(1) by auto
    have "vpage (vs' + d') \<noteq> vpage (vs + d)" if "in_range 0 sz d" for d
      using apart region_vpage [OF ok that] region_vpage [OF ok' R'(2)] R
      by (auto simp: regions_apart_def)
    then show "pt_lookup m1 r (vs' + d') = None"
      using T(3) Cons.prems(4) [of vs' ps' sz' flags' d'] R' by simp
  next
    show "unat (al_current al1) + 4096 * sum_list (map region_tables rs) \<le> unat (al_end al1)"
      using S(2) T(2) Cons.prems(5) R by (simp add: pt_ext_def)
  qed (use Cons.prems in auto)
  with S run R show ?case by auto
qed simp

lemma paging_init_enough:
  assumes ok: "allocator_ok al"
    and regions: "\<forall>R \<in> set (kernel_regions L platform). region_ok R"
      "sorted_wrt regions_apart (kernel_regions L platform)"
    and room: "unat (al_current al) +
      4096 * (1 + sum_list (map region_tables (kernel_regions L platform))) \<le> unat (al_end al)"
  shows "fst (paging_init L al platform s)"
    and "paging_init L al platform s = (True, root, al', s') \<Longrightarrow> unat (al_current al') \<le>
      unat (al_current al) + 4096 * (1 + sum_list (map region_tables (kernel_regions L platform)))"
proof -
  obtain r al1 m1 where c: "paging_create_root_table al (pmem s) = (r, al1, m1)"
    by (cases "paging_create_root_table al (pmem s)")
  with create_root_inv(1) [OF ok c] room have nz: "r \<noteq> 0" by auto
  note C = create_root_inv(2) [OF ok c nz]
  have "case map_regions r (kernel_regions L platform) al1 m1 of (ok, al', m') \<Rightarrow>
      ok \<and> unat (al_current al') \<le>
        unat (al_current al1) + 4096 * sum_list (map region_tables (kernel_regions L platform))"
    using C regions room by (intro map_regions_total) (auto simp: pt_ext_def)
  with c nz C show "fst (paging_init L al platform s)"
    and "paging_init L al platform s = (True, root, al', s') \<Longrightarrow> unat (al_current al') \<le>
      unat (al_current al) + 4096 * (1 + sum_list (map region_tables (kernel_regions L platform)))"
    by (auto simp: paging_init_eq split: prod.splits bool.splits)
qed

end
