(* ===== verification/Process.thy ===== *)
theory Process
  imports Paging_Init
begin

text \<open>
  Building the first user process (\<^verbatim>\<open>src/kernel/ProcessMemory.cpp\<close>,
  \<^verbatim>\<open>src/kernel/ProcessLoader.cpp\<close>, \<^verbatim>\<open>src/kernel/User.cpp\<close>): the layout of its address space, mapping
  a region to fresh zeroed pages, copying the image in, and the register context it starts with.
  The code runs with paging on, so \<open>tr\<close> is the processor's translation of the kernel's addresses.
\<close>

section \<open>Layout\<close>

definition USER_CODE_VIRTUAL_BASE :: u64 where "USER_CODE_VIRTUAL_BASE = 0x0000000000400000"

definition USER_TEXT_START :: u64 where "USER_TEXT_START = USER_CODE_VIRTUAL_BASE"

definition USER_STACK_TOP :: u64 where "USER_STACK_TOP = 0x0000003FFFFFF000"

definition USER_STACK_SIZE :: u64 where "USER_STACK_SIZE = 4096"

record memory_region =
  rg_start :: u64
  rg_size :: u64
  rg_flags :: u64

record process_memory_layout =
  ly_text :: memory_region
  ly_rodata :: memory_region
  ly_data :: memory_region
  ly_bss :: memory_region
  ly_heap :: memory_region
  ly_stack :: memory_region
  ly_heap_break :: u64
  ly_stack_top :: u64
  ly_entry :: u64

definition region_end :: "memory_region \<Rightarrow> u64" where
  "region_end region = rg_start region + rg_size region"

definition align_down :: "u64 \<Rightarrow> u64 \<Rightarrow> u64" where
  "align_down value alignment = value AND NOT (alignment - 1)"

definition process_memory_layout_init ::
  "process_memory_layout \<Rightarrow> u64 \<Rightarrow> u64 \<Rightarrow> u64 \<Rightarrow> u64 \<Rightarrow> u64 \<Rightarrow> bool \<times> process_memory_layout" where
  "process_memory_layout_init layout text_size rodata_size data_size bss_size stack_size =
     (let text_size = align_up text_size PAGE_SIZE;
          rodata_size = align_up rodata_size PAGE_SIZE;
          data_size = align_up data_size PAGE_SIZE;
          bss_size = align_up bss_size PAGE_SIZE;
          stack_size = align_up stack_size PAGE_SIZE;
          stack_size = (if stack_size = 0 then PAGE_SIZE else stack_size);
          text_start = USER_TEXT_START;
          rodata_start = text_start + text_size;
          data_start = rodata_start + rodata_size;
          bss_start = data_start + data_size;
          heap_start = bss_start + bss_size;
          stack_top = align_down USER_STACK_TOP PAGE_SIZE;
          stack_start = stack_top - stack_size
      in if stack_start \<le> heap_start then (False, layout)
         else (True,
           \<lparr>ly_text = \<lparr>rg_start = text_start, rg_size = text_size,
                       rg_flags = PTE_R OR PTE_X OR PTE_U\<rparr>,
            ly_rodata = \<lparr>rg_start = rodata_start, rg_size = rodata_size,
                         rg_flags = PTE_R OR PTE_U\<rparr>,
            ly_data = \<lparr>rg_start = data_start, rg_size = data_size,
                       rg_flags = PTE_R OR PTE_W OR PTE_U\<rparr>,
            ly_bss = \<lparr>rg_start = bss_start, rg_size = bss_size,
                      rg_flags = PTE_R OR PTE_W OR PTE_U\<rparr>,
            ly_heap = \<lparr>rg_start = heap_start, rg_size = 0,
                       rg_flags = PTE_R OR PTE_W OR PTE_U\<rparr>,
            ly_stack = \<lparr>rg_start = stack_start, rg_size = stack_size,
                        rg_flags = PTE_R OR PTE_W OR PTE_U\<rparr>,
            ly_heap_break = heap_start, ly_stack_top = stack_top, ly_entry = text_start\<rparr>))"

section \<open>Mapping a region\<close>

function zero_page_from :: "(u64 \<Rightarrow> u64) \<Rightarrow> u64 \<Rightarrow> u64 \<Rightarrow> mem \<Rightarrow> mem" where
  "zero_page_from tr page_bytes i m =
     (if i < PAGE_SIZE then zero_page_from tr page_bytes (i + 1) (m(tr (page_bytes + i) := 0)) else m)"
  by pat_completeness auto
termination
  by (relation "measure (\<lambda>(tr, p, i, m). 4096 - unat i)")
    (use unat_up_less [of _ PAGE_SIZE] in auto)

declare zero_page_from.simps [simp del]

text \<open>
  The loop is entered with a page-aligned size only; the model tests that again in front of the
  loop condition, which makes it total: an aligned size is at most \<open>2 ^ 64 - 4096\<close>, so the offset
  does not wrap.
\<close>

function map_region_from ::
  "(u64 \<Rightarrow> u64) \<Rightarrow> u64 \<Rightarrow> memory_region \<Rightarrow> u64 \<Rightarrow> physical_page_allocator \<Rightarrow> mem \<Rightarrow>
   bool \<times> physical_page_allocator \<times> mem" where
  "map_region_from tr root region offset allocator m =
     (if rg_size region AND (PAGE_SIZE - 1) \<noteq> 0 then (False, allocator, m)
      else if offset < rg_size region then
        (case physical_alloc_page allocator of (physical_page, allocator) \<Rightarrow>
           if physical_page = 0 then (False, allocator, m)
           else let page_bytes = phys_to_virt_ptr physical_page;
                    m = zero_page_from tr page_bytes 0 m
                in (case paging_map tr root (rg_start region + offset) physical_page
                           (rg_flags region) allocator m of
                      (False, allocator, m) \<Rightarrow> (False, allocator, m)
                    | (True, allocator, m) \<Rightarrow>
                        map_region_from tr root region (offset + PAGE_SIZE) allocator m))
      else (True, allocator, m))"
  by pat_completeness auto
termination
proof (relation "measure (\<lambda>(tr, root, region, offset, al, m). 2 ^ 64 - unat offset)", goal_cases)
  case (2 tr root region offset al m)
  then have "page_aligned (rg_size region)" "offset < rg_size region"
    by (simp_all add: page_aligned_def)
  then have "unat offset < 2 ^ 64 - 4096"
    using align_up_le_max [of "rg_size region"] by (simp add: word_less_nat_alt)
  then show ?case
    by (simp add: unat_simps)
qed simp

declare map_region_from.simps [simp del]

definition map_region ::
  "(u64 \<Rightarrow> u64) \<Rightarrow> u64 \<Rightarrow> memory_region \<Rightarrow> physical_page_allocator \<Rightarrow> mem \<Rightarrow>
   bool \<times> physical_page_allocator \<times> mem" where
  "map_region tr root region allocator m =
     (if root = 0 then (False, allocator, m)
      else if rg_start region AND (PAGE_SIZE - 1) \<noteq> 0 then (False, allocator, m)
      else if rg_size region AND (PAGE_SIZE - 1) \<noteq> 0 then (False, allocator, m)
      else map_region_from tr root region 0 allocator m)"

section \<open>Copying the image\<close>

function copy_into_from ::
  "(u64 \<Rightarrow> u64) \<Rightarrow> u64 \<Rightarrow> u64 \<Rightarrow> u64 \<Rightarrow> u64 \<Rightarrow> u64 \<Rightarrow> mem \<Rightarrow> bool \<times> mem" where
  "copy_into_from tr root virtual_address src sz i m =
     (if i < sz then
        (case paging_query tr root (virtual_address + i) m of
           (False, physical_address, flags) \<Rightarrow> (False, m)
         | (True, physical_address, flags) \<Rightarrow>
             copy_into_from tr root virtual_address src sz (i + 1)
               (m(tr (phys_to_virt_ptr physical_address) := m (tr (src + i)))))
      else (True, m))"
  by pat_completeness auto
termination
  by (relation "measure (\<lambda>(tr, root, va, src, sz, i, m). unat sz - unat i)")
    (auto intro: unat_up_less)

declare copy_into_from.simps [simp del]

definition copy_into_region ::
  "(u64 \<Rightarrow> u64) \<Rightarrow> u64 \<Rightarrow> u64 \<Rightarrow> u64 \<Rightarrow> u64 \<Rightarrow> mem \<Rightarrow> bool \<times> mem" where
  "copy_into_region tr root virtual_address src sz m =
     (if root = 0 \<and> sz \<noteq> 0 then (False, m)
      else copy_into_from tr root virtual_address src sz 0 m)"

section \<open>Loading the initial program\<close>

record loaded_user_program =
  pg_entry :: u64
  pg_stack_top :: u64

text \<open>
  The image is the byte range between two linker symbols. A failure returns before the program
  record is written.
\<close>

definition process_load_initial_user_program ::
  "(u64 \<Rightarrow> u64) \<Rightarrow> u64 \<Rightarrow> u64 \<Rightarrow> u64 \<Rightarrow> physical_page_allocator \<Rightarrow> loaded_user_program \<Rightarrow> mem \<Rightarrow>
   bool \<times> loaded_user_program \<times> physical_page_allocator \<times> mem" where
  "process_load_initial_user_program tr image_start image_end root allocator program m =
     (if root = 0 then (False, program, allocator, m)
      else let image_src = image_start;
               image_size = image_end - image_start;
               layout0 = (let z = \<lparr>rg_start = 0, rg_size = 0, rg_flags = 0\<rparr> in
                 \<lparr>ly_text = z, ly_rodata = z, ly_data = z, ly_bss = z, ly_heap = z, ly_stack = z,
                  ly_heap_break = 0, ly_stack_top = 0, ly_entry = 0\<rparr>)
           in (case process_memory_layout_init layout0 image_size 0 0 PAGE_SIZE USER_STACK_SIZE of
                 (False, layout) \<Rightarrow> (False, program, allocator, m)
               | (True, layout) \<Rightarrow>
                   (case map_region tr root (ly_text layout) allocator m of
                      (False, allocator, m) \<Rightarrow> (False, program, allocator, m)
                    | (True, allocator, m) \<Rightarrow>
                        (case map_region tr root (ly_bss layout) allocator m of
                           (False, allocator, m) \<Rightarrow> (False, program, allocator, m)
                         | (True, allocator, m) \<Rightarrow>
                             (case map_region tr root (ly_stack layout) allocator m of
                                (False, allocator, m) \<Rightarrow> (False, program, allocator, m)
                              | (True, allocator, m) \<Rightarrow>
                                  (case copy_into_region tr root (rg_start (ly_text layout))
                                          image_src image_size m of
                                     (False, m) \<Rightarrow> (False, program, allocator, m)
                                   | (True, m) \<Rightarrow>
                                       (True, \<lparr>pg_entry = ly_entry layout,
                                               pg_stack_top = ly_stack_top layout\<rparr>,
                                        allocator, m)))))))"

end
