(* ===== verification/Uart.thy ===== *)
theory Uart
  imports Csr
begin

text \<open>
  The serial console (\<^verbatim>\<open>src/arch/riscv/UART.cpp\<close>, \<^verbatim>\<open>src/utility/printHex.cpp\<close>,
  \<^verbatim>\<open>include/utility/Debug.hpp\<close>, \<^verbatim>\<open>src/kernel/panic.cpp\<close>). A store to the transmit register
  appends to \<open>uart_tx\<close> the address stored to and the byte; each poll of the line status register
  consumes one pair of \<open>uart_rx\<close>, the status and what the receive register would give. Code that
  may not return has an \<open>outcome\<close>: it returns a value, stops in the \<^verbatim>\<open>wfi\<close> loop, waits for input
  that has not come, or takes a fault at an address.
\<close>

section \<open>Outcomes\<close>

datatype 'a outcome =
    Done 'a machine
  | Halted machine
  | Waiting machine
  | Fault u64 machine

fun bind_outcome :: "'a outcome \<Rightarrow> ('a \<Rightarrow> machine \<Rightarrow> 'b outcome) \<Rightarrow> 'b outcome" where
  "bind_outcome (Done a s) f = f a s"
| "bind_outcome (Halted s) f = Halted s"
| "bind_outcome (Waiting s) f = Waiting s"
| "bind_outcome (Fault a s) f = Fault a s"

section \<open>The driver\<close>

definition UART_RHR :: u64 where "UART_RHR = 0"
definition UART_LSR :: u64 where "UART_LSR = 5"
definition UART_LSR_RX_READY :: u8 where "UART_LSR_RX_READY = push_bit 0 1"

definition uart_init :: "u64 \<Rightarrow> machine \<Rightarrow> machine" where
  "uart_init base_address s = s\<lparr>g_uart_base := base_address\<rparr>"

definition uart_base :: "machine \<Rightarrow> u64" where
  "uart_base s = g_uart_base s"

definition uart_reg_offset :: "u64 \<Rightarrow> machine \<Rightarrow> u64" where
  "uart_reg_offset offset s = g_uart_base s + offset"

definition uart_reg :: "machine \<Rightarrow> u64" where
  "uart_reg s = g_uart_base s"

definition uart_putc :: "u8 \<Rightarrow> machine \<Rightarrow> machine" where
  "uart_putc c s = s\<lparr>uart_tx := uart_tx s @ [(uart_reg s, c)]\<rparr>"

text \<open>A C string is the bytes before its terminator; bytes behind a zero byte are not reached.\<close>

fun uart_puts :: "u8 list \<Rightarrow> machine \<Rightarrow> machine" where
  "uart_puts [] s = s"
| "uart_puts (c # cs) s = (if c \<noteq> 0 then uart_puts cs (uart_putc c s) else s)"

text \<open>The polling loop, on the polls that have happened: \<open>None\<close> when none of them was ready.\<close>

fun uart_poll :: "(u8 \<times> u8) list \<Rightarrow> (u8 \<times> (u8 \<times> u8) list) option" where
  "uart_poll [] = None"
| "uart_poll ((lsr, rhr) # rest) =
     (if lsr AND UART_LSR_RX_READY = 0 then uart_poll rest else Some (rhr, rest))"

definition uart_getc :: "machine \<Rightarrow> u8 outcome" where
  "uart_getc s =
     (case uart_poll (uart_rx s) of
        None \<Rightarrow> Waiting (s\<lparr>uart_rx := []\<rparr>)
      | Some (c, rest) \<Rightarrow> Done c (s\<lparr>uart_rx := rest\<rparr>))"

section \<open>Printing\<close>

definition hex_digit :: "u64 \<Rightarrow> u8" where
  "hex_digit d = chars ''0123456789ABCDEF'' ! unat d"

text \<open>The loop over \<open>i = 60, 56, ..., 0\<close>; \<open>n\<close> nibbles are left.\<close>

fun print_hex_from :: "nat \<Rightarrow> u64 \<Rightarrow> machine \<Rightarrow> machine" where
  "print_hex_from 0 value s = s"
| "print_hex_from (Suc n) value s =
     print_hex_from n value (uart_putc (hex_digit (drop_bit (4 * n) value AND 0xF)) s)"

definition print_hex :: "u64 \<Rightarrow> machine \<Rightarrow> machine" where
  "print_hex value s = print_hex_from 16 value (uart_puts (chars ''0x'') s)"

definition debug :: bool where
  "debug = False"

definition debug_prints :: "string \<Rightarrow> machine \<Rightarrow> machine" where
  "debug_prints str s = (if debug then uart_puts (chars str) s else s)"

definition debug_print_hex :: "u64 \<Rightarrow> machine \<Rightarrow> machine" where
  "debug_print_hex val s = (if debug then print_hex val s else s)"

definition panic :: "string \<Rightarrow> string \<Rightarrow> machine \<Rightarrow> 'a outcome" where
  "panic functionName msg s =
     (let s = uart_puts (chars ''Kernel PANIC in '') s;
          s = uart_puts (chars functionName) s;
          s = uart_puts (chars '': '') s;
          s = uart_puts (chars msg) s;
          s = uart_puts [10] s
      in Halted s)"

section \<open>What they do\<close>

definition sent :: "machine \<Rightarrow> u8 list" where
  "sent s = map snd (uart_tx s)"

definition c_string :: "u8 list \<Rightarrow> u8 list" where
  "c_string cs = takeWhile (\<lambda>c. c \<noteq> 0) cs"

lemma uart_puts_tx: "uart_puts cs s = s\<lparr>uart_tx := uart_tx s @ map (Pair (g_uart_base s)) (c_string cs)\<rparr>"
  by (induction cs s rule: uart_puts.induct) (auto simp: uart_putc_def uart_reg_def c_string_def)

lemma debug_prints_id [simp]: "debug_prints str s = s" "debug_print_hex val s = s"
  by (simp_all add: debug_prints_def debug_print_hex_def debug_def)

lemma panic_eq:
  "panic f msg s = Halted (s\<lparr>uart_tx := uart_tx s @ map (Pair (g_uart_base s))
     (chars ''Kernel PANIC in '' @ c_string (chars f) @ chars '': '' @ c_string (chars msg) @ [10])\<rparr>)"
proof -
  have "c_string (chars ''Kernel PANIC in '') = chars ''Kernel PANIC in ''"
    "c_string (chars '': '') = chars '': ''" "c_string [10] = [10]"
    by (simp_all add: c_string_def chars_def)
  then show ?thesis
    by (simp add: panic_def uart_puts_tx)
qed

lemma panic_stops [simp]: "panic f msg s \<noteq> Done a s'" "panic f msg s \<noteq> Fault p s'"
  "panic f msg s \<noteq> Waiting s'"
  by (simp_all add: panic_eq)

text \<open>The sixteen digits, most significant first.\<close>

definition hex_string :: "nat \<Rightarrow> u64 \<Rightarrow> u8 list" where
  "hex_string n v = map (\<lambda>i. hex_digit (drop_bit (4 * i) v AND 0xF)) (rev [0..<n])"

lemma print_hex_from_tx:
  "print_hex_from n v s = s\<lparr>uart_tx := uart_tx s @ map (Pair (g_uart_base s)) (hex_string n v)\<rparr>"
  by (induction n v s rule: print_hex_from.induct)
    (simp_all add: uart_putc_def uart_reg_def hex_string_def)

lemma uart_poll_shorter: "uart_poll rx = Some (c, rest) \<Longrightarrow> length rest < length rx"
  by (induction rx rule: uart_poll.induct) (auto split: if_splits)

lemma uart_poll_None: "uart_poll rx = None \<longleftrightarrow> (\<forall>(l, r) \<in> set rx. l AND UART_LSR_RX_READY = 0)"
  by (induction rx rule: uart_poll.induct) auto

lemma uart_getc_shorter: "uart_getc s = Done c s' \<Longrightarrow> length (uart_rx s') < length (uart_rx s)"
  by (auto simp: uart_getc_def uart_poll_shorter split: option.splits)

end
