(* ===== verification/Syscall.thy ===== *)
theory Syscall
  imports Uart Mmu
begin

text \<open>
  System calls (\<^verbatim>\<open>src/kernel/Syscall.cpp\<close>, \<^verbatim>\<open>include/kernel/Syscall.hpp\<close>) and the register frame
  of \<^verbatim>\<open>include/kernel/Traps.hpp\<close>. The kernel touches user memory directly, with \<open>SUM\<close> set in
  \<open>sstatus\<close>, so each byte goes through the processor's translation in the state of that moment; an
  untranslatable address is a fault inside the kernel.
\<close>

section \<open>The trap frame\<close>

record trap_frame =
  tf_ra :: u64  tf_sp :: u64  tf_gp :: u64  tf_tp :: u64
  tf_t0 :: u64  tf_t1 :: u64  tf_t2 :: u64
  tf_s0 :: u64  tf_s1 :: u64
  tf_a0 :: u64  tf_a1 :: u64  tf_a2 :: u64  tf_a3 :: u64
  tf_a4 :: u64  tf_a5 :: u64  tf_a6 :: u64  tf_a7 :: u64
  tf_s2 :: u64  tf_s3 :: u64  tf_s4 :: u64  tf_s5 :: u64  tf_s6 :: u64
  tf_s7 :: u64  tf_s8 :: u64  tf_s9 :: u64  tf_s10 :: u64  tf_s11 :: u64
  tf_t3 :: u64  tf_t4 :: u64  tf_t5 :: u64  tf_t6 :: u64
  tf_epc :: u64
  tf_status :: u64
  tf_cause :: u64
  tf_tval :: u64

section \<open>Moving bytes between the kernel and the user\<close>

definition ERR_BADF :: u64 where "ERR_BADF = - 9"
definition ERR_FAULT :: u64 where "ERR_FAULT = - 14"
definition ERR_NOSYS :: u64 where "ERR_NOSYS = - 38"

definition SSTATUS_SUM :: u64 where "SSTATUS_SUM = push_bit 18 1"

definition load_byte :: "machine \<Rightarrow> u64 \<Rightarrow> u8 option" where
  "load_byte s va = map_option (pmem s) (mmu_translate s SupervisorMode LoadAccess va)"

definition store_byte :: "machine \<Rightarrow> u64 \<Rightarrow> u8 \<Rightarrow> machine option" where
  "store_byte s va b =
     map_option (\<lambda>pa. s\<lparr>pmem := (pmem s)(pa := b)\<rparr>) (mmu_translate s SupervisorMode StoreAccess va)"

text \<open>\<open>out[i] = in[i]\<close> for \<open>i < size\<close>, into a kernel buffer.\<close>

function copy_in_loop :: "u8 list \<Rightarrow> u64 \<Rightarrow> u64 \<Rightarrow> u64 \<Rightarrow> machine \<Rightarrow> u8 list outcome" where
  "copy_in_loop out user_src sz i s =
     (if i < sz then
        (case load_byte s (user_src + i) of
           None \<Rightarrow> Fault (user_src + i) s
         | Some b \<Rightarrow> copy_in_loop (out[unat i := b]) user_src sz (i + 1) s)
      else Done out s)"
  by pat_completeness auto
termination
  by (relation "measure (\<lambda>(out, src, sz, i, s). unat sz - unat i)") (auto intro: unat_up_less)

text \<open>The destination is \<open>None\<close> for a null pointer.\<close>

definition copy_from_user ::
  "u8 list option \<Rightarrow> u64 \<Rightarrow> u64 \<Rightarrow> machine \<Rightarrow> (bool \<times> u8 list) outcome" where
  "copy_from_user dst user_src sz s =
     (case dst of
        None \<Rightarrow> Done (False, []) s
      | Some out \<Rightarrow>
          if user_src = 0 \<and> sz \<noteq> 0 then Done (False, out) s
          else let old_status = csr_read_sstatus s;
                   s = csr_write_sstatus (old_status OR SSTATUS_SUM) s
               in bind_outcome (copy_in_loop out user_src sz 0 s)
                    (\<lambda>out s. Done (True, out) (csr_write_sstatus old_status s)))"

function copy_out_loop :: "u64 \<Rightarrow> u8 list \<Rightarrow> u64 \<Rightarrow> u64 \<Rightarrow> machine \<Rightarrow> unit outcome" where
  "copy_out_loop user_dst buf sz i s =
     (if i < sz then
        (case store_byte s (user_dst + i) (buf ! unat i) of
           None \<Rightarrow> Fault (user_dst + i) s
         | Some s \<Rightarrow> copy_out_loop user_dst buf sz (i + 1) s)
      else Done () s)"
  by pat_completeness auto
termination
  by (relation "measure (\<lambda>(dst, buf, sz, i, s). unat sz - unat i)") (auto intro: unat_up_less)

declare copy_in_loop.simps [simp del] copy_out_loop.simps [simp del]

definition copy_to_user :: "u64 \<Rightarrow> u8 list option \<Rightarrow> u64 \<Rightarrow> machine \<Rightarrow> bool outcome" where
  "copy_to_user user_dst src sz s =
     (case src of
        None \<Rightarrow> Done False s
      | Some buf \<Rightarrow>
          if user_dst = 0 \<and> sz \<noteq> 0 then Done False s
          else let old_status = csr_read_sstatus s;
                   s = csr_write_sstatus (old_status OR SSTATUS_SUM) s
               in bind_outcome (copy_out_loop user_dst buf sz 0 s)
                    (\<lambda>_ s. Done True (csr_write_sstatus old_status s)))"

section \<open>write\<close>

text \<open>
  The characters of a chunk go out one at a time, each as the string \<open>text\<close> of one character: a
  zero byte is the empty string.
\<close>

fun write_chars :: "u8 list \<Rightarrow> machine \<Rightarrow> machine" where
  "write_chars [] s = s"
| "write_chars (c # cs) s = write_chars cs (uart_puts [c, 0] s)"

definition write_chunk :: "u64 \<Rightarrow> u64" where
  "write_chunk len = (if len < 256 then len else 256)"

lemma write_chunk_decreases: "0 < len \<Longrightarrow> unat (len - write_chunk len) < unat len"
  by (auto simp: write_chunk_def unat_sub word_less_nat_alt word_le_nat_alt not_less)

text \<open>\<open>temp\<close> keeps its bytes from chunk to chunk.\<close>

function syscall_write_loop ::
  "u8 list \<Rightarrow> u64 \<Rightarrow> u64 \<Rightarrow> u64 \<Rightarrow> machine \<Rightarrow> u64 outcome" where
  "syscall_write_loop temp total_written buffer len s =
     (if len > 0 then
        let chunk = write_chunk len
        in bind_outcome (copy_from_user (Some temp) buffer chunk s)
             (\<lambda>r s. if \<not> fst r then Done ERR_FAULT s
                    else syscall_write_loop (snd r) (total_written + chunk) (buffer + chunk)
                           (len - chunk) (write_chars (take (unat chunk) (snd r)) s))
      else Done total_written s)"
  by pat_completeness auto
termination
  by (relation "measure (\<lambda>(temp, total, buffer, len, s). unat len)")
    (auto intro: write_chunk_decreases)

declare syscall_write_loop.simps [simp del]

definition syscall_write :: "u64 \<Rightarrow> u64 \<Rightarrow> u64 \<Rightarrow> machine \<Rightarrow> u64 outcome" where
  "syscall_write fd buffer len s =
     (if fd \<noteq> 1 \<and> fd \<noteq> 2 then Done ERR_BADF s
      else if len = 0 then Done 0 s
      else syscall_write_loop (replicate 256 0) 0 buffer len s)"

section \<open>read\<close>

text \<open>
  The line editor: carriage return becomes newline, backspace and delete remove the last byte and
  erase it on the terminal, everything else is stored and echoed, newline ends the line.
\<close>

definition normalize :: "u8 \<Rightarrow> u8" where
  "normalize c = (if c = 0x0D then 0x0A else c)"

definition erase :: "machine \<Rightarrow> machine" where
  "erase s = uart_putc 0x08 (uart_putc 0x20 (uart_putc 0x08 s))"

function read_line ::
  "u8 list \<Rightarrow> u64 \<Rightarrow> u64 \<Rightarrow> machine \<Rightarrow> (u8 list \<times> u64) outcome" where
  "read_line temp total_read len s =
     (if total_read < len then
        (case uart_getc s of
           Done c s \<Rightarrow>
             let c = normalize c
             in if c = 0x08 \<or> c = 0x7F then
                  (if total_read > 0 then read_line temp (total_read - 1) len (erase s)
                   else read_line temp total_read len s)
                else let temp = temp[unat total_read := c];
                         total_read = total_read + 1;
                         s = uart_putc c s
                     in if c = 0x0A then Done (temp, total_read) s
                        else read_line temp total_read len s
         | Waiting s \<Rightarrow> Waiting s
         | Halted s \<Rightarrow> Halted s
         | Fault a s \<Rightarrow> Fault a s)
      else Done (temp, total_read) s)"
  by pat_completeness auto
termination
  by (relation "measure (\<lambda>(temp, total, len, s). length (uart_rx s))")
    (auto simp: erase_def uart_putc_def dest: uart_getc_shorter [OF sym] uart_getc_shorter)

declare read_line.simps [simp del]

definition syscall_read :: "u64 \<Rightarrow> u64 \<Rightarrow> u64 \<Rightarrow> machine \<Rightarrow> u64 outcome" where
  "syscall_read fd buffer len s =
     (if fd \<noteq> 0 then Done ERR_BADF s
      else if len = 0 then Done 0 s
      else let len = (if len > 256 then 256 else len)
           in bind_outcome (read_line (replicate 256 0) 0 len s)
                (\<lambda>(temp, total_read) s.
                   bind_outcome (copy_to_user buffer (Some temp) total_read s)
                     (\<lambda>ok s. if \<not> ok then Done ERR_FAULT s else Done total_read s)))"

section \<open>exit and the dispatcher\<close>

definition syscall_exit :: "u64 \<Rightarrow> machine \<Rightarrow> 'a outcome" where
  "syscall_exit status s =
     (let s = uart_puts (chars ''User task exited with status '') s;
          s = print_hex status s;
          s = uart_puts (chars ''.'' @ [10]) s
      in Halted s)"

definition SYSCALL_READ :: u64 where "SYSCALL_READ = 63"
definition SYSCALL_WRITE :: u64 where "SYSCALL_WRITE = 64"
definition SYSCALL_EXIT :: u64 where "SYSCALL_EXIT = 93"
definition SYSCALL_EXIT_GROUP :: u64 where "SYSCALL_EXIT_GROUP = 94"

definition syscall_handle :: "trap_frame \<Rightarrow> machine \<Rightarrow> trap_frame outcome" where
  "syscall_handle frame s =
     (let syscall_number = tf_a7 frame
      in if syscall_number = SYSCALL_READ then
           bind_outcome (syscall_read (tf_a0 frame) (tf_a1 frame) (tf_a2 frame) s)
             (\<lambda>a0 s. Done (frame\<lparr>tf_a0 := a0, tf_epc := tf_epc frame + 4\<rparr>) s)
         else if syscall_number = SYSCALL_WRITE then
           bind_outcome (syscall_write (tf_a0 frame) (tf_a1 frame) (tf_a2 frame) s)
             (\<lambda>a0 s. Done (frame\<lparr>tf_a0 := a0, tf_epc := tf_epc frame + 4\<rparr>) s)
         else if syscall_number = SYSCALL_EXIT then
           (let frame = frame\<lparr>tf_epc := tf_epc frame + 4\<rparr> in syscall_exit (tf_a0 frame) s)
         else if syscall_number = SYSCALL_EXIT_GROUP then
           (let frame = frame\<lparr>tf_epc := tf_epc frame + 4\<rparr> in syscall_exit (tf_a0 frame) s)
         else Done (frame\<lparr>tf_a0 := ERR_NOSYS, tf_epc := tf_epc frame + 4\<rparr>) s)"

end
