(* ===== verification/Trap.thy ===== *)
theory Trap
  imports Syscall
begin

text \<open>
  Traps (\<^verbatim>\<open>src/kernel/TrapHandler.cpp\<close>, \<^verbatim>\<open>src/kernel/Traps.cpp\<close>): classifying a trap by its cause
  and origin, and what is done about it. Debug output is compiled in but switched off, so it is a
  call of a function that does nothing.
\<close>

section \<open>Classifying a trap\<close>

definition panic_trap :: "string \<Rightarrow> trap_frame \<Rightarrow> machine \<Rightarrow> 'a outcome" where
  "panic_trap message frame s =
     (let s = debug_prints message s;
          s = debug_prints ''\<newline>sepc: '' s;
          s = debug_print_hex (tf_epc frame) s;
          s = debug_prints ''\<newline>scause: '' s;
          s = debug_print_hex (tf_cause frame) s;
          s = debug_prints ''\<newline>stval: '' s;
          s = debug_print_hex (tf_tval frame) s;
          s = debug_prints ''\<newline>sstatus: '' s;
          s = debug_print_hex (tf_status frame) s;
          s = debug_prints ''\<newline>'' s
      in panic ''panic_trap'' ''Trap fatal.'' s)"

definition trap_code :: "u64 \<Rightarrow> u64" where
  "trap_code cause = cause AND 0x7FFFFFFFFFFFFFFF"

definition trap_is_interrupt :: "u64 \<Rightarrow> bool" where
  "trap_is_interrupt cause \<longleftrightarrow> drop_bit 63 cause \<noteq> 0"

definition trap_from_user :: "trap_frame \<Rightarrow> bool" where
  "trap_from_user frame \<longleftrightarrow> tf_status frame AND SSTATUS_SPP = 0"

section \<open>Handlers\<close>

text \<open>
  The instruction at \<open>epc\<close> is read with an ordinary kernel load of two bytes, whatever mode the
  trap came from.
\<close>

definition advance_trap :: "trap_frame \<Rightarrow> machine \<Rightarrow> trap_frame outcome" where
  "advance_trap frame s =
     (case load_byte s (tf_epc frame) of
        None \<Rightarrow> Fault (tf_epc frame) s
      | Some lo \<Rightarrow>
          (case load_byte s (tf_epc frame + 1) of
             None \<Rightarrow> Fault (tf_epc frame + 1) s
           | Some hi \<Rightarrow>
               let first_half = (ucast lo OR push_bit 8 (ucast hi) :: u16)
               in if first_half AND 0x3 \<noteq> 0x3
                  then Done (frame\<lparr>tf_epc := tf_epc frame + 2\<rparr>) s
                  else Done (frame\<lparr>tf_epc := tf_epc frame + 4\<rparr>) s))"

definition handle_interrupt :: "trap_frame \<Rightarrow> machine \<Rightarrow> trap_frame outcome" where
  "handle_interrupt frame s =
     (let code = trap_code (tf_cause frame)
      in if code = 1 then panic_trap ''Supervisor software interrupt observed: unimplemented.'' frame s
         else if code = 5 then panic_trap ''Supervisor timer interrupt observed: unimplemented.'' frame s
         else if code = 9 then panic_trap ''Supervisor external interrupt observed: unimplemented.'' frame s
         else panic_trap ''Unknown interrupt observed.'' frame s)"

definition handle_supervisor_exception :: "trap_frame \<Rightarrow> machine \<Rightarrow> trap_frame outcome" where
  "handle_supervisor_exception frame s =
     (let code = trap_code (tf_cause frame)
      in if code = 0 then panic_trap ''Supervisor instruction address misaligned.'' frame s
         else if code = 1 then panic_trap ''Supervisor instruction access fault.'' frame s
         else if code = 2 then panic_trap ''Supervisor illegal instruction.'' frame s
         else if code = 3 then advance_trap frame s
         else if code = 4 then panic_trap ''Supervisor load address misaligned.'' frame s
         else if code = 5 then panic_trap ''Supervisor load access fault.'' frame s
         else if code = 6 then panic_trap ''Supervisor store/AMO address misaligned.'' frame s
         else if code = 7 then panic_trap ''Supervisor store/AMO access fault.'' frame s
         else if code = 8 then panic_trap ''ECALL from U-mode reached supervisor exception path unexpectedly.'' frame s
         else if code = 9 then panic_trap ''Unexpected supervisor ecall.'' frame s
         else if code = 12 then panic_trap ''Supervisor instruction page fault.'' frame s
         else if code = 13 then panic_trap ''Supervisor load page fault.'' frame s
         else if code = 15 then panic_trap ''Supervisor store/AMO page fault.'' frame s
         else panic_trap ''Unknown supervisor exception observed.'' frame s)"

definition handle_user_exception :: "trap_frame \<Rightarrow> machine \<Rightarrow> trap_frame outcome" where
  "handle_user_exception frame s =
     (let code = trap_code (tf_cause frame)
      in if code = 0 then panic_trap ''User instruction address misaligned.'' frame s
         else if code = 1 then panic_trap ''User instruction access fault.'' frame s
         else if code = 2 then panic_trap ''User illegal instruction.'' frame s
         else if code = 3 then advance_trap frame s
         else if code = 4 then panic_trap ''User load address misaligned.'' frame s
         else if code = 5 then panic_trap ''User load access fault.'' frame s
         else if code = 6 then panic_trap ''User store/AMO address misaligned.'' frame s
         else if code = 7 then panic_trap ''User store/AMO access fault.'' frame s
         else if code = 8 then syscall_handle frame s
         else if code = 12 then panic_trap ''User instruction page fault.'' frame s
         else if code = 13 then panic_trap ''User load page fault.'' frame s
         else if code = 15 then panic_trap ''User store/AMO page fault.'' frame s
         else panic_trap ''Unknown user exception observed.'' frame s)"

definition handle_exception :: "trap_frame \<Rightarrow> machine \<Rightarrow> trap_frame outcome" where
  "handle_exception frame s =
     (if trap_from_user frame then handle_user_exception frame s
      else handle_supervisor_exception frame s)"

definition trap_handler :: "trap_frame \<Rightarrow> machine \<Rightarrow> trap_frame outcome" where
  "trap_handler frame s =
     (if trap_is_interrupt (tf_cause frame) then handle_interrupt frame s
      else handle_exception frame s)"

section \<open>Entry points and installation\<close>

definition supervisor_trap_handler :: "trap_frame \<Rightarrow> machine \<Rightarrow> trap_frame outcome" where
  "supervisor_trap_handler frame s =
     (let s = debug_prints ''Supervisor Trap Encountered\<newline>'' s;
          is_interrupt = trap_is_interrupt (tf_cause frame);
          from_user = (tf_status frame AND SSTATUS_SPP = 0);
          s = (if is_interrupt then debug_prints ''Type: Interrupt\<newline>'' s
               else debug_prints ''Type: Exception\<newline>'' s);
          s = debug_prints ''Origin: '' s;
          s = debug_prints (if from_user then ''User\<newline>'' else ''Supervisor\<newline>'') s;
          s = debug_prints ''Code: '' s;
          s = debug_print_hex (trap_code (tf_cause frame)) s;
          s = debug_prints ''\<newline>'' s;
          s = debug_prints ''sepc: '' s;
          s = debug_print_hex (tf_epc frame) s;
          s = debug_prints ''\<newline>'' s;
          s = debug_prints ''stval: '' s;
          s = debug_print_hex (tf_tval frame) s;
          s = debug_prints ''\<newline>'' s
      in trap_handler frame s)"

definition machine_trap_handler :: "trap_frame \<Rightarrow> machine \<Rightarrow> trap_frame outcome" where
  "machine_trap_handler frame s =
     (let s = debug_prints ''Machine trap encountered\<newline>'' s;
          s = debug_prints ''mcause: '' s;
          s = debug_print_hex (tf_cause frame) s;
          s = debug_prints ''\<newline>'' s;
          s = debug_prints ''mepc: '' s;
          s = debug_print_hex (tf_epc frame) s;
          s = debug_prints ''\<newline>'' s;
          s = debug_prints ''mtval: '' s;
          s = debug_print_hex (tf_tval frame) s;
          s = debug_prints ''\<newline>'' s
      in panic ''machine_trap_handler'' ''Machine trap observed, execution halted.'' s)"

text \<open>The entry points and stack tops are linker symbols.\<close>

definition machine_traps_init :: "u64 \<Rightarrow> u64 \<Rightarrow> machine \<Rightarrow> machine" where
  "machine_traps_init machine_trap_entry machine_trap_stack_top s =
     csr_write_mscratch machine_trap_stack_top (csr_write_mtvec machine_trap_entry s)"

definition supervisor_traps_init :: "u64 \<Rightarrow> u64 \<Rightarrow> machine \<Rightarrow> machine" where
  "supervisor_traps_init supervisor_trap_entry supervisor_trap_stack_top s =
     csr_write_sscratch supervisor_trap_stack_top (csr_write_stvec supervisor_trap_entry s)"

end
