(* ===== verification/User.thy ===== *)
theory User
  imports Process Trap
begin

text \<open>
  Entering user mode (\<^verbatim>\<open>src/kernel/User.cpp\<close>, \<^verbatim>\<open>include/kernel/User.hpp\<close>): the initial register
  context and the task that loads the first program. The switch itself is the assembler routine
  \<^verbatim>\<open>user_enter\<close>, which does not come back: the model ends with the context it is given.
\<close>

record user_context =
  uc_ra :: u64
  uc_sp :: u64
  uc_gp :: u64
  uc_tp :: u64
  uc_t0 :: u64
  uc_t1 :: u64
  uc_t2 :: u64
  uc_s0 :: u64
  uc_s1 :: u64
  uc_a0 :: u64
  uc_a1 :: u64
  uc_a2 :: u64
  uc_a3 :: u64
  uc_a4 :: u64
  uc_a5 :: u64
  uc_a6 :: u64
  uc_a7 :: u64
  uc_s2 :: u64
  uc_s3 :: u64
  uc_s4 :: u64
  uc_s5 :: u64
  uc_s6 :: u64
  uc_s7 :: u64
  uc_s8 :: u64
  uc_s9 :: u64
  uc_s10 :: u64
  uc_s11 :: u64
  uc_t3 :: u64
  uc_t4 :: u64
  uc_t5 :: u64
  uc_t6 :: u64
  uc_epc :: u64
  uc_status :: u64

definition user_context_init :: "u64 \<Rightarrow> u64 \<Rightarrow> u64 \<Rightarrow> u64 \<Rightarrow> machine \<Rightarrow> user_context" where
  "user_context_init entry_addr stack_top arg0 arg1 s =
     (let status = csr_read_sstatus s;
          status = status AND NOT SSTATUS_SPP;
          status = status OR SSTATUS_SPIE;
          status = status AND NOT SSTATUS_SIE
      in \<lparr>uc_ra = 0, uc_sp = align_down stack_top 16, uc_gp = 0, uc_tp = 0, uc_t0 = 0,
            uc_t1 = 0, uc_t2 = 0, uc_s0 = 0, uc_s1 = 0, uc_a0 = arg0, uc_a1 = arg1, uc_a2 =
            0, uc_a3 = 0, uc_a4 = 0, uc_a5 = 0, uc_a6 = 0, uc_a7 = 0, uc_s2 = 0, uc_s3 = 0,
            uc_s4 = 0, uc_s5 = 0, uc_s6 = 0, uc_s7 = 0, uc_s8 = 0, uc_s9 = 0, uc_s10 = 0,
            uc_s11 = 0, uc_t3 = 0, uc_t4 = 0, uc_t5 = 0, uc_t6 = 0, uc_epc = entry_addr,
            uc_status = status\<rparr>)"

definition enter_user_mode :: "user_context \<Rightarrow> machine \<Rightarrow> user_context outcome" where
  "enter_user_mode context s =
     (let s = debug_prints ''Entering user mode\<newline>'' s;
          s = debug_prints ''  epc: '' s;
          s = debug_print_hex (uc_epc context) s;
          s = debug_prints ''\<newline>'' s;
          s = debug_prints ''  sp : '' s;
          s = debug_print_hex (uc_sp context) s;
          s = debug_prints ''\<newline>'' s
      in Done context s)"

text \<open>
  \<open>tr\<close> is the processor's translation of kernel addresses; the image lies between its two linker
  symbols.
\<close>

definition user_task_init ::
  "(u64 \<Rightarrow> u64) \<Rightarrow> u64 \<Rightarrow> u64 \<Rightarrow> u64 \<Rightarrow> physical_page_allocator \<Rightarrow> u64 \<Rightarrow> u64 \<Rightarrow> machine \<Rightarrow>
   user_context outcome" where
  "user_task_init tr image_start image_end root allocator hartid dtb s =
     (let program = \<lparr>pg_entry = 0, pg_stack_top = 0\<rparr>
      in (case process_load_initial_user_program tr image_start image_end root allocator program
                 (pmem s) of
            (ok, program, allocator, m) \<Rightarrow>
              let s = s\<lparr>pmem := m\<rparr>
              in if \<not> ok then panic ''user_task_init'' ''Failed to load initial user program.'' s
                 else let s = debug_prints ''User code VA : '' s;
                          s = debug_print_hex (pg_entry program) s;
                          s = debug_prints ''\<newline>'' s;
                          s = debug_prints ''User stack VA: '' s;
                          s = debug_print_hex (pg_stack_top program) s;
                          s = debug_prints ''\<newline>'' s;
                          context = user_context_init (pg_entry program) (pg_stack_top program)
                                      hartid dtb s
                      in enter_user_mode context s))"

end
