(* ===== verification/Process_Correct.thy ===== *)
theory Process_Correct
  imports Process
begin

text \<open>
  What loading a process does to the address space: every user page is a fresh page of its own,
  zeroed, that is neither a page table nor memory used before, and the image is what the process
  sees at its start address.
\<close>

section \<open>Writing outside the tables\<close>

lemma page_range:
  assumes "page_aligned t" "page_of a = page_of t"
  shows "unat t \<le> unat a" and "unat a < unat t + 4096"
proof -
  have "unat t = page_of t * 4096"
    using assms(1) by (auto simp: page_of_def page_aligned_iff)
  moreover have "unat a = page_of a * 4096 + unat a mod 4096"
    by (simp add: page_of_def)
  moreover have "unat a mod 4096 < 4096" by simp
  ultimately show "unat t \<le> unat a" "unat a < unat t + 4096"
    using assms(2) by linarith+
qed

definition table_byte :: "(u64 \<rightharpoonup> u64 list) \<Rightarrow> u64 \<Rightarrow> bool" where
  "table_byte lab a \<longleftrightarrow> (\<exists>t. lab t \<noteq> None \<and> page_of a = page_of t)"

lemma entry_frame:
  assumes "page_aligned t" "i < 512" and "\<And>a. page_of a = page_of t \<Longrightarrow> m' a = m a"
  shows "entry m' t i = entry m t i"
  unfolding entry_def
proof (rule ld64_cong)
  fix k :: nat assume k: "k < 8"
  have i: "8 * unat i + k < 4096"
    using assms(2) k by (simp add: word_less_nat_alt)
  have "t + 8 * i + of_nat k = t + of_nat (8 * unat i + k)"
    by simp
  then have "page_of (t + 8 * i + of_nat k) = page_of t"
    using page_of_add [OF assms(1) i] by (simp add: add.assoc)
  then show "m' (t + 8 * i + of_nat k) = m (t + 8 * i + of_nat k)"
    by (rule assms(3))
qed

lemma pt_inv_frame:
  assumes inv: "pt_inv lab lo al m r" and same: "\<And>a. table_byte lab a \<Longrightarrow> m' a = m a"
  shows "pt_inv lab lo al m' r" and "pt_lookup m' r = pt_lookup m r"
proof -
  have ent: "entry m' t i = entry m t i" if "lab t = Some p" "i < 512" for t p i
    using that same by (intro entry_frame pt_inv_aligned [OF inv]) (auto simp: table_byte_def)
  then have fol: "follow m' t i = follow m t i" if "lab t = Some p" "i < 512" for t p i
    using that by (simp add: follow_def)
  have "table_ok lab lo al m' t p" if "lab t = Some p" for t p
    using pt_inv_table [OF inv that] ent [OF that] by (auto simp: table_ok_def)
  with inv show "pt_inv lab lo al m' r"
    by (auto simp: pt_inv_def)
  show "pt_lookup m' r = pt_lookup m r"
  proof
    fix va
    note root = pt_inv_root [OF inv]
    have t1: "lab t1 = Some [sv39_vpn2 va]" if "follow m r (sv39_vpn2 va) = Some t1" for t1
      using follow_label [OF inv root _ _ that] by simp
    have t0: "lab t0 = Some [sv39_vpn2 va, sv39_vpn1 va]"
      if "follow m r (sv39_vpn2 va) = Some t1" "follow m t1 (sv39_vpn1 va) = Some t0" for t1 t0
      using follow_label [OF inv t1 [OF that(1)] _ _ that(2)] by simp
    show "pt_lookup m' r va = pt_lookup m r va"
      by (auto simp: pt_lookup_def fol [OF root] fol [OF t1] ent [OF t0] split: option.split
          dest: t0)
  qed
qed

text \<open>What building a process may do to the rest of memory.\<close>

definition proc_ext ::
  "(u64 \<rightharpoonup> u64 list) \<Rightarrow> physical_page_allocator \<Rightarrow> mem \<Rightarrow>
   (u64 \<rightharpoonup> u64 list) \<Rightarrow> physical_page_allocator \<Rightarrow> mem \<Rightarrow> bool" where
  "proc_ext lab al m lab' al' m' \<longleftrightarrow>
     lab \<subseteq>\<^sub>m lab' \<and> al_end al' = al_end al \<and> unat (al_current al) \<le> unat (al_current al') \<and>
     unat (al_current al') \<le> max (unat (al_current al)) (unat (al_end al)) \<and>
     (\<forall>t. lab' t \<noteq> None \<longrightarrow> lab t \<noteq> None \<or> unat (al_current al) \<le> unat t) \<and>
     (\<forall>a. \<not> table_byte lab a \<longrightarrow>
        \<not> (unat (al_current al) \<le> unat a \<and> unat a < unat (al_current al')) \<longrightarrow> m' a = m a)"

lemma proc_ext_refl [simp]: "proc_ext lab al m lab al m"
  by (simp add: proc_ext_def)

lemma new_table_byte:
  assumes "pt_inv lab' lo al' m' r" and "\<not> table_byte lab a" and "table_byte lab' a"
    and "\<forall>t. lab' t \<noteq> None \<longrightarrow> lab t \<noteq> None \<or> c \<le> unat t"
  shows "c \<le> unat a \<and> unat a < unat (al_current al')"
proof -
  obtain t p where t: "lab' t = Some p" "page_of a = page_of t"
    using assms(3) by (auto simp: table_byte_def)
  then have "lab t = None"
    using assms(2) unfolding table_byte_def by blast
  with assms(4) t have "c \<le> unat t" by auto
  with page_range [OF pt_inv_aligned [OF assms(1) t(1)] t(2)] pt_inv_below [OF assms(1) t(1)] show ?thesis by simp
qed

lemma proc_ext_trans:
  assumes "proc_ext lab al m lab1 al1 m1" "proc_ext lab1 al1 m1 lab2 al2 m2"
    and inv: "pt_inv lab1 lo al1 m1 r"
  shows "proc_ext lab al m lab2 al2 m2"
  unfolding proc_ext_def
proof (intro conjI allI impI)
  show "lab \<subseteq>\<^sub>m lab2"
    using assms by (auto simp: proc_ext_def intro: map_le_trans)
  show "lab t \<noteq> None \<or> unat (al_current al) \<le> unat t" if "lab2 t \<noteq> None" for t
    using that assms unfolding proc_ext_def by (meson le_trans)
  show "unat (al_current al2) \<le> max (unat (al_current al)) (unat (al_end al))"
    using assms by (auto simp: proc_ext_def max_def split: if_splits)
  show "m2 a = m a" if "\<not> table_byte lab a"
    "\<not> (unat (al_current al) \<le> unat a \<and> unat a < unat (al_current al2))" for a
  proof -
    have a: "\<not> (unat (al_current al) \<le> unat a \<and> unat a < unat (al_current al1))"
      "\<not> (unat (al_current al1) \<le> unat a \<and> unat a < unat (al_current al2))"
      using that(2) assms by (auto simp: proc_ext_def)
    moreover have "\<not> table_byte lab1 a"
      using new_table_byte [OF inv that(1), of "unat (al_current al)"] a(1) assms(1)
      by (auto simp: proc_ext_def)
    ultimately show ?thesis
      using assms that(1) by (auto simp: proc_ext_def)
  qed
qed (use assms in \<open>auto simp: proc_ext_def\<close>)

lemma proc_ext_pt_ext:
  assumes "pt_ext lab al m lab' al' m'" and "pt_inv lab' lo al' m' r"
    and "unat (al_current al') \<le> max (unat (al_current al)) (unat (al_end al))"
  shows "proc_ext lab al m lab' al' m'"
  unfolding proc_ext_def
proof (intro conjI allI impI)
  show "m' a = m a" if "\<not> table_byte lab a"
    "\<not> (unat (al_current al) \<le> unat a \<and> unat a < unat (al_current al'))" for a
  proof -
    have "\<not> table_byte lab' a"
      using new_table_byte [OF assms(2) that(1), of "unat (al_current al)"] that(2) assms(1)
      by (auto simp: pt_ext_def)
    then have "\<forall>t. lab' t \<noteq> None \<longrightarrow> page_of a \<noteq> page_of t"
      unfolding table_byte_def by blast
    with assms(1) show ?thesis
      unfolding pt_ext_def by blast
  qed
qed (use assms in \<open>auto simp: pt_ext_def\<close>)

section \<open>Zeroing a page through the direct map\<close>

lemma zero_page_from_bytes:
  assumes dm: "direct_map tr lo hi" and p: "page_aligned p" "lo \<le> unat p" "unat p + 4096 \<le> hi"
  shows "zero_page_from tr (phys_to_virt p) i m a =
    (if page_of a = page_of p \<and> unat p + unat i \<le> unat a then 0 else m a)"
proof (induction i arbitrary: m rule: up_loop_induct [where n = PAGE_SIZE])
  case (step i)
  show ?case
  proof (cases "i < PAGE_SIZE")
    case False
    moreover have "unat a < unat p + 4096" if "page_of a = page_of p"
      using p(1) that by (rule page_range)
    ultimately show ?thesis
      by (auto simp: zero_page_from.simps [of tr "phys_to_virt p" i] word_less_nat_alt)
  next
    case True
    then have i: "unat i < 4096" by (simp add: word_less_nat_alt)
    have u: "unat (p + i) = unat p + unat i"
      using unat_page_add [OF p(1) i] by simp
    have tr: "tr (phys_to_virt p + i) = p + i"
      using dm u i p(2,3) unfolding direct_map_def phys_to_virt_def
      by (metis (no_types, lifting) add.assoc add.commute add_less_cancel_left le_add1 le_trans
          less_le_trans)
    have "page_of (p + i) = page_of p"
      using page_of_add [OF p(1) i] by simp
    moreover have "a \<noteq> p + i \<Longrightarrow> unat p + unat (i + 1) \<le> unat a \<longleftrightarrow> unat p + unat i \<le> unat a"
      using u True by (auto simp: u64_eq_iff unat_Suc_64)
    moreover have "zero_page_from tr (phys_to_virt p) i m a =
        (if page_of a = page_of p \<and> unat p + unat (i + 1) \<le> unat a then 0 else (m(p + i := 0)) a)"
      using True step [OF True]
      by (simp add: zero_page_from.simps [of tr "phys_to_virt p" i] tr)
    ultimately show ?thesis
      using u by (cases "a = p + i") simp_all
  qed
qed

lemma zero_page_bytes:
  assumes "direct_map tr lo hi" and "page_aligned p" "lo \<le> unat p" "unat p + 4096 \<le> hi"
  shows "zero_page_from tr (phys_to_virt p) 0 m a = (if page_of a = page_of p then 0 else m a)"
proof -
  have "unat p \<le> unat a" if "page_of a = page_of p"
    using assms(2) that by (rule page_range)
  then show ?thesis
    by (auto simp: zero_page_from_bytes [OF assms])
qed

section \<open>The pages of a process\<close>

text \<open>
  Every user page is a frame from \<open>base\<close> upwards that has been handed out and is not a table, and
  no two virtual pages share a frame.
\<close>

definition user_entry :: "mem \<Rightarrow> u64 \<Rightarrow> u64 \<Rightarrow> u64 \<Rightarrow> bool" where
  "user_entry m r va e \<longleftrightarrow> pt_lookup m r va = Some e \<and> bit e 4"

definition user_ok ::
  "nat \<Rightarrow> (u64 \<rightharpoonup> u64 list) \<Rightarrow> physical_page_allocator \<Rightarrow> mem \<Rightarrow> u64 \<Rightarrow> bool" where
  "user_ok base lab al m r \<longleftrightarrow>
     base \<le> unat (al_current al) \<and>
     (\<forall>va e. user_entry m r va e \<longrightarrow>
        base \<le> unat (phys_addr_from_pte e) \<and>
        unat (phys_addr_from_pte e) + 4096 \<le> unat (al_current al) \<and>
        lab (phys_addr_from_pte e) = None) \<and>
     (\<forall>va e va' e'. user_entry m r va e \<longrightarrow> user_entry m r va' e' \<longrightarrow>
        phys_addr_from_pte e = phys_addr_from_pte e' \<longrightarrow> vpage va = vpage va')"

lemma user_ok_entry:
  assumes "user_ok base lab al m r" "user_entry m r va e"
  shows "base \<le> unat (phys_addr_from_pte e)"
    and "unat (phys_addr_from_pte e) + 4096 \<le> unat (al_current al)"
    and "lab (phys_addr_from_pte e) = None"
  using assms by (auto simp: user_ok_def)

lemma user_ok_same_lookup:
  assumes "user_ok base lab al m r" and "pt_lookup m' r = pt_lookup m r"
    and "unat (al_current al) \<le> unat (al_current al')"
    and "\<forall>t. lab' t \<noteq> None \<longrightarrow> lab t \<noteq> None \<or> unat (al_current al) \<le> unat t"
  shows "user_ok base lab' al' m' r"
proof -
  have entry: "user_entry m' r = user_entry m r"
    using assms(2) by (simp add: fun_eq_iff user_entry_def)
  have "lab' (phys_addr_from_pte e) = None" if "user_entry m r va e" for va e
    using user_ok_entry [OF assms(1) that] assms(4) by fastforce
  with assms(1,3) show ?thesis
    unfolding user_ok_def entry by (meson le_trans)
qed

lemma user_ok_new_page:
  assumes ok: "user_ok base lab al m r" and p: "page_aligned p" "unat p < 2 ^ 56"
    and bounds: "unat (al_current al) \<le> unat p" "unat p + 4096 \<le> unat (al_current al')"
    and labels: "\<forall>t. lab' t \<noteq> None \<longrightarrow> lab t \<noteq> None \<or> unat p + 4096 \<le> unat t" "lab p = None"
    and flags: "unat flags < 1024" "bit flags 4"
    and look: "pt_lookup m' r = spec_map (pt_lookup m r) va0 (leaf_pte p flags)"
  shows "user_ok base lab' al' m' r"
proof -
  have addr: "phys_addr_from_pte (leaf_pte p flags) = p"
    using p flags by (intro phys_addr_leaf_pte)
  have entry: "user_entry m' r va e \<longleftrightarrow>
      (if vpage va = vpage va0 then e = leaf_pte p flags else user_entry m r va e)" for va e
    using flags by (auto simp: user_entry_def look spec_map_def leaf_pte_low)
  have old: "base \<le> unat (phys_addr_from_pte e) \<and>
      unat (phys_addr_from_pte e) + 4096 \<le> unat (al_current al') \<and>
      lab' (phys_addr_from_pte e) = None \<and> phys_addr_from_pte e \<noteq> p"
    if "user_entry m r va e" for va e
  proof -
    note o = user_ok_entry [OF ok that]
    have "lab' (phys_addr_from_pte e) = None"
      using o(2,3) labels(1) bounds(1) by fastforce
    with o bounds show ?thesis by auto
  qed
  have new: "lab' p = None"
    using labels by fastforce
  have "base \<le> unat (al_current al)"
    using ok by (simp add: user_ok_def)
  with bounds have base: "base \<le> unat p" "base \<le> unat (al_current al')" by simp_all
  show ?thesis
    unfolding user_ok_def
  proof (intro conjI allI impI)
    fix va e assume "user_entry m' r va e"
    then show "base \<le> unat (phys_addr_from_pte e)"
      "unat (phys_addr_from_pte e) + 4096 \<le> unat (al_current al')"
      "lab' (phys_addr_from_pte e) = None"
      using old new base bounds by (auto simp: entry addr split: if_splits)
  next
    fix va e va' e'
    assume u: "user_entry m' r va e" "user_entry m' r va' e'"
      and eq: "phys_addr_from_pte e = phys_addr_from_pte e'"
    have inj: "vpage va = vpage va'" if "user_entry m r va e" "user_entry m r va' e'"
      using ok that eq unfolding user_ok_def by blast
    show "vpage va = vpage va'"
    proof (cases "vpage va = vpage va0"; cases "vpage va' = vpage va0")
      assume "vpage va \<noteq> vpage va0" "vpage va' \<noteq> vpage va0"
      with u inj show ?thesis by (simp add: entry)
    next
      assume "vpage va \<noteq> vpage va0" "vpage va' = vpage va0"
      with u eq old [of va e] addr show ?thesis by (simp add: entry)
    next
      assume "vpage va = vpage va0" "vpage va' \<noteq> vpage va0"
      with u eq old [of va' e'] addr show ?thesis by (simp add: entry)
    qed simp
  qed (rule base)
qed

section \<open>Mapping a region\<close>

lemma pt_inv_advance:
  assumes "pt_inv lab lo al m r" "unat (al_current al) + 4096 \<le> unat (al_end al)"
  shows "pt_inv lab lo (al\<lparr>al_current := al_current al + 4096\<rparr>) m r"
proof -
  have "allocator_ok al"
    using assms(1) by (simp add: pt_inv_def)
  note adv = allocator_ok_advance [OF this assms(2)]
  have "table_ok lab lo (al\<lparr>al_current := al_current al + 4096\<rparr>) m t p" if "lab t = Some p" for t p
    using pt_inv_table [OF assms(1) that] adv by (auto simp: table_ok_def)
  with assms(1) adv show ?thesis
    by (auto simp: pt_inv_def)
qed

lemma map_user_page:
  assumes dm: "direct_map tr lo hi" and inv: "pt_inv lab lo al m r"
    and user: "user_ok base lab al m r"
    and hi: "unat (al_end al) \<le> hi" "unat (al_current al) \<le> hi"
    and alloc: "physical_alloc_page al = (p, al1)" "p \<noteq> 0"
    and run: "paging_map tr (phys_to_virt r) va p flags al1
      (zero_page_from tr (phys_to_virt p) 0 m) = (ok, al', m')"
    and va: "page_aligned va" and flags: "unat flags < 1024" "bit flags 4"
  obtains lab' where "pt_inv lab' lo al' m' r" and "user_ok base lab' al' m' r"
    and "proc_ext lab al m lab' al' m'"
    and "pt_lookup m' r = (if ok then spec_map (pt_lookup m r) va (leaf_pte p flags) else pt_lookup m r)"
    and "ok \<Longrightarrow> pt_lookup m r va = None"
    and "p = al_current al" and "\<And>a. page_of a = page_of p \<Longrightarrow> m' a = 0"
    and "unat (al_current al') \<le> unat (al_current al) + 12288"
    and "pt_lookup m r va = None \<Longrightarrow> unat (al_current al) + 12288 \<le> unat (al_end al) \<Longrightarrow> ok"
proof -
  let ?m1 = "zero_page_from tr (phys_to_virt p) 0 m"
  have alok: "allocator_ok al" using inv by (simp add: pt_inv_def)
  have space: "unat (al_current al) + 4096 \<le> unat (al_end al)" and p: "p = al_current al"
    and al1: "al1 = al\<lparr>al_current := al_current al + 4096\<rparr>"
    using alloc by (auto simp: physical_alloc_page_eq [OF alok] split: if_splits)
  note adv = allocator_ok_advance [OF alok space]
  have pal: "page_aligned p" "unat p < 2 ^ 56"
    using alok space by (auto simp: p allocator_ok_def)
  have "lo \<le> unat p"
    using pt_inv_table [OF inv pt_inv_root [OF inv]] by (auto simp: table_ok_def p)
  then have bytes: "?m1 a = (if page_of a = page_of p then 0 else m a)" for a
    using space hi(1) by (intro zero_page_bytes [OF dm pal(1)]) (simp_all add: p)
  have notable: "\<not> table_byte lab a" if "page_of a = page_of p" for a
    using that page_of_inj [OF pal(1) pt_inv_aligned [OF inv]] pt_inv_fresh [OF inv]
    by (force simp: table_byte_def p)
  have m1: "?m1 a = m a" if "table_byte lab a" for a
    using that notable by (auto simp: bytes)
  have inv1: "pt_inv lab lo al1 ?m1 r" and look1: "pt_lookup ?m1 r = pt_lookup m r"
    using pt_inv_frame [OF pt_inv_advance [OF inv space] m1] by (simp_all add: al1)
  have "unat (al_current al1) \<le> hi" "unat (al_end al1) \<le> hi"
    using space hi adv by (simp_all add: al1)
  with run have run1: "paging_map_early r va p flags al1 ?m1 = (ok, al', m')"
    using paging_map_late [OF dm inv1] by simp
  obtain lab' where S: "pt_inv lab' lo al' m' r" "pt_ext lab al1 ?m1 lab' al' m'"
    "pt_lookup m' r = (if ok then spec_map (pt_lookup ?m1 r) va (leaf_pte p flags) else pt_lookup ?m1 r)"
    "ok \<Longrightarrow> pt_lookup ?m1 r va = None"
    "unat (al_current al') \<le> unat (al_current al1) + 4096 * tables_needed ?m1 r va"
    "pt_lookup ?m1 r va = None \<Longrightarrow>
       unat (al_current al1) + 4096 * tables_needed ?m1 r va \<le> unat (al_end al1) \<Longrightarrow> ok"
    "unat (al_current al') \<le> max (unat (al_current al1)) (unat (al_end al1))"
    by (rule paging_map_early_step [OF inv1 va pal(1) run1]) (rule that)
  have tables: "tables_needed ?m1 r va \<le> 2"
    by (simp add: tables_needed_def)
  have ext1: "proc_ext lab al1 ?m1 lab' al' m'"
    using S(2,1,7) by (rule proc_ext_pt_ext)
  have "?m1 a = m a" if "\<not> (unat p \<le> unat a \<and> unat a < unat p + 4096)" for a
    using that page_range [OF pal(1), of a] by (auto simp: bytes)
  then have "proc_ext lab al m lab al1 ?m1"
    using adv space unfolding proc_ext_def al1 p by simp
  from proc_ext_trans [OF this ext1 inv1] have ext: "proc_ext lab al m lab' al' m'" .
  have labels: "\<forall>t. lab' t \<noteq> None \<longrightarrow> lab t \<noteq> None \<or> unat p + 4096 \<le> unat t"
    using ext1 adv by (auto simp: proc_ext_def al1 p)
  have cur': "unat p + 4096 \<le> unat (al_current al')"
    using ext1 adv by (simp add: proc_ext_def al1 p)
  have user': "user_ok base lab' al' m' r"
  proof (cases ok)
    case True
    with S(3) look1 have "pt_lookup m' r = spec_map (pt_lookup m r) va (leaf_pte p flags)" by simp
    then show ?thesis
      using user_ok_new_page [OF user pal _ cur' labels _ flags] pt_inv_fresh [OF inv] p by simp
  next
    case False
    with S(3) look1 have "pt_lookup m' r = pt_lookup m r" by simp
    then show ?thesis
      using ext by (intro user_ok_same_lookup [OF user]) (auto simp: proc_ext_def)
  qed
  have zero: "m' a = 0" if "page_of a = page_of p" for a
  proof -
    have "m' a = ?m1 a"
      using ext1 notable [OF that] page_range [OF pal(1) that] adv
      by (auto simp: proc_ext_def al1 p)
    with that show ?thesis by (simp add: bytes)
  qed
  show ?thesis
  proof (rule that [OF S(1) user' ext _ _ p zero])
    show "pt_lookup m' r = (if ok then spec_map (pt_lookup m r) va (leaf_pte p flags) else pt_lookup m r)"
      using S(3) look1 by simp
    show "pt_lookup m r va = None" if ok
      using S(4) [OF that] look1 by simp
    show "unat (al_current al') \<le> unat (al_current al) + 12288"
      using S(5) tables adv by (simp add: al1)
    show ok if "pt_lookup m r va = None" "unat (al_current al) + 12288 \<le> unat (al_end al)"
      using that look1 tables adv by (intro S(6)) (simp_all add: al1)
  qed
qed

text \<open>
  The pages mapped at the offsets of a region: frames of their own, from the pages the allocator
  still had, holding zeros.
\<close>

definition zeroed_at :: "mem \<Rightarrow> u64 \<Rightarrow> nat \<Rightarrow> u64 \<Rightarrow> u64 \<Rightarrow> bool" where
  "zeroed_at m r base va flags \<longleftrightarrow>
     (\<exists>p. pt_lookup m r va = Some (leaf_pte p flags) \<and> page_aligned p \<and> unat p < 2 ^ 56 \<and>
        base \<le> unat p \<and> (\<forall>a. page_of a = page_of p \<longrightarrow> m a = 0))"

lemma zeroed_at_mono:
  assumes z: "zeroed_at m r base va flags" and flags: "unat flags < 1024" "bit flags 4"
    and user: "user_ok ubase lab al m r" and inv: "pt_inv lab lo al m r"
    and ext: "proc_ext lab al m lab' al' m'" and look: "pt_lookup m r \<subseteq>\<^sub>m pt_lookup m' r"
    and base: "base' \<le> base"
  shows "zeroed_at m' r base' va flags"
proof -
  from z obtain p where p: "pt_lookup m r va = Some (leaf_pte p flags)" "page_aligned p"
    "unat p < 2 ^ 56" "base \<le> unat p" "\<forall>a. page_of a = page_of p \<longrightarrow> m a = 0"
    by (auto simp: zeroed_at_def)
  have "user_entry m r va (leaf_pte p flags)"
    using p(1) flags by (simp add: user_entry_def leaf_pte_low)
  note e = user_ok_entry [OF user this, unfolded phys_addr_leaf_pte [OF p(2,3) flags(1)]]
  have "m' a = m a" if "page_of a = page_of p" for a
  proof -
    have "\<not> table_byte lab a"
      using that page_of_inj [OF p(2) pt_inv_aligned [OF inv]] e(3) by (force simp: table_byte_def)
    with ext page_range [OF p(2) that] e(2) show ?thesis
      by (auto simp: proc_ext_def)
  qed
  moreover have "pt_lookup m' r va = Some (leaf_pte p flags)"
    using look p(1) by (auto simp: map_le_def dom_def)
  ultimately show ?thesis
    using p base by (auto simp: zeroed_at_def)
qed

definition region_zeroed :: "mem \<Rightarrow> mem \<Rightarrow> u64 \<Rightarrow> nat \<Rightarrow> memory_region \<Rightarrow> u64 \<Rightarrow> bool" where
  "region_zeroed m m' r base rg offset \<longleftrightarrow>
     (\<forall>d. in_range offset (rg_size rg) d \<longrightarrow>
        pt_lookup m r (rg_start rg + d) = None \<and> zeroed_at m' r base (rg_start rg + d) (rg_flags rg))"

lemma map_region_from_unfold:
  assumes "page_aligned (rg_size rg)"
  shows "map_region_from tr root rg offset al m =
    (if offset < align_up (rg_size rg) PAGE_SIZE then
       (case physical_alloc_page al of (p, al1) \<Rightarrow>
          if p = 0 then (False, al1, m)
          else (case paging_map tr root (rg_start rg + offset) p (rg_flags rg) al1
                       (zero_page_from tr (phys_to_virt p) 0 m) of
                  (False, al2, m2) \<Rightarrow> (False, al2, m2)
                | (True, al2, m2) \<Rightarrow> map_region_from tr root rg (offset + PAGE_SIZE) al2 m2))
     else (True, al, m))"
  using assms
  by (subst map_region_from.simps)
    (simp add: page_aligned_def Let_def phys_to_virt_ptr_def split: prod.split bool.split)

lemma map_region_from_correct:
  assumes dm: "direct_map tr lo hi"
    and rg: "page_aligned (rg_start rg)" "page_aligned (rg_size rg)"
      "unat (rg_flags rg) < 1024" "bit (rg_flags rg) 4"
    and "pt_inv lab lo al m r" and "user_ok base lab al m r"
    and "unat (al_end al) \<le> hi" "unat (al_current al) \<le> hi" and "page_aligned offset"
    and "map_region_from tr (phys_to_virt r) rg offset al m = (ok, al', m')"
  shows "\<exists>lab'. pt_inv lab' lo al' m' r \<and> user_ok base lab' al' m' r \<and> proc_ext lab al m lab' al' m' \<and>
    pt_lookup m r \<subseteq>\<^sub>m pt_lookup m' r \<and>
    (ok \<longrightarrow> region_zeroed m m' r (unat (al_current al)) rg offset) \<and>
    (\<forall>va. (\<forall>d. in_range offset (rg_size rg) d \<longrightarrow> vpage va \<noteq> vpage (rg_start rg + d)) \<longrightarrow>
       pt_lookup m' r va = pt_lookup m r va)"
  using assms(6-11)
proof (induction "2 ^ 64 - unat offset" arbitrary: lab al m offset rule: less_induct)
  case less
  note inv = less.prems(1) and user = less.prems(2) and hi = less.prems(3,4) and off = less.prems(5)
  note unfold = map_region_from_unfold [OF rg(2), of tr "phys_to_virt r" offset]
  show ?case
  proof (cases "offset < align_up (rg_size rg) PAGE_SIZE")
    case False
    with less.prems show ?thesis
      by (intro exI [of _ lab]) (auto simp: unfold region_zeroed_def in_range_none)
  next
    case True
    note range = in_range_step [OF off True]
    obtain p al1 where alloc: "physical_alloc_page al = (p, al1)"
      by (cases "physical_alloc_page al")
    show ?thesis
    proof (cases "p = 0")
      case none: True
      have "allocator_ok al" using inv by (simp add: pt_inv_def)
      with none alloc have "al1 = al"
        using pages.alloc_none [of al] by simp
      with less.prems True none alloc show ?thesis
        by (intro exI [of _ lab]) (auto simp: unfold)
    next
      case nz: False
      let ?va = "rg_start rg + offset"
      obtain ok1 al2 m2 where run: "paging_map tr (phys_to_virt r) ?va p (rg_flags rg) al1
        (zero_page_from tr (phys_to_virt p) 0 m) = (ok1, al2, m2)"
        by (cases "paging_map tr (phys_to_virt r) ?va p (rg_flags rg) al1
          (zero_page_from tr (phys_to_virt p) 0 m)")
      have va: "page_aligned ?va" using rg(1) off by simp
      obtain lab1 where S: "pt_inv lab1 lo al2 m2 r" "user_ok base lab1 al2 m2 r"
        "proc_ext lab al m lab1 al2 m2"
        "pt_lookup m2 r = (if ok1 then spec_map (pt_lookup m r) ?va (leaf_pte p (rg_flags rg))
           else pt_lookup m r)"
        "ok1 \<Longrightarrow> pt_lookup m r ?va = None" "p = al_current al"
        "\<And>a. page_of a = page_of p \<Longrightarrow> m2 a = 0"
        "unat (al_current al2) \<le> unat (al_current al) + 12288"
        "pt_lookup m r ?va = None \<Longrightarrow> unat (al_current al) + 12288 \<le> unat (al_end al) \<Longrightarrow> ok1"
        by (rule map_user_page [OF dm inv user hi alloc nz run va rg(3,4)]) (rule that)
      show ?thesis
      proof (cases ok1)
        case False
        with less.prems True nz alloc run have "\<not> ok" "al' = al2" "m' = m2"
          by (auto simp: unfold)
        with S False show ?thesis by auto
      next
        case ok1: True
        then have look1: "pt_lookup m2 r = spec_map (pt_lookup m r) ?va (leaf_pte p (rg_flags rg))"
          using S(4) by simp
        have sub: "pt_lookup m r \<subseteq>\<^sub>m pt_lookup m2 r"
          unfolding look1 by (rule spec_map_extends [OF S(5) [OF ok1]])
        have rest: "map_region_from tr (phys_to_virt r) rg (offset + PAGE_SIZE) al2 m2 = (ok, al', m')"
          using less.prems(6) True nz alloc run ok1 by (simp add: unfold)
        have decr: "2 ^ 64 - unat (offset + PAGE_SIZE) < 2 ^ 64 - unat offset"
          using page_step(1) [OF off True] unat_lt_64 [of offset] by simp
        have nxt: "page_aligned (offset + PAGE_SIZE)"
          using off by (intro page_aligned_plus) (simp_all add: page_aligned_def)
        have hi2: "unat (al_end al2) \<le> hi" "unat (al_current al2) \<le> hi"
          using S(3) hi by (auto simp: proc_ext_def max_def split: if_splits)
        from less.hyps [OF decr S(1,2) hi2 nxt rest] obtain lab' where
          I: "pt_inv lab' lo al' m' r" "user_ok base lab' al' m' r" "proc_ext lab1 al2 m2 lab' al' m'"
          "pt_lookup m2 r \<subseteq>\<^sub>m pt_lookup m' r"
          "ok \<longrightarrow> region_zeroed m2 m' r (unat (al_current al2)) rg (offset + PAGE_SIZE)"
          "\<forall>va. (\<forall>d. in_range (offset + PAGE_SIZE) (rg_size rg) d \<longrightarrow>
             vpage va \<noteq> vpage (rg_start rg + d)) \<longrightarrow> pt_lookup m' r va = pt_lookup m2 r va"
          by blast
        have cur: "unat (al_current al) \<le> unat (al_current al2)"
          using S(3) by (simp add: proc_ext_def)
        have alok: "allocator_ok al" using inv by (simp add: pt_inv_def)
        have pal: "page_aligned p" "unat p < 2 ^ 56"
          using alok alloc nz S(6) by (auto simp: allocator_ok_def physical_alloc_page_eq split: if_splits)
        have "zeroed_at m2 r (unat (al_current al)) ?va (rg_flags rg)"
          using S(6,7) pal by (auto simp: zeroed_at_def look1 spec_map_def)
        then have here: "zeroed_at m' r (unat (al_current al)) ?va (rg_flags rg)"
          using zeroed_at_mono [OF _ rg(3,4) S(2,1) I(3,4)] by blast
        have "region_zeroed m m' r (unat (al_current al)) rg offset" if ok
        proof -
          have "zeroed_at m' r (unat (al_current al)) va f"
            if "zeroed_at m' r (unat (al_current al2)) va f" for va f
            using that cur unfolding zeroed_at_def by (meson le_trans)
          with I(5) \<open>ok\<close> here S(5) [OF ok1] map_le_None [OF sub] show ?thesis
            by (auto simp: region_zeroed_def range)
        qed
        moreover have "pt_lookup m' r va = pt_lookup m r va"
          if "\<forall>d. in_range offset (rg_size rg) d \<longrightarrow> vpage va \<noteq> vpage (rg_start rg + d)" for va
          using that I(6) by (simp add: range look1 spec_map_def)
        moreover have "proc_ext lab al m lab' al' m'"
          using S(3) I(3) S(1) by (rule proc_ext_trans)
        ultimately show ?thesis
          using I(1,2) map_le_trans [OF sub I(4)] by blast
      qed
    qed
  qed
qed

lemma map_region_correct:
  assumes dm: "direct_map tr lo hi" and flags: "unat (rg_flags rg) < 1024" "bit (rg_flags rg) 4"
    and inv: "pt_inv lab lo al m r" and user: "user_ok base lab al m r"
    and hi: "unat (al_end al) \<le> hi" "unat (al_current al) \<le> hi"
    and run: "map_region tr (phys_to_virt r) rg al m = (ok, al', m')"
  obtains lab' where "pt_inv lab' lo al' m' r" and "user_ok base lab' al' m' r"
    and "proc_ext lab al m lab' al' m'" and "pt_lookup m r \<subseteq>\<^sub>m pt_lookup m' r"
    and "ok \<Longrightarrow> region_zeroed m m' r (unat (al_current al)) rg 0"
    and "\<And>va. (\<And>d. in_range 0 (rg_size rg) d \<Longrightarrow> vpage va \<noteq> vpage (rg_start rg + d)) \<Longrightarrow>
           pt_lookup m' r va = pt_lookup m r va"
proof (cases "phys_to_virt r \<noteq> 0 \<and> page_aligned (rg_start rg) \<and> page_aligned (rg_size rg)")
  case False
  then have "ok = False \<and> al' = al \<and> m' = m"
    using run by (auto simp: map_region_def page_aligned_def split: if_splits)
  with inv user show ?thesis by (intro that [of lab]) auto
next
  case True
  then have "map_region_from tr (phys_to_virt r) rg 0 al m = (ok, al', m')"
    using run by (simp add: map_region_def page_aligned_def)
  from map_region_from_correct [OF dm _ _ flags inv user hi page_aligned_0 this] True
  obtain lab' where "pt_inv lab' lo al' m' r \<and> user_ok base lab' al' m' r \<and>
    proc_ext lab al m lab' al' m' \<and> pt_lookup m r \<subseteq>\<^sub>m pt_lookup m' r \<and>
    (ok \<longrightarrow> region_zeroed m m' r (unat (al_current al)) rg 0) \<and>
    (\<forall>va. (\<forall>d. in_range 0 (rg_size rg) d \<longrightarrow> vpage va \<noteq> vpage (rg_start rg + d)) \<longrightarrow>
       pt_lookup m' r va = pt_lookup m r va)"
    by auto
  then show ?thesis by (intro that [of lab']) simp_all
qed

section \<open>Copying the image\<close>

text \<open>Where an address is in memory, and the byte a process finds there.\<close>

definition phys_of :: "mem \<Rightarrow> u64 \<Rightarrow> u64 \<Rightarrow> u64" where
  "phys_of m r va = phys_addr_from_pte (the (pt_lookup m r va)) + take_bit 12 va"

definition user_byte :: "mem \<Rightarrow> u64 \<Rightarrow> u64 \<Rightarrow> u8 option" where
  "user_byte m r va = map_option (\<lambda>_. m (phys_of m r va)) (pt_lookup m r va)"

lemma phys_of_page:
  assumes "pt_lookup m r va = Some e"
  shows "page_of (phys_of m r va) = page_of (phys_addr_from_pte e)"
    and "unat (phys_of m r va) = unat (phys_addr_from_pte e) + unat va mod 4096"
proof -
  have off: "take_bit 12 va = of_nat (unat va mod 4096)"
    by (simp only: u64_eq_iff unat_take_bit_64 unat_of_nat_64) simp
  have lt: "unat va mod 4096 < 4096" by simp
  show "page_of (phys_of m r va) = page_of (phys_addr_from_pte e)"
    using page_of_add [OF phys_addr_from_pte_aligned lt, of e] assms by (simp add: phys_of_def off)
  show "unat (phys_of m r va) = unat (phys_addr_from_pte e) + unat va mod 4096"
    using unat_page_add [OF phys_addr_from_pte_aligned lt, of e] assms by (simp add: phys_of_def off)
qed

lemma user_phys_range:
  assumes "user_ok base lab al m r" "user_entry m r va e" and inv: "pt_inv lab lo al m r"
  shows "base \<le> unat (phys_of m r va)" and "unat (phys_of m r va) < unat (al_current al)"
    and "\<not> table_byte lab (phys_of m r va)"
proof -
  have look: "pt_lookup m r va = Some e"
    using assms(2) by (simp add: user_entry_def)
  note e = user_ok_entry [OF assms(1,2)] and p = phys_of_page [OF look]
  have "unat va mod 4096 < 4096" by simp
  with e p show "base \<le> unat (phys_of m r va)" "unat (phys_of m r va) < unat (al_current al)"
    by linarith+
  show "\<not> table_byte lab (phys_of m r va)"
    using page_of_inj [OF phys_addr_from_pte_aligned pt_inv_aligned [OF inv], of _ _ e] e(3)
    by (force simp: table_byte_def p(1))
qed

lemma user_phys_inj:
  assumes ok: "user_ok base lab al m r" and u: "user_entry m r va e" "user_entry m r va' e'"
    and eq: "phys_of m r va = phys_of m r va'"
  shows "unat va mod 2 ^ 39 = unat va' mod 2 ^ 39"
proof -
  have look: "pt_lookup m r va = Some e" "pt_lookup m r va' = Some e'"
    using u by (simp_all add: user_entry_def)
  note p = phys_of_page [OF look(1)] phys_of_page [OF look(2)]
  have "phys_addr_from_pte e = phys_addr_from_pte e'"
    using p eq by (intro page_of_inj) simp_all
  moreover from this p eq have "unat va mod 4096 = unat va' mod 4096" by simp
  ultimately have "vpage va = vpage va' \<and> unat va mod 4096 = unat va' mod 4096"
    using ok u unfolding user_ok_def by blast
  moreover have "unat x mod 2 ^ 39 = vpage x * 4096 + unat x mod 4096" for x
    using mod_mult2_eq [of "unat x" 4096 "2 ^ 27"] by (simp add: vpage_def page_of_def)
  ultimately show ?thesis by simp
qed

lemma user_phys_distinct:
  assumes ok: "user_ok base lab al m r" and u: "user_entry m r (va + i) e" "user_entry m r (va + j) e'"
    and "i \<noteq> j" "i < sz" "j < sz" "unat sz \<le> 2 ^ 39"
  shows "phys_of m r (va + i) \<noteq> phys_of m r (va + j)"
proof
  assume "phys_of m r (va + i) = phys_of m r (va + j)"
  from user_phys_inj [OF ok u this]
  have "(unat va + unat i) mod 2 ^ 39 = (unat va + unat j) mod 2 ^ 39"
    unfolding unat_word_ariths by (simp add: mod_mod_cancel)
  then have "unat i mod 2 ^ 39 = unat j mod 2 ^ 39"
    by (simp add: nat_mod_eq_iff)
  moreover have "unat i < 2 ^ 39" "unat j < 2 ^ 39"
    using assms by (simp_all add: word_less_nat_alt)
  ultimately show False
    using \<open>i \<noteq> j\<close> by (simp add: u64_eq_iff)
qed

text \<open>
  The pages the loop writes to are user leaves; the bytes it reads are not in them.
\<close>

definition copy_pages :: "mem \<Rightarrow> u64 \<Rightarrow> u64 \<Rightarrow> u64 \<Rightarrow> bool" where
  "copy_pages m r va sz \<longleftrightarrow>
     (\<forall>i < sz. \<forall>e. pt_lookup m r (va + i) = Some e \<longrightarrow> bit e 4 \<and> pte_is_leaf e)"

lemma copy_into_from_correct:
  assumes dm: "direct_map tr lo hi" and lo: "lo \<le> base"
    and cur: "unat (al_current al) \<le> hi" and sz: "unat sz \<le> 2 ^ 39"
    and src: "\<And>i. i < sz \<Longrightarrow> unat (tr (src + i)) < base"
    and "pt_inv lab lo al m r" and "user_ok base lab al m r" and "copy_pages m r va sz"
    and "copy_into_from tr (phys_to_virt r) va src sz i m = (ok, m')"
  shows "pt_lookup m' r = pt_lookup m r \<and>
    (\<forall>a. (\<forall>j. i \<le> j \<longrightarrow> j < sz \<longrightarrow> pt_lookup m r (va + j) \<noteq> None \<longrightarrow> a \<noteq> phys_of m r (va + j)) \<longrightarrow>
       m' a = m a) \<and>
    (ok \<longrightarrow> (\<forall>j. i \<le> j \<longrightarrow> j < sz \<longrightarrow> user_byte m' r (va + j) = Some (m (tr (src + j))))) \<and>
    (\<not> ok \<longrightarrow> (\<exists>j. i \<le> j \<and> j < sz \<and> pt_lookup m r (va + j) = None))"
  using assms(6-9)
proof (induction i arbitrary: m rule: up_loop_induct [where n = sz])
  case (step i)
  note inv = step.prems(1) and user = step.prems(2) and pages = step.prems(3) and run = step.prems(4)
  note unfold = copy_into_from.simps [of tr _ va src sz i]
  show ?case
  proof (cases "i < sz")
    case False
    with run show ?thesis by (auto simp: unfold)
  next
    case True
    have nz: "r \<noteq> 0" using inv by (rule pt_inv_root_nonnull)
    have query: "paging_query tr (phys_to_virt r) (va + i) m = paging_query_early r (va + i) m"
      using paging_query_late [OF dm inv cur] .
    show ?thesis
    proof (cases "pt_lookup m r (va + i)")
      case None
      with run True query nz have "\<not> ok \<and> m' = m"
        by (auto simp: unfold paging_query_early_eq)
      then show ?thesis using None True by auto
    next
      case (Some e)
      then have e: "bit e 4" "pte_is_leaf e"
        using pages True by (auto simp: copy_pages_def)
      then have entry: "user_entry m r (va + i) e"
        using Some by (simp add: user_entry_def)
      let ?p = "phys_of m r (va + i)"
      note p = user_phys_range [OF user entry inv]
      have tr: "tr (phys_to_virt ?p) = ?p"
        using dm p lo cur by (simp add: direct_map_def)
      let ?m = "m(?p := m (tr (src + i)))"
      have rest: "copy_into_from tr (phys_to_virt r) va src sz (i + 1) ?m = (ok, m')"
        using run True query nz Some e tr
        by (simp add: unfold paging_query_early_eq phys_of_def phys_to_virt_ptr_def)
      have same: "?m a = m a" if "table_byte lab a" for a
        using that p(3) by auto
      have fr: "pt_inv lab lo al ?m r" "pt_lookup ?m r = pt_lookup m r"
        by (rule pt_inv_frame [OF inv], rule same, assumption)+
      have user1: "user_ok base lab al ?m r"
        by (rule user_ok_same_lookup [OF user fr(2)]) auto
      have pages1: "copy_pages ?m r va sz"
        using pages unfolding copy_pages_def fr(2) .
      have phys: "phys_of ?m r v = phys_of m r v" for v
        by (simp only: phys_of_def [of ?m r v] phys_of_def [of m r v] fr(2))
      have bytes: "?m (tr (src + j)) = m (tr (src + j))" if "j < sz" for j
        using src [OF that] p(1) by auto
      from step.IH [OF True fr(1) user1 pages1 rest]
      have I: "pt_lookup m' r = pt_lookup m r"
        "\<And>a. (\<And>j. i + 1 \<le> j \<Longrightarrow> j < sz \<Longrightarrow> pt_lookup m r (va + j) \<noteq> None \<Longrightarrow>
           a \<noteq> phys_of m r (va + j)) \<Longrightarrow> m' a = ?m a"
        "\<And>j. ok \<Longrightarrow> i + 1 \<le> j \<Longrightarrow> j < sz \<Longrightarrow> user_byte m' r (va + j) = Some (?m (tr (src + j)))"
        "\<not> ok \<Longrightarrow> \<exists>j. i + 1 \<le> j \<and> j < sz \<and> pt_lookup m r (va + j) = None"
        unfolding fr(2) phys by blast+
      have next_le: "i \<le> j" if "i + 1 \<le> j" for j
        using that unat_Suc_64 [OF True] by (simp add: word_le_nat_alt)
      have split: "j = i \<or> i + 1 \<le> j" if "i \<le> j" for j
        using that unat_Suc_64 [OF True] by (auto simp: word_le_nat_alt u64_eq_iff)
      have "m' a = m a"
        if "\<forall>j. i \<le> j \<longrightarrow> j < sz \<longrightarrow> pt_lookup m r (va + j) \<noteq> None \<longrightarrow> a \<noteq> phys_of m r (va + j)" for a
      proof -
        have "a \<noteq> ?p" using that True Some by simp
        then show ?thesis using I(2) [of a] that next_le by simp
      qed
      moreover have "user_byte m' r (va + j) = Some (m (tr (src + j)))" if "ok" "i \<le> j" "j < sz" for j
      proof (cases "j = i")
        case False
        with I(3) [OF that(1) _ that(3)] split [OF that(2)] bytes [OF that(3)] show ?thesis by simp
      next
        case j: True
        have "?p \<noteq> phys_of m r (va + k)"
          if k: "i + 1 \<le> k" "k < sz" "pt_lookup m r (va + k) \<noteq> None" for k
        proof -
          from k(3) obtain e' where e': "pt_lookup m r (va + k) = Some e'" by auto
          then have "user_entry m r (va + k) e'"
            using pages k(2) by (auto simp: copy_pages_def user_entry_def)
          moreover have "i \<noteq> k"
            using k(1) unat_Suc_64 [OF True] by (auto simp: word_le_nat_alt)
          ultimately show ?thesis
            using user_phys_distinct [OF user entry _ _ True k(2) sz] by blast
        qed
        then have "m' ?p = m (tr (src + i))"
          using I(2) [of ?p] by simp
        then show ?thesis
          using I(1) Some j by (simp add: user_byte_def phys_of_def)
      qed
      ultimately show ?thesis using I(1,4) next_le by blast
    qed
  qed
qed

end
