(* ===== verification/Process_Layout.thy ===== *)
theory Process_Layout
  imports Process
begin

text \<open>
  The address space of a process as \<^verbatim>\<open>process_memory_layout_init\<close> lays it out: which sizes are
  accepted, and that the regions of an accepted layout follow one another without gap or overlap
  below the stack.
\<close>

definition follows :: "memory_region \<Rightarrow> u64 \<Rightarrow> bool" where
  "follows rg a \<longleftrightarrow> unat (rg_start rg) + unat (rg_size rg) = unat a \<and> region_end rg = a"

definition layout_ok :: "process_memory_layout \<Rightarrow> bool" where
  "layout_ok l \<longleftrightarrow>
     (\<forall>rg \<in> {ly_text l, ly_rodata l, ly_data l, ly_bss l, ly_heap l, ly_stack l}.
        page_aligned (rg_start rg) \<and> page_aligned (rg_size rg) \<and> unat (rg_flags rg) < 1024 \<and>
        bit (rg_flags rg) 1 \<and> bit (rg_flags rg) 4 \<and> \<not> (bit (rg_flags rg) 2 \<and> bit (rg_flags rg) 3)) \<and>
     rg_start (ly_text l) = USER_TEXT_START \<and> follows (ly_text l) (rg_start (ly_rodata l)) \<and>
     follows (ly_rodata l) (rg_start (ly_data l)) \<and> follows (ly_data l) (rg_start (ly_bss l)) \<and>
     follows (ly_bss l) (rg_start (ly_heap l)) \<and>
     unat (rg_start (ly_heap l)) < unat (rg_start (ly_stack l)) \<and>
     follows (ly_stack l) USER_STACK_TOP \<and> 0 < rg_size (ly_stack l) \<and> rg_size (ly_heap l) = 0 \<and>
     ly_heap_break l = rg_start (ly_heap l) \<and> ly_stack_top l = USER_STACK_TOP \<and>
     ly_entry l = USER_TEXT_START"

abbreviation rounded :: "u64 \<Rightarrow> nat" where
  "rounded x \<equiv> unat (align_up x PAGE_SIZE)"

definition layout_fits :: "u64 \<Rightarrow> u64 \<Rightarrow> u64 \<Rightarrow> u64 \<Rightarrow> u64 \<Rightarrow> bool" where
  "layout_fits ts rs ds bs ss \<longleftrightarrow>
     0x400000 + rounded ts + rounded rs + rounded ds + rounded bs + max 4096 (rounded ss)
       < 0x3FFFFFF000"

lemma align_down_aligned: "page_aligned x \<Longrightarrow> align_down x PAGE_SIZE = x"
  unfolding align_down_def and_not_4095 page_aligned_def by simp

lemma page_aligned_diff:
  assumes "page_aligned a" "page_aligned b" "b \<le> a"
  shows "page_aligned (a - b)"
  using assms by (simp add: page_aligned_iff unat_diff_64)

lemma rounded_page: "rounded x = 0 \<or> 4096 \<le> rounded x"
  using page_aligned_align_up [of x] by (auto simp: page_aligned_iff dest: dvd_imp_le)

lemma user_flags:
  "unat (PTE_R OR PTE_X OR PTE_U) < 1024" "unat (PTE_R OR PTE_U) < 1024"
  "unat (PTE_R OR PTE_W OR PTE_U) < 1024"
  by (simp_all add: pte_flag_values)

lemma layout_init_correct:
  assumes small: "unat ts \<le> 2 ^ 40" "unat rs \<le> 2 ^ 40" "unat ds \<le> 2 ^ 40" "unat bs \<le> 2 ^ 40"
    and stack: "unat ss \<le> 0x3FFFFFF000"
    and run: "process_memory_layout_init l ts rs ds bs ss = (ok, l')"
  shows "ok \<longleftrightarrow> layout_fits ts rs ds bs ss" and "ok \<Longrightarrow> layout_ok l'" and "\<not> ok \<Longrightarrow> l' = l"
    and "ok \<Longrightarrow> rg_size (ly_text l') = align_up ts PAGE_SIZE \<and>
      rg_flags (ly_text l') = PTE_R OR PTE_X OR PTE_U \<and>
      rg_size (ly_bss l') = align_up bs PAGE_SIZE \<and> rg_flags (ly_bss l') = PTE_R OR PTE_W OR PTE_U \<and>
      rg_flags (ly_stack l') = PTE_R OR PTE_W OR PTE_U \<and>
      rg_size (ly_rodata l') = align_up rs PAGE_SIZE \<and> rg_size (ly_data l') = align_up ds PAGE_SIZE \<and>
      unat (rg_size (ly_stack l')) = max 4096 (rounded ss)"
proof -
  define S where "S = (if align_up ss PAGE_SIZE = 0 then PAGE_SIZE else align_up ss PAGE_SIZE)"
  let ?T = "align_up ts PAGE_SIZE" and ?R = "align_up rs PAGE_SIZE"
    and ?D = "align_up ds PAGE_SIZE" and ?B = "align_up bs PAGE_SIZE"
  have bound: "unat (align_up x PAGE_SIZE) \<le> 2 ^ 40 + 4096" if "unat x \<le> 2 ^ 40" for x
    using align_up_bounds(2) [of x] that by simp
  note b = bound [OF small(1)] bound [OF small(2)] bound [OF small(3)] bound [OF small(4)]
  have S: "unat S = max 4096 (rounded ss)"
    using rounded_page [of ss] by (auto simp: S_def max_def unat_eq_zero)
  have Sle: "unat S \<le> 0x3FFFFFF000"
    unfolding S using align_up_least [of ss USER_STACK_TOP] stack
    by (simp add: USER_STACK_TOP_def page_aligned_iff word_le_nat_alt)
  have al: "page_aligned S" "page_aligned USER_STACK_TOP" "page_aligned USER_TEXT_START"
    using page_aligned_align_up [of ss]
    by (simp_all add: S_def USER_STACK_TOP_def USER_TEXT_START_def USER_CODE_VIRTUAL_BASE_def
        page_aligned_iff)
  have top: "align_down USER_STACK_TOP PAGE_SIZE = USER_STACK_TOP"
    using al(2) by (rule align_down_aligned)
  have u1: "unat (USER_TEXT_START + ?T) = 0x400000 + unat ?T"
    using b by (simp add: USER_TEXT_START_def USER_CODE_VIRTUAL_BASE_def unat_add_64)
  have u2: "unat (USER_TEXT_START + ?T + ?R) = 0x400000 + unat ?T + unat ?R"
    using b u1 by (simp add: unat_add_64)
  have u3: "unat (USER_TEXT_START + ?T + ?R + ?D) = 0x400000 + unat ?T + unat ?R + unat ?D"
    using b u2 by (simp add: unat_add_64)
  have u4: "unat (USER_TEXT_START + ?T + ?R + ?D + ?B) =
      0x400000 + unat ?T + unat ?R + unat ?D + unat ?B"
    using b u3 by (simp add: unat_add_64)
  have u5: "unat (USER_STACK_TOP - S) = 0x3FFFFFF000 - unat S"
    using Sle by (subst unat_diff_64) (simp_all add: USER_STACK_TOP_def word_le_nat_alt)
  have ok: "ok \<longleftrightarrow> \<not> USER_STACK_TOP - S \<le> USER_TEXT_START + ?T + ?R + ?D + ?B"
    using run by (auto simp: process_memory_layout_init_def Let_def top simp flip: S_def
        split: if_splits)
  show fits: "ok \<longleftrightarrow> layout_fits ts rs ds bs ss"
    unfolding ok layout_fits_def word_le_nat_alt u4 u5 using S Sle by linarith
  show "\<not> ok \<Longrightarrow> l' = l"
    using run by (auto simp: process_memory_layout_init_def Let_def split: if_splits)
  assume ok
  have l': "l' = \<lparr>ly_text = \<lparr>rg_start = USER_TEXT_START, rg_size = ?T, rg_flags = PTE_R OR PTE_X OR PTE_U\<rparr>,
    ly_rodata = \<lparr>rg_start = USER_TEXT_START + ?T, rg_size = ?R, rg_flags = PTE_R OR PTE_U\<rparr>,
    ly_data = \<lparr>rg_start = USER_TEXT_START + ?T + ?R, rg_size = ?D, rg_flags = PTE_R OR PTE_W OR PTE_U\<rparr>,
    ly_bss = \<lparr>rg_start = USER_TEXT_START + ?T + ?R + ?D, rg_size = ?B,
      rg_flags = PTE_R OR PTE_W OR PTE_U\<rparr>,
    ly_heap = \<lparr>rg_start = USER_TEXT_START + ?T + ?R + ?D + ?B, rg_size = 0,
      rg_flags = PTE_R OR PTE_W OR PTE_U\<rparr>,
    ly_stack = \<lparr>rg_start = USER_STACK_TOP - S, rg_size = S, rg_flags = PTE_R OR PTE_W OR PTE_U\<rparr>,
    ly_heap_break = USER_TEXT_START + ?T + ?R + ?D + ?B, ly_stack_top = USER_STACK_TOP,
    ly_entry = USER_TEXT_START\<rparr>"
    using run \<open>ok\<close> by (auto simp: process_memory_layout_init_def Let_def top simp flip: S_def
        split: if_splits)
  have lt: "0x400000 + unat ?T + unat ?R + unat ?D + unat ?B < 0x3FFFFFF000 - unat S"
    using \<open>ok\<close> unfolding ok word_le_nat_alt u4 u5 by simp
  have diff: "page_aligned (USER_STACK_TOP - S)"
    using al Sle by (intro page_aligned_diff) (simp_all add: word_le_nat_alt USER_STACK_TOP_def)
  have "0 < S"
    using S by (simp add: word_less_nat_alt)
  have end_stack: "unat (USER_STACK_TOP - S) + unat S = unat USER_STACK_TOP"
    using u5 Sle by (simp add: USER_STACK_TOP_def)
  show "layout_ok l'"
    unfolding l' layout_ok_def follows_def region_end_def
    using al u1 u2 u3 u4 u5 lt \<open>0 < S\<close> end_stack user_flags
    by (simp add: bit_or_iff bit_pte_flags diff page_aligned_add
        USER_TEXT_START_def [symmetric])
      (simp add: USER_TEXT_START_def USER_CODE_VIRTUAL_BASE_def)
  show "rg_size (ly_text l') = ?T \<and> rg_flags (ly_text l') = PTE_R OR PTE_X OR PTE_U \<and>
      rg_size (ly_bss l') = ?B \<and> rg_flags (ly_bss l') = PTE_R OR PTE_W OR PTE_U \<and>
      rg_flags (ly_stack l') = PTE_R OR PTE_W OR PTE_U \<and>
      rg_size (ly_rodata l') = align_up rs PAGE_SIZE \<and> rg_size (ly_data l') = align_up ds PAGE_SIZE \<and>
      unat (rg_size (ly_stack l')) = max 4096 (rounded ss)"
    by (simp add: l' S)
qed

end
