(* ===== verification/Process_Load.thy ===== *)
theory Process_Load
  imports Process_Correct Process_Layout
begin

text \<open>
  The loader as a whole: what the first process sees at its addresses, and that user mode reaches
  nothing but the frames loaded for it.
\<close>

section \<open>The state while a process is built\<close>

definition proc_state ::
  "nat \<Rightarrow> nat \<Rightarrow> u64 \<Rightarrow> (u64 \<rightharpoonup> u64 list) \<Rightarrow> physical_page_allocator \<Rightarrow> mem \<Rightarrow>
   (u64 \<rightharpoonup> u64 list) \<Rightarrow> physical_page_allocator \<Rightarrow> mem \<Rightarrow> bool" where
  "proc_state base lo r lab al m lab' al' m' \<longleftrightarrow>
     pt_inv lab' lo al' m' r \<and> user_ok base lab' al' m' r \<and> proc_ext lab al m lab' al' m' \<and>
     pt_lookup m r \<subseteq>\<^sub>m pt_lookup m' r"

lemma proc_state_region:
  assumes dm: "direct_map tr lo hi" and st: "proc_state base lo r lab al m lab1 al1 m1"
    and flags: "unat (rg_flags rg) < 1024" "bit (rg_flags rg) 4"
    and hi: "unat (al_end al) \<le> hi" "unat (al_current al) \<le> hi"
    and run: "map_region tr (phys_to_virt r) rg al1 m1 = (ok, al2, m2)"
  obtains lab2 where "proc_state base lo r lab al m lab2 al2 m2"
    and "proc_state base lo r lab1 al1 m1 lab2 al2 m2"
    and "ok \<Longrightarrow> region_zeroed m1 m2 r (unat (al_current al1)) rg 0"
proof -
  have inv: "pt_inv lab1 lo al1 m1 r" and user: "user_ok base lab1 al1 m1 r"
    and ext: "proc_ext lab al m lab1 al1 m1" and sub: "pt_lookup m r \<subseteq>\<^sub>m pt_lookup m1 r"
    using st by (simp_all add: proc_state_def)
  have hi1: "unat (al_end al1) \<le> hi" "unat (al_current al1) \<le> hi"
    using ext hi by (auto simp: proc_ext_def max_def split: if_splits)
  obtain lab2 where S: "pt_inv lab2 lo al2 m2 r" "user_ok base lab2 al2 m2 r"
    "proc_ext lab1 al1 m1 lab2 al2 m2" "pt_lookup m1 r \<subseteq>\<^sub>m pt_lookup m2 r"
    "ok \<Longrightarrow> region_zeroed m1 m2 r (unat (al_current al1)) rg 0"
    by (rule map_region_correct [OF dm flags inv user hi1 run]) blast
  show ?thesis
    using S proc_ext_trans [OF ext S(3) inv] map_le_trans [OF sub S(4)]
    by (intro that [of lab2]) (simp_all add: proc_state_def)
qed

lemma region_zeroed_mono:
  assumes z: "region_zeroed m0 m r base rg 0" and flags: "unat (rg_flags rg) < 1024" "bit (rg_flags rg) 4"
    and st: "proc_state ub lo r lab al m lab' al' m'" and user: "user_ok ub lab al m r"
    and inv: "pt_inv lab lo al m r" and base: "base' \<le> base"
    and d: "in_range 0 (rg_size rg) d"
  shows "zeroed_at m' r base' (rg_start rg + d) (rg_flags rg)"
proof -
  have "zeroed_at m r base (rg_start rg + d) (rg_flags rg)"
    using z d by (simp add: region_zeroed_def)
  moreover have "proc_ext lab al m lab' al' m'" "pt_lookup m r \<subseteq>\<^sub>m pt_lookup m' r"
    using st by (simp_all add: proc_state_def)
  ultimately show ?thesis
    using zeroed_at_mono [OF _ flags user inv _ _ base] by blast
qed

section \<open>The loaded program\<close>

definition zero_layout :: process_memory_layout where
  "zero_layout = (let z = \<lparr>rg_start = 0, rg_size = 0, rg_flags = 0\<rparr> in
     \<lparr>ly_text = z, ly_rodata = z, ly_data = z, ly_bss = z, ly_heap = z, ly_stack = z,
      ly_heap_break = 0, ly_stack_top = 0, ly_entry = 0\<rparr>)"

definition load_regions ::
  "(u64 \<Rightarrow> u64) \<Rightarrow> u64 \<Rightarrow> process_memory_layout \<Rightarrow> physical_page_allocator \<Rightarrow> mem \<Rightarrow>
   bool \<times> physical_page_allocator \<times> mem" where
  "load_regions tr root layout al m =
     (case map_region tr root (ly_text layout) al m of
        (False, al, m) \<Rightarrow> (False, al, m)
      | (True, al, m) \<Rightarrow>
          (case map_region tr root (ly_bss layout) al m of
             (False, al, m) \<Rightarrow> (False, al, m)
           | (True, al, m) \<Rightarrow> map_region tr root (ly_stack layout) al m))"

lemma load_unfold:
  "process_load_initial_user_program tr image_start image_end root al program m =
     (if root = 0 then (False, program, al, m)
      else case process_memory_layout_init zero_layout (image_end - image_start) 0 0 PAGE_SIZE
                  USER_STACK_SIZE of
        (False, layout) \<Rightarrow> (False, program, al, m)
      | (True, layout) \<Rightarrow>
          (case load_regions tr root layout al m of
             (False, al, m) \<Rightarrow> (False, program, al, m)
           | (True, al, m) \<Rightarrow>
               (case copy_into_region tr root (rg_start (ly_text layout)) image_start
                       (image_end - image_start) m of
                  (False, m) \<Rightarrow> (False, program, al, m)
                | (True, m) \<Rightarrow>
                    (True, \<lparr>pg_entry = ly_entry layout, pg_stack_top = ly_stack_top layout\<rparr>, al, m))))"
  by (simp add: process_load_initial_user_program_def load_regions_def zero_layout_def Let_def
      split: prod.split bool.split)

lemma load_regions_correct:
  assumes dm: "direct_map tr lo hi" and st: "proc_state base lo r lab al m lab al m"
    and layout: "layout_ok ly" and hi: "unat (al_end al) \<le> hi" "unat (al_current al) \<le> hi"
    and run: "load_regions tr (phys_to_virt r) ly al m = (ok, al', m')"
  obtains lab' where "proc_state base lo r lab al m lab' al' m'"
    and "\<And>rg d. ok \<Longrightarrow> rg \<in> {ly_text ly, ly_bss ly, ly_stack ly} \<Longrightarrow> in_range 0 (rg_size rg) d \<Longrightarrow>
           zeroed_at m' r (unat (al_current al)) (rg_start rg + d) (rg_flags rg)"
proof -
  have fl: "unat (rg_flags rg) < 1024" "bit (rg_flags rg) 4"
    if "rg \<in> {ly_text ly, ly_bss ly, ly_stack ly}" for rg
    using layout that by (auto simp: layout_ok_def)
  obtain ok1 al1 m1 where r1: "map_region tr (phys_to_virt r) (ly_text ly) al m = (ok1, al1, m1)"
    by (cases "map_region tr (phys_to_virt r) (ly_text ly) al m")
  obtain lab1 where A: "proc_state base lo r lab al m lab1 al1 m1"
    "ok1 \<Longrightarrow> region_zeroed m m1 r (unat (al_current al)) (ly_text ly) 0"
    by (rule proc_state_region [OF dm st fl hi r1]) auto
  show ?thesis
  proof (cases ok1)
    case False
    with run r1 A show ?thesis by (intro that [of lab1]) (auto simp: load_regions_def)
  next
    case ok1: True
    obtain ok2 al2 m2 where r2: "map_region tr (phys_to_virt r) (ly_bss ly) al1 m1 = (ok2, al2, m2)"
      by (cases "map_region tr (phys_to_virt r) (ly_bss ly) al1 m1")
    obtain lab2 where B: "proc_state base lo r lab al m lab2 al2 m2"
      "proc_state base lo r lab1 al1 m1 lab2 al2 m2"
      "ok2 \<Longrightarrow> region_zeroed m1 m2 r (unat (al_current al1)) (ly_bss ly) 0"
      by (rule proc_state_region [OF dm A(1) fl hi r2]) auto
    show ?thesis
    proof (cases ok2)
      case False
      with run r1 r2 ok1 B show ?thesis by (intro that [of lab2]) (auto simp: load_regions_def)
    next
      case ok2: True
      with run r1 r2 ok1 have r3: "map_region tr (phys_to_virt r) (ly_stack ly) al2 m2 = (ok, al', m')"
        by (simp add: load_regions_def)
      obtain lab3 where C: "proc_state base lo r lab al m lab3 al' m'"
        "proc_state base lo r lab2 al2 m2 lab3 al' m'"
        "ok \<Longrightarrow> region_zeroed m2 m' r (unat (al_current al2)) (ly_stack ly) 0"
        by (rule proc_state_region [OF dm B(1) fl hi r3]) auto
      have inv: "pt_inv lab1 lo al1 m1 r" "pt_inv lab2 lo al2 m2 r" "pt_inv lab3 lo al' m' r"
        and user: "user_ok base lab1 al1 m1 r" "user_ok base lab2 al2 m2 r" "user_ok base lab3 al' m' r"
        and le: "unat (al_current al) \<le> unat (al_current al1)"
          "unat (al_current al) \<le> unat (al_current al2)"
        using A(1) B(1) C(1) by (auto simp: proc_state_def proc_ext_def)
      have BC: "proc_state base lo r lab1 al1 m1 lab3 al' m'"
        using B(2) C(2) proc_ext_trans map_le_trans unfolding proc_state_def by blast
      have refl: "proc_state base lo r lab3 al' m' lab3 al' m'"
        using C(1) by (simp add: proc_state_def)
      have "zeroed_at m' r (unat (al_current al)) (rg_start rg + d) (rg_flags rg)"
        if ok: ok and rg: "rg \<in> {ly_text ly, ly_bss ly, ly_stack ly}"
          and d: "in_range 0 (rg_size rg) d" for rg d
      proof -
        consider "rg = ly_text ly" | "rg = ly_bss ly" | "rg = ly_stack ly"
          using rg by blast
        then show ?thesis
        proof cases
          case 1
          then show ?thesis
            using region_zeroed_mono [OF A(2) [OF ok1] _ _ BC user(1) inv(1) le_refl] fl [OF rg] d by simp
        next
          case 2
          then show ?thesis
            using region_zeroed_mono [OF B(3) [OF ok2] _ _ C(2) user(2) inv(2) le(1)] fl [OF rg] d by simp
        next
          case 3
          then show ?thesis
            using region_zeroed_mono [OF C(3) [OF ok] _ _ refl user(3) inv(3) le(2)] fl [OF rg] d by simp
        qed
      qed
      with C(1) show ?thesis by (rule that)
    qed
  qed
qed

text \<open>Copying keeps the state, and what it does not write.\<close>

lemma copy_proc_state:
  assumes st: "proc_state base lo r lab al m lab' al' m'" and base: "base = unat (al_current al)"
    and pages: "copy_pages m' r va sz" and look: "pt_lookup m'' r = pt_lookup m' r"
    and bytes: "\<And>a. (\<And>j. j < sz \<Longrightarrow> pt_lookup m' r (va + j) \<noteq> None \<Longrightarrow> a \<noteq> phys_of m' r (va + j)) \<Longrightarrow>
      m'' a = m' a"
  shows "proc_state base lo r lab al m lab' al' m''"
proof -
  have inv: "pt_inv lab' lo al' m' r" and user: "user_ok base lab' al' m' r"
    and ext: "proc_ext lab al m lab' al' m'" and sub: "pt_lookup m r \<subseteq>\<^sub>m pt_lookup m' r"
    using st by (simp_all add: proc_state_def)
  have target: "base \<le> unat (phys_of m' r (va + j)) \<and> unat (phys_of m' r (va + j)) < unat (al_current al') \<and>
      \<not> table_byte lab' (phys_of m' r (va + j))"
    if j: "j < sz" and mapped: "pt_lookup m' r (va + j) \<noteq> None" for j
  proof -
    from mapped obtain e where e: "pt_lookup m' r (va + j) = Some e" by auto
    with pages j have "user_entry m' r (va + j) e"
      by (auto simp: copy_pages_def user_entry_def)
    from user_phys_range [OF user this inv] show ?thesis by blast
  qed
  have tab: "m'' a = m' a" if "table_byte lab' a" for a
    using that target by (intro bytes) blast
  have "m'' a = m' a" if "\<not> (base \<le> unat a \<and> unat a < unat (al_current al'))" for a
    using that target by (intro bytes) blast
  with ext base have "proc_ext lab al m lab' al' m''"
    unfolding proc_ext_def by metis
  moreover have "user_ok base lab' al' m'' r"
    by (rule user_ok_same_lookup [OF user look]) auto
  moreover have "pt_inv lab' lo al' m'' r"
    by (rule pt_inv_frame [OF inv], rule tab, assumption)
  ultimately show ?thesis
    using sub look by (simp add: proc_state_def)
qed

lemma in_range_cover:
  assumes "i < sz" "unat sz \<le> 2 ^ 40"
  shows "in_range 0 sz (i AND NOT (4096 - 1))"
  using assms align_up_bounds(1) [of sz] by (intro in_range_page) (simp add: word_less_nat_alt)

lemma mapped_copy_pages:
  assumes al: "page_aligned va" and sz: "unat sz \<le> 2 ^ 40"
    and flags: "unat flags < 1024" "bit flags 4" "bit flags 1"
    and mapped: "\<And>d. in_range 0 sz d \<Longrightarrow> zeroed_at m r base (va + d) flags"
  shows "copy_pages m r va sz"
    and "\<And>i. i < sz \<Longrightarrow> \<exists>p. pt_lookup m r (va + i) = Some (leaf_pte p flags) \<and> unat p < 2 ^ 56"
proof -
  show e: "\<exists>p. pt_lookup m r (va + i) = Some (leaf_pte p flags) \<and> unat p < 2 ^ 56" if "i < sz" for i
  proof -
    have "zeroed_at m r base (va + (i AND NOT (4096 - 1))) flags"
      using in_range_cover [OF that sz] by (rule mapped)
    then show ?thesis
      using pt_lookup_vpage [OF offset_split(1) [OF al], of m r i] by (auto simp: zeroed_at_def)
  qed
  show "copy_pages m r va sz"
    unfolding copy_pages_def
  proof (intro allI impI)
    fix i e' assume "i < sz" "pt_lookup m r (va + i) = Some e'"
    with e [of i] show "bit e' 4 \<and> pte_is_leaf e'"
      using flags by (auto simp: leaf_pte_low pte_is_leaf_bits)
  qed
qed

text \<open>The tables are behind \<open>lo\<close>.\<close>

lemma below_tables:
  assumes "pt_inv lab lo al m r" "unat a < lo"
  shows "\<not> table_byte lab a"
proof
  assume "table_byte lab a"
  then obtain t p where t: "lab t = Some p" "page_of a = page_of t" by (auto simp: table_byte_def)
  with page_range [OF pt_inv_aligned [OF assms(1) t(1)] t(2)] pt_inv_table [OF assms(1) t(1)] assms(2)
  show False by (simp add: table_ok_def)
qed

text \<open>Copying the image: the state stays good, and the region holds the image's bytes.\<close>

lemma image_copied:
  fixes al
  defines "base \<equiv> unat (al_current al)"
  assumes dm: "direct_map tr lo hi" and inv: "pt_inv lab lo al m r" and st: "proc_state base lo r lab al m lab1 al1 m1"
    and hi: "unat (al_end al) \<le> hi" "base \<le> hi" and sz: "unat sz \<le> 2 ^ 39"
    and src: "\<And>i. i < sz \<Longrightarrow> unat (tr (src + i)) < lo"
    and pages: "copy_pages m1 r va sz"
    and run: "copy_into_region tr (phys_to_virt r) va src sz m1 = (ok, m2)" "phys_to_virt r \<noteq> 0"
  shows "proc_state base lo r lab al m lab1 al1 m2" and "pt_lookup m2 r = pt_lookup m1 r"
    and "\<And>i. ok \<Longrightarrow> i < sz \<Longrightarrow> user_byte m2 r (va + i) = Some (m (tr (src + i)))"
proof -
  have lo: "lo \<le> base"
    using pt_inv_table [OF inv pt_inv_root [OF inv]] by (auto simp: table_ok_def base_def)
  have A: "pt_inv lab1 lo al1 m1 r" "user_ok base lab1 al1 m1 r" and ext: "proc_ext lab al m lab1 al1 m1"
    using st by (simp_all add: proc_state_def)
  have cur: "unat (al_current al1) \<le> hi"
    using ext hi by (auto simp: proc_ext_def base_def max_def split: if_splits)
  have below: "unat (tr (src + i)) < base" if "i < sz" for i
    using src [OF that] lo by simp
  from run have "copy_into_from tr (phys_to_virt r) va src sz 0 m1 = (ok, m2)"
    by (simp add: copy_into_region_def)
  note C = copy_into_from_correct [OF dm lo cur sz below A pages this]
  show "proc_state base lo r lab al m lab1 al1 m2"
    using C by (intro copy_proc_state [OF st _ pages]) (auto simp: base_def)
  show "pt_lookup m2 r = pt_lookup m1 r" using C by simp
  have "m1 (tr (src + i)) = m (tr (src + i))" if "i < sz" for i
    using ext below_tables [OF inv src [OF that]] below [OF that]
    unfolding proc_ext_def base_def by (metis not_le)
  with C show "user_byte m2 r (va + i) = Some (m (tr (src + i)))" if "ok" "i < sz" for i
    using that by simp
qed

lemma load_correct:
  fixes al m r image_start image_end
  defines "base \<equiv> unat (al_current al)" and "sz \<equiv> image_end - image_start"
  assumes dm: "direct_map tr lo hi" and inv: "pt_inv lab lo al m r"
    and kernel: "\<And>va e. \<not> user_entry m r va e"
    and hi: "unat (al_end al) \<le> hi" "unat (al_current al) \<le> hi"
    and small: "unat (image_end - image_start) \<le> 2 ^ 38"
    and src: "\<And>i. i < image_end - image_start \<Longrightarrow> unat (tr (image_start + i)) < lo"
    and run: "process_load_initial_user_program tr image_start image_end (phys_to_virt r) al prog m =
      (ok, prog', al', m')"
  shows "(\<exists>lab'. proc_state base lo r lab al m lab' al' m') \<and>
    (if ok then prog' = \<lparr>pg_entry = USER_TEXT_START, pg_stack_top = USER_STACK_TOP\<rparr> \<and>
      (\<forall>i < sz. user_byte m' r (USER_TEXT_START + i) = Some (m (tr (image_start + i))) \<and>
        (\<exists>p. pt_lookup m' r (USER_TEXT_START + i) = Some (leaf_pte p (PTE_R OR PTE_X OR PTE_U)) \<and>
           unat p < 2 ^ 56))
     else prog' = prog)"
proof -
  have st: "proc_state base lo r lab al m lab al m"
    using inv kernel by (simp add: proc_state_def user_ok_def base_def)
  obtain okl ly where lay: "process_memory_layout_init zero_layout sz 0 0 PAGE_SIZE USER_STACK_SIZE = (okl, ly)"
    by (cases "process_memory_layout_init zero_layout sz 0 0 PAGE_SIZE USER_STACK_SIZE")
  have sz: "unat sz \<le> 2 ^ 40" "unat sz \<le> 2 ^ 39" using small by (simp_all add: sz_def)
  note unfold = load_unfold [of tr image_start image_end, folded sz_def]
  show ?thesis
  proof (cases "phys_to_virt r \<noteq> 0 \<and> okl")
    case False
    with run lay have "\<not> ok \<and> al' = al \<and> m' = m \<and> prog' = prog"
      by (auto simp: unfold split: if_splits)
    with st show ?thesis by auto
  next
    case True
    let ?T = "rg_start (ly_text ly)"
    from True have ly: "layout_ok ly" and tsz: "rg_size (ly_text ly) = align_up sz PAGE_SIZE"
      "rg_flags (ly_text ly) = PTE_R OR PTE_X OR PTE_U"
      using layout_init_correct [OF sz(1) _ _ _ _ lay] by (simp_all add: USER_STACK_SIZE_def)
    then have T: "?T = USER_TEXT_START" "page_aligned ?T" "ly_entry ly = USER_TEXT_START"
        "ly_stack_top ly = USER_STACK_TOP"
      and fl: "unat (rg_flags (ly_text ly)) < 1024" "bit (rg_flags (ly_text ly)) 4" "bit (rg_flags (ly_text ly)) 1"
      by (auto simp: layout_ok_def)
    obtain ok1 al1 m1 where reg: "load_regions tr (phys_to_virt r) ly al m = (ok1, al1, m1)"
      by (cases "load_regions tr (phys_to_virt r) ly al m")
    obtain lab1 where A: "proc_state base lo r lab al m lab1 al1 m1"
      "\<And>rg d. ok1 \<Longrightarrow> rg \<in> {ly_text ly, ly_bss ly, ly_stack ly} \<Longrightarrow> in_range 0 (rg_size rg) d \<Longrightarrow>
         zeroed_at m1 r (unat (al_current al)) (rg_start rg + d) (rg_flags rg)"
      by (rule load_regions_correct [OF dm st ly hi reg]) blast
    obtain ok2 m2 where cp: "copy_into_region tr (phys_to_virt r) ?T image_start sz m1 = (ok2, m2)"
      by (cases "copy_into_region tr (phys_to_virt r) ?T image_start sz m1")
    show ?thesis
    proof (cases ok1)
      case False
      with run lay True reg have "\<not> ok \<and> al' = al1 \<and> m' = m1 \<and> prog' = prog"
        by (auto simp: unfold split: if_splits)
      with A(1) show ?thesis by auto
    next
      case ok1: True
      have frames: "zeroed_at m1 r (unat (al_current al)) (?T + d) (rg_flags (ly_text ly))"
        if "in_range 0 sz d" for d
        using A(2) [OF ok1, of "ly_text ly" d] that tsz(1) by (simp add: in_range_def)
      note pages = mapped_copy_pages [OF T(2) sz(1) fl frames]
      have copied: "copy_pages m1 r ?T sz" by (rule pages(1))
      have "unat (tr (image_start + i)) < lo" if "i < sz" for i using src that by (simp add: sz_def)
      note C = image_copied [OF dm inv A(1) [unfolded base_def] hi sz(2) this copied cp True [THEN conjunct1],
          folded base_def]
      have "al' = al1 \<and> m' = m2 \<and> ok = ok2 \<and>
          prog' = (if ok2 then \<lparr>pg_entry = USER_TEXT_START, pg_stack_top = USER_STACK_TOP\<rparr> else prog)"
        using run lay True reg ok1 cp T by (auto simp: unfold split: bool.splits)
      with C(1,3) pages(2) show ?thesis by (auto simp: C(2) T(1) tsz(2))
    qed
  qed
qed

section \<open>What user mode can reach\<close>

lemma mmu_translate_lookup:
  assumes inv: "pt_inv lab lo al (pmem s) r" and satp: "csr_satp s = make_satp_sv39 r"
  shows "mmu_translate s priv acc va =
    (if sv39_canonical va then
       (case pt_lookup (pmem s) r va of
          None \<Rightarrow> None
        | Some e \<Rightarrow> if leaf_well_formed e \<and> access_allowed (csr_sstatus s) priv acc e
                   then Some (phys_of (pmem s) r va) else None)
     else None)"
proof -
  have "unat r < 2 ^ 56"
    using pt_inv_below [OF inv pt_inv_root [OF inv]] inv by (simp add: pt_inv_def allocator_ok_def)
  moreover have "r AND NOT (4096 - 1) = r"
    using pt_inv_aligned [OF inv pt_inv_root [OF inv]]
    unfolding and_not_4095 page_aligned_def by simp
  ultimately have "drop_bit 60 (csr_satp s) = 8" "push_bit 12 (take_bit 44 (csr_satp s)) = r"
    using make_satp_mode [of r] by (simp_all add: satp SATP_MODE_SV39_def)
  then show ?thesis
    using hw_walk_lookup [OF inv, of va]
    by (auto simp: mmu_translate_def Let_def phys_of_def split: option.split)
qed

lemma user_reach:
  assumes inv: "pt_inv lab lo al (pmem s) r" and user: "user_ok base lab al (pmem s) r"
    and satp: "csr_satp s = make_satp_sv39 r"
    and tr: "mmu_translate s UserMode acc va = Some pa"
  shows "base \<le> unat pa" and "unat pa < unat (al_current al)" and "\<not> table_byte lab pa"
proof -
  from tr obtain e where e: "pt_lookup (pmem s) r va = Some e" "bit e 4"
    and pa: "pa = phys_of (pmem s) r va"
    by (auto simp: mmu_translate_lookup [OF inv satp] access_allowed_def
        split: if_splits option.splits)
  then have "user_entry (pmem s) r va e" by (simp add: user_entry_def)
  from user_phys_range [OF user this inv] show "base \<le> unat pa" "unat pa < unat (al_current al)"
    "\<not> table_byte lab pa"
    by (simp_all add: pa)
qed

lemma kernel_tables_no_user:
  assumes "kernel_tables L platform lo lab r al s"
  shows "\<not> user_entry (pmem s) r va e"
proof
  assume "user_entry (pmem s) r va e"
  then have "pt_lookup (pmem s) r va = Some e" "bit e 4" by (simp_all add: user_entry_def)
  with assms show False
    by (elim region_entry) (use region_flags in \<open>fastforce simp: leaf_pte_low\<close>)+
qed

lemma user_text_canonical:
  assumes "unat i < 2 ^ 37"
  shows "sv39_canonical (USER_TEXT_START + i)"
proof -
  have "unat (USER_TEXT_START + i) = 0x400000 + unat i"
    using assms by (simp add: USER_TEXT_START_def USER_CODE_VIRTUAL_BASE_def unat_add_64)
  then have "unat (drop_bit 38 (USER_TEXT_START + i)) = 0"
    using assms by (simp add: unat_drop_bit_64)
  then show ?thesis
    by (simp add: sv39_canonical_def unat_eq_zero)
qed

text \<open>What user mode fetches from its text, and that it cannot write there.\<close>

lemma user_text_access:
  assumes inv: "pt_inv lab lo al (pmem s) r" and satp: "csr_satp s = make_satp_sv39 r"
    and i: "unat i < 2 ^ 37" and byte: "user_byte (pmem s) r (USER_TEXT_START + i) = Some b"
    and p: "pt_lookup (pmem s) r (USER_TEXT_START + i) = Some (leaf_pte p (PTE_R OR PTE_X OR PTE_U))"
      "unat p < 2 ^ 56"
  shows "\<exists>pa. mmu_translate s UserMode FetchAccess (USER_TEXT_START + i) = Some pa \<and> pmem s pa = b"
    and "mmu_translate s UserMode StoreAccess (USER_TEXT_START + i) = None"
proof -
  have fl: "unat (PTE_R OR PTE_X OR PTE_U) < 1024"
    by (simp add: pte_flag_values)
  have "leaf_well_formed (leaf_pte p (PTE_R OR PTE_X OR PTE_U))"
    using p(2) fl by (intro leaf_pte_well_formed) (simp_all add: bit_or_iff bit_pte_flags)
  moreover have "access_allowed (csr_sstatus s) UserMode acc (leaf_pte p (PTE_R OR PTE_X OR PTE_U)) \<longleftrightarrow>
      acc \<noteq> StoreAccess" for acc
    by (cases acc) (simp_all add: access_allowed_def leaf_pte_low [OF fl] bit_or_iff bit_pte_flags)
  moreover have "b = pmem s (phys_of (pmem s) r (USER_TEXT_START + i))"
    using byte p(1) by (simp add: user_byte_def)
  ultimately show "\<exists>pa. mmu_translate s UserMode FetchAccess (USER_TEXT_START + i) = Some pa \<and> pmem s pa = b"
    "mmu_translate s UserMode StoreAccess (USER_TEXT_START + i) = None"
    using user_text_canonical [OF i] p(1) by (simp_all add: mmu_translate_lookup [OF inv satp])
qed

end
