(* ===== verification/Boot.thy ===== *)
theory Boot
  imports Dtb User Process_Load
begin

text \<open>
  From reset to the first user task (\<^verbatim>\<open>src/arch/riscv/boot/dispatch_m.cpp\<close>,
  \<^verbatim>\<open>src/arch/riscv/boot/dispatch_s.cpp\<close>, \<^verbatim>\<open>src/kernel/Machine.cpp\<close>, \<^verbatim>\<open>src/kernel/Supervisor.cpp\<close>)
  and the self-tests of the kernel's page tables (\<^verbatim>\<open>include/utility/PagingTests.hpp\<close>).
\<close>

section \<open>Machine mode\<close>

text \<open>Everything the linker decides: section bounds, entry points, stacks and the user image.\<close>

record boot_image =
  bi_layout :: kernel_layout
  bi_symbols :: image_symbols
  bi_supervisor_main :: u64
  bi_machine_trap_entry :: u64
  bi_machine_trap_stack_top :: u64
  bi_supervisor_trap_entry :: u64
  bi_supervisor_trap_stack_top :: u64
  bi_user_start :: u64
  bi_user_end :: u64

text \<open>The result is the state at the \<^verbatim>\<open>mret\<close> and the two argument registers; \<^verbatim>\<open>mret\<close> does not return.\<close>

definition machine_main :: "boot_image \<Rightarrow> u64 \<Rightarrow> u64 \<Rightarrow> machine \<Rightarrow> machine \<times> u64 \<times> u64" where
  "machine_main img hartid dtb s =
     (let s = machine_traps_init (bi_machine_trap_entry img) (bi_machine_trap_stack_top img) s;
          s = delegate_supervisor_exceptions s;
          s = pmp_init_allow_all s
      in enter_supervisor_mode (bi_supervisor_main img) hartid dtb s)"

definition dispatch_m :: "boot_image \<Rightarrow> u64 \<Rightarrow> u64 \<Rightarrow> machine \<Rightarrow> machine \<times> u64 \<times> u64" where
  "dispatch_m img hartid dtb s = machine_main img hartid dtb s"

section \<open>Supervisor mode\<close>

text \<open>
  With paging on, the kernel's loads and stores go through the page tables. Loading the user program
  only adds mappings, so the view of the kernel's addresses is taken once, at its start.
\<close>

definition kernel_view :: "machine \<Rightarrow> u64 \<Rightarrow> u64" where
  "kernel_view s va =
     (case mmu_translate s SupervisorMode LoadAccess va of Some pa \<Rightarrow> pa | None \<Rightarrow> va)"

definition empty_platform :: platform_info where
  "empty_platform =
     \<lparr>pf_ram_base = 0, pf_ram_size = 0, pf_uart_base = 0, pf_dtb_addr = 0, pf_dtb_size = 0,
      pf_dtb_end = 0, pf_kernel_start = 0, pf_kernel_end = 0, pf_bss_start = 0, pf_bss_end = 0\<rparr>"

text \<open>\<open>None\<close> would be a search in the device tree that does not end.\<close>

definition supervisor_main :: "boot_image \<Rightarrow> u64 \<Rightarrow> u64 \<Rightarrow> machine \<Rightarrow> user_context outcome option" where
  "supervisor_main img hartid dtb s =
     map_option (\<lambda>(ok, platform, s).
       if \<not> ok then panic ''supervisor_main'' ''Failed to initialize platform information.'' s
       else (case physical_page_allocator_init \<lparr>al_current = 0, al_end = 0\<rparr> platform of (ok, allocator) \<Rightarrow>
               if \<not> ok then panic ''supervisor_main'' ''Failed to initialize physical page allocator.'' s
               else (case paging_init (bi_layout img) allocator platform s of (ok, root, allocator, s) \<Rightarrow>
                       if \<not> ok then panic ''supervisor_main'' ''Failed to initialize paging.'' s
                       else let s = supervisor_traps_init (bi_supervisor_trap_entry img)
                                      (bi_supervisor_trap_stack_top img) s;
                                s = debug_prints ''Supervisor Mode Reached\<newline>'' s
                            in user_task_init (kernel_view s) (bi_user_start img) (bi_user_end img)
                                 root allocator hartid dtb s)))
     (platform_info_init (bi_symbols img) empty_platform dtb s)"

definition dispatch_s :: "boot_image \<Rightarrow> u64 \<Rightarrow> u64 \<Rightarrow> machine \<Rightarrow> user_context outcome option" where
  "dispatch_s img hartid dtb s = supervisor_main img hartid dtb s"

section \<open>Paging self-tests\<close>

definition test_va :: "(u64 \<Rightarrow> u64) \<Rightarrow> u64 \<Rightarrow> string \<Rightarrow> u64 \<Rightarrow> machine \<Rightarrow> machine" where
  "test_va tr root name va s =
     (let s = uart_puts (chars name) s;
          s = uart_puts (chars '' VA: '') s;
          s = print_hex va s
      in (case paging_query tr root va (pmem s) of
            (False, pa, flags) \<Rightarrow> uart_puts (chars '' -> unmapped\<newline>'') s
          | (True, pa, flags) \<Rightarrow>
              let s = uart_puts (chars '' -> PA: '') s;
                  s = print_hex pa s;
                  s = uart_puts (chars '' flags='') s;
                  s = uart_puts (chars (if flags AND PTE_V \<noteq> 0 then ''V'' else ''-'')) s;
                  s = uart_puts (chars (if flags AND PTE_R \<noteq> 0 then ''R'' else ''-'')) s;
                  s = uart_puts (chars (if flags AND PTE_W \<noteq> 0 then ''W'' else ''-'')) s;
                  s = uart_puts (chars (if flags AND PTE_X \<noteq> 0 then ''X'' else ''-'')) s
              in uart_puts (chars ''\<newline>'') s))"

definition test_page_walker :: "(u64 \<Rightarrow> u64) \<Rightarrow> kernel_layout \<Rightarrow> u64 \<Rightarrow> machine \<Rightarrow> machine" where
  "test_page_walker tr L root s =
     (let s = test_va tr root ''TEXT   '' (ks_text_start L) s;
          s = test_va tr root ''RODATA '' (ks_rodata_start L) s
      in test_va tr root ''DATA   '' (ks_data_start L) s)"

text \<open>An aligned eight-byte store and a jump, through the address translation.\<close>

definition store_word :: "machine \<Rightarrow> u64 \<Rightarrow> u64 \<Rightarrow> unit outcome" where
  "store_word s va v =
     (case mmu_translate s SupervisorMode StoreAccess va of
        None \<Rightarrow> Fault va s
      | Some pa \<Rightarrow> Done () (s\<lparr>pmem := st64 (pmem s) pa v\<rparr>))"

definition call_address :: "machine \<Rightarrow> u64 \<Rightarrow> u64 outcome" where
  "call_address s va =
     (case mmu_translate s SupervisorMode FetchAccess va of None \<Rightarrow> Fault va s | Some pa \<Rightarrow> Done pa s)"

definition test_text_write_fault :: "kernel_layout \<Rightarrow> machine \<Rightarrow> unit outcome" where
  "test_text_write_fault L s = store_word s (ks_text_start L) 0xDEADBEEFCAFEBABE"

definition test_rodata_write_fault :: "kernel_layout \<Rightarrow> machine \<Rightarrow> unit outcome" where
  "test_rodata_write_fault L s = store_word s (ks_rodata_start L) 0x1122334455667788"

definition test_data_exec_fault :: "kernel_layout \<Rightarrow> machine \<Rightarrow> u64 outcome" where
  "test_data_exec_fault L s = call_address s (ks_data_start L)"

end
