(* ===== verification/Process_Total.thy ===== *)
theory Process_Total
  imports Process_Load
begin

text \<open>
  Enough memory is enough: mapping the regions of a process and loading the initial program succeed
  when three pages are left for every page of a region, its frame and at most two tables.
\<close>

section \<open>Mapping a region succeeds\<close>

definition region_room :: "memory_region \<Rightarrow> bool" where
  "region_room rg \<longleftrightarrow>
     page_aligned (rg_start rg) \<and> page_aligned (rg_size rg) \<and>
     unat (rg_start rg) + unat (rg_size rg) \<le> 2 ^ 39 \<and>
     unat (rg_flags rg) < 1024 \<and> bit (rg_flags rg) 4"

lemma region_room_vpage:
  assumes "region_room rg" "in_range 0 (rg_size rg) d"
  shows "vpage (rg_start rg + d) = page_of (rg_start rg) + page_of d"
    "unat (rg_start rg + d) = unat (rg_start rg) + unat d"
proof -
  have d: "unat (rg_start rg) + unat d < 2 ^ 39" "page_aligned d" "page_aligned (rg_start rg)"
    using assms by (auto simp: region_room_def in_range_def word_less_nat_alt)
  then show u: "unat (rg_start rg + d) = unat (rg_start rg) + unat d"
    by (simp add: unat_add_64)
  have "page_of (rg_start rg + d) = page_of (rg_start rg) + page_of d"
    using d(2,3) unfolding page_of_def u by (auto simp: page_aligned_iff)
  moreover have "page_of (rg_start rg + d) < 2 ^ 27"
    using d(1) by (simp add: page_of_def u less_mult_imp_div_less)
  ultimately show "vpage (rg_start rg + d) = page_of (rg_start rg) + page_of d"
    by (simp add: vpage_def)
qed

lemma map_region_from_total:
  assumes dm: "direct_map tr lo hi" and rg: "region_room rg"
    and "pt_inv lab lo al m r" and "user_ok base lab al m r"
    and "unat (al_end al) \<le> hi" "unat (al_current al) \<le> hi" and "page_aligned offset"
    and "\<And>d. in_range offset (rg_size rg) d \<Longrightarrow> pt_lookup m r (rg_start rg + d) = None"
    and "unat (al_current al) + 3 * (unat (rg_size rg) - unat offset) \<le> unat (al_end al)"
    and "map_region_from tr (phys_to_virt r) rg offset al m = (ok, al', m')"
  shows "ok \<and> unat (al_current al') \<le> unat (al_current al) + 3 * (unat (rg_size rg) - unat offset)"
  using assms(3-10)
proof (induction "2 ^ 64 - unat offset" arbitrary: lab al m offset rule: less_induct)
  case less
  note inv = less.prems(1) and user = less.prems(2) and hi = less.prems(3,4) and off = less.prems(5)
    and fresh = less.prems(6) and room = less.prems(7)
  have sz: "page_aligned (rg_size rg)" and flags: "unat (rg_flags rg) < 1024" "bit (rg_flags rg) 4"
    and start: "page_aligned (rg_start rg)"
    using rg by (simp_all add: region_room_def)
  note unfold = map_region_from_unfold [OF sz, of tr "phys_to_virt r" offset]
  show ?case
  proof (cases "offset < align_up (rg_size rg) PAGE_SIZE")
    case False
    with less.prems(8) show ?thesis by (simp add: unfold)
  next
    case True
    note range = in_range_step [OF off True]
    have alok: "allocator_ok al" using inv by (simp add: pt_inv_def)
    have step: "unat offset + 4096 \<le> unat (rg_size rg)"
      using True off sz by (intro nat_mult_aligned_le) (simp_all add: page_aligned_iff word_less_nat_alt)
    have next_off: "unat (offset + PAGE_SIZE) = unat offset + 4096"
      using page_step(1) [OF off True] .
    obtain p al1 where alloc: "physical_alloc_page al = (p, al1)"
      by (cases "physical_alloc_page al")
    have nz: "p \<noteq> 0"
      using alloc room step alok by (auto simp: physical_alloc_page_eq allocator_ok_def split: if_splits)
    let ?va = "rg_start rg + offset"
    obtain ok1 al2 m2 where run: "paging_map tr (phys_to_virt r) ?va p (rg_flags rg) al1
      (zero_page_from tr (phys_to_virt p) 0 m) = (ok1, al2, m2)"
      by (cases "paging_map tr (phys_to_virt r) ?va p (rg_flags rg) al1
        (zero_page_from tr (phys_to_virt p) 0 m)")
    have va: "page_aligned ?va" using start off by simp
    obtain lab1 where S: "pt_inv lab1 lo al2 m2 r" "user_ok base lab1 al2 m2 r"
      "proc_ext lab al m lab1 al2 m2"
      "pt_lookup m2 r = (if ok1 then spec_map (pt_lookup m r) ?va (leaf_pte p (rg_flags rg))
         else pt_lookup m r)"
      "ok1 \<Longrightarrow> pt_lookup m r ?va = None" "p = al_current al"
      "\<And>a. page_of a = page_of p \<Longrightarrow> m2 a = 0"
      "unat (al_current al2) \<le> unat (al_current al) + 12288"
      "pt_lookup m r ?va = None \<Longrightarrow> unat (al_current al) + 12288 \<le> unat (al_end al) \<Longrightarrow> ok1"
      by (rule map_user_page [OF dm inv user hi alloc nz run va flags]) (rule that)
    have here: "in_range offset (rg_size rg) offset"
      using off True by (simp add: in_range_def)
    have ok1: ok1
      using S(9) fresh [OF here] room step by linarith
    have rest: "map_region_from tr (phys_to_virt r) rg (offset + PAGE_SIZE) al2 m2 = (ok, al', m')"
      using less.prems(8) True nz alloc run ok1 by (simp add: unfold)
    have decr: "2 ^ 64 - unat (offset + PAGE_SIZE) < 2 ^ 64 - unat offset"
      using next_off unat_lt_64 [of offset] by simp
    have nxt: "page_aligned (offset + PAGE_SIZE)"
      using off by (intro page_aligned_plus) (simp_all add: page_aligned_def)
    have hi2: "unat (al_end al2) \<le> hi" "unat (al_current al2) \<le> hi"
      and ends: "unat (al_end al2) = unat (al_end al)"
      using S(3) hi by (auto simp: proc_ext_def max_def split: if_splits)
    have fresh2: "pt_lookup m2 r (rg_start rg + d) = None"
      if d: "in_range (offset + PAGE_SIZE) (rg_size rg) d" for d
    proof -
      have d0: "in_range 0 (rg_size rg) d" "in_range offset (rg_size rg) d"
        using d next_off by (auto simp: in_range_def word_le_nat_alt)
      have "unat offset + 4096 \<le> unat d"
        using d next_off by (simp add: in_range_def word_le_nat_alt)
      then have "page_of d \<noteq> page_of offset"
        using d off by (auto simp: page_of_def page_aligned_iff in_range_def)
      moreover have "in_range 0 (rg_size rg) offset"
        using here by (simp add: in_range_def)
      ultimately have "vpage (rg_start rg + d) \<noteq> vpage ?va"
        using region_room_vpage(1) [OF rg] d0(1) by simp
      with fresh [OF d0(2)] S(4) ok1 show ?thesis
        by (simp add: spec_map_def)
    qed
    have "ok \<and> unat (al_current al') \<le>
        unat (al_current al2) + 3 * (unat (rg_size rg) - unat (offset + PAGE_SIZE))"
      using less.hyps [OF decr S(1,2) hi2 nxt fresh2 _ rest] room S(8) ends step next_off by simp
    with S(8) step next_off show ?thesis by linarith
  qed
qed

section \<open>Loading succeeds\<close>

lemma rooms_apart:
  assumes "region_room A" "region_room B" and "unat (rg_start A) + unat (rg_size A) \<le> unat (rg_start B)"
    and "in_range 0 (rg_size A) d" "in_range 0 (rg_size B) d'"
  shows "vpage (rg_start B + d') \<noteq> vpage (rg_start A + d)"
proof -
  have "unat d < unat (rg_size A)" "page_aligned (rg_start A)" "page_aligned (rg_start B)" "page_aligned d"
    using assms by (auto simp: in_range_def region_room_def word_less_nat_alt)
  with assms(3) have "page_of (rg_start A) + page_of d < page_of (rg_start B)"
    by (auto simp: page_of_def page_aligned_iff)
  then show ?thesis
    using region_room_vpage(1) [OF assms(1,4)] region_room_vpage(1) [OF assms(2,5)] by simp
qed

lemma region_total:
  assumes dm: "direct_map tr lo hi" and st: "proc_state base lo r lab al m lab1 al1 m1"
    and rg: "region_room rg" and hi: "unat (al_end al) \<le> hi" "unat (al_current al) \<le> hi"
    and root: "phys_to_virt r \<noteq> 0"
    and fresh: "\<And>d. in_range 0 (rg_size rg) d \<Longrightarrow> pt_lookup m1 r (rg_start rg + d) = None"
    and room: "unat (al_current al1) + 3 * unat (rg_size rg) \<le> unat (al_end al)"
  obtains lab2 al2 m2 where "map_region tr (phys_to_virt r) rg al1 m1 = (True, al2, m2)"
    and "proc_state base lo r lab al m lab2 al2 m2"
    and "unat (al_current al2) \<le> unat (al_current al1) + 3 * unat (rg_size rg)"
    and "\<And>va. (\<And>d. in_range 0 (rg_size rg) d \<Longrightarrow> vpage va \<noteq> vpage (rg_start rg + d)) \<Longrightarrow>
           pt_lookup m2 r va = pt_lookup m1 r va"
proof -
  have inv: "pt_inv lab1 lo al1 m1 r" and user: "user_ok base lab1 al1 m1 r"
    and ext: "proc_ext lab al m lab1 al1 m1" and sub: "pt_lookup m r \<subseteq>\<^sub>m pt_lookup m1 r"
    using st by (simp_all add: proc_state_def)
  have hi1: "unat (al_end al1) \<le> hi" "unat (al_current al1) \<le> hi"
    and ends: "unat (al_end al1) = unat (al_end al)"
    using ext hi by (auto simp: proc_ext_def max_def split: if_splits)
  have rg': "page_aligned (rg_start rg)" "page_aligned (rg_size rg)" "unat (rg_flags rg) < 1024"
    "bit (rg_flags rg) 4"
    using rg by (simp_all add: region_room_def)
  obtain ok al2 m2 where run: "map_region tr (phys_to_virt r) rg al1 m1 = (ok, al2, m2)"
    by (cases "map_region tr (phys_to_virt r) rg al1 m1")
  then have "map_region_from tr (phys_to_virt r) rg 0 al1 m1 = (ok, al2, m2)"
    using root rg' by (simp add: map_region_def page_aligned_def)
  from map_region_from_total [OF dm rg inv user hi1 page_aligned_0 fresh _ this] room ends
  have T: ok "unat (al_current al2) \<le> unat (al_current al1) + 3 * unat (rg_size rg)"
    by simp_all
  obtain lab2 where S: "pt_inv lab2 lo al2 m2 r" "user_ok base lab2 al2 m2 r"
    "proc_ext lab1 al1 m1 lab2 al2 m2" "pt_lookup m1 r \<subseteq>\<^sub>m pt_lookup m2 r"
    "ok \<Longrightarrow> region_zeroed m1 m2 r (unat (al_current al1)) rg 0"
    "\<And>va. (\<And>d. in_range 0 (rg_size rg) d \<Longrightarrow> vpage va \<noteq> vpage (rg_start rg + d)) \<Longrightarrow>
           pt_lookup m2 r va = pt_lookup m1 r va"
    by (rule map_region_correct [OF dm rg'(3,4) inv user hi1 run]) (rule that, assumption+, simp)
  have "proc_state base lo r lab al m lab2 al2 m2"
    using S proc_ext_trans [OF ext S(3) inv] map_le_trans [OF sub S(4)] by (simp add: proc_state_def)
  from that [OF run [simplified T(1) eq_True] this T(2) S(6)] show ?thesis
    by blast
qed

text \<open>The addresses of the text, the bss page and the stack page.\<close>

definition user_area :: "u64 \<Rightarrow> u64 \<Rightarrow> bool" where
  "user_area sz va \<longleftrightarrow>
     0x400000 \<le> unat va \<and> unat va < 0x400000 + rounded sz + 4096 \<or>
     0x3FFFFFE000 \<le> unat va \<and> unat va < 0x3FFFFFF000"

lemma load_regions_total:
  assumes dm: "direct_map tr lo hi" and st: "proc_state base lo r lab al m lab al m"
    and ly: "layout_ok ly" and sizes: "rg_size (ly_text ly) = align_up sz PAGE_SIZE"
      "rg_size (ly_bss ly) = PAGE_SIZE" "rg_size (ly_stack ly) = PAGE_SIZE"
      "rg_size (ly_rodata ly) = 0" "rg_size (ly_data ly) = 0"
    and hi: "unat (al_end al) \<le> hi" "unat (al_current al) \<le> hi" and root: "phys_to_virt r \<noteq> 0"
    and fresh: "\<And>va. user_area sz va \<Longrightarrow> pt_lookup m r va = None"
    and room: "unat (al_current al) + 3 * rounded sz + 24576 \<le> unat (al_end al)"
  shows "fst (load_regions tr (phys_to_virt r) ly al m)"
proof -
  let ?t = "ly_text ly" and ?b = "ly_bss ly" and ?s = "ly_stack ly"
  have chain: "rg_start ?t = USER_TEXT_START" "follows ?t (rg_start (ly_rodata ly))"
    "follows (ly_rodata ly) (rg_start (ly_data ly))" "follows (ly_data ly) (rg_start ?b)"
    "follows ?b (rg_start (ly_heap ly))" "unat (rg_start (ly_heap ly)) < unat (rg_start ?s)"
    "follows ?s USER_STACK_TOP"
    using ly by (simp_all only: layout_ok_def)
  have starts: "unat (rg_start ?t) = 0x400000" "unat (rg_start ?b) = 0x400000 + rounded sz"
    "unat (rg_start ?s) = 0x3FFFFFE000" "0x400000 + rounded sz + 4096 < 0x3FFFFFE000"
    using chain by (simp_all add: follows_def sizes USER_TEXT_START_def USER_CODE_VIRTUAL_BASE_def
        USER_STACK_TOP_def)
  have "page_aligned USER_TEXT_START" "page_aligned PAGE_SIZE"
    by (simp_all add: page_aligned_def USER_TEXT_START_def USER_CODE_VIRTUAL_BASE_def)
  then have rooms: "region_room ?t" "region_room ?b" "region_room ?s"
    using ly starts by (simp_all add: layout_ok_def region_room_def sizes)
  have area: "user_area sz (rg_start rg + d)" if "rg \<in> {?t, ?b, ?s}" "in_range 0 (rg_size rg) d" for rg d
  proof -
    have rm: "region_room rg" using that(1) rooms by blast
    note u = region_room_vpage(2) [OF rm that(2)]
    have "unat d < unat (align_up (rg_size rg) PAGE_SIZE)"
      using that(2) by (simp add: in_range_def word_less_nat_alt)
    moreover have "unat (align_up (rg_size rg) PAGE_SIZE) = unat (rg_size rg)"
      using rm by (simp add: region_room_def)
    ultimately show ?thesis
      using that(1) starts sizes u by (auto simp: user_area_def)
  qed
  have apart: "vpage (rg_start B + d') \<noteq> vpage (rg_start A + d)"
    if "(A, B) \<in> {(?t, ?b), (?t, ?s), (?b, ?s)}" "in_range 0 (rg_size A) d" "in_range 0 (rg_size B) d'"
    for A B d d'
    using that rooms starts sizes by (intro rooms_apart) auto
  obtain lab1 al1 m1 where 1: "map_region tr (phys_to_virt r) ?t al m = (True, al1, m1)"
    "proc_state base lo r lab al m lab1 al1 m1"
    "unat (al_current al1) \<le> unat (al_current al) + 3 * unat (rg_size ?t)"
    "\<And>va. (\<And>d. in_range 0 (rg_size ?t) d \<Longrightarrow> vpage va \<noteq> vpage (rg_start ?t + d)) \<Longrightarrow>
       pt_lookup m1 r va = pt_lookup m r va"
    by (rule region_total [OF dm st rooms(1) hi root]) (use fresh area room sizes in auto)
  obtain lab2 al2 m2 where 2: "map_region tr (phys_to_virt r) ?b al1 m1 = (True, al2, m2)"
    "proc_state base lo r lab al m lab2 al2 m2"
    "unat (al_current al2) \<le> unat (al_current al1) + 3 * unat (rg_size ?b)"
    "\<And>va. (\<And>d. in_range 0 (rg_size ?b) d \<Longrightarrow> vpage va \<noteq> vpage (rg_start ?b + d)) \<Longrightarrow>
       pt_lookup m2 r va = pt_lookup m1 r va"
    by (rule region_total [OF dm 1(2) rooms(2) hi root])
      (use fresh area room sizes 1(3,4) apart in auto)
  obtain lab3 al3 m3 where 3: "map_region tr (phys_to_virt r) ?s al2 m2 = (True, al3, m3)"
    "proc_state base lo r lab al m lab3 al3 m3"
    by (rule region_total [OF dm 2(2) rooms(3) hi root])
      (use fresh area room sizes 1(3,4) 2(3,4) apart in auto)
  show ?thesis
    by (simp add: load_regions_def 1(1) 2(1) 3(1))
qed

lemma load_total:
  fixes al m image_start image_end
  defines "sz \<equiv> image_end - image_start"
  assumes dm: "direct_map tr lo hi" and inv: "pt_inv lab lo al m r"
    and kernel: "\<And>va e. \<not> user_entry m r va e"
    and hi: "unat (al_end al) \<le> hi" "unat (al_current al) \<le> hi" and root: "phys_to_virt r \<noteq> 0"
    and small: "unat sz \<le> 2 ^ 38" and fits: "layout_fits sz 0 0 PAGE_SIZE USER_STACK_SIZE"
    and src: "\<And>i. i < sz \<Longrightarrow> unat (tr (image_start + i)) < lo"
    and fresh: "\<And>va. user_area sz va \<Longrightarrow> pt_lookup m r va = None"
    and room: "unat (al_current al) + 3 * rounded sz + 24576 \<le> unat (al_end al)"
  shows "fst (process_load_initial_user_program tr image_start image_end (phys_to_virt r) al prog m)"
proof -
  have lo: "lo \<le> unat (al_current al)"
    using pt_inv_table [OF inv pt_inv_root [OF inv]] by (auto simp: table_ok_def)
  have st: "proc_state (unat (al_current al)) lo r lab al m lab al m"
    using inv kernel by (simp add: proc_state_def user_ok_def)
  obtain okl ly where lay: "process_memory_layout_init zero_layout sz 0 0 PAGE_SIZE USER_STACK_SIZE = (okl, ly)"
    by (cases "process_memory_layout_init zero_layout sz 0 0 PAGE_SIZE USER_STACK_SIZE")
  have sz: "unat sz \<le> 2 ^ 40" "unat sz \<le> 2 ^ 39" using small by simp_all
  note L = layout_init_correct [OF sz(1) _ _ _ _ lay]
  have okl: okl using L(1) fits by (simp add: USER_STACK_SIZE_def)
  have ly: "layout_ok ly" using L(2) okl by (simp add: USER_STACK_SIZE_def)
  have sizes: "rg_size (ly_text ly) = align_up sz PAGE_SIZE" "rg_size (ly_bss ly) = PAGE_SIZE"
    "rg_size (ly_stack ly) = PAGE_SIZE" "rg_size (ly_rodata ly) = 0" "rg_size (ly_data ly) = 0"
    "rg_flags (ly_text ly) = PTE_R OR PTE_X OR PTE_U"
    using L(4) okl by (simp_all add: USER_STACK_SIZE_def page_aligned_def word_unat_eq_iff align_up_def)
  obtain ok1 al1 m1 where reg: "load_regions tr (phys_to_virt r) ly al m = (ok1, al1, m1)"
    by (cases "load_regions tr (phys_to_virt r) ly al m")
  have ok1: ok1
    using load_regions_total [OF dm st ly sizes(1-5) hi root fresh room] reg by simp
  obtain lab1 where A: "proc_state (unat (al_current al)) lo r lab al m lab1 al1 m1"
    "\<And>rg d. ok1 \<Longrightarrow> rg \<in> {ly_text ly, ly_bss ly, ly_stack ly} \<Longrightarrow> in_range 0 (rg_size rg) d \<Longrightarrow>
       zeroed_at m1 r (unat (al_current al)) (rg_start rg + d) (rg_flags rg)"
    by (rule load_regions_correct [OF dm st ly hi reg]) blast
  let ?T = "rg_start (ly_text ly)"
  have T: "page_aligned ?T" "unat (rg_flags (ly_text ly)) < 1024" "bit (rg_flags (ly_text ly)) 4"
    "bit (rg_flags (ly_text ly)) 1"
    using ly by (auto simp: layout_ok_def)
  have frames: "zeroed_at m1 r (unat (al_current al)) (?T + d) (rg_flags (ly_text ly))"
    if "in_range 0 sz d" for d
    using A(2) [OF ok1, of "ly_text ly" d] that sizes(1) by (simp add: in_range_def)
  note pages = mapped_copy_pages [OF T(1) sz(1) T(2-4) frames]
  have inv1: "pt_inv lab1 lo al1 m1 r" and user1: "user_ok (unat (al_current al)) lab1 al1 m1 r"
    and ext1: "proc_ext lab al m lab1 al1 m1"
    using A(1) by (simp_all add: proc_state_def)
  have cur1: "unat (al_current al1) \<le> hi"
    using ext1 hi by (auto simp: proc_ext_def max_def split: if_splits)
  have src1: "unat (tr (image_start + i)) < unat (al_current al)" if "i < sz" for i
    using src [of i] that lo by simp
  obtain ok2 m2 where cp: "copy_into_from tr (phys_to_virt r) ?T image_start sz 0 m1 = (ok2, m2)"
    by (cases "copy_into_from tr (phys_to_virt r) ?T image_start sz 0 m1")
  have ok2: ok2
    using copy_into_from_correct [OF dm lo cur1 sz(2) src1 inv1 user1 pages(1) cp] pages(2) by fastforce
  with cp root have "copy_into_region tr (phys_to_virt r) ?T image_start sz m1 = (True, m2)"
    by (simp add: copy_into_region_def)
  then show ?thesis
    using root lay okl reg ok1 by (simp add: load_unfold flip: sz_def)
qed

end
