(* ===== verification/Example.thy ===== *)
theory Example
  imports Paging_Init
begin

text \<open>
  A concrete machine at which the properties are applied: the layout, the platform and the
  allocator of a small kernel, with the facts about them the instances need.
\<close>

section \<open>A concrete machine for the witnesses\<close>

text \<open>QEMU's \<^verbatim>\<open>virt\<close> board with 128 MB of RAM and a one-megabyte kernel image.\<close>

definition virt_layout :: kernel_layout where
  "virt_layout =
     \<lparr>ks_text_start = 0x80000000, ks_text_end = 0x80008000,
      ks_rodata_start = 0x80008000, ks_rodata_end = 0x8000A000,
      ks_data_start = 0x8000A000, ks_data_end = 0x8000B000,
      ks_bss_start = 0x8000B000, ks_bss_end = 0x80020000\<rparr>"

definition virt_platform :: platform_info where
  "virt_platform =
     \<lparr>pf_ram_base = 0x80000000, pf_ram_size = 0x8000000, pf_uart_base = 0x10000000,
      pf_dtb_addr = 0x80100000, pf_dtb_size = 0x1500, pf_dtb_end = 0x80101500,
      pf_kernel_start = 0x80000000, pf_kernel_end = 0x80020000,
      pf_bss_start = 0x8000B000, pf_bss_end = 0x80020000\<rparr>"

definition virt_pages :: physical_page_allocator where
  "virt_pages = \<lparr>al_current = 0x80102000, al_end = 0x88000000\<rparr>"

definition reset_machine :: machine where
  "reset_machine =
     \<lparr>pmem = (\<lambda>_. 0), csr_sstatus = 0, csr_satp = 0, csr_stvec = 0, csr_sepc = 0, csr_scause = 0,
      csr_sie = 0, csr_mstatus = 0, csr_mtvec = 0, csr_mepc = 0, csr_mcause = 0, csr_mie = 0,
      csr_medeleg = 0, csr_mideleg = 0, csr_mtval = 0, csr_pmpaddr0 = 0, csr_pmpcfg0 = 0,
      csr_sscratch = 0, csr_mscratch = 0, uart_tx = [], uart_rx = [], g_uart_base = 0,
      g_dtb = 0, g_kernel_root = 0\<rparr>"

lemma virt_init_pages:
  "physical_page_allocator_init al virt_platform = (True, virt_pages)"
  by (simp add: physical_page_allocator_init_def virt_platform_def virt_pages_def max_u64_def align_up_def)

lemma virt_pages_ok: "allocator_ok virt_pages"
  by (simp add: allocator_ok_def virt_pages_def page_aligned_def)

lemma virt_regions_ok: "\<forall>R \<in> set (kernel_regions virt_layout virt_platform). region_ok R"
  by (simp add: kernel_regions_def virt_layout_def virt_platform_def region_ok_def Let_def
      page_aligned_def region_pages_def vpage_def page_of_def align_up_def phys_to_virt_def
      KERNEL_DIRECT_MAP_BASE_def)

lemma virt_regions_apart: "sorted_wrt regions_apart (kernel_regions virt_layout virt_platform)"
  by (simp add: kernel_regions_def virt_layout_def virt_platform_def regions_apart_def Let_def
      region_pages_def vpage_def page_of_def align_up_def phys_to_virt_def
      KERNEL_DIRECT_MAP_BASE_def)

lemma virt_room:
  "unat (al_current virt_pages) + 4096 *
    (1 + sum_list (map region_tables (kernel_regions virt_layout virt_platform)))
    \<le> unat (al_end virt_pages)"
  by (simp add: kernel_regions_def virt_layout_def virt_platform_def Let_def virt_pages_def
      region_tables_def table_index_def last_page_def page_of_def align_up_def phys_to_virt_def
      KERNEL_DIRECT_MAP_BASE_def)


text \<open>An empty root table on its own.\<close>

definition virt_root :: u64 where
  "virt_root = 0x80101000"

lemma entry_zero_mem [simp]: "entry (\<lambda>_. 0) t i = 0"
  by (simp add: entry_def ld64_zero)

lemma virt_root_inv: "pt_inv [virt_root \<mapsto> []] 0x80000000 virt_pages (\<lambda>_. 0) virt_root"
  by (simp add: pt_inv_def table_ok_def virt_pages_ok virt_root_def page_aligned_def)
    (simp add: virt_pages_def)

lemma virt_root_empty [simp]: "pt_lookup (\<lambda>_. 0) r = Map.empty"
  by (simp add: fun_eq_iff pt_lookup_def follow_def)

lemma virt_init_runs:
  obtains root al' s' where
    "paging_init virt_layout virt_pages virt_platform reset_machine = (True, root, al', s')"
  using paging_init_enough(1) [OF virt_pages_ok virt_regions_ok virt_regions_apart virt_room]
  by (metis (full_types) prod.exhaust_sel)

lemma virt_text_mapped:
  assumes "paging_init virt_layout virt_pages virt_platform reset_machine = (True, root, al', s')"
  obtains e where "pt_lookup (pmem s') (virt_to_phys root) 0x80000000 = Some e"
proof (rule paging_init_success [OF virt_pages_ok assms])
  fix lab r
  assume tables: "kernel_tables virt_layout virt_platform (unat (al_current virt_pages)) lab r al' s'"
    and root: "root = phys_to_virt r"
  have "(0x80000000, 0x80000000, 0x8000, PTE_R OR PTE_X) \<in>
      set (kernel_regions virt_layout virt_platform)"
    by (simp add: kernel_regions_def Let_def virt_layout_def)
  moreover have "in_range 0 0x8000 0"
    by (simp add: in_range_def align_up_def)
  ultimately have "pt_lookup (pmem s') r (0x80000000 + 0) =
      Some (leaf_pte (0x80000000 + 0) (PTE_R OR PTE_X))"
    using tables unfolding kernel_tables_def regions_mapped_def by fastforce
  with root that show thesis by simp
qed

end
