(* ===== verification/User_Space.thy ===== *)
theory User_Space
  imports Process_Total Boot Example
begin

text \<open>
  The first process on the tables of \<^verbatim>\<open>paging_init\<close>: once paging is on, the kernel's view of RAM is
  the direct map the loader needs, so what is proved of the loader holds of
  \<^verbatim>\<open>supervisor_main\<close>'s call of it.
\<close>

section \<open>The kernel's view after paging is on\<close>

text \<open>
  What the platform and the linker give: RAM is page-aligned and within the 256 GB the direct map
  reaches, the free pages are in it, and the user image is part of the kernel's data section.
\<close>

definition boot_memory ::
  "kernel_layout \<Rightarrow> platform_info \<Rightarrow> physical_page_allocator \<Rightarrow> u64 \<Rightarrow> u64 \<Rightarrow> bool" where
  "boot_memory L platform al image_start image_end \<longleftrightarrow>
     allocator_ok al \<and> page_aligned (pf_ram_base platform) \<and>
     unat (pf_ram_base platform) + rounded (pf_ram_size platform) \<le> 2 ^ 38 \<and>
     unat (pf_ram_base platform) \<le> unat (al_current al) \<and>
     unat (al_current al) \<le> unat (al_end al) \<and>
     unat (al_end al) \<le> unat (pf_ram_base platform) + rounded (pf_ram_size platform) \<and>
     page_aligned (ks_data_start L) \<and> ks_data_start L \<le> image_start \<and> image_start \<le> image_end \<and>
     image_end \<le> ks_data_end L \<and> unat (ks_data_end L) \<le> unat (al_current al)"

lemma kernel_view_direct:
  assumes "kernel_tables L platform lo lab r al' s" and "boot_memory L platform al us ue"
  shows "direct_map (kernel_view s) (unat (pf_ram_base platform))
    (unat (pf_ram_base platform) + rounded (pf_ram_size platform))"
  using assms direct_map_translate [OF assms(1), of _ LoadAccess]
  by (simp add: direct_map_def boot_memory_def kernel_view_def)

lemma direct_map_mono: "direct_map tr lo hi \<Longrightarrow> lo \<le> lo' \<Longrightarrow> direct_map tr lo' hi"
  by (simp add: direct_map_def)

lemma kernel_view_image:
  assumes tables: "kernel_tables L platform lo lab r al' s" and mem: "boot_memory L platform al us ue"
    and i: "i < ue - us"
  shows "kernel_view s (us + i) = us + i" and "unat (us + i) < unat (al_current al)"
proof -
  let ?ds = "ks_data_start L" and ?de = "ks_data_end L"
  have b: "unat ?ds \<le> unat us" "unat us \<le> unat ue" "unat ue \<le> unat ?de"
    "unat ?de \<le> unat (al_current al)" "unat (al_current al) \<le> 2 ^ 38" "page_aligned ?ds"
    using mem by (auto simp: boot_memory_def word_le_nat_alt)
  then have i': "unat us + unat i < unat ue"
    using i by (simp add: word_less_nat_alt word_le_nat_alt unat_diff_64)
  then have u: "unat (us + i) = unat us + unat i"
    using b by (simp add: unat_add_64)
  then show "unat (us + i) < unat (al_current al)"
    using b i' by simp
  let ?x = "us + i - ?ds"
  have sz: "unat (?de - ?ds) = unat ?de - unat ?ds"
    using b by (simp add: word_le_nat_alt unat_diff_64)
  have x: "unat ?x = unat us + unat i - unat ?ds"
    using b u by (simp add: word_le_nat_alt unat_diff_64)
  have "unat (?de - ?ds) \<le> rounded (?de - ?ds)" "rounded (?de - ?ds) < unat (?de - ?ds) + 4096"
    using align_up_bounds [of "?de - ?ds"] b sz by simp_all
  then have "?x < align_up (?de - ?ds) PAGE_SIZE" "unat ?ds + rounded (?de - ?ds) \<le> 2 ^ 56"
    using b i' x sz by (simp_all add: word_less_nat_alt)
  moreover have "unat (drop_bit 38 (us + i)) = 0"
    using u b i' by (simp add: unat_drop_bit_64)
  then have "sv39_canonical (?ds + ?x)"
    by (simp add: sv39_canonical_def unat_eq_zero)
  moreover have "(?ds, ?ds, ?de - ?ds, PTE_R OR PTE_W) \<in> set (kernel_regions L platform)"
    by (simp add: kernel_regions_def Let_def)
  ultimately have "mmu_translate s SupervisorMode LoadAccess (?ds + ?x) = Some (?ds + ?x)"
    using region_translate [OF tables _ b(6) b(6), of "?de - ?ds" "PTE_R OR PTE_W" ?x LoadAccess]
    by (simp add: region_allows_bit bit_or_iff bit_pte_flags)
  then show "kernel_view s (us + i) = us + i"
    by (simp add: kernel_view_def)
qed

section \<open>Loading on these tables\<close>

lemma load_on_kernel_tables:
  assumes mem: "boot_memory L platform al us ue" and small: "unat (ue - us) \<le> 2 ^ 38"
    and init: "paging_init L al platform s = (True, root, al1, s1)"
    and run: "process_load_initial_user_program (kernel_view s1) us ue root al1 prog (pmem s1) =
      (ok, prog', al2, m2)"
  obtains lab r lab' where "kernel_tables L platform (unat (al_current al)) lab r al1 s1"
    and "root = phys_to_virt r"
    and "proc_state (unat (al_current al1)) (unat (al_current al)) r lab al1 (pmem s1) lab' al2 m2"
    and "ok \<Longrightarrow> prog' = \<lparr>pg_entry = USER_TEXT_START, pg_stack_top = USER_STACK_TOP\<rparr> \<and>
      (\<forall>i < ue - us. user_byte m2 r (USER_TEXT_START + i) = Some (pmem s1 (us + i)) \<and>
        (\<exists>p. pt_lookup m2 r (USER_TEXT_START + i) = Some (leaf_pte p (PTE_R OR PTE_X OR PTE_U)) \<and>
           unat p < 2 ^ 56))"
    and "\<not> ok \<Longrightarrow> prog' = prog"
proof -
  have ok: "allocator_ok al" using mem by (simp add: boot_memory_def)
  show ?thesis
  proof (rule paging_init_success [OF ok init])
    fix lab r
    assume tables: "kernel_tables L platform (unat (al_current al)) lab r al1 s1"
      and root: "root = phys_to_virt r" and ext: "pt_ext Map.empty al (pmem s) lab al1 (pmem s1)"
      and cur: "unat (al_current al1) \<le> unat (al_end al)"
    have inv: "pt_inv lab (unat (al_current al)) al1 (pmem s1) r"
      using tables by (simp add: kernel_tables_def)
    have dm: "direct_map (kernel_view s1) (unat (al_current al))
        (unat (pf_ram_base platform) + rounded (pf_ram_size platform))"
      using direct_map_mono [OF kernel_view_direct [OF tables mem]] mem by (simp add: boot_memory_def)
    have hi: "unat (al_end al1) \<le> unat (pf_ram_base platform) + rounded (pf_ram_size platform)"
      "unat (al_current al1) \<le> unat (pf_ram_base platform) + rounded (pf_ram_size platform)"
      using ext cur mem by (auto simp: pt_ext_def boot_memory_def)
    note view = kernel_view_image [OF tables mem]
    have src: "unat (kernel_view s1 (us + i)) < unat (al_current al)" if "i < ue - us" for i
      using view [OF that] by simp
    note L = load_correct [OF dm inv kernel_tables_no_user [OF tables] hi small src run [unfolded root]]
    from L [THEN conjunct1] obtain lab' where "proc_state (unat (al_current al1)) (unat (al_current al)) r lab al1
      (pmem s1) lab' al2 m2" by blast
    from that [OF tables root this] L [THEN conjunct2] view(1) show thesis
      by (simp split: if_splits)
  qed
qed

text \<open>A kernel region keeps clear of the pages of the program, its bss and its stack.\<close>

definition clear_of_user :: "u64 \<Rightarrow> region \<Rightarrow> bool" where
  "clear_of_user sz R = (case R of (vs, ps, rsz, flags) \<Rightarrow>
     region_ok R \<and>
     (vpage vs + region_pages R \<le> 0x400 \<or>
      0x401 + rounded sz div 4096 \<le> vpage vs \<and>
        (vpage vs + region_pages R \<le> 0x3FFFFFE \<or> 0x3FFFFFF \<le> vpage vs)))"

lemma user_area_outside:
  assumes clear: "\<forall>R \<in> set Rs. clear_of_user sz R" and sz: "unat sz \<le> 2 ^ 38" and va: "user_area sz va"
  shows "outside_regions Rs va"
  unfolding outside_regions_def
proof (intro ballI, clarify)
  fix vs ps rsz flags d
  assume R: "(vs, ps, rsz, flags) \<in> set Rs" and d: "in_range 0 rsz d" and eq: "vpage va = vpage (vs + d)"
  have ok: "region_ok (vs, ps, rsz, flags)"
    and cl: "vpage vs + region_pages (vs, ps, rsz, flags) \<le> 0x400 \<or>
      0x401 + rounded sz div 4096 \<le> vpage vs \<and>
        (vpage vs + region_pages (vs, ps, rsz, flags) \<le> 0x3FFFFFE \<or> 0x3FFFFFF \<le> vpage vs)"
    using clear R by (auto simp: clear_of_user_def)
  have v: "vpage vs \<le> vpage (vs + d)" "vpage (vs + d) < vpage vs + region_pages (vs, ps, rsz, flags)"
    using region_vpage [OF ok d] by simp_all
  have u: "unat va < 2 ^ 39"
    using va align_up_bounds(2) [of sz] sz by (auto simp: user_area_def)
  then have "vpage va = unat va div 4096"
    by (simp add: vpage_def page_of_def)
  moreover have "4096 dvd rounded sz"
    using page_aligned_align_up [of sz] by (simp add: page_aligned_iff)
  ultimately have "0x400 \<le> vpage va \<and> vpage va < 0x401 + rounded sz div 4096 \<or> vpage va = 0x3FFFFFE"
    using va by (auto simp: user_area_def)
  with v cl eq show False
    by auto
qed

lemma load_enough:
  assumes mem: "boot_memory L platform al us ue"
    and small: "unat (ue - us) \<le> 2 ^ 38" and fits: "layout_fits (ue - us) 0 0 PAGE_SIZE USER_STACK_SIZE"
    and init: "paging_init L al platform s = (True, root, al1, s1)"
    and free: "\<forall>R \<in> set (kernel_regions L platform). clear_of_user (ue - us) R"
    and room: "unat (al_current al1) + 3 * rounded (ue - us) + 24576 \<le> unat (al_end al1)"
  shows "fst (process_load_initial_user_program (kernel_view s1) us ue root al1 prog (pmem s1))"
proof -
  have ok: "allocator_ok al" using mem by (simp add: boot_memory_def)
  show ?thesis
  proof (rule paging_init_success [OF ok init])
    fix lab r
    assume tables: "kernel_tables L platform (unat (al_current al)) lab r al1 s1"
      and root: "root = phys_to_virt r" and ext: "pt_ext Map.empty al (pmem s) lab al1 (pmem s1)"
      and cur: "unat (al_current al1) \<le> unat (al_end al)"
    have inv: "pt_inv lab (unat (al_current al)) al1 (pmem s1) r"
      using tables by (simp add: kernel_tables_def)
    have hi: "unat (al_end al1) \<le> unat (pf_ram_base platform) + rounded (pf_ram_size platform)"
      "unat (al_current al1) \<le> unat (pf_ram_base platform) + rounded (pf_ram_size platform)"
      "unat (pf_ram_base platform) + rounded (pf_ram_size platform) \<le> 2 ^ 38"
      using ext cur mem by (auto simp: pt_ext_def boot_memory_def)
    have dm: "direct_map (kernel_view s1) (unat (al_current al))
        (unat (pf_ram_base platform) + rounded (pf_ram_size platform))"
      using direct_map_mono [OF kernel_view_direct [OF tables mem]] mem by (simp add: boot_memory_def)
    have "unat r < unat (al_current al1)"
      using pt_inv_below [OF inv pt_inv_root [OF inv]] by simp
    then have nz: "phys_to_virt r \<noteq> 0"
      using hi by (intro phys_to_virt_nonnull) simp
    have src: "unat (kernel_view s1 (us + i)) < unat (al_current al)" if "i < ue - us" for i
      using kernel_view_image [OF tables mem that] by simp
    have fresh: "pt_lookup (pmem s1) r va = None" if "user_area (ue - us) va" for va
      using tables user_area_outside [OF free small that] by (simp add: kernel_tables_def)
    show ?thesis
      unfolding root
      by (rule load_total [OF dm inv kernel_tables_no_user [OF tables] hi(1,2) nz small fits src fresh room])
  qed
qed

text \<open>Loading leaves the kernel's translations as they were.\<close>

lemma mmu_translate_mono:
  assumes "pt_inv lab lo al (pmem s) r" "pt_inv lab' lo al' m' r"
    and "csr_satp s = make_satp_sv39 r" and "pt_lookup (pmem s) r \<subseteq>\<^sub>m pt_lookup m' r"
    and tr: "mmu_translate s priv acc va = Some pa"
  shows "mmu_translate (s\<lparr>pmem := m'\<rparr>) priv acc va = Some pa"
proof -
  note eq = mmu_translate_lookup [OF assms(1,3)]
  have inv': "pt_inv lab' lo al' (pmem (s\<lparr>pmem := m'\<rparr>)) r" using assms(2) by simp
  have satp': "csr_satp (s\<lparr>pmem := m'\<rparr>) = make_satp_sv39 r" using assms(3) by simp
  note eq' = mmu_translate_lookup [OF inv' satp']
  from tr obtain e where e: "sv39_canonical va" "pt_lookup (pmem s) r va = Some e" "leaf_well_formed e"
    "access_allowed (csr_sstatus s) priv acc e" "pa = phys_of (pmem s) r va"
    by (auto simp: eq split: if_splits option.splits)
  moreover from e(2) assms(4) have "pt_lookup m' r va = Some e"
    by (metis domI map_le_def)
  ultimately show ?thesis
    by (simp add: eq' phys_of_def)
qed

lemma pt_inv_floor: "pt_inv lab lo al m r \<Longrightarrow> lo \<le> unat (al_current al)"
proof -
  assume inv: "pt_inv lab lo al m r"
  from pt_inv_table [OF inv pt_inv_root [OF inv]] show ?thesis
    by (simp add: table_ok_def)
qed

lemma init_leaves_room:
  assumes mem: "boot_memory L platform al us ue"
    and clear: "\<forall>R \<in> set (kernel_regions L platform). clear_of_user (ue - us) R"
    and apart: "sorted_wrt regions_apart (kernel_regions L platform)"
    and room: "unat (al_current al) +
      4096 * (1 + sum_list (map region_tables (kernel_regions L platform))) +
      3 * rounded (ue - us) + 24576 \<le> unat (al_end al)"
  obtains root al1 s1 where "paging_init L al platform s = (True, root, al1, s1)"
    and "unat (al_current al1) + 3 * rounded (ue - us) + 24576 \<le> unat (al_end al1)"
proof -
  have ok: "allocator_ok al" using mem by (simp add: boot_memory_def)
  have regions: "\<forall>R \<in> set (kernel_regions L platform). region_ok R"
    using clear by (auto simp: clear_of_user_def)
  have enough: "unat (al_current al) +
      4096 * (1 + sum_list (map region_tables (kernel_regions L platform))) \<le> unat (al_end al)"
    using room by simp
  obtain root al1 s1 where init: "paging_init L al platform s = (True, root, al1, s1)"
    using paging_init_enough(1) [OF ok regions apart enough] by (metis (full_types) prod.exhaust_sel)
  have "unat (al_end al1) = unat (al_end al)"
    by (rule paging_init_success [OF ok init]) (simp add: pt_ext_def)
  with paging_init_enough(2) [OF ok regions apart enough init] room
  have "unat (al_current al1) + 3 * rounded (ue - us) + 24576 \<le> unat (al_end al1)"
    by simp
  with init show ?thesis by (rule that)
qed

section \<open>Starting the task\<close>

lemma user_task_init_unfold:
  "user_task_init tr us ue root al hartid dtb s =
     (case process_load_initial_user_program tr us ue root al \<lparr>pg_entry = 0, pg_stack_top = 0\<rparr> (pmem s) of
        (ok, program, al, m) \<Rightarrow>
          if ok then Done (user_context_init (pg_entry program) (pg_stack_top program) hartid dtb
                             (s\<lparr>pmem := m\<rparr>)) (s\<lparr>pmem := m\<rparr>)
          else panic ''user_task_init'' ''Failed to load initial user program.'' (s\<lparr>pmem := m\<rparr>))"
  by (simp add: user_task_init_def enter_user_mode_def Let_def split: prod.split)

lemma user_context_init_facts:
  "uc_epc (user_context_init epc sp a0 a1 s) = epc"
  "uc_sp (user_context_init epc USER_STACK_TOP a0 a1 s) = USER_STACK_TOP"
  "uc_a0 (user_context_init epc sp a0 a1 s) = a0" "uc_a1 (user_context_init epc sp a0 a1 s) = a1"
  "\<not> bit (uc_status (user_context_init epc sp a0 a1 s)) 8"
  "bit (uc_status (user_context_init epc sp a0 a1 s)) 5"
  "\<not> bit (uc_status (user_context_init epc sp a0 a1 s)) (Suc 0)"
  by (simp_all add: user_context_init_def Let_def align_down_def USER_STACK_TOP_def csr_consts bit_simps)

section \<open>The example machine\<close>

text \<open>A 128-byte program in the data section.\<close>

definition virt_image_start :: u64 where "virt_image_start = 0x8000A100"
definition virt_image_end :: u64 where "virt_image_end = 0x8000A180"

lemma virt_boot_memory: "boot_memory virt_layout virt_platform virt_pages virt_image_start virt_image_end"
  using virt_pages_ok
  by (simp add: boot_memory_def virt_layout_def virt_platform_def virt_pages_def virt_image_start_def
      virt_image_end_def page_aligned_def align_up_def)

lemma virt_image_small: "unat (virt_image_end - virt_image_start) \<le> 2 ^ 38"
  by (simp add: virt_image_start_def virt_image_end_def)

lemma virt_image_fits:
  "layout_fits (virt_image_end - virt_image_start) 0 0 PAGE_SIZE USER_STACK_SIZE"
  by (simp add: layout_fits_def virt_image_start_def virt_image_end_def align_up_def USER_STACK_SIZE_def)

lemma virt_clear:
  "\<forall>R \<in> set (kernel_regions virt_layout virt_platform).
     clear_of_user (virt_image_end - virt_image_start) R"
  by (simp add: kernel_regions_def virt_layout_def virt_platform_def region_ok_def Let_def
      page_aligned_def region_pages_def vpage_def page_of_def align_up_def phys_to_virt_def
      KERNEL_DIRECT_MAP_BASE_def clear_of_user_def virt_image_start_def virt_image_end_def)

lemma virt_user_room:
  "unat (al_current virt_pages) +
    4096 * (1 + sum_list (map region_tables (kernel_regions virt_layout virt_platform))) +
    3 * rounded (virt_image_end - virt_image_start) + 24576 \<le> unat (al_end virt_pages)"
  by (simp add: kernel_regions_def virt_layout_def virt_platform_def Let_def virt_pages_def
      region_tables_def table_index_def last_page_def page_of_def align_up_def phys_to_virt_def
      KERNEL_DIRECT_MAP_BASE_def virt_image_start_def virt_image_end_def)

lemma virt_task_starts:
  assumes init: "paging_init virt_layout virt_pages virt_platform reset_machine = (True, root, al1, s1)"
  shows "\<exists>ctx s2. user_task_init (kernel_view s1) virt_image_start virt_image_end root al1 hartid dtb s1 =
    Done ctx s2"
proof -
  have "unat (al_current al1) + 3 * rounded (virt_image_end - virt_image_start) + 24576 \<le>
      unat (al_end al1)"
    using init by (rule_tac init_leaves_room [OF virt_boot_memory virt_clear virt_regions_apart
        virt_user_room, of reset_machine]) simp
  from load_enough [OF virt_boot_memory virt_image_small virt_image_fits init virt_clear this,
    of "\<lparr>pg_entry = 0, pg_stack_top = 0\<rparr>"]
  show ?thesis
    by (auto simp: user_task_init_unfold split: prod.split)
qed

end
