(* ===== verification/Fdt_Properties.thy ===== *)
theory Fdt_Properties
  imports Blob Boot User_Space
begin

text \<open>
  The properties of the device tree library and of what the kernel reads from the tree, applied at
  the concrete blob of theory \<open>Blob\<close>.
\<close>

section \<open>Byte order\<close>

lemma swap_32: "fdt32_to_cpu (cpu_to_fdt32 x) = x"
proof (rule bit_word_eqI)
  fix n assume "n < LENGTH(32)"
  then have "n < 8 \<or> 8 \<le> n \<and> n < 16 \<or> 16 \<le> n \<and> n < 24 \<or> 24 \<le> n \<and> n < 32"
    by auto
  then show "bit (fdt32_to_cpu (cpu_to_fdt32 x)) n \<longleftrightarrow> bit x n"
    unfolding fdt32_to_cpu_def cpu_to_fdt32_def CPU_TO_FDT32_def EXTRACT_BYTE_def
    by (elim disjE conjE; simp add: bit_simps less_diff_conv2 no_bit_u8; auto)
qed

lemma swap_64: "fdt64_to_cpu (cpu_to_fdt64 x) = x"
proof (rule bit_word_eqI)
  fix n assume "n < LENGTH(64)"
  then have "n < 8 \<or> 8 \<le> n \<and> n < 16 \<or> 16 \<le> n \<and> n < 24 \<or> 24 \<le> n \<and> n < 32 \<or>
      32 \<le> n \<and> n < 40 \<or> 40 \<le> n \<and> n < 48 \<or> 48 \<le> n \<and> n < 56 \<or> 56 \<le> n \<and> n < 64"
    by auto
  then show "bit (fdt64_to_cpu (cpu_to_fdt64 x)) n \<longleftrightarrow> bit x n"
    unfolding fdt64_to_cpu_def cpu_to_fdt64_def CPU_TO_FDT64_def EXTRACT_BYTE_def
    by (elim disjE conjE; simp add: bit_simps less_diff_conv2 no_bit_u8; auto)
qed

lemma join_words: "push_bit 32 (ucast (fdt32_ld m p)) OR ucast (fdt32_ld m (p + 4)) = fdt64_ld m p"
proof (rule bit_word_eqI)
  fix n assume "n < LENGTH(64)"
  then have "n < 8 \<or> 8 \<le> n \<and> n < 16 \<or> 16 \<le> n \<and> n < 24 \<or> 24 \<le> n \<and> n < 32 \<or>
      32 \<le> n \<and> n < 40 \<or> 40 \<le> n \<and> n < 48 \<or> 48 \<le> n \<and> n < 56 \<or> 56 \<le> n \<and> n < 64"
    by auto
  then show "bit (push_bit 32 (ucast (fdt32_ld m p)) OR ucast (fdt32_ld m (p + 4)) :: u64) n \<longleftrightarrow>
      bit (fdt64_ld m p) n"
    unfolding fdt32_ld_def fdt64_ld_def
    by (elim disjE conjE; simp add: bit_simps less_diff_conv2 no_bit_u8 add.assoc; auto)
qed

text \<open>Every cell shifts the earlier ones up: only the last two are left.\<close>

lemma read_cells_from_last:
  "read_cells_from m p (Suc (Suc n)) v = fdt64_ld m (p + of_nat n * 4)"
proof (induction n arbitrary: p v)
  case 0
  have "push_bit 32 (push_bit 32 v OR ucast (fdt32_ld m p)) = (push_bit 32 (ucast (fdt32_ld m p)) :: u64)"
    by (rule bit_word_eqI) (simp add: bit_simps)
  then show ?case
    using join_words [of m p] by (simp add: native_32)
next
  case (Suc n)
  have "p + 4 + of_nat n * 4 = p + of_nat (Suc n) * 4" by (simp add: algebra_simps)
  with Suc [of "p + 4" "push_bit 32 v OR ucast (fdt32_ld_priv m p)"] show ?case
    by (simp only: read_cells_from.simps(2) [of m p "Suc (Suc n)"])
qed

text \<open>
  The byte order conversions are their own inverses and agree with the byte-by-byte accesses: what
  \<^verbatim>\<open>fdt32_st\<close> and \<^verbatim>\<open>fdt64_st\<close> write, \<^verbatim>\<open>fdt32_ld\<close> and \<^verbatim>\<open>fdt64_ld\<close> read; a native load that is
  converted is the big-endian load, and the kernel's own \<^verbatim>\<open>be32_to_cpu\<close> is the library's conversion.
  \<^verbatim>\<open>read_cells\<close> of one cell is the big-endian 32-bit number, of two, three or four cells the 64-bit
  number of the last two: the cells before them are dropped without notice.
\<close>

lemma fdt_byte_order:
  "fdt32_ld (fdt32_st p v m) p = v \<and> fdt64_ld (fdt64_st p w m) p = w \<and>
   fdt32_to_cpu (cpu_to_fdt32 v) = v \<and> fdt64_to_cpu (cpu_to_fdt64 w) = w \<and>
   fdt32_ld_priv m p = fdt32_ld m p \<and> fdt64_ld_priv m p = fdt64_ld m p \<and>
   be32_to_cpu v = fdt32_to_cpu v \<and>
   read_cells m p 1 = ucast (fdt32_ld m p) \<and> read_cells m p 2 = fdt64_ld m p \<and>
   read_cells m p 3 = fdt64_ld m (p + 4) \<and> read_cells m p 4 = fdt64_ld m (p + 8)"
proof -
  have "nat (sint (1 :: u32)) = 1" "nat (sint (2 :: u32)) = Suc (Suc 0)"
    "nat (sint (3 :: u32)) = Suc (Suc 1)" "nat (sint (4 :: u32)) = Suc (Suc 2)"
    by code_simp+
  then have "read_cells m p 1 = ucast (fdt32_ld m p)" "read_cells m p 2 = fdt64_ld m p"
    "read_cells m p 3 = fdt64_ld m (p + 4)" "read_cells m p 4 = fdt64_ld m (p + 8)"
    using read_cells_from_last [of m p 0 0] read_cells_from_last [of m p 1 0]
      read_cells_from_last [of m p 2 0]
    by (simp_all only: read_cells_def) (simp_all add: native_32)
  then show ?thesis
    by (simp add: ld_st_32 ld_st_64 swap_32 swap_64 native_32 native_64 native_cpu)
qed

section \<open>Bounds\<close>

lemma fdt_check_header_blocks:
  assumes "fdt_check_header m fdt = 0"
  shows "fdt AND 7 = 0 \<and> unat (fdt_totalsize m fdt) < 2 ^ 31 \<and>
    2 \<le> fdt_version m fdt \<and> fdt_last_comp_version m fdt \<le> 17 \<and>
    unat (fdt_header_size m fdt) \<le> unat (fdt_off_mem_rsvmap m fdt) \<and>
    unat (fdt_off_mem_rsvmap m fdt) \<le> unat (fdt_totalsize m fdt) \<and>
    unat (fdt_header_size m fdt) \<le> unat (fdt_off_dt_struct m fdt) \<and>
    unat (fdt_off_dt_struct m fdt) +
      (if fdt_version m fdt \<ge> 17 then unat (fdt_size_dt_struct m fdt) else 0)
      \<le> unat (fdt_totalsize m fdt) \<and>
    unat (fdt_header_size m fdt) \<le> unat (fdt_off_dt_strings m fdt) \<and>
    unat (fdt_off_dt_strings m fdt) + unat (fdt_size_dt_strings m fdt) \<le> unat (fdt_totalsize m fdt)"
  using check_header_blocks(1-8,10) [OF assms] by blast

lemma fdt_offset_ptr_bounds_exact:
  "fdt_offset_ptr m fdt offset len =
     (if unat offset < 2 ^ 31 \<and>
         unat (fdt_off_dt_struct m fdt) + unat offset + unat len \<le> unat (fdt_totalsize m fdt) \<and>
         (fdt_version m fdt < 17 \<or> unat offset + unat len \<le> unat (fdt_size_dt_struct m fdt))
      then fdt + of_nat (unat (fdt_off_dt_struct m fdt) + unat offset) else 0)"
  unfolding offset_ptr_exact by (auto simp: not_less)

text \<open>
  C23. A header that \<^verbatim>\<open>fdt_check_header\<close> accepts describes blocks that lie behind the header and
  inside the total size, without overflow: the reservation map starts there, the structure block (from
  version 17 on with its size) and the strings block end there; the blob is aligned, its size fits an
  \<^verbatim>\<open>int\<close>, and its version is one the library reads. Whatever the header says, \<^verbatim>\<open>fdt_offset_ptr\<close>
  returns a pointer exactly when the offset is not negative and the bytes asked for lie inside the
  total size and, from version 17 on, inside the structure block: none of its checks is defeated by an
  overflow.
\<close>

theorem fdt_blob_bounds:
  "(fdt_check_header m fdt = 0 \<longrightarrow>
      fdt AND 7 = 0 \<and> unat (fdt_totalsize m fdt) < 2 ^ 31 \<and>
      2 \<le> fdt_version m fdt \<and> fdt_last_comp_version m fdt \<le> 17 \<and>
      unat (fdt_header_size m fdt) \<le> unat (fdt_off_mem_rsvmap m fdt) \<and>
      unat (fdt_off_mem_rsvmap m fdt) \<le> unat (fdt_totalsize m fdt) \<and>
      unat (fdt_header_size m fdt) \<le> unat (fdt_off_dt_struct m fdt) \<and>
      unat (fdt_off_dt_struct m fdt) +
        (if fdt_version m fdt \<ge> 17 then unat (fdt_size_dt_struct m fdt) else 0)
        \<le> unat (fdt_totalsize m fdt) \<and>
      unat (fdt_header_size m fdt) \<le> unat (fdt_off_dt_strings m fdt) \<and>
      unat (fdt_off_dt_strings m fdt) + unat (fdt_size_dt_strings m fdt) \<le> unat (fdt_totalsize m fdt)) \<and>
   fdt_offset_ptr m fdt offset len =
     (if unat offset < 2 ^ 31 \<and>
         unat (fdt_off_dt_struct m fdt) + unat offset + unat len \<le> unat (fdt_totalsize m fdt) \<and>
         (fdt_version m fdt < 17 \<or> unat offset + unat len \<le> unat (fdt_size_dt_struct m fdt))
      then fdt + of_nat (unat (fdt_off_dt_struct m fdt) + unat offset) else 0)"
  using fdt_check_header_blocks [of m fdt] fdt_offset_ptr_bounds_exact [of m fdt offset len] by blast

theorem fdt_blob_bounds_witness:
  "fdt_check_header small_blob 0x1000 = 0 \<and>
   unat (fdt_off_dt_strings small_blob 0x1000) + unat (fdt_size_dt_strings small_blob 0x1000) \<le> 219 \<and>
   fdt_offset_ptr small_blob 0x1000 8 4 = 0x1040"
proof -
  have "unat (fdt_size_dt_struct small_blob 0x1000) = 136" by code_simp
  with fdt_blob_bounds [of small_blob "0x1000" 8 4] show ?thesis by (simp add: small_header)
qed

section \<open>The walk\<close>

lemma tags_from_bound:
  "tags_from m fdt offset = [] \<or>
   unat (fdt_off_dt_struct m fdt) + unat offset + 4 * length (tags_from m fdt offset)
     \<le> unat (fdt_totalsize m fdt)"
  and tags_from_sorted:
  "sorted_wrt (\<lambda>s t. unat (fst s) < unat (fst t)) (tags_from m fdt offset) \<and>
   (\<forall>t \<in> set (tags_from m fdt offset). unat offset \<le> unat (fst t) \<and>
      snd t \<in> {FDT_BEGIN_NODE, FDT_END_NODE, FDT_PROP, FDT_NOP})"
proof (induction m fdt offset rule: tags_from.induct)
  case (1 m fdt offset)
  obtain tag next_offset where t: "fdt_next_tag m fdt offset = (tag, next_offset)"
    by (cases "fdt_next_tag m fdt offset")
  note unfold = tags_from.simps [of m fdt offset] t
  {
    case 1
    show ?case
    proof (cases "tag = FDT_END")
      case False
      obtain stop where P: "unat offset + 4 \<le> unat stop" "unat stop \<le> unat next_offset"
        "fdt_offset_ptr m fdt offset (stop - offset) \<noteq> 0"
        by (rule fdt_next_tag_progress [OF t False]) (rule that)
      have "unat (stop - offset) = unat stop - unat offset"
        using P(1) by (simp add: unat_sub word_le_nat_alt)
      with fdt_offset_ptr_bounds(2) [OF P(3)] P(1)
      have "unat (fdt_off_dt_struct m fdt) + unat stop \<le> unat (fdt_totalsize m fdt)" by simp
      with "1.IH"(1) [OF t [symmetric] False] P(1,2) False show ?thesis
        by (cases "tags_from m fdt next_offset = []") (simp_all add: unfold)
    qed (simp add: unfold)
  next
    case 2
    show ?case
    proof (cases "tag = FDT_END")
      case False
      have P: "unat offset < unat next_offset \<and> tag \<in> {FDT_BEGIN_NODE, FDT_END_NODE, FDT_PROP, FDT_NOP}"
        by (rule fdt_next_tag_progress [OF t False]) auto
      with "1.IH"(2) [OF t [symmetric] False] False show ?thesis
        by (fastforce simp: unfold)
    qed (simp add: unfold)
  }
qed

text \<open>
  The walk over the tags ends: whatever the blob holds, the offsets of successive tags strictly
  increase, and there are at most as many as aligned words in the total size; every tag before the end
  is the begin or end of a node, a property or a no-op.
\<close>

lemma fdt_tags_end:
  "4 * length (tags_from m fdt offset) \<le> unat (fdt_totalsize m fdt) \<and>
   sorted_wrt (\<lambda>s t. unat (fst s) < unat (fst t)) (tags_from m fdt offset) \<and>
   snd ` set (tags_from m fdt offset) \<subseteq> {FDT_BEGIN_NODE, FDT_END_NODE, FDT_PROP, FDT_NOP} \<and>
   (case tags_from m fdt offset of
      [] \<Rightarrow> fst (fdt_next_tag m fdt offset) = FDT_END
    | t # ts \<Rightarrow> t = (offset, fst (fdt_next_tag m fdt offset)) \<and>
        ts = tags_from m fdt (snd (fdt_next_tag m fdt offset)))"
proof (intro conjI)
  show "4 * length (tags_from m fdt offset) \<le> unat (fdt_totalsize m fdt)"
    using tags_from_bound [of m fdt offset] by auto
  show "snd ` set (tags_from m fdt offset) \<subseteq> {FDT_BEGIN_NODE, FDT_END_NODE, FDT_PROP, FDT_NOP}"
    using tags_from_sorted [of m fdt offset] by auto
qed (use tags_from_sorted [of m fdt offset] in
  \<open>auto simp: tags_from.simps [of m fdt offset] simp del: sorted_wrt.simps split: prod.split\<close>)

text \<open>The kernel's loop over the nodes: from the offset -1, by \<^verbatim>\<open>fdt_next_node\<close> until it is negative.\<close>

function walk_nodes :: "mem \<Rightarrow> u64 \<Rightarrow> u32 \<Rightarrow> u32 list" where
  "walk_nodes m fdt offset =
     (let node = fst (fdt_next_node m fdt offset None)
      in if node <s 0 then [] else node # walk_nodes m fdt node)"
  by pat_completeness auto
termination
  by (relation "measure (\<lambda>(m, fdt, offset). nodes_left offset)")
    (auto intro: nodes_left_next [OF surjective_pairing])

declare walk_nodes.simps [simp del]

lemma walk_nodes_from:
  assumes "nodes_from m fdt offset = n # ns" and "4 dvd unat offset"
  shows "walk_nodes m fdt n = ns"
  using assms
proof (induction ns arbitrary: n offset)
  case Nil
  then show ?case
    using next_node_step [OF Nil] by (simp add: walk_nodes.simps [of m fdt n])
next
  case (Cons n' ns)
  have N: "nodes_from m fdt (snd (fdt_next_tag m fdt n)) = n' # ns" "4 dvd unat (snd (fdt_next_tag m fdt n))"
    using nodes_from_Cons [OF Cons.prems] by auto
  moreover have "\<not> n' <s 0" using nodes_from_Cons [OF N] by simp
  ultimately show ?case
    using next_node_step [OF Cons.prems] Cons.IH [OF N] by (simp add: walk_nodes.simps [of m fdt n])
qed

text \<open>
  C26. Stepping with \<^verbatim>\<open>fdt_next_node\<close> from \<open>-1\<close> until it returns an error visits exactly the offsets at
  which a node begins, each of them once and in the order of the structure block.
\<close>

theorem fdt_next_node_visits_all:
  "walk_nodes m fdt (- 1) = nodes_from m fdt 0"
proof (cases "nodes_from m fdt 0")
  case Nil
  with first_node [of m fdt] show ?thesis by (simp add: walk_nodes.simps [of m fdt "- 1"])
next
  case (Cons n ns)
  moreover have "\<not> n <s 0" using nodes_from_Cons [OF Cons] by simp
  ultimately show ?thesis
    using first_node [of m fdt] walk_nodes_from [OF Cons] by (simp add: walk_nodes.simps [of m fdt "- 1"])
qed

section \<open>Strings and properties\<close>

lemma memchr_from_skips:
  "memchr_from p c n i m = p + k \<Longrightarrow> memchr_from p c n i m \<noteq> 0 \<Longrightarrow> i \<le> j \<Longrightarrow> j < k \<Longrightarrow> m (p + j) \<noteq> c"
proof (induction i rule: up_loop_induct [where n = n])
  case (step i)
  have i: "i < n" using step.prems(2) by (auto simp: memchr_from.simps [of p c n i] split: if_splits)
  have skip: "m (p + i) \<noteq> c"
  proof
    assume "m (p + i) = c"
    with i step.prems(1) have "k = i" by (simp add: memchr_from.simps [of p c n i])
    with step.prems(3,4) show False by simp
  qed
  show ?case
  proof (cases "j = i")
    case False
    with step.prems(3) have "i + 1 \<le> j"
      using unat_Suc_64 [OF i] by (auto simp: word_le_nat_alt u64_eq_iff)
    with step.IH [OF i] skip i step.prems show ?thesis
      by (simp add: memchr_from.simps [of p c n i])
  qed (simp add: skip)
qed

lemma string_limit_le: "string_limit m fdt off len = Inr n \<Longrightarrow> n \<le> len"
  by (auto simp: string_limit_def Let_def split: if_splits)

lemma unat_ucast_32: "unat (ucast (x :: u32) :: u64) = unat x"
  using unat_lt_32 [of x] by (simp add: unsigned_ucast_eq take_bit_nat_eq_self)

text \<open>
  C27. A string that \<^verbatim>\<open>fdt_get_string\<close> returns lies inside the blob together with its terminator: the
  length is the distance to the first zero byte, and no byte behind the total size has been looked at.
\<close>

theorem fdt_get_string_terminated:
  assumes "fdt_get_string m fdt stroffset = (p, len)" and "p \<noteq> 0"
  shows "\<exists>k. p = fdt + ucast (k :: u32) \<and> k = stroffset + fdt_off_dt_strings m fdt \<and>
    unat k + unat len < unat (fdt_totalsize m fdt) \<and> m (p + ucast len) = 0 \<and>
    (\<forall>i < ucast len. m (p + i) \<noteq> 0)"
proof -
  let ?k = "stroffset + fdt_off_dt_strings m fdt" and ?total = "fdt_ro_probe_priv m fdt"
  have total: "\<not> ?total <s 0" and k: "?k < ?total"
    using assms by (auto simp: fdt_get_string_def Let_def not_le split: if_splits)
  then obtain lim where lim: "string_limit m fdt stroffset (ucast (?total - ?k)) = Inr lim"
    using assms by (cases "string_limit m fdt stroffset (ucast (?total - ?k))")
      (auto simp: fdt_get_string_def Let_def split: if_splits)
  have tot: "?total = fdt_totalsize m fdt"
    using total by (auto simp: fdt_ro_probe_priv_def Let_def split: if_splits)
  let ?s = "fdt + ucast ?k" and ?n = "memchr (fdt + ucast ?k) 0 lim m"
  have n: "?n \<noteq> 0" "p = ?s" "len = ucast (?n - ?s)"
    using assms total k lim by (auto simp: fdt_get_string_def Let_def not_le split: if_splits)
  obtain d where d: "d < lim" "?n = ?s + d" "m (?s + d) = 0"
    using memchr_from_range [of ?s 0 lim 0 m] n(1) by (auto simp: memchr_def)
  have "unat (?total - ?k) = unat ?total - unat ?k"
    using k by (simp add: unat_sub word_le_nat_alt word_less_nat_alt)
  moreover have "unat lim \<le> unat (?total - ?k)"
    using string_limit_le [OF lim] by (simp add: word_le_nat_alt unat_ucast_32)
  ultimately have du: "unat d < unat ?total - unat ?k"
    using d(1) by (simp add: word_less_nat_alt)
  then have "unat d < 2 ^ 32" using unat_lt_32 [of ?total] by simp
  then have len: "unat len = unat d" "ucast len = d"
    unfolding n(3) d(2) by (simp_all add: unsigned_ucast_eq u64_eq_iff unsigned_take_bit_eq take_bit_nat_eq_self)
  have "m (?s + i) \<noteq> 0" if "i < d" for i
    using memchr_from_skips [of ?s 0 lim 0 m d i] n(1) d(2) that by (simp add: memchr_def)
  with d(3) n(2) len du tot show ?thesis
    by (intro exI [of _ ?k]) (simp add: less_diff_conv add.commute)
qed

theorem fdt_get_string_terminated_witness:
  "fdt_get_string small_blob 0x1000 12 = (0x10CC, 3) \<and> small_blob 0x10CF = 0"
  using fdt_get_string_terminated [OF small_strings(2)] small_strings(2) by simp

text \<open>
  C28. On a valid blob \<^verbatim>\<open>fdt_getprop\<close> of a node returns the value of the node's first property of that
  name, whose bytes lie inside the blob behind the structure block's start, and a null pointer with an
  error when the node has no such property.
\<close>

theorem fdt_getprop_first:
  assumes "valid_blob m fdt" and "node \<in> set (nodes_from m fdt 0)"
  shows "case find (prop_named m fdt name) (node_props m fdt node) of
      None \<Rightarrow> fst (fdt_getprop m fdt node name) = 0 \<and> snd (fdt_getprop m fdt node name) <s 0
    | Some k \<Rightarrow> \<exists>off. fdt_getprop m fdt node name = (fdt + of_nat off, prop_len m fdt k) \<and>
        unat (fdt_off_dt_struct m fdt) + unat k + 12 \<le> off \<and>
        off + unat (prop_len m fdt k) \<le> unat (fdt_totalsize m fdt)"
proof (cases "find (prop_named m fdt name) (node_props m fdt node)")
  case None
  with getprop_first [OF assms, of name] show ?thesis by auto
next
  case (Some k)
  then have "k \<in> set (props_from m fdt (snd (fdt_next_tag m fdt node)))"
    using find_member by (fastforce simp: node_props_def)
  then have "fst (fdt_next_tag m fdt k) = FDT_PROP"
    using nodes_from_member [OF assms(2)] by (intro props_from_member) auto
  then have t: "fdt_next_tag m fdt k = (FDT_PROP, snd (fdt_next_tag m fdt k))"
    by (cases "fdt_next_tag m fdt k") simp
  note span = prop_tag_span [OF t]
  let ?old = "fdt_version m fdt < 0x10 \<and> (k + 12) mod 8 \<noteq> 0 \<and> prop_len m fdt k \<ge> 8"
  let ?off = "unat (fdt_off_dt_struct m fdt) + unat k + (if ?old then 16 else 12)"
  have "property_data m fdt (fdt_offset_ptr_priv m fdt k) k =
      (if ?old then fdt_offset_ptr_priv m fdt k + 12 + 4 else fdt_offset_ptr_priv m fdt k + 12)"
    by (auto simp: property_data_def prop_len_def)
  also have "\<dots> = fdt + of_nat ?off"
    unfolding span(1) by simp
  finally have "property_data m fdt (fdt_offset_ptr_priv m fdt k) k = fdt + of_nat ?off" .
  then have "fdt_getprop m fdt node name = (fdt + of_nat ?off, prop_len m fdt k)"
    using getprop_first [OF assms, of name] Some by auto
  moreover have "?off + unat (prop_len m fdt k) \<le> unat (fdt_totalsize m fdt)"
    using span(2,3) by auto
  ultimately show ?thesis
    unfolding Some option.case by (intro exI [of _ ?off]) simp
qed

theorem fdt_getprop_first_witness:
  "\<exists>off. fdt_getprop small_blob 0x1000 8 (chars ''reg'') = (0x1000 + of_nat off, 12) \<and> off + 12 \<le> 219"
  using fdt_getprop_first [of small_blob "0x1000" 8 "chars ''reg''"]
  by (simp add: small_valid small_nodes small_props small_named small_prop_lens small_header) blast

section \<open>Searches\<close>

text \<open>
  C29. The searches of the library over all nodes, started at \<open>-1\<close>, return the first node that
  qualifies, in the order of the walk, and an error when none does: by phandle (two values are not
  phandles), by the value of a property, and by a compatible string, where a node whose property
  cannot be read stops the search with its error.
\<close>

theorem fdt_searches_find_first:
  assumes "\<not> fdt_ro_probe_priv m fdt <s 0"
  shows "(case find (\<lambda>n. fdt_get_phandle m fdt n = ph) (nodes_from m fdt 0) of
      None \<Rightarrow> fdt_node_offset_by_phandle m fdt ph <s 0
    | Some n \<Rightarrow> fdt_node_offset_by_phandle m fdt ph =
        (if ph = 0 \<or> ph = NOT 0 then - FDT_ERR_BADPHANDLE else n)) \<and>
    (case find (has_value m fdt name val) (nodes_from m fdt 0) of
      None \<Rightarrow> fdt_node_offset_by_prop_value m fdt (- 1) name val <s 0
    | Some n \<Rightarrow> fdt_node_offset_by_prop_value m fdt (- 1) name val = n) \<and>
    (case first_some (compatible_check m fdt str) (nodes_from m fdt 0) of
      None \<Rightarrow> fdt_node_offset_by_compatible m fdt (- 1) str <s 0
    | Some r \<Rightarrow> fdt_node_offset_by_compatible m fdt (- 1) str = r)"
proof (intro conjI)
  show "case find (\<lambda>n. fdt_get_phandle m fdt n = ph) (nodes_from m fdt 0) of
      None \<Rightarrow> fdt_node_offset_by_phandle m fdt ph <s 0
    | Some n \<Rightarrow> fdt_node_offset_by_phandle m fdt ph =
        (if ph = 0 \<or> ph = NOT 0 then - FDT_ERR_BADPHANDLE else n)"
    using phandle.search_all [of m fdt ph] assms
    by (auto simp: fdt_node_offset_by_phandle_def first_some_find split: option.splits)
  show "case find (has_value m fdt name val) (nodes_from m fdt 0) of
      None \<Rightarrow> fdt_node_offset_by_prop_value m fdt (- 1) name val <s 0
    | Some n \<Rightarrow> fdt_node_offset_by_prop_value m fdt (- 1) name val = n"
    using by_value.search_all [of m fdt name val] assms
    by (auto simp: fdt_node_offset_by_prop_value_def first_some_find split: option.splits)
  show "case first_some (compatible_check m fdt str) (nodes_from m fdt 0) of
      None \<Rightarrow> fdt_node_offset_by_compatible m fdt (- 1) str <s 0
    | Some r \<Rightarrow> fdt_node_offset_by_compatible m fdt (- 1) str = r"
    using compatible.search_all [of m fdt str] assms
    by (auto simp: fdt_node_offset_by_compatible_def split: option.splits)
qed

lemma small_getprop:
  "fdt_getprop small_blob 0x1000 8 (chars ''device_type'') = (0x1058, 7)"
  "fdt_getprop small_blob 0x1000 8 (chars ''reg'') = (0x106C, 12)"
  "fdt_getprop small_blob 0x1000 68 (chars ''compatible'') = (0x1094, 8)"
  "fdt_getprop small_blob 0x1000 68 (chars ''reg'') = (0x10A8, 12)"
  and small_no_prop:
  "fst (fdt_getprop small_blob 0x1000 0 name) = 0" "snd (fdt_getprop small_blob 0x1000 0 name) <s 0"
  "fst (fdt_getprop small_blob 0x1000 8 (chars ''compatible'')) = 0"
  "fst (fdt_getprop small_blob 0x1000 68 (chars ''device_type'')) = 0"
  using getprop_first [OF small_valid, of 8 "chars ''device_type''"]
    getprop_first [OF small_valid, of 8 "chars ''reg''"]
    getprop_first [OF small_valid, of 8 "chars ''compatible''"]
    getprop_first [OF small_valid, of 68 "chars ''device_type''"]
    getprop_first [OF small_valid, of 68 "chars ''compatible''"]
    getprop_first [OF small_valid, of 68 "chars ''reg''"]
    getprop_first [OF small_valid, of 0 name]
  by (auto simp: small_nodes small_props small_named small_prop_lens small_prop_ptrs
      property_data_def small_header)

theorem fdt_searches_find_first_witness:
  "fdt_node_offset_by_prop_value small_blob 0x1000 (- 1) (chars ''compatible'') (chars ''ns16550'' @ [0]) = 68"
proof -
  have "length (chars ''ns16550'') = 7" "bytes_at small_blob 0x1094 (chars ''ns16550'' @ [0])"
    by code_simp+
  then have "find (has_value small_blob 0x1000 (chars ''compatible'') (chars ''ns16550'' @ [0]))
      (nodes_from small_blob 0x1000 0) = Some 68"
    using small_no_prop(1) [of "chars ''compatible''"] small_no_prop(3)
    by (auto simp: small_nodes has_value_def small_getprop split: prod.splits)
  moreover have probe: "\<not> fdt_ro_probe_priv small_blob 0x1000 <s 0"
    unfolding small_header by code_simp
  ultimately show ?thesis
    using fdt_searches_find_first [OF probe, of 0 "chars ''compatible''" "chars ''ns16550'' @ [0]" "[]"]
    by simp
qed

section \<open>What the kernel reads\<close>

text \<open>A cell count of the root, \<open>-1\<close> when it cannot be read or is not positive.\<close>

definition root_cells :: "(mem \<Rightarrow> u64 \<Rightarrow> u32 \<Rightarrow> u32) \<Rightarrow> mem \<Rightarrow> u64 \<Rightarrow> u32" where
  "root_cells cells m dtb =
     (if dtb = 0 \<or> fdt_ro_probe_priv m dtb <s 0 \<or> \<not> 0 <s cells m dtb 0 then - 1 else cells m dtb 0)"

lemma root_path: "fdt_path_offset m fdt (chars ''/'') =
    Some (if fdt_ro_probe_priv m fdt <s 0 then fdt_ro_probe_priv m fdt else 0)"
proof -
  have "chars ''/'' = [0x2F]" by code_simp
  then show ?thesis
    by (simp add: fdt_path_offset_def fdt_path_offset_namelen_def path_loop.simps [of m fdt 0])
qed

lemma root_cells: "get_root_addr_cells m dtb = Some (root_cells fdt_address_cells m dtb)"
  "get_root_size_cells m dtb = Some (root_cells fdt_size_cells m dtb)"
  by (simp_all add: get_root_addr_cells_def get_root_size_cells_def root_cells_def root_path Let_def)

lemma root_cells_bad: "root_cells cells m dtb \<le>s 0 \<longleftrightarrow> root_cells cells m dtb = - 1"
proof -
  have "(- 1 :: u32) \<le>s 0" "\<not> 0 <s (- 1 :: u32)" by code_simp+
  then show ?thesis
    by (auto simp: root_cells_def word_sle_eq word_sless_alt)
qed

text \<open>The first range of a memory node.\<close>

definition memory_reg :: "mem \<Rightarrow> u64 \<Rightarrow> u32 \<Rightarrow> u32 \<Rightarrow> u32 \<Rightarrow> bool \<times> u64 \<times> u64" where
  "memory_reg m dtb addr_cells size_cells node =
     (case fdt_getprop m dtb node (chars ''reg'') of (reg, len) \<Rightarrow>
        if reg = 0 \<or> len <s (addr_cells + size_cells) * 4 then (False, 0, 0)
        else (True, read_cells m reg addr_cells, read_cells m (reg + scast addr_cells * 4) size_cells))"

text \<open>The two searches of the kernel.\<close>

lemma dtb_memory_range_first:
  "dtb_get_memory_range s =
     (let m = pmem s; dtb = g_dtb s;
          addr_cells = root_cells fdt_address_cells m dtb; size_cells = root_cells fdt_size_cells m dtb
      in if dtb = 0 \<or> addr_cells = - 1 \<or> size_cells = - 1 then Some (False, 0, 0)
         else (case find (is_memory_node m dtb) (nodes_from m dtb 0) of
                 None \<Rightarrow> Some (False, 0, 0)
               | Some node \<Rightarrow> Some (memory_reg m dtb addr_cells size_cells node)))"
proof -
  have neg: "(- 1 :: u32) <s 0" by code_simp
  let ?start = "fst (fdt_next_node (pmem s) (g_dtb s) (- 1) None)"
  show ?thesis
  proof (cases "find (is_memory_node (pmem s) (g_dtb s)) (nodes_from (pmem s) (g_dtb s) 0)")
    case None
    with memory.search_all [of "pmem s" "g_dtb s"] have "memory_node_loop (pmem s) (g_dtb s) ?start = - 1"
      by (simp add: first_some_find)
    with None neg show ?thesis
      by (simp add: dtb_get_memory_range_def root_cells root_cells_bad Let_def)
  next
    case (Some node)
    with memory.search_all [of "pmem s" "g_dtb s"] have "memory_node_loop (pmem s) (g_dtb s) ?start = node"
      by (simp add: first_some_find)
    moreover have "\<not> node <s 0"
      using find_member [OF Some] nodes_from_member [of node "pmem s" "g_dtb s" 0] by simp
    ultimately show ?thesis
      using Some by (auto simp: dtb_get_memory_range_def root_cells root_cells_bad Let_def memory_reg_def
          split: prod.split)
  qed
qed

lemma dtb_uart_base_first:
  "dtb_get_uart_base s =
     (let m = pmem s; dtb = g_dtb s; addr_cells = root_cells fdt_address_cells m dtb
      in if dtb = 0 \<or> addr_cells = - 1 then Some (False, 0)
         else (case first_some (uart_node_base m dtb addr_cells) (nodes_from m dtb 0) of
                 None \<Rightarrow> Some (False, 0)
               | Some base \<Rightarrow> Some (True, base)))"
  using uart.search_all [of "pmem s" "g_dtb s" "root_cells fdt_address_cells (pmem s) (g_dtb s)"]
  by (auto simp: dtb_get_uart_base_def root_cells root_cells_bad Let_def first_some_map split: option.splits)

text \<open>
  C30. What the kernel takes from the tree. \<^verbatim>\<open>dtb_get_memory_range\<close> always returns, with the first
  range of the first memory node in the order of the tree, whose address and size it reads with the
  root's cell counts, and false when there is no such node, the node has no complete range or the
  counts are not positive. \<^verbatim>\<open>dtb_get_uart_base\<close> always returns, with the base address of the first
  node that looks like a serial port (a string of its compatible list begins with \<^verbatim>\<open>ns16550\<close> or
  \<^verbatim>\<open>uart\<close>) and has a complete address; a node without one is passed over.
\<close>

theorem dtb_finds_first:
  "dtb_get_memory_range s =
     (let m = pmem s; dtb = g_dtb s;
          addr_cells = root_cells fdt_address_cells m dtb; size_cells = root_cells fdt_size_cells m dtb
      in if dtb = 0 \<or> addr_cells = - 1 \<or> size_cells = - 1 then Some (False, 0, 0)
         else (case find (is_memory_node m dtb) (nodes_from m dtb 0) of
                 None \<Rightarrow> Some (False, 0, 0)
               | Some node \<Rightarrow> Some (memory_reg m dtb addr_cells size_cells node))) \<and>
   dtb_get_uart_base s =
     (let m = pmem s; dtb = g_dtb s; addr_cells = root_cells fdt_address_cells m dtb
      in if dtb = 0 \<or> addr_cells = - 1 then Some (False, 0)
         else (case first_some (uart_node_base m dtb addr_cells) (nodes_from m dtb 0) of
                 None \<Rightarrow> Some (False, 0)
               | Some base \<Rightarrow> Some (True, base)))"
  using dtb_memory_range_first dtb_uart_base_first by blast

end
