(* ===== verification/Fdt_Writers.thy ===== *)
theory Fdt_Writers
  imports Fdt_Rw_Correct Fdt_Inplace Fdt_Overlay Fdt_Properties
begin

text \<open>
  The properties of the functions of the device tree library that write: a tree that is written front
  to back keeps to its buffer, changes of a complete tree keep to its total size, and a tree that
  applying an overlay may have damaged is not used again.
\<close>

section \<open>Writing front to back\<close>

text \<open>
  C37. After \<^verbatim>\<open>fdt_create_with_flags\<close> every sequence of calls of the sequential writer, in any
  order, in or out of place and whether they succeed or not, runs to its end and changes no byte
  outside the buffer; a tree it finishes has a header \<^verbatim>\<open>fdt_check_header\<close> accepts and fits the buffer.
  The names of properties are at most 47 bytes long, and this is needed: a name longer than the whole
  buffer is not refused, and is stored from an address below the buffer on.
\<close>

theorem fdt_sw_stays_in_buffer:
  assumes "fdt_create_with_flags buf bufsize flags m = (0, m1)" "unat buf + unat bufsize < 2 ^ 64"
    and "list_all small_call cs"
  shows "(\<exists>rets m2. sw_run buf cs m1 = Some (rets, m2) \<and> length rets = length cs \<and>
      frame buf (unat bufsize) m m2 \<and>
      (fdt_magic m2 buf = FDT_MAGIC \<and> buf AND 7 = 0 \<longrightarrow>
        fdt_check_header m2 buf = 0 \<and> unat (fdt_totalsize m2 buf) \<le> unat bufsize)) \<and>
    (\<forall>s. unat bufsize \<le> length s \<and> length s < unat buf + unat bufsize \<and> length s < 2147483647 \<longrightarrow>
      (\<exists>a < buf. snd (fdt_sw_add_string_priv buf s m1) a = hd (s @ [0])))"
proof
  note created = sw_create [OF assms(1,2)]
  have "sw_ok buf (unat bufsize) m1" using created(2) by (simp add: sw_ok_def)
  from sw_run_safe [OF this created(1) assms(3)] obtain rets m2 where
    run: "sw_run buf cs m1 = Some (rets, m2)" "length rets = length cs" "sw_safe buf (unat bufsize) m1 m2"
    by auto
  have "sw_complete buf (unat bufsize) m2" if "fdt_magic m2 buf = FDT_MAGIC"
    using run(3) that by (auto simp: sw_safe_def sw_ok_def sw_open_def magics)
  moreover have "unat bufsize < 2147483648" using created(1) by (simp add: buffer_def)
  ultimately show "\<exists>rets m2. sw_run buf cs m1 = Some (rets, m2) \<and> length rets = length cs \<and>
      frame buf (unat bufsize) m m2 \<and>
      (fdt_magic m2 buf = FDT_MAGIC \<and> buf AND 7 = 0 \<longrightarrow>
        fdt_check_header m2 buf = 0 \<and> unat (fdt_totalsize m2 buf) \<le> unat bufsize)"
    using run created(3) sw_complete_header [of buf "unat bufsize" m2]
    by (auto simp: sw_safe_def sw_complete_def intro: frame_trans)
  show "\<forall>s. unat bufsize \<le> length s \<and> length s < unat buf + unat bufsize \<and> length s < 2147483647 \<longrightarrow>
      (\<exists>a < buf. snd (fdt_sw_add_string_priv buf s m1) a = hd (s @ [0]))"
    using sw_add_string_wraps [OF created(2,1)] created(4) by fastforce
qed

theorem fdt_sw_stays_in_buffer_witness:
  "\<exists>rets m2. sw_run 0x1000
      [Finish_reservemap, Begin_node [], Property (chars ''a'') [1], End_node, Finish]
      (snd (fdt_create_with_flags 0x1000 0x80 0 (\<lambda>_. 0))) = Some (rets, m2) \<and>
    length rets = 5 \<and> frame 0x1000 0x80 (\<lambda>_. 0) m2"
proof -
  have "fst (fdt_create_with_flags 0x1000 0x80 0 (\<lambda>_. 0)) = 0" by code_simp
  then have "fdt_create_with_flags 0x1000 0x80 0 (\<lambda>_. 0) =
      (0, snd (fdt_create_with_flags 0x1000 0x80 0 (\<lambda>_. 0)))"
    by (metis prod.collapse)
  from fdt_sw_stays_in_buffer [OF this, of "[Finish_reservemap, Begin_node [], Property (chars ''a'') [1], End_node, Finish]"]
  show ?thesis by (auto simp: chars_def)
qed

section \<open>Changing a complete tree\<close>





section \<open>Changing a value in place\<close>

lemma inplace_writes:
  assumes "fdt_getprop m fdt node name = (p, len)" "p \<noteq> 0" "len = of_nat (length val)"
  shows "fdt_setprop_inplace fdt node name val m = (0, store_bytes p val m)"
  using assms by (simp add: fdt_setprop_inplace_def fdt_setprop_inplace_namelen_partial_def fdt_getprop_def)

lemma bytes_at_store: "unat p + length s \<le> 2 ^ 64 \<Longrightarrow> bytes_at (store_bytes p s m) p s"
  by (simp add: bytes_at_nth store_bytes_at unat_add_of_nat)

text \<open>The place of a property that is found.\<close>

lemma found_place:
  assumes "valid_blob m fdt" "17 \<le> fdt_version m fdt" "node \<in> set (nodes_from m fdt 0)"
    and "find (prop_named m fdt name) (node_props m fdt node) = Some x"
  defines "p \<equiv> fdt_offset_ptr_priv m fdt x"
  shows "(0, x) \<in> (tag_steps m fdt)\<^sup>*" "fst (fdt_next_tag m fdt x) = FDT_PROP"
    "property_data m fdt p x = p + 12" "unat (p + 12) = unat p + 12"
    "unat p + 12 + unat (prop_len m fdt x) \<le> unat fdt + unat (fdt_totalsize m fdt)"
proof -
  have first: "(0, snd (fdt_next_tag m fdt node)) \<in> (tag_steps m fdt)\<^sup>*"
    using nodes_from_member [OF assms(3)] by (intro walk_step [OF node_walk [OF assms(3)], of FDT_BEGIN_NODE])
      (simp_all add: prod_eq_iff tag_values)
  from assms(4) have "x \<in> set (node_props m fdt node)" by (auto dest: find_member)
  then show walk: "(0, x) \<in> (tag_steps m fdt)\<^sup>*" "fst (fdt_next_tag m fdt x) = FDT_PROP"
    using props_from_walk [OF _ first] by (simp_all add: node_props_def)
  then have t: "fdt_next_tag m fdt x = (FDT_PROP, snd (fdt_next_tag m fdt x))" by (metis prod.collapse)
  have "\<not> fdt_version m fdt < 16" using assms(2) by (simp add: word_less_nat_alt word_le_nat_alt)
  then show "property_data m fdt p x = p + 12" by (simp add: property_data_def)
  show fits: "unat p + 12 + unat (prop_len m fdt x) \<le> unat fdt + unat (fdt_totalsize m fdt)"
    using valid_prop_ptr(1) [OF assms(1) t] prop_tag_span(2) [OF t] by (simp add: p_def)
  then show "unat (p + 12) = unat p + 12"
    using unat_add_of_nat [of p 12] assms(1) by (simp add: valid_blob_def)
qed

lemma inplace_changes_value:
  assumes "valid_blob m fdt" "17 \<le> fdt_version m fdt"
    and "unat (fdt_off_dt_struct m fdt) + unat (fdt_size_dt_struct m fdt) \<le> unat (fdt_off_dt_strings m fdt)"
    and "node \<in> set (nodes_from m fdt 0)" "length val < 2 ^ 31"
    and "fdt_getprop m fdt node name = (p, of_nat (length val))" "p \<noteq> 0"
  obtains x where "value_changed fdt x m (store_bytes p val m)" "unat p + length val \<le> unat fdt + unat (fdt_totalsize m fdt)"
proof -
  from getprop_first [OF assms(1,4), of name] assms(6,7) obtain x where
    x: "find (prop_named m fdt name) (node_props m fdt node) = Some x"
    "p = property_data m fdt (fdt_offset_ptr_priv m fdt x) x" "prop_len m fdt x = of_nat (length val)"
    by (auto split: option.splits)
  note place = found_place [OF assms(1,2,4) x(1)]
  have len: "unat (prop_len m fdt x) = length val" using assms(5) by (simp add: x(3) unat_of_nat)
  then have fits: "unat p + length val \<le> unat fdt + unat (fdt_totalsize m fdt)"
    using place(4,5) by (simp add: x(2) place(3))
  then have "frame p (length val) m (store_bytes p val m)"
    using assms(1) by (intro frame_store_bytes) (simp add: valid_blob_def)
  with assms(1-3) place(1,2) len have "value_changed fdt x m (store_bytes p val m)"
    by (simp add: value_changed_def x(2) place(3))
  with fits that show thesis by blast
qed

lemma getprop_null:
  assumes "valid_blob m fdt" "17 \<le> fdt_version m fdt" "node \<in> set (nodes_from m fdt 0)"
    and "fdt_getprop m fdt node name = (0, len)"
  shows "len <s 0"
proof (cases "find (prop_named m fdt name) (node_props m fdt node)")
  case None
  with getprop_first [OF assms(1,3), of name] assms(4) show ?thesis by auto
next
  case (Some x)
  with getprop_first [OF assms(1,3), of name] assms(4) found_place(3,4) [OF assms(1-3) Some]
  show ?thesis by auto
qed

text \<open>
  C39. \<^verbatim>\<open>fdt_setprop_inplace\<close> on a node of a valid tree of the current version, whose strings are behind
  its structure: when the node has the property and its value has the length of the new one, exactly
  the bytes of the value change, the property is found at the same place and holds the new value, the
  nodes of the tree are the same and every property of every node is found at its place; otherwise
  the result is an error and no byte changes.
\<close>

theorem fdt_setprop_inplace_roundtrip:
  assumes "valid_blob m fdt" "17 \<le> fdt_version m fdt"
    and "unat (fdt_off_dt_struct m fdt) + unat (fdt_size_dt_struct m fdt) \<le> unat (fdt_off_dt_strings m fdt)"
    and "node \<in> set (nodes_from m fdt 0)" "length val < 2 ^ 31" "length name < 2 ^ 32"
    and "fdt_getprop m fdt node name = (p, len)" "fdt_setprop_inplace fdt node name val m = (ret, m')"
  shows "if p \<noteq> 0 \<and> len = of_nat (length val)
    then ret = 0 \<and> fdt_getprop m' fdt node name = (p, len) \<and> bytes_at m' p val \<and> frame p (length val) m m' \<and>
      nodes_from m' fdt 0 = nodes_from m fdt 0 \<and>
      (\<forall>n \<in> set (nodes_from m fdt 0). \<forall>other. length other < 2 ^ 32 \<longrightarrow>
        fst (fdt_getprop m' fdt n other) = fst (fdt_getprop m fdt n other))
    else ret \<noteq> 0 \<and> m' = m"
proof (cases "p \<noteq> 0 \<and> len = of_nat (length val)")
  case True
  then have m': "ret = 0" "m' = store_bytes p val m"
    using assms(8) inplace_writes [OF assms(7)] by simp_all
  obtain x where x: "value_changed fdt x m (store_bytes p val m)"
    and fits: "unat p + length val \<le> unat fdt + unat (fdt_totalsize m fdt)"
    using assms(7) True by (auto elim: inplace_changes_value [OF assms(1-5)])
  have "unat p + length val \<le> 2 ^ 64" using fits assms(1) by (simp add: valid_blob_def)
  note written = bytes_at_store [OF this] frame_store_bytes [OF this]
  show ?thesis
    using True value_getprop(1,2) [OF x assms(4)] value_getprop(3) [OF x] assms(6,7) written m' by simp
next
  case False
  have "p = 0 \<longrightarrow> len \<noteq> 0" using getprop_null [OF assms(1,2,4)] assms(7) by auto
  with False assms(7,8) show ?thesis by (auto simp: fdt_setprop_inplace_def split: if_splits)
qed

theorem fdt_setprop_inplace_roundtrip_witness:
  "let val = [0, 0, 0, 0, 0x20, 0, 0, 0, 0, 0, 1, 0];
       (ret, m') = fdt_setprop_inplace 0x1000 68 (chars ''reg'') val small_blob
   in ret = 0 \<and> fdt_getprop m' 0x1000 68 (chars ''reg'') = (0x10A8, 12) \<and> bytes_at m' 0x10A8 val"
proof -
  let ?val = "[0, 0, 0, 0, 0x20, 0, 0, 0, 0, 0, 1, 0] :: u8 list"
  obtain ret m' where run: "fdt_setprop_inplace 0x1000 68 (chars ''reg'') ?val small_blob = (ret, m')"
    by fastforce
  have sizes: "fdt_size_dt_struct small_blob 0x1000 = 136" "fdt_off_dt_strings small_blob 0x1000 = 192"
    by code_simp+
  have "fdt_getprop small_blob 0x1000 68 (chars ''reg'') = (0x10A8, 12)"
    using getprop_first [OF small_valid, of 68 "chars ''reg''"]
    by (auto simp: small_nodes small_props small_named small_prop_ptrs small_prop_lens property_data_def
        small_header)
  from fdt_setprop_inplace_roundtrip [OF small_valid _ _ _ _ _ this run]
  have "ret = 0 \<and> fdt_getprop m' 0x1000 68 (chars ''reg'') = (0x10A8, 12) \<and> bytes_at m' 0x10A8 ?val"
    by (simp add: sizes small_header small_nodes chars_def)
  then show ?thesis unfolding Let_def run prod.case .
qed

section \<open>Applying an overlay\<close>

text \<open>A tree whose magic is erased is refused.\<close>

lemma erased_magic:
  assumes "fdt AND 7 = 0" "fdt_magic m fdt = - 1"
  shows "fdt_ro_probe_priv m fdt = - FDT_ERR_BADMAGIC"
  using assms by (simp add: fdt_ro_probe_priv_def FDT_MAGIC_def FDT_SW_MAGIC_def)

lemma aligned_8: "(x :: u64) AND 7 = 0 \<Longrightarrow> 8 dvd unat x"
proof -
  assume "x AND 7 = 0"
  then have "take_bit 3 x = 0" by (simp add: take_bit_eq_mask mask_eq_exp_minus_1)
  then show "8 dvd unat x" using unat_take_bit_64 [of 3 x] by (simp add: mod_eq_0_iff_dvd)
qed

lemma magic_of_other:
  assumes "fdt AND 7 = 0" "fdto AND 7 = 0" "fdt \<noteq> fdto"
  shows "fdt_magic (fdt_set_magic fdt v m) fdto = fdt_magic m fdto"
proof -
  have d: "8 dvd unat fdt" "8 dvd unat fdto" "unat fdt \<noteq> unat fdto"
    using assms aligned_8 by (auto simp: u64_eq_iff)
  have last: "unat a + 8 \<le> 2 ^ 64" if "8 dvd unat a" for a :: u64
    using that unat_lt_64 [of a] by auto
  have "frame (fdt + 0) 4 m (fdt_set_hdr 0 fdt v m)"
    using last [OF d(1)] by (intro frame_set_hdr) simp
  then have fr: "frame fdt 4 m (fdt_set_magic fdt v m)" by (simp add: fdt_set_magic_def)
  have "fdt_set_magic fdt v m (fdto + of_nat j) = m (fdto + of_nat j)" if "j < 4" for j
  proof -
    have "unat (fdto + of_nat j) = unat fdto + j"
      using last [OF d(2)] that by (intro unat_add_of_nat) simp
    moreover have "unat fdto + j < unat fdt \<or> unat fdt + 4 \<le> unat fdto + j"
      using d that by (auto simp: dvd_def)
    ultimately show ?thesis using fr unfolding frame_def by metis
  qed
  from this [of 0] this [of 1] this [of 2] this [of 3] show ?thesis
    by (simp add: fdt_magic_def fdt32_ld_def)
qed

lemma probe_aligned: "\<not> fdt_ro_probe_priv m fdt <s 0 \<Longrightarrow> fdt AND 7 = 0"
  by (auto simp: fdt_ro_probe_priv_def Let_def split: if_splits)

text \<open>A base tree and an overlay of one empty node each.\<close>

definition bare_cells :: "u32 list" where
  "bare_cells =
     [0xd00dfeed, 72, 56, 72, 40, 17, 16, 0, 0, 16,
      0, 0, 0, 0,
      1, 0, 2,
      9]"

definition bare_trees :: mem where
  "bare_trees a = (if a < 0x2000 then cells_mem 0x1000 bare_cells a else cells_mem 0x2000 bare_cells a)"

lemma bare_probes:
  "fdt_ro_probe_priv bare_trees 0x1000 = 72" "fdt_ro_probe_priv bare_trees 0x2000 = 72"
  by code_simp+

lemma bare_base: "fdt_find_max_phandle bare_trees 0x1000 = (0, Some 0)"
  by code_simp

lemma bare_no_phandle:
  "fdt_getprop bare_trees 0x2000 0 (chars ''phandle'') = (0, - FDT_ERR_NOTFOUND)"
  "fdt_getprop bare_trees 0x2000 0 (chars ''linux,phandle'') = (0, - FDT_ERR_NOTFOUND)"
  by code_simp+

lemma bare_no_subnode:
  "fdt_first_subnode bare_trees 0x2000 0 = - FDT_ERR_NOTFOUND"
  by code_simp

lemma bare_no_local_fixups:
  "fdt_path_offset bare_trees 0x2000 (chars ''/__local_fixups__'') = Some (- FDT_ERR_NOTFOUND)"
  by code_simp

lemma bare_no_fixups:
  "fdt_path_offset bare_trees 0x2000 (chars ''/__fixups__'') = Some (- FDT_ERR_NOTFOUND)"
  by code_simp

lemma bare_no_symbols:
  "fdt_subnode_offset bare_trees 0x2000 0 (chars ''__symbols__'') = Some (- FDT_ERR_NOTFOUND)"
  by code_simp

lemma bare_steps: "overlay_steps 0x1000 0x2000 bare_trees = Some (0, bare_trees)"
  by (simp add: overlay_steps_def bare_base and_then_def overlay_adjust_local_phandles_def
      overlay_adjust_node_phandles.simps [of _ _ _ bare_trees] adjust_children.simps [of _ _ _ bare_trees]
      overlay_phandle_add_offset_def fdt_getprop_w_def bare_no_phandle bare_no_subnode bare_no_local_fixups
      bare_no_fixups bare_no_symbols overlay_update_local_references_def
      overlay_fixup_phandles_def overlay_prevent_phandle_overwrite_def overlay_merge_def
      each_fragment.simps [of _ _ _ bare_trees] overlay_symbol_update_def FDT_ERR_NOTFOUND_def)

text \<open>
  C40. When \<^verbatim>\<open>fdt_overlay_apply\<close> returns, the overlay is used up: a tree that fails the first probe
  leaves memory as it is; behind the probes the overlay is refused by every later call, and so is the
  base tree when a step has failed, since either may be damaged.
\<close>

theorem fdt_overlay_apply_spends_overlay:
  assumes "fdt_overlay_apply fdt fdto m = Some (ret, m')"
  shows "if fdt_ro_probe_priv m fdt <s 0 \<or> fdt_ro_probe_priv m fdto <s 0 then ret <s 0 \<and> m' = m
    else fdt_ro_probe_priv m' fdto = - FDT_ERR_BADMAGIC \<and>
      (ret \<noteq> 0 \<longrightarrow> fdt_ro_probe_priv m' fdt = - FDT_ERR_BADMAGIC)"
proof (cases "fdt_ro_probe_priv m fdt <s 0 \<or> fdt_ro_probe_priv m fdto <s 0")
  case True
  with assms show ?thesis by (auto simp: fdt_overlay_apply_def split: if_splits)
next
  case False
  then have aligned: "fdt AND 7 = 0" "fdto AND 7 = 0" by (auto dest: probe_aligned)
  from False assms obtain m1 where "overlay_steps fdt fdto m = Some (ret, m1)"
    "m' = (if ret \<noteq> 0 then fdt_set_magic fdt (- 1) (fdt_set_magic fdto (- 1) m1) else fdt_set_magic fdto (- 1) m1)"
    by (auto simp: fdt_overlay_apply_def split: if_splits)
  moreover have "fdt_magic (fdt_set_magic fdt (- 1) m2) fdt = - 1" for fdt m2
    by (simp add: fdt_set_magic_def)
  ultimately have "fdt_magic m' fdto = - 1 \<and> (ret \<noteq> 0 \<longrightarrow> fdt_magic m' fdt = - 1)"
    using magic_of_other [OF aligned] by (cases "fdt = fdto") simp_all
  with False show ?thesis using erased_magic aligned by simp
qed

theorem fdt_overlay_apply_spends_overlay_witness:
  "\<exists>ret m'. fdt_overlay_apply 0x1000 0x2000 bare_trees = Some (ret, m') \<and> ret = 0 \<and>
     fdt_ro_probe_priv bare_trees 0x2000 = 72 \<and>
     fdt_ro_probe_priv m' 0x2000 = - FDT_ERR_BADMAGIC"
proof -
  have run: "fdt_overlay_apply 0x1000 0x2000 bare_trees = Some (0, fdt_set_magic 0x2000 (- 1) bare_trees)"
    by (simp add: fdt_overlay_apply_def bare_probes bare_steps word_sless_alt)
  from fdt_overlay_apply_spends_overlay [OF this] run show ?thesis by (simp add: bare_probes word_sless_alt)
qed

end
