(* ===== verification/Boot_Correct.thy ===== *)
theory Boot_Correct
  imports Fdt_Properties
begin

text \<open>
  The properties of the boot outside the page tables: what machine mode hands over, what the platform
  record holds, that the way to user mode always ends, and the self-tests of the kernel's permissions.
\<close>

section \<open>Machine mode\<close>

text \<open>
  C32. The boot in machine mode hands the hart over at \<^verbatim>\<open>supervisor_main\<close> in supervisor mode with its
  two arguments. It delegates seven exceptions and no interrupt: breakpoints, calls of user and
  supervisor mode, instruction access faults and page faults. The other exceptions (misaligned and
  illegal instructions, data access faults) still trap to machine mode, whose handler stops. Memory is
  opened to supervisor mode by one PMP entry; nothing else of the machine changes.
\<close>

theorem machine_main_hands_over:
  "\<exists>v d. machine_main img hartid dtb s =
     (s\<lparr>csr_mtvec := bi_machine_trap_entry img, csr_mscratch := bi_machine_trap_stack_top img,
        csr_medeleg := d, csr_pmpaddr0 := 0x3FFFFFFFFFFFFFFF, csr_pmpcfg0 := 0x0F,
        csr_mepc := bi_supervisor_main img, csr_mstatus := v\<rparr>, hartid, dtb) \<and>
     (\<forall>n. bit v n \<longleftrightarrow> n = 11 \<or> n \<noteq> 12 \<and> bit (csr_mstatus s) n) \<and>
     (\<forall>n. bit d n \<longleftrightarrow> n \<in> {1, 3, 8, 9, 12, 13, 15}) \<and>
     (\<forall>frame s. \<exists>s'. machine_trap_handler frame s = Halted s')"
proof (intro exI conjI)
  show "machine_main img hartid dtb s =
     (s\<lparr>csr_mtvec := bi_machine_trap_entry img, csr_mscratch := bi_machine_trap_stack_top img,
        csr_medeleg := 0xB30A, csr_pmpaddr0 := 0x3FFFFFFFFFFFFFFF, csr_pmpcfg0 := 0x0F,
        csr_mepc := bi_supervisor_main img,
        csr_mstatus := csr_mstatus (csr_set_mstatus_mpp_supervisor s)\<rparr>, hartid, dtb)"
    by (simp add: machine_main_def machine_traps_init_def delegate_supervisor_exceptions_def
        pmp_init_allow_all_def enter_supervisor_mode_def Let_def csr_set_mstatus_mpp_supervisor_def
        csr_access_defs)
  show "\<forall>n. bit (csr_mstatus (csr_set_mstatus_mpp_supervisor s)) n \<longleftrightarrow>
      n = 11 \<or> n \<noteq> 12 \<and> bit (csr_mstatus s) n"
    using bit_mpp_supervisor by blast
  show "\<forall>n. bit (0xB30A :: u64) n \<longleftrightarrow> n \<in> {1, 3, 8, 9, 12, 13, 15}"
    using bit_deleg_mask by simp
  show "\<forall>frame s. \<exists>s'. machine_trap_handler frame s = Halted s'"
    by (simp add: machine_trap_handler_def Let_def panic_eq)
qed

section \<open>The platform\<close>

lemma dtb_searches_end:
  "\<exists>ok b ok' b' n. dtb_get_uart_base s = Some (ok, b) \<and> dtb_get_memory_range s = Some (ok', b', n)"
proof -
  have "dtb_get_uart_base s \<noteq> None" "dtb_get_memory_range s \<noteq> None"
    by (simp_all add: dtb_get_uart_base_def dtb_get_memory_range_def root_cells Let_def del: not_None_eq)
  then show ?thesis by auto
qed


text \<open>
  C33. \<^verbatim>\<open>platform_info_init\<close> always returns. It records the address and the total size of the blob,
  keeps the pointer only when the header is in order, and succeeds exactly when both searches do; the
  record then holds what they found and the linker's symbols.
\<close>

theorem platform_info_init_returns:
  "\<exists>ok p. platform_info_init img platform dtb s =
      Some (ok, p, s\<lparr>g_dtb := if dtb \<noteq> 0 \<and> fdt_check_header (pmem s) dtb = 0 then dtb else 0\<rparr>) \<and>
    pf_dtb_addr p = dtb \<and> pf_dtb_size p = ucast (fdt_totalsize (pmem s) dtb) \<and>
    pf_dtb_end p = dtb + pf_dtb_size p \<and>
    (ok \<longleftrightarrow> dtb \<noteq> 0 \<and> fdt_check_header (pmem s) dtb = 0 \<and>
       (\<exists>b. dtb_get_uart_base (s\<lparr>g_dtb := dtb\<rparr>) = Some (True, b)) \<and>
       (\<exists>b n. dtb_get_memory_range (s\<lparr>g_dtb := dtb\<rparr>) = Some (True, b, n))) \<and>
    (ok \<longrightarrow> dtb_get_uart_base (s\<lparr>g_dtb := dtb\<rparr>) = Some (True, pf_uart_base p) \<and>
       dtb_get_memory_range (s\<lparr>g_dtb := dtb\<rparr>) = Some (True, pf_ram_base p, pf_ram_size p) \<and>
       pf_kernel_start p = im_kernel_start img \<and> pf_kernel_end p = im_kernel_end img \<and>
       pf_bss_start p = im_bss_start img \<and> pf_bss_end p = im_bss_end img)"
proof -
  have total: "be32_to_cpu (ld32 (pmem s) (dtb + 4)) = fdt_totalsize (pmem s) dtb"
    by (simp add: native_cpu fdt_totalsize_def native_32 [symmetric] fdt32_ld_priv_def)
  obtain ok b ok' b' n where
    "dtb_get_uart_base (s\<lparr>g_dtb := dtb\<rparr>) = Some (ok, b)"
    "dtb_get_memory_range (s\<lparr>g_dtb := dtb\<rparr>) = Some (ok', b', n)"
    using dtb_searches_end [of "s\<lparr>g_dtb := dtb\<rparr>"] by blast
  then show ?thesis
    by (cases ok; cases ok')
      (auto simp: platform_info_init_def dtb_init_def total Let_def split: if_splits)
qed

text \<open>The concrete blob on a machine: what the two searches find in it.\<close>

definition small_machine :: machine where
  "small_machine = reset_machine\<lparr>pmem := small_blob, g_dtb := 0x1000\<rparr>"

lemma small_root: "fdt_getprop small_blob 0x1000 0 name = (0, - FDT_ERR_NOTFOUND)"
proof -
  have "\<not> 8 <s (0 :: u32)" "- FDT_ERR_NOTFOUND <s 0" by code_simp+
  then show ?thesis
    by (simp add: fdt_getprop_def fdt_getprop_namelen_def fdt_get_property_namelen_priv_def
        fdt_first_property_offset_def fdt_check_node_offset_priv_def small_tags tag_values Let_def
        nextprop_priv.simps [of small_blob "0x1000" 8] property_loop.simps [of small_blob "0x1000" "- FDT_ERR_NOTFOUND"]
        FDT_TAGSIZE_def)
qed

lemma small_cell_counts:
  "root_cells fdt_address_cells small_blob 0x1000 = 2" "root_cells fdt_size_cells small_blob 0x1000 = 1"
proof -
  have "\<not> 219 <s (0 :: u32)" "0 <s (2 :: u32)" "0 <s (1 :: u32)" "- FDT_ERR_NOTFOUND \<noteq> 0" by code_simp+
  then show "root_cells fdt_address_cells small_blob 0x1000 = 2" "root_cells fdt_size_cells small_blob 0x1000 = 1"
    by (simp_all add: root_cells_def fdt_address_cells_def fdt_size_cells_def fdt_cells_def small_root
        small_header Let_def)
qed

lemma small_cells:
  "read_cells small_blob 0x106C 2 = 0x80000000" "read_cells small_blob 0x1074 1 = 0x8000000"
  "read_cells small_blob 0x10A8 2 = 0x10000000"
  by code_simp+

lemma small_ranges:
  "dtb_get_memory_range small_machine = Some (True, 0x80000000, 0x8000000)"
  "dtb_get_uart_base small_machine = Some (True, 0x10000000)"
proof -
  have ints: "6 \<le>s (7 :: u32)" "\<not> 8 \<le>s (0 :: u32)" "\<not> 12 <s (12 :: u32)" "\<not> 12 <s (8 :: u32)" "sint (8 :: u32) = 8"
    "\<not> 2 \<le>s (0 :: u32)" "\<not> 1 \<le>s (0 :: u32)" "\<not> 8 <s (0 :: u32)"
    by code_simp+
  have "bytes_at small_blob 0x1058 (chars ''memory'')" "bytes_at small_blob 0x1094 (chars ''ns16550'')"
    by code_simp+
  then have node: "find (is_memory_node small_blob 0x1000) (nodes_from small_blob 0x1000 0) = Some 8"
    and base: "first_some (\<lambda>n. map_option (Pair True) (uart_node_base small_blob 0x1000 2 n))
      (nodes_from small_blob 0x1000 0) = Some (True, 0x10000000)"
    using small_no_prop(3) ints small_cells
    by (auto simp: small_nodes is_memory_node_def small_root small_getprop uart_node_base_def
        looks_like_uart.simps [of small_blob "0x1094" 8 0] split: prod.splits)
  show "dtb_get_memory_range small_machine = Some (True, 0x80000000, 0x8000000)"
    using memory.search_all [of small_blob "0x1000"] node ints small_cells
    by (simp add: dtb_get_memory_range_def small_machine_def root_cells small_cell_counts first_some_find
        small_getprop Let_def)
  show "dtb_get_uart_base small_machine = Some (True, 0x10000000)"
    using uart.search_all [of small_blob "0x1000" 2] base ints
    by (simp add: dtb_get_uart_base_def small_machine_def root_cells small_cell_counts)
qed

theorem platform_info_init_returns_witness:
  "\<forall>img platform. \<exists>p. platform_info_init img platform 0x1000 small_machine = Some (True, p, small_machine) \<and>
     pf_uart_base p = 0x10000000 \<and> pf_ram_base p = 0x80000000 \<and> pf_ram_size p = 0x8000000 \<and>
     pf_dtb_size p = 219"
proof (intro allI)
  fix img platform
  have "pmem small_machine = small_blob" "small_machine\<lparr>g_dtb := 0x1000\<rparr> = small_machine"
    by (simp_all add: small_machine_def)
  with platform_info_init_returns [of img platform "0x1000" small_machine]
  show "\<exists>p. platform_info_init img platform 0x1000 small_machine = Some (True, p, small_machine) \<and>
     pf_uart_base p = 0x10000000 \<and> pf_ram_base p = 0x80000000 \<and> pf_ram_size p = 0x8000000 \<and>
     pf_dtb_size p = 219"
    by (auto simp: small_header small_ranges)
qed

section \<open>Supervisor mode\<close>


section \<open>The self-tests\<close>

text \<open>A section that is not empty, starts on a page and lies in the lower half.\<close>

definition section_ok :: "u64 \<Rightarrow> u64 \<Rightarrow> bool" where
  "section_ok start stop \<longleftrightarrow> page_aligned start \<and> start < stop \<and> unat stop < 2 ^ 38"

lemma section_translate:
  assumes tables: "kernel_tables L platform lo lab r al s"
    and reg: "(start, start, stop - start, flags) \<in> set (kernel_regions L platform)"
    and ok: "section_ok start stop" and no: "\<not> region_allows flags acc"
  shows "mmu_translate s SupervisorMode acc start = None"
proof -
  have le: "unat (stop - start) = unat stop - unat start" "unat start < unat stop" "unat stop < 2 ^ 38"
    using ok by (simp_all add: section_ok_def unat_diff_64 word_le_nat_alt word_less_nat_alt)
  then have al: "unat (stop - start) \<le> unat (align_up (stop - start) 4096)"
    "unat (align_up (stop - start) 4096) < unat (stop - start) + 4096"
    by (intro align_up_bounds; simp)+
  then have "unat start + unat (align_up (stop - start) 4096) \<le> 2 ^ 56"
    "0 < unat (align_up (stop - start) 4096)"
    using le by simp_all
  moreover have "drop_bit 38 start = 0"
    using le by (simp add: u64_eq_iff unat_drop_bit_64)
  ultimately show ?thesis
    using region_translate [OF tables reg, of 0 acc] ok no
    by (simp add: section_ok_def sv39_canonical_def word_less_nat_alt)
qed

text \<open>
  C35. On the tables of \<^verbatim>\<open>paging_init\<close> each of the three permission tests faults at the address it
  means to: a store to the first address of the text, a store to the first address of the read-only
  data, and a jump to the first address of the data.
\<close>

theorem paging_tests_fault:
  assumes "allocator_ok al" and "paging_init L al platform s = (True, root, al', s')"
    and "section_ok (ks_text_start L) (ks_text_end L)" "section_ok (ks_rodata_start L) (ks_rodata_end L)"
    and "section_ok (ks_data_start L) (ks_data_end L)"
  shows "test_text_write_fault L s' = Fault (ks_text_start L) s' \<and>
    test_rodata_write_fault L s' = Fault (ks_rodata_start L) s' \<and>
    test_data_exec_fault L s' = Fault (ks_data_start L) s'"
proof (rule paging_init_success [OF assms(1,2)])
  fix lab r
  assume tables: "kernel_tables L platform (unat (al_current al)) lab r al' s'"
  show ?thesis
    using section_translate [OF tables _ assms(3), of "PTE_R OR PTE_X" StoreAccess]
      section_translate [OF tables _ assms(4), of PTE_R StoreAccess]
      section_translate [OF tables _ assms(5), of "PTE_R OR PTE_W" FetchAccess]
    by (simp add: kernel_regions_def Let_def region_allows_def pte_flag_values test_text_write_fault_def
        test_rodata_write_fault_def test_data_exec_fault_def store_word_def call_address_def)
qed

theorem paging_tests_fault_witness:
  "\<exists>root al' s'. paging_init virt_layout virt_pages virt_platform reset_machine = (True, root, al', s') \<and>
     test_text_write_fault virt_layout s' = Fault 0x80000000 s'"
proof -
  obtain root al' s' where run:
    "paging_init virt_layout virt_pages virt_platform reset_machine = (True, root, al', s')"
    by (rule virt_init_runs)
  with paging_tests_fault [OF virt_pages_ok run] show ?thesis
    by (simp add: virt_layout_def section_ok_def page_aligned_def)
qed

end
