(* ===== verification/Syscall_Correct.thy ===== *)
theory Syscall_Correct
  imports Trap User_Space
begin

text \<open>
  What the system calls do: bytes cross the boundary unchanged and in order, \<^verbatim>\<open>write\<close> sends what
  the user's buffer holds, \<^verbatim>\<open>read\<close> is a line editor, errors have their numbers, and no trap
  other than a system call of user mode or a breakpoint returns.
\<close>

section \<open>Reading the user's memory\<close>

text \<open>A byte of the user as the kernel sees it with \<open>SUM\<close> set.\<close>

definition user_load :: "machine \<Rightarrow> u64 \<Rightarrow> u8 option" where
  "user_load s va = load_byte (s\<lparr>csr_sstatus := csr_sstatus s OR SSTATUS_SUM\<rparr>) va"

lemma load_byte_cong:
  assumes "pmem s' = pmem s" "csr_satp s' = csr_satp s" "csr_sstatus s' = csr_sstatus s"
  shows "load_byte s' = load_byte s"
  by (rule ext) (simp only: load_byte_def mmu_translate_def assms)

lemma of_nat_unat_id: "of_nat (unat x) = (x :: u64)"
  by simp

lemma user_load_tx [simp]: "user_load (s\<lparr>uart_tx := x\<rparr>) = user_load s"
  unfolding user_load_def fun_eq_iff by (intro allI fun_cong [OF load_byte_cong]) simp_all

lemma copy_in_loop_done:
  assumes "\<And>k. unat i \<le> k \<Longrightarrow> k < unat sz \<Longrightarrow> load_byte s (src + of_nat k) = Some (g k)"
  shows "copy_in_loop out src sz i s =
    Done (map (\<lambda>k. if unat i \<le> k \<and> k < unat sz then g k else out ! k) [0..<length out]) s"
  using assms
proof (induction i arbitrary: out rule: up_loop_induct [where n = sz])
  case (step i)
  show ?case
  proof (cases "i < sz")
    case False
    then show ?thesis
      by (auto simp: copy_in_loop.simps [of out src sz i] word_less_nat_alt intro!: nth_equalityI)
  next
    case True
    then have lt: "unat i < unat sz" by (simp add: word_less_nat_alt)
    note suc = unat_Suc_64 [OF True]
    have "load_byte s (src + i) = Some (g (unat i))"
      using step.prems [of "unat i"] lt by simp
    with True have "copy_in_loop out src sz i s = copy_in_loop (out[unat i := g (unat i)]) src sz (i + 1) s"
      by (simp add: copy_in_loop.simps [of out src sz i])
    also have "\<dots> = Done (map (\<lambda>k. if unat i \<le> k \<and> k < unat sz then g k else out ! k) [0..<length out]) s"
      using step.prems lt suc by (subst step.IH [OF True]) (auto simp: nth_list_update Suc_le_eq)
    finally show ?thesis .
  qed
qed

lemma copy_in_loop_fault:
  assumes "unat i \<le> n" "n < unat sz" and "load_byte s (src + of_nat n) = None"
    and "\<And>k. unat i \<le> k \<Longrightarrow> k < n \<Longrightarrow> load_byte s (src + of_nat k) \<noteq> None"
  shows "copy_in_loop out src sz i s = Fault (src + of_nat n) s"
  using assms
proof (induction i arbitrary: out rule: up_loop_induct [where n = sz])
  case (step i)
  have lt: "i < sz" using step.prems by (simp add: word_less_nat_alt)
  show ?case
  proof (cases "unat i = n")
    case True
    then have "load_byte s (src + i) = None" using step.prems(3) by (metis of_nat_unat_id)
    with lt show ?thesis
      using True by (simp add: copy_in_loop.simps [of out src sz i]) (metis of_nat_unat_id)
  next
    case False
    with step.prems obtain b where b: "load_byte s (src + i) = Some b"
      using step.prems(4) [of "unat i"] by auto
    have "copy_in_loop out src sz i s = copy_in_loop (out[unat i := b]) src sz (i + 1) s"
      using lt b by (simp add: copy_in_loop.simps [of out src sz i])
    also have "\<dots> = Fault (src + of_nat n) s"
      using step.prems False unat_Suc_64 [OF lt] by (intro step.IH [OF lt]) auto
    finally show ?thesis .
  qed
qed

lemma copy_from_user_done:
  assumes "src \<noteq> 0 \<or> sz = 0" and "unat sz \<le> length out"
    and "\<And>k. k < unat sz \<Longrightarrow> user_load s (src + of_nat k) = Some (g k)"
  shows "copy_from_user (Some out) src sz s = Done (True, map g [0..<unat sz] @ drop (unat sz) out) s"
proof -
  have list: "map (\<lambda>k. if k < unat sz then g k else out ! k) [0..<length out] =
      map g [0..<unat sz] @ drop (unat sz) out"
    using assms(2) by (intro nth_equalityI) (auto simp: nth_append)
  show ?thesis
    using assms(1) copy_in_loop_done [of 0 sz "s\<lparr>csr_sstatus := csr_sstatus s OR SSTATUS_SUM\<rparr>" src g out]
      assms(3)
    by (auto simp: copy_from_user_def csr_access_defs user_load_def list)
qed

lemma copy_from_user_fault:
  assumes "src \<noteq> 0" and "n < unat sz" and "user_load s (src + of_nat n) = None"
    and "\<And>k. k < n \<Longrightarrow> user_load s (src + of_nat k) \<noteq> None"
  shows "copy_from_user (Some out) src sz s =
    Fault (src + of_nat n) (s\<lparr>csr_sstatus := csr_sstatus s OR SSTATUS_SUM\<rparr>)"
  using assms copy_in_loop_fault [of 0 n sz "s\<lparr>csr_sstatus := csr_sstatus s OR SSTATUS_SUM\<rparr>" src out]
  by (simp add: copy_from_user_def csr_access_defs user_load_def)

section \<open>write\<close>

lemma write_chars_tx:
  "write_chars cs s = s\<lparr>uart_tx := uart_tx s @ map (Pair (g_uart_base s)) (filter (\<lambda>c. c \<noteq> 0) cs)\<rparr>"
  by (induction cs s rule: write_chars.induct) (auto simp: uart_puts_tx c_string_def)

definition sends :: "u8 list \<Rightarrow> machine \<Rightarrow> machine" where
  "sends cs s = s\<lparr>uart_tx := uart_tx s @ map (Pair (g_uart_base s)) cs\<rparr>"

lemma sends_simps [simp]:
  "sends [] s = s" "sends ds (sends cs s) = sends (cs @ ds) s" "user_load (sends cs s) = user_load s"
  "csr_sstatus (sends cs s) = csr_sstatus s" "uart_rx (sends cs s) = uart_rx s"
  by (simp_all add: sends_def)

lemma sent_sends [simp]: "sent (sends cs s) = sent s @ cs"
  by (simp add: sent_def sends_def comp_def)

lemma write_loop_step:
  assumes "0 < len" and "temp_ok": "length tmp = 256" and "buffer \<noteq> 0"
    and "\<And>k. k < unat (write_chunk len) \<Longrightarrow> user_load s (buffer + of_nat k) = Some (g k)"
  obtains tmp' where "length tmp' = 256" and "syscall_write_loop tmp tot buffer len s =
    syscall_write_loop tmp' (tot + write_chunk len) (buffer + write_chunk len) (len - write_chunk len)
      (sends (filter (\<lambda>c. c \<noteq> 0) (map g [0..<unat (write_chunk len)])) s)"
proof -
  have le: "unat (write_chunk len) \<le> 256"
    by (auto simp: write_chunk_def word_less_nat_alt)
  let ?t = "map g [0..<unat (write_chunk len)] @ drop (unat (write_chunk len)) tmp"
  have "copy_from_user (Some tmp) buffer (write_chunk len) s = Done (True, ?t) s"
    using assms le by (intro copy_from_user_done) auto
  then have "syscall_write_loop tmp tot buffer len s =
      syscall_write_loop ?t (tot + write_chunk len) (buffer + write_chunk len) (len - write_chunk len)
        (sends (filter (\<lambda>c. c \<noteq> 0) (map g [0..<unat (write_chunk len)])) s)"
    using assms(1) by (simp add: syscall_write_loop.simps [of tmp tot buffer len s] Let_def
        write_chars_tx sends_def)
  with le temp_ok show ?thesis by (intro that) auto
qed

lemma write_chunk_nat: "unat (write_chunk len) = min (unat len) 256"
  by (auto simp: write_chunk_def word_less_nat_alt)

lemma chunk_diff: "unat (len - write_chunk len) = unat len - unat (write_chunk len)"
  by (subst unat_diff_64) (simp_all add: word_le_nat_alt write_chunk_nat)

lemma write_loop_done:
  assumes "length tmp = 256" and "\<And>k. k < unat len \<Longrightarrow> buffer + of_nat k \<noteq> 0"
    and "\<And>k. k < unat len \<Longrightarrow> user_load s (buffer + of_nat k) = Some (g k)"
  shows "syscall_write_loop tmp tot buffer len s =
    Done (tot + len) (sends (filter (\<lambda>c. c \<noteq> 0) (map g [0..<unat len])) s)"
  using assms
proof (induction "unat len" arbitrary: tmp tot buffer len s g rule: less_induct)
  case less
  show ?case
  proof (cases "0 < len")
    case False
    then have "len = 0" by (simp add: word_neq_0_conv [symmetric])
    then show ?thesis by (subst syscall_write_loop.simps) simp
  next
    case True
    let ?c = "write_chunk len"
    have c: "unat ?c \<le> unat len" by (simp add: write_chunk_nat)
    have "buffer \<noteq> 0" using less.prems(2) [of 0] True by (simp add: word_less_nat_alt)
    then obtain tmp' where t: "length tmp' = 256" "syscall_write_loop tmp tot buffer len s =
      syscall_write_loop tmp' (tot + ?c) (buffer + ?c) (len - ?c)
        (sends (filter (\<lambda>c. c \<noteq> 0) (map g [0..<unat ?c])) s)"
      using write_loop_step [OF True less.prems(1), of buffer s g tot] less.prems(3) c by auto
    have shift: "buffer + ?c + of_nat k = buffer + of_nat (unat ?c + k)" for k
      by (simp add: add.assoc)
    have "syscall_write_loop tmp' (tot + ?c) (buffer + ?c) (len - ?c)
        (sends (filter (\<lambda>c. c \<noteq> 0) (map g [0..<unat ?c])) s) =
      Done (tot + ?c + (len - ?c)) (sends (filter (\<lambda>c. c \<noteq> 0) (map (\<lambda>k. g (unat ?c + k))
        [0..<unat (len - ?c)])) (sends (filter (\<lambda>c. c \<noteq> 0) (map g [0..<unat ?c])) s))"
      using less.prems(2,3) write_chunk_decreases [OF True] t(1) c
      by (intro less.hyps) (simp_all only: shift chunk_diff sends_simps, auto)
    moreover have "map g [0..<unat len] = map g [0..<unat ?c] @ map (\<lambda>k. g (unat ?c + k)) [0..<unat (len - ?c)]"
      using c by (intro nth_equalityI) (auto simp: nth_append chunk_diff)
    ultimately show ?thesis
      by (simp add: t(2))
  qed
qed

lemma write_loop_fault:
  assumes "length tmp = 256" and "n < unat len" and "user_load s (buffer + of_nat n) = None"
    and "\<And>k. k \<le> n \<Longrightarrow> buffer + of_nat k \<noteq> 0"
    and "\<And>k. k < n \<Longrightarrow> user_load s (buffer + of_nat k) = Some (g k)"
  shows "\<exists>s'. syscall_write_loop tmp tot buffer len s = Fault (buffer + of_nat n) s' \<and>
    sent s' = sent s @ filter (\<lambda>c. c \<noteq> 0) (map g [0..<256 * (n div 256)])"
  using assms
proof (induction "unat len" arbitrary: tmp tot buffer len s g n rule: less_induct)
  case less
  have True: "0 < len" using less.prems(2) by (simp add: word_less_nat_alt)
  have buf: "buffer \<noteq> 0" using less.prems(4) [of 0] by simp
  let ?c = "write_chunk len"
  show ?case
  proof (cases "n < unat ?c")
    case inside: True
    have "copy_from_user (Some tmp) buffer ?c s =
        Fault (buffer + of_nat n) (s\<lparr>csr_sstatus := csr_sstatus s OR SSTATUS_SUM\<rparr>)"
      using less.prems inside buf by (intro copy_from_user_fault) auto
    moreover have "n div 256 = 0" using inside by (simp add: write_chunk_nat)
    ultimately show ?thesis
      using True by (simp add: syscall_write_loop.simps [of tmp tot buffer len s] Let_def sent_def)
  next
    case outside: False
    then have c: "unat ?c = 256" "256 \<le> n" using less.prems(2) by (auto simp: write_chunk_nat min_def split: if_splits)
    obtain tmp' where t: "length tmp' = 256" "syscall_write_loop tmp tot buffer len s =
      syscall_write_loop tmp' (tot + ?c) (buffer + ?c) (len - ?c)
        (sends (filter (\<lambda>c. c \<noteq> 0) (map g [0..<unat ?c])) s)"
      using write_loop_step [OF True less.prems(1) buf, of s g tot] less.prems(5) c by auto
    have shift: "buffer + ?c + of_nat k = buffer + of_nat (256 + k)" for k
      using c(1) by (metis add.assoc of_nat_add of_nat_unat_id)
    have "\<exists>s'. syscall_write_loop tmp' (tot + ?c) (buffer + ?c) (len - ?c)
          (sends (filter (\<lambda>c. c \<noteq> 0) (map g [0..<unat ?c])) s) = Fault (buffer + ?c + of_nat (n - 256)) s' \<and>
        sent s' = sent (sends (filter (\<lambda>c. c \<noteq> 0) (map g [0..<unat ?c])) s) @
          filter (\<lambda>c. c \<noteq> 0) (map (\<lambda>k. g (256 + k)) [0..<256 * ((n - 256) div 256)])"
      using less.prems write_chunk_decreases [OF True] t(1) c
      by (intro less.hyps) (simp_all only: shift chunk_diff sends_simps, auto)
    moreover have "256 * (n div 256) = 256 + 256 * ((n - 256) div 256)"
      using c(2) by (simp add: le_div_geq)
    moreover have "map g [0..<256 + q] = map g [0..<256] @ map (\<lambda>k. g (256 + k)) [0..<q]" for q
      by (intro nth_equalityI) (auto simp: nth_append)
    ultimately show ?thesis
      using c shift [of "n - 256"] by (auto simp: t(2))
  qed
qed

section \<open>read\<close>

text \<open>
  The line editor on lists: \<open>acc\<close> is the line so far and at most \<open>n\<close> bytes are kept. The result is
  the line, what was echoed and the input that is left; \<open>None\<close> is waiting for more input.
\<close>

fun edit_line :: "nat \<Rightarrow> u8 list \<Rightarrow> u8 list \<Rightarrow> (u8 list \<times> u8 list \<times> u8 list) option" where
  "edit_line n acc input =
     (if n \<le> length acc then Some (acc, [], input)
      else (case input of
              [] \<Rightarrow> None
            | c # rest \<Rightarrow>
                let c = normalize c
                in if c = 0x08 \<or> c = 0x7F then
                     (if acc = [] then edit_line n [] rest
                      else map_option (\<lambda>(l, e, r). (l, [0x08, 0x20, 0x08] @ e, r))
                             (edit_line n (butlast acc) rest))
                   else if c = 0x0A then Some (acc @ [c], [c], rest)
                   else map_option (\<lambda>(l, e, r). (l, c # e, r)) (edit_line n (acc @ [c]) rest)))"

declare edit_line.simps [simp del]

lemma edit_line_full: "n \<le> length acc \<Longrightarrow> edit_line n acc input = Some (acc, [], input)"
  by (subst edit_line.simps) simp

lemma edit_line_waits: "length acc < n \<Longrightarrow> edit_line n acc [] = None"
  by (subst edit_line.simps) simp

lemma edit_line_byte:
  "length acc < n \<Longrightarrow> edit_line n acc (c # rest) =
     (if normalize c = 0x08 \<or> normalize c = 0x7F then
        (if acc = [] then edit_line n [] rest
         else map_option (\<lambda>(l, e, r). (l, [0x08, 0x20, 0x08] @ e, r)) (edit_line n (butlast acc) rest))
      else if normalize c = 0x0A then Some (acc @ [normalize c], [normalize c], rest)
      else map_option (\<lambda>(l, e, r). (l, normalize c # e, r)) (edit_line n (acc @ [normalize c]) rest))"
  by (subst edit_line.simps) (simp add: Let_def)

text \<open>The bytes the polls of the UART deliver.\<close>

definition received :: "(u8 \<times> u8) list \<Rightarrow> u8 list" where
  "received rx = map snd (filter (\<lambda>(lsr, rhr). lsr AND UART_LSR_RX_READY \<noteq> 0) rx)"

lemma uart_poll_received:
  "uart_poll rx = None \<longleftrightarrow> received rx = []"
  "uart_poll rx = Some (c, rest) \<Longrightarrow> received rx = c # received rest"
  by (induction rx rule: uart_poll.induct) (auto simp: received_def split: if_splits)

lemma erase_sends: "erase s = sends [0x08, 0x20, 0x08] s"
  by (simp add: erase_def uart_putc_def uart_reg_def sends_def)

lemma putc_sends: "uart_putc c s = sends [c] s"
  by (simp add: uart_putc_def uart_reg_def sends_def)

lemma sends_rx [simp]: "sends e (s\<lparr>uart_rx := r\<rparr>) = (sends e s)\<lparr>uart_rx := r\<rparr>"
  by (simp add: sends_def)

lemma read_line_edits:
  assumes "length tmp = 256" and "n \<le> len" and "unat len \<le> 256"
  shows "case read_line tmp n len s of
      Done (tmp', n') s' \<Rightarrow> length tmp' = 256 \<and> n' \<le> len \<and> (\<exists>echo rx.
        edit_line (unat len) (take (unat n) tmp) (received (uart_rx s)) =
          Some (take (unat n') tmp', echo, received rx) \<and> s' = (sends echo s)\<lparr>uart_rx := rx\<rparr>)
    | Waiting s' \<Rightarrow> edit_line (unat len) (take (unat n) tmp) (received (uart_rx s)) = None
    | Halted s' \<Rightarrow> False | Fault a s' \<Rightarrow> False"
  using assms
proof (induction tmp n len s rule: read_line.induct)
  case (1 tmp n len s)
  let ?acc = "take (unat n) tmp"
  have acc: "length ?acc = unat n" "unat n \<le> unat len"
    using 1 by (simp_all add: word_le_nat_alt)
  note read = read_line.simps [of tmp n len s]
  show ?case
  proof (cases "n < len")
    case False
    then have "unat len \<le> unat n" by (simp add: word_less_nat_alt)
    then have ed: "edit_line (unat len) ?acc (received (uart_rx s)) = Some (?acc, [], received (uart_rx s))"
      using acc by (intro edit_line_full) simp
    have run: "read_line tmp n len s = Done (tmp, n) s"
      unfolding read using False by simp
    show ?thesis
      unfolding run ed using 1(4,5) by (auto intro!: exI [of _ "uart_rx s"])
  next
    case lt: True
    then have room: "unat n < unat len" by (simp add: word_less_nat_alt)
    show ?thesis
    proof (cases "uart_poll (uart_rx s)")
      case None
      then have run: "read_line tmp n len s = Waiting (s\<lparr>uart_rx := []\<rparr>)"
        unfolding read using lt by (simp add: uart_getc_def)
      have "edit_line (unat len) ?acc (received (uart_rx s)) = None"
        using room acc None uart_poll_received(1) [of "uart_rx s"] edit_line_waits [of ?acc "unat len"]
        by simp
      then show ?thesis
        unfolding run by simp
    next
      case (Some q)
      obtain b rx where q: "q = (b, rx)" by (cases q)
      let ?s = "s\<lparr>uart_rx := rx\<rparr>" and ?c = "normalize b"
      have getc: "uart_getc s = Done b ?s" and rec: "received (uart_rx s) = b # received rx"
        using Some q uart_poll_received(2) [of "uart_rx s" b rx] by (simp_all add: uart_getc_def)
      note byte = edit_line_byte [of ?acc "unat len" b "received rx", unfolded acc(1), OF room]
      note IH = 1(1-3) [OF lt getc refl]
      consider (erase) "?c = 0x08 \<or> ?c = 0x7F" "0 < n" | (ignore) "?c = 0x08 \<or> ?c = 0x7F" "n = 0"
        | (newline) "?c = 0x0A" | (store) "\<not> (?c = 0x08 \<or> ?c = 0x7F)" "?c \<noteq> 0x0A"
        by (cases "n = 0") (auto simp: word_neq_0_conv)
      then show ?thesis
      proof cases
        case erase
        have n1: "unat (n - 1) = unat n - 1"
          using erase(2) by (simp add: unat_minus_one word_neq_0_conv)
        have run: "read_line tmp n len s = read_line tmp (n - 1) len (erase ?s)"
          unfolding read using lt getc erase by simp
        have "butlast ?acc = take (unat (n - 1)) tmp"
          using acc(1) n1 by (simp add: butlast_take)
        moreover have "?acc \<noteq> []" using erase(2) acc(1) by (auto simp: word_less_nat_alt)
        ultimately have ed: "edit_line (unat len) ?acc (received (uart_rx s)) =
            map_option (\<lambda>(l, e, r). (l, [0x08, 0x20, 0x08] @ e, r))
              (edit_line (unat len) (take (unat (n - 1)) tmp) (received rx))"
          using rec byte erase(1) by simp
        have "n - 1 \<le> len" using n1 acc by (simp add: word_le_nat_alt)
        from IH(1) [OF erase 1(4) this 1(6)] show ?thesis
          unfolding run ed by (fastforce simp: erase_sends split: outcome.splits)
      next
        case ignore
        then have run: "read_line tmp n len s = read_line tmp n len ?s" and nil: "?acc = []"
          unfolding read using lt getc by simp_all
        have ed: "edit_line (unat len) ?acc (received (uart_rx s)) = edit_line (unat len) ?acc (received rx)"
          using rec byte ignore(1) unfolding nil by simp
        have "\<not> 0 < n" using ignore(2) by simp
        from IH(2) [OF ignore(1) this 1(4-6)] show ?thesis
          unfolding run ed by (fastforce split: outcome.splits)
      next
        case newline
        then have run: "read_line tmp n len s = Done (tmp[unat n := 0x0A], n + 1) (uart_putc 0x0A ?s)"
          unfolding read using lt getc by (simp add: Let_def)
        have "edit_line (unat len) ?acc (received (uart_rx s)) = Some (?acc @ [0x0A], [0x0A], received rx)"
          using rec byte newline by simp
        moreover have "take (unat (n + 1)) (tmp[unat n := 0x0A]) = ?acc @ [0x0A]"
          using unat_Suc_64 [OF lt] acc 1(4,6) room by (simp add: take_Suc_conv_app_nth)
        moreover have "n + 1 \<le> len"
          using unat_Suc_64 [OF lt] room by (simp add: word_le_nat_alt)
        ultimately show ?thesis
          unfolding run using 1(4) by (auto simp: putc_sends)
      next
        case store
        have run: "read_line tmp n len s = read_line (tmp[unat n := ?c]) (n + 1) len (uart_putc ?c ?s)"
          unfolding read using lt getc store by (simp add: Let_def)
        have t: "take (unat (n + 1)) (tmp[unat n := ?c]) = ?acc @ [?c]"
          using unat_Suc_64 [OF lt] acc 1(4,6) room by (simp add: take_Suc_conv_app_nth)
        have ed: "edit_line (unat len) ?acc (received (uart_rx s)) =
            map_option (\<lambda>(l, e, r). (l, ?c # e, r))
              (edit_line (unat len) (take (unat (n + 1)) (tmp[unat n := ?c])) (received rx))"
          unfolding t using rec byte store by simp
        have "n + 1 \<le> len"
          using unat_Suc_64 [OF lt] room by (simp add: word_le_nat_alt)
        from IH(3) [OF store(1) refl refl refl store(2) _ this 1(6)] 1(4) show ?thesis
          unfolding run ed by (fastforce simp: putc_sends split: outcome.splits)
      qed
    qed
  qed
qed

section \<open>Writing the user's memory\<close>

text \<open>A state with a process in it: intact tables in \<open>satp\<close> and separate user frames.\<close>

definition user_space ::
  "nat \<Rightarrow> (u64 \<rightharpoonup> u64 list) \<Rightarrow> nat \<Rightarrow> physical_page_allocator \<Rightarrow> u64 \<Rightarrow> machine \<Rightarrow> bool" where
  "user_space base lab lo al r s \<longleftrightarrow>
     pt_inv lab lo al (pmem s) r \<and> user_ok base lab al (pmem s) r \<and> csr_satp s = make_satp_sv39 r"

definition user_can :: "machine \<Rightarrow> access \<Rightarrow> u64 \<Rightarrow> u64 \<Rightarrow> bool" where
  "user_can s acc va n \<longleftrightarrow> (\<forall>k < unat n. mmu_translate s UserMode acc (va + of_nat k) \<noteq> None)"

text \<open>With \<open>SUM\<close> set the kernel reaches every byte user mode reaches, at the same place.\<close>

lemma kernel_reaches_user:
  assumes us: "user_space base lab lo al r s" and tr: "mmu_translate s UserMode acc va \<noteq> None"
    and acc: "acc \<noteq> FetchAccess" and sum: "bit v 18"
  shows "mmu_translate (s\<lparr>csr_sstatus := v\<rparr>) SupervisorMode acc va = Some (phys_of (pmem s) r va)"
    and "mmu_translate s UserMode acc va = Some (phys_of (pmem s) r va)"
    and "\<exists>e. user_entry (pmem s) r va e"
proof -
  have inv: "pt_inv lab lo al (pmem s) r" "csr_satp s = make_satp_sv39 r"
    using us by (simp_all add: user_space_def)
  have inv': "pt_inv lab lo al (pmem (s\<lparr>csr_sstatus := v\<rparr>)) r"
    "csr_satp (s\<lparr>csr_sstatus := v\<rparr>) = make_satp_sv39 r"
    using inv by simp_all
  from tr obtain e where e: "sv39_canonical va" "pt_lookup (pmem s) r va = Some e" "leaf_well_formed e"
    "access_allowed (csr_sstatus s) UserMode acc e"
    by (auto simp: mmu_translate_lookup [OF inv] split: if_splits option.splits)
  moreover from e(4) acc sum have "access_allowed v SupervisorMode acc e" "bit e 4"
    by (auto simp: access_allowed_def split: access.splits)
  ultimately show "mmu_translate (s\<lparr>csr_sstatus := v\<rparr>) SupervisorMode acc va = Some (phys_of (pmem s) r va)"
    "mmu_translate s UserMode acc va = Some (phys_of (pmem s) r va)"
    "\<exists>e. user_entry (pmem s) r va e"
    by (simp_all add: mmu_translate_lookup [OF inv] mmu_translate_lookup [OF inv'] user_entry_def)
qed

lemma user_space_store:
  assumes us: "user_space base lab lo al r s" and e: "user_entry (pmem s) r va e"
  defines "p \<equiv> phys_of (pmem s) r va"
  shows "user_space base lab lo al r (s\<lparr>pmem := (pmem s)(p := b)\<rparr>)"
    and "pt_lookup ((pmem s)(p := b)) r = pt_lookup (pmem s) r"
proof -
  have inv: "pt_inv lab lo al (pmem s) r" and user: "user_ok base lab al (pmem s) r"
    using us by (simp_all add: user_space_def)
  have same: "((pmem s)(p := b)) a = pmem s a" if "table_byte lab a" for a
    using user_phys_range(3) [OF user e inv] that by (auto simp: p_def)
  have f: "pt_inv lab lo al ((pmem s)(p := b)) r" "pt_lookup ((pmem s)(p := b)) r = pt_lookup (pmem s) r"
    by (rule pt_inv_frame [OF inv], rule same, assumption)+
  have "user_ok base lab al ((pmem s)(p := b)) r"
    by (rule user_ok_same_lookup [OF user f(2)]) auto
  with f us show "user_space base lab lo al r (s\<lparr>pmem := (pmem s)(p := b)\<rparr>)"
    "pt_lookup ((pmem s)(p := b)) r = pt_lookup (pmem s) r"
    by (simp_all add: user_space_def)
qed

lemma user_space_same_lookup:
  assumes "user_space base lab lo al r s" "user_space base lab lo al r (s\<lparr>pmem := m\<rparr>)"
    and "pt_lookup m r = pt_lookup (pmem s) r"
  shows "mmu_translate (s\<lparr>pmem := m\<rparr>) = mmu_translate s" and "phys_of m r = phys_of (pmem s) r"
proof -
  show ph: "phys_of m r = phys_of (pmem s) r"
    by (simp only: fun_eq_iff phys_of_def [of m] phys_of_def [of "pmem s"] assms(3) simp_thms)
  have inv: "pt_inv lab lo al (pmem s) r" "csr_satp s = make_satp_sv39 r"
    "pt_inv lab lo al (pmem (s\<lparr>pmem := m\<rparr>)) r" "csr_satp (s\<lparr>pmem := m\<rparr>) = make_satp_sv39 r"
    using assms(1,2) by (simp_all add: user_space_def)
  show "mmu_translate (s\<lparr>pmem := m\<rparr>) = mmu_translate s"
    by (intro ext) (simp add: mmu_translate_lookup [OF inv(1,2)] mmu_translate_lookup [OF inv(3,4)] assms(3) ph
        split: option.split)
qed

lemma copy_out_loop_done:
  assumes "user_space base lab lo al r s" and "bit (csr_sstatus s) 18"
    and "user_can s StoreAccess dst sz" and "unat sz \<le> 2 ^ 39"
  shows "\<exists>m. copy_out_loop dst buf sz i s = Done () (s\<lparr>pmem := m\<rparr>) \<and>
    user_space base lab lo al r (s\<lparr>pmem := m\<rparr>) \<and> pt_lookup m r = pt_lookup (pmem s) r \<and>
    (\<forall>a. (\<forall>j. i \<le> j \<longrightarrow> j < sz \<longrightarrow> a \<noteq> phys_of (pmem s) r (dst + j)) \<longrightarrow> m a = pmem s a) \<and>
    (\<forall>j. i \<le> j \<longrightarrow> j < sz \<longrightarrow> m (phys_of (pmem s) r (dst + j)) = buf ! unat j)"
  using assms
proof (induction i arbitrary: s rule: up_loop_induct [where n = sz])
  case (step i)
  note us = step.prems(1) and sum = step.prems(2) and can = step.prems(3)
  show ?case
  proof (cases "i < sz")
    case False
    then have "copy_out_loop dst buf sz i s = Done () (s\<lparr>pmem := pmem s\<rparr>)"
      by (simp add: copy_out_loop.simps [of dst buf sz i s])
    with us False show ?thesis by (intro exI [of _ "pmem s"]) auto
  next
    case True
    have at: "mmu_translate s UserMode StoreAccess (dst + j) \<noteq> None" if "j < sz" for j
      using can that unfolding user_can_def by (metis of_nat_unat_id word_less_nat_alt)
    have entry: "\<exists>e. user_entry (pmem s) r (dst + j) e" if "j < sz" for j
      by (rule kernel_reaches_user(3) [OF us at [OF that] _ sum]) simp
    let ?p = "phys_of (pmem s) r (dst + i)"
    let ?m = "(pmem s)(?p := buf ! unat i)"
    have "mmu_translate s SupervisorMode StoreAccess (dst + i) = Some ?p"
      using kernel_reaches_user(1) [OF us at [OF True] _ sum] by simp
    then have run: "copy_out_loop dst buf sz i s = copy_out_loop dst buf sz (i + 1) (s\<lparr>pmem := ?m\<rparr>)"
      using True by (simp add: copy_out_loop.simps [of dst buf sz i s] store_byte_def)
    from entry [OF True] obtain e where e: "user_entry (pmem s) r (dst + i) e" by blast
    note st = user_space_store [OF us e, of "buf ! unat i"]
    note same = user_space_same_lookup [OF us st]
    have can': "user_can (s\<lparr>pmem := ?m\<rparr>) StoreAccess dst sz"
      using can by (simp add: user_can_def same(1))
    have sum': "bit (csr_sstatus (s\<lparr>pmem := ?m\<rparr>)) 18" using sum by simp
    have "\<exists>m. copy_out_loop dst buf sz (i + 1) (s\<lparr>pmem := ?m\<rparr>) = Done () (s\<lparr>pmem := m\<rparr>) \<and>
        user_space base lab lo al r (s\<lparr>pmem := m\<rparr>) \<and> pt_lookup m r = pt_lookup (pmem s) r \<and>
        (\<forall>a. (\<forall>j. i + 1 \<le> j \<longrightarrow> j < sz \<longrightarrow> a \<noteq> phys_of (pmem s) r (dst + j)) \<longrightarrow> m a = ?m a) \<and>
        (\<forall>j. i + 1 \<le> j \<longrightarrow> j < sz \<longrightarrow> m (phys_of (pmem s) r (dst + j)) = buf ! unat j)"
      using step.IH [OF True st(1) sum' can' step.prems(4)]
      by (simp add: same(2) st(2) del: fun_upd_apply)
    then obtain m where
      m: "copy_out_loop dst buf sz (i + 1) (s\<lparr>pmem := ?m\<rparr>) = Done () (s\<lparr>pmem := m\<rparr>)"
        "user_space base lab lo al r (s\<lparr>pmem := m\<rparr>)" "pt_lookup m r = pt_lookup (pmem s) r"
        "\<And>a. (\<And>j. i + 1 \<le> j \<Longrightarrow> j < sz \<Longrightarrow> a \<noteq> phys_of (pmem s) r (dst + j)) \<Longrightarrow> m a = ?m a"
        "\<And>j. i + 1 \<le> j \<Longrightarrow> j < sz \<Longrightarrow> m (phys_of (pmem s) r (dst + j)) = buf ! unat j"
      by blast
    have split: "j = i \<or> i + 1 \<le> j" if "i \<le> j" for j
      using that unat_Suc_64 [OF True] by (auto simp: word_le_nat_alt u64_eq_iff)
    have next_le: "i \<le> j \<and> i \<noteq> j" if "i + 1 \<le> j" for j
      using that unat_Suc_64 [OF True] by (auto simp: word_le_nat_alt)
    have here: "m ?p = buf ! unat i"
    proof -
      have "?p \<noteq> phys_of (pmem s) r (dst + j)" if "i + 1 \<le> j" "j < sz" for j
        using entry [OF that(2)] user_phys_distinct [OF _ e _ _ True that(2) step.prems(4)] us
          next_le [OF that(1)] by (auto simp: user_space_def)
      then show ?thesis using m(4) [of ?p] by simp
    qed
    have "m a = pmem s a" if "\<forall>j. i \<le> j \<longrightarrow> j < sz \<longrightarrow> a \<noteq> phys_of (pmem s) r (dst + j)" for a
      using that m(4) [of a] next_le True by simp
    moreover have "m (phys_of (pmem s) r (dst + j)) = buf ! unat j" if "i \<le> j" "j < sz" for j
      using split [OF that(1)] here m(5) that(2) by auto
    ultimately show ?thesis
      using m(1-3) by (auto simp: run)
  qed
qed

lemma copy_to_user_done:
  assumes us: "user_space base lab lo al r s" and can: "user_can s StoreAccess dst sz"
    and sz: "unat sz \<le> 2 ^ 39" and dst: "dst \<noteq> 0 \<or> sz = 0"
  obtains m where "copy_to_user dst (Some buf) sz s = Done True (s\<lparr>pmem := m\<rparr>)"
    and "user_space base lab lo al r (s\<lparr>pmem := m\<rparr>)"
    and "mmu_translate (s\<lparr>pmem := m\<rparr>) = mmu_translate s"
    and "\<forall>a. (\<forall>j < sz. mmu_translate s UserMode StoreAccess (dst + j) \<noteq> Some a) \<longrightarrow> m a = pmem s a"
    and "\<And>j pa. j < sz \<Longrightarrow> mmu_translate s UserMode StoreAccess (dst + j) = Some pa \<Longrightarrow>
           m pa = buf ! unat j"
proof -
  let ?v = "csr_sstatus s OR SSTATUS_SUM"
  let ?s = "s\<lparr>csr_sstatus := ?v\<rparr>"
  have sum: "bit ?v 18" by (simp add: SSTATUS_SUM_def bit_or_iff bit_push_bit_iff)
  have us': "user_space base lab lo al r ?s"
    using us by (simp add: user_space_def)
  have priv: "mmu_translate ?s UserMode = mmu_translate s UserMode"
    unfolding fun_eq_iff by (intro allI) (simp add: mmu_translate_def access_allowed_def Let_def split: option.split)
  have can': "user_can ?s StoreAccess dst sz"
    using can by (simp add: user_can_def priv)
  have at: "mmu_translate s UserMode StoreAccess (dst + j) = Some (phys_of (pmem s) r (dst + j))" if "j < sz" for j
    using can that kernel_reaches_user(2) [OF us, of StoreAccess "dst + j" ?v] sum
    unfolding user_can_def by (metis access.distinct(5) of_nat_unat_id word_less_nat_alt)
  obtain m where m: "copy_out_loop dst buf sz 0 ?s = Done () (?s\<lparr>pmem := m\<rparr>)"
    "user_space base lab lo al r (?s\<lparr>pmem := m\<rparr>)" "pt_lookup m r = pt_lookup (pmem s) r"
    "\<And>a. (\<And>j. j < sz \<Longrightarrow> a \<noteq> phys_of (pmem s) r (dst + j)) \<Longrightarrow> m a = pmem s a"
    "\<And>j. j < sz \<Longrightarrow> m (phys_of (pmem s) r (dst + j)) = buf ! unat j"
    using copy_out_loop_done [OF us' _ can' sz, of buf 0] sum by auto
  have "copy_to_user dst (Some buf) sz s = Done True (s\<lparr>pmem := m\<rparr>)"
    using dst m(1) by (auto simp: copy_to_user_def csr_access_defs)
  moreover have us2: "user_space base lab lo al r (s\<lparr>pmem := m\<rparr>)"
    using m(2) by (simp add: user_space_def)
  ultimately show ?thesis
    using user_space_same_lookup(1) [OF us us2 m(3)] m(4,5) at by (intro that [of m]) (auto intro!: m(4))
qed

end
