(* ===== verification/Trap_Correct.thy ===== *)
theory Trap_Correct
  imports Syscall_Correct
begin

text \<open>
  The properties of the trap path: which traps return, what a system call may change, its results
  and errors, and the bytes it moves.
\<close>

section \<open>Which traps return\<close>


fun halts :: "'a outcome \<Rightarrow> bool" where
  "halts (Halted s) = True" | "halts (Done a s) = False" | "halts (Waiting s) = False"
| "halts (Fault a s) = False"

fun waits :: "'a outcome \<Rightarrow> bool" where
  "waits (Waiting s) = True" | "waits (Done a s) = False" | "waits (Halted s) = False"
| "waits (Fault a s) = False"

lemma bind_outcome_stops:
  "halts (bind_outcome x f) \<longleftrightarrow> halts x \<or> (\<exists>a s. x = Done a s \<and> halts (f a s))"
  "waits (bind_outcome x f) \<longleftrightarrow> waits x \<or> (\<exists>a s. x = Done a s \<and> waits (f a s))"
  by (cases x; simp)+

lemma copy_from_user_stops [simp]:
  "\<not> halts (copy_from_user out src sz s)" "\<not> waits (copy_from_user out src sz s)"
proof -
  have "\<not> halts (copy_in_loop out src sz i s) \<and> \<not> waits (copy_in_loop out src sz i s)"
    for out src sz i s
    by (induction out src sz i s rule: copy_in_loop.induct)
      (simp add: copy_in_loop.simps split: option.splits)
  then show "\<not> halts (copy_from_user out src sz s)" "\<not> waits (copy_from_user out src sz s)"
    by (simp_all add: copy_from_user_def Let_def bind_outcome_stops split: option.split)
qed

lemma copy_to_user_stops [simp]:
  "\<not> halts (copy_to_user dst b sz s)" "\<not> waits (copy_to_user dst b sz s)"
proof -
  have "\<not> halts (copy_out_loop dst b sz i s) \<and> \<not> waits (copy_out_loop dst b sz i s)"
    for dst b sz i s
    by (induction dst b sz i s rule: copy_out_loop.induct)
      (simp add: copy_out_loop.simps split: option.splits)
  then show "\<not> halts (copy_to_user dst b sz s)" "\<not> waits (copy_to_user dst b sz s)"
    by (simp_all add: copy_to_user_def Let_def bind_outcome_stops split: option.split)
qed

lemma syscall_write_stops:
  "\<not> halts (syscall_write fd buf len s)" "\<not> waits (syscall_write fd buf len s)"
proof -
  have "\<not> halts (syscall_write_loop tmp tot buffer len s) \<and>
      \<not> waits (syscall_write_loop tmp tot buffer len s)" for tmp tot buffer len s
  proof (induction tmp tot buffer len s rule: syscall_write_loop.induct)
    case (1 tmp tot buffer len s)
    then show ?case
      by (auto simp: syscall_write_loop.simps [of tmp tot buffer len s] Let_def bind_outcome_stops)
  qed
  then show "\<not> halts (syscall_write fd buf len s)" "\<not> waits (syscall_write fd buf len s)"
    by (simp_all add: syscall_write_def)
qed

lemma syscall_read_stops: "\<not> halts (syscall_read fd buf len s)"
proof -
  have line: "\<not> halts (read_line (replicate 256 0) 0 len s)" if "unat len \<le> 256" for len
    using read_line_edits [of "replicate 256 0" 0 len s] that by (auto split: outcome.splits)
  then have "\<not> halts (read_line (replicate 256 0) 0 (if len > 256 then 256 else len) s)"
    by (simp add: word_less_nat_alt)
  then show ?thesis
    by (auto simp: syscall_read_def Let_def bind_outcome_stops)
qed

text \<open>
  C16. A system call leaves the interrupted program's registers alone except for its result in
  \<open>a0\<close>, and resumes it after the four bytes of the \<^verbatim>\<open>ecall\<close>; only \<^verbatim>\<open>exit\<close> and
  \<^verbatim>\<open>exit_group\<close> stop the machine, with their message on the console, only \<^verbatim>\<open>read\<close> waits for
  input, and only the calls that take a buffer can fault.
\<close>

theorem syscall_changes_only_a0:
  "case syscall_handle frame s of
     Done frame' s' \<Rightarrow> tf_a7 frame \<notin> {SYSCALL_EXIT, SYSCALL_EXIT_GROUP} \<and>
       frame' = frame\<lparr>tf_a0 := tf_a0 frame', tf_epc := tf_epc frame + 4\<rparr>
   | Halted s' \<Rightarrow> tf_a7 frame \<in> {SYSCALL_EXIT, SYSCALL_EXIT_GROUP} \<and>
       sent s' = sent s @ chars ''User task exited with status 0x'' @ hex_string 16 (tf_a0 frame) @
         chars ''.'' @ [10]
   | Waiting s' \<Rightarrow> tf_a7 frame = SYSCALL_READ
   | Fault a s' \<Rightarrow> tf_a7 frame \<in> {SYSCALL_READ, SYSCALL_WRITE}"
proof -
  have exit: "syscall_exit st s = Halted (sends (chars ''User task exited with status 0x'' @
      hex_string 16 st @ chars ''.'' @ [10]) s)" for st
  proof -
    have "c_string (chars ''User task exited with status '') = chars ''User task exited with status ''"
      "c_string (chars ''0x'') = chars ''0x''" "c_string (chars ''.'' @ [10]) = chars ''.'' @ [10]"
      "chars ''User task exited with status 0x'' = chars ''User task exited with status '' @ chars ''0x''"
      by (simp_all add: c_string_def chars_def)
    then show ?thesis
      by (simp add: syscall_exit_def Let_def print_hex_def uart_puts_tx print_hex_from_tx sends_def)
  qed
  show ?thesis
    using syscall_write_stops [of "tf_a0 frame" "tf_a1 frame" "tf_a2 frame" s]
      syscall_read_stops [of "tf_a0 frame" "tf_a1 frame" "tf_a2 frame" s]
    by (cases "syscall_read (tf_a0 frame) (tf_a1 frame) (tf_a2 frame) s";
        cases "syscall_write (tf_a0 frame) (tf_a1 frame) (tf_a2 frame) s")
      (simp_all add: syscall_handle_def Let_def exit SYSCALL_READ_def SYSCALL_WRITE_def SYSCALL_EXIT_def
        SYSCALL_EXIT_GROUP_def)
qed

definition immediate_result :: "trap_frame \<Rightarrow> u64 option" where
  "immediate_result frame =
     (if tf_a7 frame = SYSCALL_READ then
        (if tf_a0 frame \<noteq> 0 then Some ERR_BADF else if tf_a2 frame = 0 then Some 0 else None)
      else if tf_a7 frame = SYSCALL_WRITE then
        (if tf_a0 frame \<noteq> 1 \<and> tf_a0 frame \<noteq> 2 then Some ERR_BADF
         else if tf_a2 frame = 0 then Some 0
         else if tf_a1 frame = 0 then Some ERR_FAULT else None)
      else if tf_a7 frame = SYSCALL_EXIT \<or> tf_a7 frame = SYSCALL_EXIT_GROUP then None
      else Some ERR_NOSYS)"

text \<open>
  C17. The errors of a system call: an unknown number gives \<open>-38\<close>, a file descriptor that is not
  open for the call \<open>-9\<close>, a null buffer of a non-empty \<^verbatim>\<open>write\<close> \<open>-14\<close>, and a length of zero is
  a success; in each case only the frame changes.
\<close>

theorem syscall_errors:
  assumes "immediate_result frame = Some e"
  shows "syscall_handle frame s = Done (frame\<lparr>tf_a0 := e, tf_epc := tf_epc frame + 4\<rparr>) s"
proof -
  have null: "syscall_write_loop tmp tot 0 n s = Done ERR_FAULT s" if "n \<noteq> 0" for tmp tot n
  proof -
    have "write_chunk n \<noteq> 0" "0 < n"
      using that by (simp_all add: write_chunk_def word_neq_0_conv)
    then show ?thesis
      by (subst syscall_write_loop.simps) (simp add: copy_from_user_def Let_def)
  qed
  show ?thesis
  proof (cases "tf_a7 frame = SYSCALL_READ")
    case True
    with assms have "syscall_read (tf_a0 frame) (tf_a1 frame) (tf_a2 frame) s = Done e s"
      by (simp add: immediate_result_def syscall_read_def split: if_splits)
    with True show ?thesis by (simp add: syscall_handle_def)
  next
    case read: False
    show ?thesis
    proof (cases "tf_a7 frame = SYSCALL_WRITE")
      case True
      with assms read have "syscall_write (tf_a0 frame) (tf_a1 frame) (tf_a2 frame) s = Done e s"
        by (auto simp: immediate_result_def syscall_write_def null split: if_splits)
      with True read show ?thesis by (simp add: syscall_handle_def)
    next
      case False
      with assms read show ?thesis
        by (simp add: immediate_result_def syscall_handle_def split: if_splits)
    qed
  qed
qed

theorem syscall_errors_witness:
  "\<forall>frame s. syscall_handle (frame\<lparr>tf_a7 := 64, tf_a0 := 7\<rparr>) s =
     Done (frame\<lparr>tf_a7 := 64, tf_a0 := -9, tf_epc := tf_epc frame + 4\<rparr>) s"
proof (intro allI)
  fix frame s
  show "syscall_handle (frame\<lparr>tf_a7 := 64, tf_a0 := 7\<rparr>) s =
     Done (frame\<lparr>tf_a7 := 64, tf_a0 := -9, tf_epc := tf_epc frame + 4\<rparr>) s"
    using syscall_errors [of "frame\<lparr>tf_a7 := 64, tf_a0 := 7\<rparr>" ERR_BADF s]
    by (simp add: immediate_result_def SYSCALL_READ_def SYSCALL_WRITE_def ERR_BADF_def)
qed

section \<open>The bytes they move\<close>

text \<open>
  C18. \<^verbatim>\<open>write\<close> to the console sends the bytes of the user's buffer in order, whatever the length
  and however it is cut into chunks of 256, and returns the length; bytes that are zero are counted
  but not sent. Nothing else of the machine changes, \<open>sstatus\<close> is restored.
\<close>

theorem syscall_write_sends:
  assumes "fd = 1 \<or> fd = 2" and "\<forall>k < unat len. buf + of_nat k \<noteq> 0"
    and "\<forall>k < unat len. user_load s (buf + of_nat k) = Some (bytes k)"
  shows "syscall_write fd buf len s =
    Done len (sends (filter (\<lambda>c. c \<noteq> 0) (map bytes [0..<unat len])) s)"
proof -
  have "syscall_write_loop (replicate 256 0) 0 buf len s =
      Done (0 + len) (sends (filter (\<lambda>c. c \<noteq> 0) (map bytes [0..<unat len])) s)"
    using assms(2,3) by (intro write_loop_done) auto
  with assms(1) show ?thesis
    by (auto simp: syscall_write_def)
qed

theorem syscall_write_sends_witness:
  "syscall_write 1 0x1000 3 (reset_machine\<lparr>pmem := (\<lambda>_. 67)(0x1000 := 65, 0x1001 := 0)\<rparr>) =
     Done 3 (sends [65, 67] (reset_machine\<lparr>pmem := (\<lambda>_. 67)(0x1000 := 65, 0x1001 := 0)\<rparr>))"
proof -
  let ?s = "reset_machine\<lparr>pmem := (\<lambda>_. 67)(0x1000 := 65, 0x1001 := 0)\<rparr>"
  have "user_load ?s va = Some (pmem ?s va)" for va
    by (simp add: user_load_def load_byte_def mmu_translate_def reset_machine_def)
  moreover have "[0..<3] = [0, 1, 2 :: nat]" by (simp add: upt_rec)
  moreover have "k < 3 \<longleftrightarrow> k = 0 \<or> k = 1 \<or> k = 2" for k :: nat by auto
  ultimately show ?thesis
    using syscall_write_sends [of 1 3 "0x1000" ?s "\<lambda>k. pmem ?s (0x1000 + of_nat k)"]
    by simp
qed

text \<open>
  C19. A \<^verbatim>\<open>write\<close> whose buffer has an address the kernel cannot read does not return an error: the
  kernel itself takes a fault at the first such address, after it has sent the full chunks of 256
  bytes before it.
\<close>

theorem syscall_write_faults:
  assumes "fd = 1 \<or> fd = 2" and "n < unat len" and "user_load s (buf + of_nat n) = None"
    and "\<forall>k \<le> n. buf + of_nat k \<noteq> 0"
    and "\<forall>k < n. user_load s (buf + of_nat k) = Some (bytes k)"
  shows "\<exists>s'. syscall_write fd buf len s = Fault (buf + of_nat n) s' \<and>
    sent s' = sent s @ filter (\<lambda>c. c \<noteq> 0) (map bytes [0..<256 * (n div 256)])"
proof -
  have "len \<noteq> 0" using assms(2) by auto
  with assms(1) have "syscall_write fd buf len s = syscall_write_loop (replicate 256 0) 0 buf len s"
    by (auto simp: syscall_write_def)
  with write_loop_fault [of "replicate 256 0" n len s buf bytes 0] assms(2-5) show ?thesis
    by simp
qed

theorem syscall_write_faults_witness:
  "\<exists>s'. syscall_write 2 0x1000 3 (reset_machine\<lparr>csr_satp := push_bit 60 8\<rparr>) = Fault 0x1000 s'"
proof -
  have "ld64 (\<lambda>_. 0) a = 0" for a by (rule ld64_zero) simp
  then have "user_load (reset_machine\<lparr>csr_satp := push_bit 60 8\<rparr>) 0x1000 = None"
    by (simp add: user_load_def load_byte_def mmu_translate_def reset_machine_def hw_walk.simps
        Let_def sv39_canonical_def)
  with syscall_write_faults [of 2 0 3 "reset_machine\<lparr>csr_satp := push_bit 60 8\<rparr>" "0x1000"] show ?thesis
    by auto
qed

text \<open>A process with one page of its own, on an otherwise empty table.\<close>

definition virt_user :: "mem \<Rightarrow> machine" where
  "virt_user m = reset_machine\<lparr>pmem := m, csr_satp := make_satp_sv39 virt_root, uart_rx := [(1, 72), (0, 0), (1, 13)]\<rparr>"

lemma virt_user_page:
  obtains lab al m where "user_space 0x80102000 lab 0x80000000 al virt_root (virt_user m)"
    and "\<And>acc i. acc \<noteq> FetchAccess \<Longrightarrow> unat i < 4096 \<Longrightarrow>
           mmu_translate (virt_user m) UserMode acc (0x400000 + i) \<noteq> None"
proof -
  let ?rg = "\<lparr>rg_start = 0x400000, rg_size = PAGE_SIZE, rg_flags = PTE_R OR PTE_W OR PTE_U\<rparr>"
  let ?lab = "[virt_root \<mapsto> []]" and ?m = "(\<lambda>_. 0) :: mem"
  have room: "region_room ?rg"
    by (simp add: region_room_def page_aligned_def pte_flag_values bit_numeral_rec)
  have user: "user_ok 0x80102000 ?lab virt_pages ?m virt_root"
    by (simp add: user_ok_def user_entry_def virt_pages_def)
  have hi: "unat (al_end virt_pages) \<le> 2 ^ 38" "unat (al_current virt_pages) \<le> 2 ^ 38"
    by (simp_all add: virt_pages_def)
  have fl: "unat (rg_flags ?rg) < 1024" "bit (rg_flags ?rg) 4"
    using room by (simp_all only: region_room_def simp_thms)
  obtain ok al m where run: "map_region virt_to_phys (phys_to_virt virt_root) ?rg virt_pages ?m = (ok, al, m)"
    by (cases "map_region virt_to_phys (phys_to_virt virt_root) ?rg virt_pages ?m")
  obtain lab where S: "pt_inv lab 0x80000000 al m virt_root" "user_ok 0x80102000 lab al m virt_root"
    "proc_ext ?lab virt_pages ?m lab al m" "pt_lookup ?m virt_root \<subseteq>\<^sub>m pt_lookup m virt_root"
    "ok \<Longrightarrow> region_zeroed ?m m virt_root (unat (al_current virt_pages)) ?rg 0"
    "\<And>va. (\<And>d. in_range 0 (rg_size ?rg) d \<Longrightarrow> vpage va \<noteq> vpage (rg_start ?rg + d)) \<Longrightarrow>
       pt_lookup m virt_root va = pt_lookup ?m virt_root va"
    by (rule map_region_correct [OF virt_to_phys_direct fl virt_root_inv user hi run]) (rule that, assumption+, simp)
  have "map_region_from virt_to_phys (phys_to_virt virt_root) ?rg 0 virt_pages ?m = (ok, al, m)"
    using run by (simp add: map_region_def virt_root_def phys_to_virt_def KERNEL_DIRECT_MAP_BASE_def)
  from map_region_from_total [OF virt_to_phys_direct room virt_root_inv user hi page_aligned_0 _ _ this]
  have ok by (simp add: virt_pages_def)
  let ?s = "virt_user m"
  have us: "user_space 0x80102000 lab 0x80000000 al virt_root ?s"
    using S(1,2) by (simp add: user_space_def virt_user_def)
  have "mmu_translate ?s UserMode acc (0x400000 + i) \<noteq> None" if "acc \<noteq> FetchAccess" "unat i < 4096" for acc i
  proof -
    have "zeroed_at m virt_root (unat (al_current virt_pages)) (0x400000 + 0) (rg_flags ?rg)"
      using S(5) [OF \<open>ok\<close>] by (auto simp: region_zeroed_def in_range_def page_aligned_def dest: spec [of _ 0])
    then obtain p where "pt_lookup m virt_root 0x400000 = Some (leaf_pte p (rg_flags ?rg))" "unat p < 2 ^ 56"
      by (auto simp: zeroed_at_def)
    moreover have u: "unat (0x400000 + i) = 0x400000 + unat i"
      using that(2) by (simp add: unat_add_64)
    then have "vpage (0x400000 + i) = vpage 0x400000"
      using that(2) by (simp add: vpage_def page_of_def)
    ultimately have look: "pt_lookup m virt_root (0x400000 + i) = Some (leaf_pte p (rg_flags ?rg))"
      using pt_lookup_vpage [of "0x400000 + i" "0x400000" m virt_root] by simp
    have "unat (drop_bit 38 (0x400000 + i)) = 0"
      using u that(2) by (simp add: unat_drop_bit_64)
    then have "sv39_canonical (0x400000 + i)"
      by (simp add: sv39_canonical_def unat_eq_zero)
    moreover have "leaf_well_formed (leaf_pte p (rg_flags ?rg))"
      using \<open>unat p < 2 ^ 56\<close> fl by (intro leaf_pte_well_formed) (simp_all add: bit_or_iff bit_pte_flags)
    moreover have "access_allowed (csr_sstatus ?s) UserMode acc (leaf_pte p (rg_flags ?rg))"
      using that(1) leaf_pte_low [OF fl(1)] by (cases acc) (simp_all add: access_allowed_def bit_or_iff bit_pte_flags)
    ultimately show ?thesis
      using us look mmu_translate_lookup [of lab "0x80000000" al ?s virt_root UserMode acc "0x400000 + i"]
      by (simp add: user_space_def virt_user_def)
  qed
  with us show ?thesis by (rule that)
qed

lemma virt_user_can:
  assumes "\<And>i. unat i < 4096 \<Longrightarrow> mmu_translate s UserMode acc (0x400000 + i) \<noteq> None" and "unat n \<le> 4096"
  shows "user_can s acc 0x400000 n"
  using assms by (simp add: user_can_def unat_of_nat_64)

text \<open>The line is copied to the user's buffer.\<close>

lemma copy_line_done:
  assumes "user_space base lab lo al r s" "user_can s StoreAccess buf n" "unat n \<le> 256" "buf \<noteq> 0"
    and "unat n \<le> length line"
  obtains m where "copy_to_user buf (Some line) n s = Done True (s\<lparr>pmem := m\<rparr>)"
    "\<And>k. k < unat n \<Longrightarrow> \<exists>pa. mmu_translate (s\<lparr>pmem := m\<rparr>) UserMode StoreAccess (buf + of_nat k) = Some pa \<and>
       m pa = take (unat n) line ! k"
proof -
  have bounds: "unat n \<le> 2 ^ 39" "buf \<noteq> 0 \<or> n = 0" using assms(3,4) by simp_all
  obtain m where M: "copy_to_user buf (Some line) n s = Done True (s\<lparr>pmem := m\<rparr>)"
    "mmu_translate (s\<lparr>pmem := m\<rparr>) = mmu_translate s"
    "\<And>j pa. j < n \<Longrightarrow> mmu_translate s UserMode StoreAccess (buf + j) = Some pa \<Longrightarrow> m pa = line ! unat j"
    by (rule copy_to_user_done [OF assms(1,2) bounds, where buf = line]) (rule that)
  have "\<exists>pa. mmu_translate (s\<lparr>pmem := m\<rparr>) UserMode StoreAccess (buf + of_nat k) = Some pa \<and>
      m pa = take (unat n) line ! k" if less: "k < unat n" for k
  proof -
    have k: "unat (of_nat k :: u64) = k" using less unat_lt_64 [of n] by (simp add: unat_of_nat_64)
    then have kn: "(of_nat k :: u64) < n" using less by (simp add: word_less_nat_alt)
    obtain pa where "mmu_translate s UserMode StoreAccess (buf + of_nat k) = Some pa"
      using assms(2) less by (auto simp: user_can_def)
    with M(2) M(3) [OF kn] k less show ?thesis by auto
  qed
  with M(1) show thesis by (rule that)
qed

text \<open>The line editor leaves the address space and the translation alone.\<close>

lemma user_space_edited:
  assumes "user_space base lab lo al r s"
  shows "user_space base lab lo al r ((sends echo s)\<lparr>uart_rx := rx\<rparr>)"
    and "mmu_translate ((sends echo s)\<lparr>uart_rx := rx\<rparr>) UserMode = mmu_translate s UserMode"
  using assms
  by (simp_all add: user_space_def sends_def fun_eq_iff mmu_translate_def Let_def split: option.split)

text \<open>
  C20. \<^verbatim>\<open>read\<close> is the line editor \<open>edit_line\<close> on the bytes the UART delivers: at most
  \<open>min len 256\<close> bytes, backspace takes the last one back, newline ends the line. The line is what
  user mode then finds in its buffer, its length is the result, the echo is what was sent, and the
  input behind the line is left for the next call. When the input ends first, \<^verbatim>\<open>read\<close> waits.
\<close>

theorem syscall_read_line:
  assumes "user_space base lab lo al r s" and "0 < len" "buf \<noteq> 0"
    and "user_can s StoreAccess buf (if len > 256 then 256 else len)"
  shows "case edit_line (min (unat len) 256) [] (received (uart_rx s)) of
      None \<Rightarrow> \<exists>s'. syscall_read 0 buf len s = Waiting s'
    | Some (line, echo, rest) \<Rightarrow>
        \<exists>s'. syscall_read 0 buf len s = Done (of_nat (length line)) s' \<and>
          length line \<le> min (unat len) 256 \<and> sent s' = sent s @ echo \<and> received (uart_rx s') = rest \<and>
          (\<forall>k < length line. \<exists>pa. mmu_translate s' UserMode StoreAccess (buf + of_nat k) = Some pa \<and>
             pmem s' pa = line ! k)"
proof -
  let ?len = "if len > 256 then 256 else len"
  have l: "unat ?len = min (unat len) 256" "unat ?len \<le> 256" and len: "len \<noteq> 0"
    using assms(2) by (auto simp: word_less_nat_alt)
  note R = read_line_edits [of "replicate 256 0" 0 ?len s, simplified l(1)]
  show ?thesis
  proof (cases "read_line (replicate 256 0) 0 ?len s")
    case (Waiting s')
    with R l have "edit_line (min (unat len) 256) [] (received (uart_rx s)) = None" by simp
    with Waiting len show ?thesis by (simp add: syscall_read_def Let_def)
  next
    case (Done p s1)
    obtain tmp n where p: "p = (tmp, n)" by (cases p)
    with Done R l obtain echo rx where E: "length tmp = 256" "n \<le> ?len"
      "edit_line (min (unat len) 256) [] (received (uart_rx s)) = Some (take (unat n) tmp, echo, received rx)"
      "s1 = (sends echo s)\<lparr>uart_rx := rx\<rparr>"
      by auto
    have n: "unat n \<le> min (unat len) 256" using E(2) l(1) by (simp add: word_le_nat_alt)
    note edited = user_space_edited [OF assms(1), where echo = echo and rx = rx, folded E(4)]
    have can: "user_can s1 StoreAccess buf n"
      using assms(4) n l(1) by (simp add: user_can_def edited(2))
    have "unat n \<le> 256" "unat n \<le> length tmp" using n E(1) by simp_all
    then obtain m where M: "copy_to_user buf (Some tmp) n s1 = Done True (s1\<lparr>pmem := m\<rparr>)"
      "\<And>k. k < unat n \<Longrightarrow> \<exists>pa. mmu_translate (s1\<lparr>pmem := m\<rparr>) UserMode StoreAccess (buf + of_nat k) = Some pa \<and>
         m pa = take (unat n) tmp ! k"
      by (rule copy_line_done [OF edited(1) can _ assms(3)]) blast
    have "syscall_read 0 buf len s = Done n (s1\<lparr>pmem := m\<rparr>)"
      using len Done M(1) by (simp add: syscall_read_def Let_def p)
    moreover have "sent (s1\<lparr>pmem := m\<rparr>) = sent s @ echo"
      using E(4) by (simp add: sent_def sends_def comp_def)
    moreover have "length (take (unat n) tmp) = unat n" using E(1) n by simp
    ultimately show ?thesis
      unfolding E(3) option.case prod.case
      using n M(2) E(4) by (intro exI [of _ "s1\<lparr>pmem := m\<rparr>"]) (simp del: length_take)
  qed (use R l in auto)
qed

theorem syscall_read_line_witness:
  "\<exists>m s'. syscall_read 0 0x400000 10 (virt_user m) = Done 2 s' \<and> sent s' = [72, 10]"
proof (rule virt_user_page)
  fix lab al m
  assume us: "user_space 0x80102000 lab 0x80000000 al virt_root (virt_user m)"
    and tr: "\<And>acc i. acc \<noteq> FetchAccess \<Longrightarrow> unat i < 4096 \<Longrightarrow>
      mmu_translate (virt_user m) UserMode acc (0x400000 + i) \<noteq> None"
  have "edit_line (min (unat (10 :: u64)) 256) [] (received (uart_rx (virt_user m))) = Some ([72, 10], [72, 10], [])"
    by (simp add: virt_user_def received_def UART_LSR_RX_READY_def edit_line.simps normalize_def)
  moreover have "sent (virt_user m) = []" by (simp add: virt_user_def sent_def reset_machine_def)
  moreover have can: "user_can (virt_user m) StoreAccess 0x400000 (if (10 :: u64) > 256 then 256 else 10)"
    by (rule virt_user_can [OF tr]) simp_all
  ultimately show ?thesis
    using syscall_read_line [OF us _ _ can] by fastforce
qed

text \<open>
  C21. What \<^verbatim>\<open>copy_to_user\<close> writes, \<^verbatim>\<open>copy_from_user\<close> reads back: wherever user mode may load and
  store, the kernel's copies neither fault nor fail, they change no byte but the buffer's, and the
  round trip returns the bytes.
\<close>

theorem copy_to_from_user:
  assumes "user_space base lab lo al r s" and "user_can s StoreAccess va n" "user_can s LoadAccess va n"
    and "va \<noteq> 0" and "unat n \<le> 2 ^ 39" "unat n \<le> length buf" "unat n \<le> length out"
  shows "\<exists>m. copy_to_user va (Some buf) n s = Done True (s\<lparr>pmem := m\<rparr>) \<and>
    copy_from_user (Some out) va n (s\<lparr>pmem := m\<rparr>) =
      Done (True, take (unat n) buf @ drop (unat n) out) (s\<lparr>pmem := m\<rparr>) \<and>
    (\<forall>a. (\<forall>j < n. mmu_translate s UserMode StoreAccess (va + j) \<noteq> Some a) \<longrightarrow> m a = pmem s a)"
proof -
  obtain m where M: "copy_to_user va (Some buf) n s = Done True (s\<lparr>pmem := m\<rparr>)"
    "user_space base lab lo al r (s\<lparr>pmem := m\<rparr>)" "mmu_translate (s\<lparr>pmem := m\<rparr>) = mmu_translate s"
    "\<forall>a. (\<forall>j < n. mmu_translate s UserMode StoreAccess (va + j) \<noteq> Some a) \<longrightarrow> m a = pmem s a"
    "\<And>j pa. j < n \<Longrightarrow> mmu_translate s UserMode StoreAccess (va + j) = Some pa \<Longrightarrow> m pa = buf ! unat j"
    by (rule copy_to_user_done [OF assms(1,2,5) disjI1 [OF assms(4)], where buf = buf]) (rule that)
  let ?s = "s\<lparr>pmem := m\<rparr>" and ?v = "csr_sstatus s OR SSTATUS_SUM"
  have sum: "bit ?v 18" by (simp add: SSTATUS_SUM_def bit_or_iff bit_push_bit_iff)
  have load: "user_load ?s (va + of_nat k) = Some (take (unat n) buf ! k)" if k: "k < unat n" for k
  proof -
    have uk: "unat (of_nat k :: u64) = k" using k unat_lt_64 [of n] by (simp add: unat_of_nat_64)
    then have kn: "(of_nat k :: u64) < n" using k by (simp add: word_less_nat_alt)
    let ?p = "phys_of (pmem ?s) r (va + of_nat k)"
    have at: "mmu_translate ?s UserMode acc (va + of_nat k) \<noteq> None" if "acc \<noteq> FetchAccess" for acc
      using assms(2,3) k that by (cases acc) (auto simp: user_can_def M(3))
    have "mmu_translate s UserMode StoreAccess (va + of_nat k) = Some ?p"
      using kernel_reaches_user(2) [OF M(2) at _ sum, of StoreAccess] M(3) by simp
    from M(5) [OF kn this] uk have "m ?p = buf ! k" by simp
    moreover have "mmu_translate (?s\<lparr>csr_sstatus := ?v\<rparr>) SupervisorMode LoadAccess (va + of_nat k) = Some ?p"
      using kernel_reaches_user(1) [OF M(2) at _ sum, of LoadAccess] by simp
    ultimately show ?thesis
      using k by (simp add: user_load_def load_byte_def)
  qed
  have "map (\<lambda>k. take (unat n) buf ! k) [0..<unat n] = take (unat n) buf"
    using assms(6) by (intro nth_equalityI) auto
  with copy_from_user_done [of va n out ?s "\<lambda>k. take (unat n) buf ! k"] load assms(4,7)
  have "copy_from_user (Some out) va n ?s = Done (True, take (unat n) buf @ drop (unat n) out) ?s"
    by simp
  with M(1,4) show ?thesis by blast
qed

theorem copy_to_from_user_witness:
  "\<exists>m m'. copy_to_user 0x400000 (Some [1, 2, 3]) 3 (virt_user m) = Done True (virt_user m') \<and>
     copy_from_user (Some [0, 0, 0]) 0x400000 3 (virt_user m') = Done (True, [1, 2, 3]) (virt_user m')"
proof (rule virt_user_page)
  fix lab al m
  assume us: "user_space 0x80102000 lab 0x80000000 al virt_root (virt_user m)"
    and tr: "\<And>acc i. acc \<noteq> FetchAccess \<Longrightarrow> unat i < 4096 \<Longrightarrow>
      mmu_translate (virt_user m) UserMode acc (0x400000 + i) \<noteq> None"
  have "(virt_user m)\<lparr>pmem := m'\<rparr> = virt_user m'" for m'
    by (simp add: virt_user_def)
  moreover have "user_can (virt_user m) acc 0x400000 3" if "acc \<noteq> FetchAccess" for acc
    by (rule virt_user_can [OF tr [OF that]]) simp_all
  ultimately show ?thesis
    using copy_to_from_user [OF us, of "0x400000" 3 "[1, 2, 3]" "[0, 0, 0]"] by fastforce
qed

section \<open>Breakpoints\<close>

lemma low_half_bits: "(ucast (lo :: u8) OR push_bit 8 (ucast (hi :: u8)) :: u16) AND 3 = 3 \<longleftrightarrow> bit lo 0 \<and> bit lo 1"
proof -
  have "x AND mask 2 = mask 2 \<longleftrightarrow> bit x 0 \<and> bit x 1" for x :: u16
  proof -
    have "x AND mask 2 = mask 2 \<longleftrightarrow> (\<forall>n < 16. bit (x AND mask 2) n = bit (mask 2 :: u16) n)"
      by (auto intro: bit_word_eqI)
    also have "\<dots> \<longleftrightarrow> (\<forall>n < 2. bit x n)"
    proof -
      have "n < 16" if "n < 2" for n :: nat using that by simp
      then have "(\<forall>n < 16. (bit x n \<and> n < 2) = (n < 2)) \<longleftrightarrow> (\<forall>n < 2. bit x n)" by blast
      then show ?thesis by (simp add: bit_and_iff bit_mask_iff)
    qed
    also have "\<dots> \<longleftrightarrow> bit x 0 \<and> bit x 1" by (auto simp: less_2_cases_iff)
    finally show ?thesis .
  qed
  moreover have "(3 :: u16) = mask 2" by (simp add: mask_eq_exp_minus_1)
  ultimately show ?thesis by (simp add: bit_simps)
qed

text \<open>
  C36. A breakpoint is skipped only in the kernel: there the handler resumes two bytes on for a
  compressed instruction and four bytes on for another, which the two low bits of its first byte tell.
  For a breakpoint of user mode, at an address user mode can fetch from, the handler reads the
  instruction with a load of its own although \<open>SUM\<close> is clear, and the kernel faults at that address.
\<close>

theorem breakpoint_skips_or_faults:
  assumes "\<not> trap_is_interrupt (tf_cause frame)" and "trap_code (tf_cause frame) = 3"
    and "drop_bit 60 (csr_satp s) \<noteq> 0" and "\<not> bit (csr_sstatus s) 18"
  shows "(\<forall>lo hi. load_byte s (tf_epc frame) = Some lo \<and> load_byte s (tf_epc frame + 1) = Some hi \<longrightarrow>
      supervisor_trap_handler frame s =
        Done (frame\<lparr>tf_epc := tf_epc frame + (if bit lo 0 \<and> bit lo 1 then 4 else 2)\<rparr>) s) \<and>
    (mmu_translate s UserMode FetchAccess (tf_epc frame) \<noteq> None \<longrightarrow>
      supervisor_trap_handler frame s = Fault (tf_epc frame) s)"
proof (intro conjI impI allI)
  have handler: "supervisor_trap_handler frame s = advance_trap frame s"
    using assms(1,2) by (simp add: supervisor_trap_handler_def trap_handler_def handle_exception_def
        handle_user_exception_def handle_supervisor_exception_def Let_def)
  {
    fix lo hi
    assume "load_byte s (tf_epc frame) = Some lo \<and> load_byte s (tf_epc frame + 1) = Some hi"
    then show "supervisor_trap_handler frame s =
        Done (frame\<lparr>tf_epc := tf_epc frame + (if bit lo 0 \<and> bit lo 1 then 4 else 2)\<rparr>) s"
      unfolding handler using low_half_bits [of lo hi] by (simp add: advance_trap_def Let_def)
  }
  assume "mmu_translate s UserMode FetchAccess (tf_epc frame) \<noteq> None"
  then have "mmu_translate s SupervisorMode LoadAccess (tf_epc frame) = None"
    using assms(3,4) by (auto simp: mmu_translate_def access_allowed_def Let_def split: option.splits if_splits)
  then show "supervisor_trap_handler frame s = Fault (tf_epc frame) s"
    unfolding handler by (simp add: advance_trap_def load_byte_def)
qed

theorem breakpoint_skips_or_faults_witness:
  "\<forall>frame. supervisor_trap_handler (frame\<lparr>tf_cause := 3, tf_epc := 0x400000\<rparr>)
     (reset_machine\<lparr>pmem := (\<lambda>_. 0)(0x80000000 := 0x5B), csr_satp := 0x8000000000080000\<rparr>) =
   Fault 0x400000 (reset_machine\<lparr>pmem := (\<lambda>_. 0)(0x80000000 := 0x5B), csr_satp := 0x8000000000080000\<rparr>)"
proof
  fix frame
  let ?s = "reset_machine\<lparr>pmem := (\<lambda>_. 0)(0x80000000 := 0x5B), csr_satp := 0x8000000000080000\<rparr>"
  have "mmu_translate ?s UserMode FetchAccess 0x400000 = Some 0x400000" by code_simp
  moreover have "drop_bit 60 (csr_satp ?s) \<noteq> 0" "\<not> bit (csr_sstatus ?s) 18" by code_simp+
  moreover have "\<not> trap_is_interrupt 3" "trap_code 3 = 3" by code_simp+
  ultimately show "supervisor_trap_handler (frame\<lparr>tf_cause := 3, tf_epc := 0x400000\<rparr>) ?s = Fault 0x400000 ?s"
    using breakpoint_skips_or_faults [of "frame\<lparr>tf_cause := 3, tf_epc := 0x400000\<rparr>" ?s] by simp
qed

end
