(* ===== verification/Assembly.thy ===== *)
theory Assembly
  imports Boot
begin

text \<open>
  The assembler sources: the entry points (\<^verbatim>\<open>src/arch/riscv/boot/m_entry.S\<close>, \<^verbatim>\<open>s_entry.S\<close>), the trap
  entries (\<^verbatim>\<open>s_trap.S\<close>, \<^verbatim>\<open>m_trap.S\<close>), the switch to user mode (\<^verbatim>\<open>user.S\<close>) and the user program
  (\<^verbatim>\<open>user/init.S\<close>), as lists of instructions under their labels, and the meaning of the instructions they use. Instructions are
  fetched as they are assembled; loads and stores go through the page tables below machine mode,
  and one that is not aligned is refused.
\<close>

section \<open>Registers\<close>

datatype reg =
  Ra | Sp | Gp | Tp | T0 | T1 | T2 | S0 | S1 | A0 | A1 | A2 | A3 | A4 | A5 | A6 | A7
| S2 | S3 | S4 | S5 | S6 | S7 | S8 | S9 | S10 | S11 | T3 | T4 | T5 | T6

datatype csr =
  Sstatus | Sepc | Scause | Stval | Sscratch | Mstatus | Mepc | Mcause | Mtval | Mscratch

text \<open>The registers of the hart, the one control register C++ code never reads, and the rest.\<close>

record hart =
  xregs :: "reg \<Rightarrow> u64"
  csr_stval :: u64
  board :: machine

fun read_csr :: "csr \<Rightarrow> hart \<Rightarrow> u64" where
  "read_csr Sstatus h = csr_sstatus (board h)"
| "read_csr Sepc h = csr_sepc (board h)"
| "read_csr Scause h = csr_scause (board h)"
| "read_csr Stval h = csr_stval h"
| "read_csr Sscratch h = csr_sscratch (board h)"
| "read_csr Mstatus h = csr_mstatus (board h)"
| "read_csr Mepc h = csr_mepc (board h)"
| "read_csr Mcause h = csr_mcause (board h)"
| "read_csr Mtval h = csr_mtval (board h)"
| "read_csr Mscratch h = csr_mscratch (board h)"

fun write_csr :: "csr \<Rightarrow> u64 \<Rightarrow> hart \<Rightarrow> hart" where
  "write_csr Sstatus v h = h\<lparr>board := (board h)\<lparr>csr_sstatus := v\<rparr>\<rparr>"
| "write_csr Sepc v h = h\<lparr>board := (board h)\<lparr>csr_sepc := v\<rparr>\<rparr>"
| "write_csr Scause v h = h\<lparr>board := (board h)\<lparr>csr_scause := v\<rparr>\<rparr>"
| "write_csr Stval v h = h\<lparr>csr_stval := v\<rparr>"
| "write_csr Sscratch v h = h\<lparr>board := (board h)\<lparr>csr_sscratch := v\<rparr>\<rparr>"
| "write_csr Mstatus v h = h\<lparr>board := (board h)\<lparr>csr_mstatus := v\<rparr>\<rparr>"
| "write_csr Mepc v h = h\<lparr>board := (board h)\<lparr>csr_mepc := v\<rparr>\<rparr>"
| "write_csr Mcause v h = h\<lparr>board := (board h)\<lparr>csr_mcause := v\<rparr>\<rparr>"
| "write_csr Mtval v h = h\<lparr>board := (board h)\<lparr>csr_mtval := v\<rparr>\<rparr>"
| "write_csr Mscratch v h = h\<lparr>board := (board h)\<lparr>csr_mscratch := v\<rparr>\<rparr>"

definition set_reg :: "reg \<Rightarrow> u64 \<Rightarrow> hart \<Rightarrow> hart" where
  "set_reg r v h = h\<lparr>xregs := (xregs h)(r := v)\<rparr>"

section \<open>Memory\<close>

datatype level = Machine_level | Supervisor_level | User_level

fun data_address :: "level \<Rightarrow> machine \<Rightarrow> access \<Rightarrow> u64 \<Rightarrow> u64 option" where
  "data_address Machine_level s acc va = Some va"
| "data_address Supervisor_level s acc va = mmu_translate s SupervisorMode acc va"
| "data_address User_level s acc va = mmu_translate s UserMode acc va"

definition double_word :: "level \<Rightarrow> machine \<Rightarrow> access \<Rightarrow> u64 \<Rightarrow> u64 option" where
  "double_word l s acc va = (if va AND 7 = 0 then data_address l s acc va else None)"

section \<open>Instructions\<close>

datatype instr =
  Csrr reg csr | Csrw csr reg | Csrrw reg csr reg
| Andi reg reg u64 | Addi reg reg u64 | Sub reg reg reg | Mv reg reg | Li reg u64 | La reg string
| Sd reg u64 reg | Sd_zero u64 reg | Ld reg u64 reg
| Beqz reg string | Bgeu reg reg string | J string | Call string | Ecall | Sret | Mret

text \<open>
  What an instruction leads to: the next one, a jump, the return from a trap to a level and a program
  counter, or the end of the run.
\<close>

datatype flow =
  Next hart | Goto string hart | Resume level u64 hart | Stop "unit outcome"

text \<open>\<^verbatim>\<open>sret\<close> and \<^verbatim>\<open>mret\<close>: the level in the status register, and the status register after it.\<close>

definition sret_level :: "u64 \<Rightarrow> level" where
  "sret_level v = (if v AND SSTATUS_SPP = 0 then User_level else Supervisor_level)"

definition sret_status :: "u64 \<Rightarrow> u64" where
  "sret_status v =
     (v AND NOT SSTATUS_SIE AND NOT SSTATUS_SPP) OR SSTATUS_SPIE OR
     (if v AND SSTATUS_SPIE = 0 then 0 else SSTATUS_SIE)"

definition mret_level :: "u64 \<Rightarrow> level" where
  "mret_level v =
     (if v AND MSTATUS_MPP_MASK = MSTATUS_MPP_U then User_level
      else if v AND MSTATUS_MPP_MASK = MSTATUS_MPP_S then Supervisor_level else Machine_level)"

definition mret_status :: "u64 \<Rightarrow> u64" where
  "mret_status v =
     (v AND NOT MSTATUS_MIE AND NOT MSTATUS_MPP_MASK) OR MSTATUS_MPIE OR
     (if v AND MSTATUS_MPIE = 0 then 0 else MSTATUS_MIE)"

text \<open>
  The linker's symbols, the C++ functions that are called and what a system call of the user program
  does are arguments. A call also writes the
  return address, which no caller here reads again; it belongs to what the function leaves in \<open>ra\<close>.
\<close>

record environment =
  address_of :: "string \<Rightarrow> u64"
  c_function :: "string \<Rightarrow> hart \<Rightarrow> flow"
  environment_call :: "hart \<Rightarrow> flow"

fun step :: "environment \<Rightarrow> level \<Rightarrow> instr \<Rightarrow> hart \<Rightarrow> flow" where
  "step env l (Csrr rd c) h = Next (set_reg rd (read_csr c h) h)"
| "step env l (Csrw c rs) h = Next (write_csr c (xregs h rs) h)"
| "step env l (Csrrw rd c rs) h = Next (set_reg rd (read_csr c h) (write_csr c (xregs h rs) h))"
| "step env l (Andi rd rs v) h = Next (set_reg rd (xregs h rs AND v) h)"
| "step env l (Addi rd rs v) h = Next (set_reg rd (xregs h rs + v) h)"
| "step env l (Sub rd ra rb) h = Next (set_reg rd (xregs h ra - xregs h rb) h)"
| "step env l (Li rd v) h = Next (set_reg rd v h)"
| "step env l (Mv rd rs) h = Next (set_reg rd (xregs h rs) h)"
| "step env l (La rd name) h = Next (set_reg rd (address_of env name) h)"
| "step env l (Sd rs off rb) h =
     (case double_word l (board h) StoreAccess (xregs h rb + off) of
        None \<Rightarrow> Stop (Fault (xregs h rb + off) (board h))
      | Some pa \<Rightarrow> Next (h\<lparr>board := (board h)\<lparr>pmem := st64 (pmem (board h)) pa (xregs h rs)\<rparr>\<rparr>))"
| "step env l (Sd_zero off rb) h =
     (case double_word l (board h) StoreAccess (xregs h rb + off) of
        None \<Rightarrow> Stop (Fault (xregs h rb + off) (board h))
      | Some pa \<Rightarrow> Next (h\<lparr>board := (board h)\<lparr>pmem := st64 (pmem (board h)) pa 0\<rparr>\<rparr>))"
| "step env l (Ld rd off rb) h =
     (case double_word l (board h) LoadAccess (xregs h rb + off) of
        None \<Rightarrow> Stop (Fault (xregs h rb + off) (board h))
      | Some pa \<Rightarrow> Next (set_reg rd (ld64 (pmem (board h)) pa) h))"
| "step env l (Beqz rs target) h = (if xregs h rs = 0 then Goto target h else Next h)"
| "step env l (Bgeu ra rb target) h = (if xregs h ra \<ge> xregs h rb then Goto target h else Next h)"
| "step env l (J target) h = Goto target h"
| "step env l (Call f) h = c_function env f h"
| "step env l Ecall h = environment_call env h"
| "step env l Sret h =
     (let v = read_csr Sstatus h
      in Resume (sret_level v) (read_csr Sepc h) (write_csr Sstatus (sret_status v) h))"
| "step env l Mret h =
     (let v = read_csr Mstatus h
      in Resume (mret_level v) (read_csr Mepc h) (write_csr Mstatus (mret_status v) h))"

text \<open>Instructions in a row, up to the first that leaves the row.\<close>

fun exec :: "environment \<Rightarrow> level \<Rightarrow> instr list \<Rightarrow> hart \<Rightarrow> flow" where
  "exec env l [] h = Next h"
| "exec env l (i # is) h =
     (case step env l i h of
        Next h' \<Rightarrow> exec env l is h'
      | Goto target h' \<Rightarrow> Goto target h'
      | Resume l' pc h' \<Rightarrow> Resume l' pc h'
      | Stop out \<Rightarrow> Stop out)"

text \<open>
  A source file: its labels in order, each with the instructions up to the next one. A run goes on
  at the target of a jump; \<open>None\<close> is the endless run.
\<close>

type_synonym listing = "(string \<times> instr list) list"

definition code_from :: "listing \<Rightarrow> string \<Rightarrow> instr list" where
  "code_from code target = concat (map snd (dropWhile (\<lambda>(name, is). name \<noteq> target) code))"

partial_function (option) run_code ::
  "environment \<Rightarrow> level \<Rightarrow> listing \<Rightarrow> string \<Rightarrow> hart \<Rightarrow> flow option" where
  "run_code env l code target h =
     (case exec env l (code_from code target) h of
        Goto target' h' \<Rightarrow> run_code env l code target' h'
      | Next h' \<Rightarrow> Some (Next h')
      | Resume l' pc h' \<Rightarrow> Some (Resume l' pc h')
      | Stop out \<Rightarrow> Some (Stop out))"

section \<open>The frames in memory\<close>

text \<open>
  The structures \<^verbatim>\<open>TrapFrame\<close> and \<^verbatim>\<open>UserContext\<close> are their fields in order, eight bytes each.
\<close>

definition words_at :: "mem \<Rightarrow> u64 \<Rightarrow> nat \<Rightarrow> u64 list" where
  "words_at m p n = map (\<lambda>k. ld64 m (p + 8 * of_nat k)) [0..<n]"

definition put_words :: "u64 \<Rightarrow> u64 list \<Rightarrow> mem \<Rightarrow> mem" where
  "put_words p ws m = fold (\<lambda>(k, w) m. st64 m (p + 8 * of_nat k) w) (enumerate 0 ws) m"

definition frame_words :: "trap_frame \<Rightarrow> u64 list" where
  "frame_words f =
     [tf_ra f, tf_sp f, tf_gp f, tf_tp f, tf_t0 f, tf_t1 f, tf_t2 f, tf_s0 f, tf_s1 f,
      tf_a0 f, tf_a1 f, tf_a2 f, tf_a3 f, tf_a4 f, tf_a5 f, tf_a6 f, tf_a7 f,
      tf_s2 f, tf_s3 f, tf_s4 f, tf_s5 f, tf_s6 f, tf_s7 f, tf_s8 f, tf_s9 f, tf_s10 f, tf_s11 f,
      tf_t3 f, tf_t4 f, tf_t5 f, tf_t6 f, tf_epc f, tf_status f, tf_cause f, tf_tval f]"

definition words_frame :: "u64 list \<Rightarrow> trap_frame" where
  "words_frame w =
     \<lparr>tf_ra = w ! 0, tf_sp = w ! 1, tf_gp = w ! 2, tf_tp = w ! 3, tf_t0 = w ! 4, tf_t1 = w ! 5,
      tf_t2 = w ! 6, tf_s0 = w ! 7, tf_s1 = w ! 8, tf_a0 = w ! 9, tf_a1 = w ! 10, tf_a2 = w ! 11,
      tf_a3 = w ! 12, tf_a4 = w ! 13, tf_a5 = w ! 14, tf_a6 = w ! 15, tf_a7 = w ! 16, tf_s2 = w ! 17,
      tf_s3 = w ! 18, tf_s4 = w ! 19, tf_s5 = w ! 20, tf_s6 = w ! 21, tf_s7 = w ! 22, tf_s8 = w ! 23,
      tf_s9 = w ! 24, tf_s10 = w ! 25, tf_s11 = w ! 26, tf_t3 = w ! 27, tf_t4 = w ! 28,
      tf_t5 = w ! 29, tf_t6 = w ! 30, tf_epc = w ! 31, tf_status = w ! 32, tf_cause = w ! 33,
      tf_tval = w ! 34\<rparr>"

definition context_words :: "user_context \<Rightarrow> u64 list" where
  "context_words c =
     [uc_ra c, uc_sp c, uc_gp c, uc_tp c, uc_t0 c, uc_t1 c, uc_t2 c, uc_s0 c, uc_s1 c,
      uc_a0 c, uc_a1 c, uc_a2 c, uc_a3 c, uc_a4 c, uc_a5 c, uc_a6 c, uc_a7 c,
      uc_s2 c, uc_s3 c, uc_s4 c, uc_s5 c, uc_s6 c, uc_s7 c, uc_s8 c, uc_s9 c, uc_s10 c, uc_s11 c,
      uc_t3 c, uc_t4 c, uc_t5 c, uc_t6 c, uc_epc c, uc_status c]"

text \<open>
  The call of a trap handler: it is given the address of a frame in \<open>a0\<close>, keeps the registers the
  calling convention makes it keep, and leaves anything in the others.
\<close>

definition callee_saved :: "reg set" where
  "callee_saved = {Sp, Gp, Tp, S0, S1, S2, S3, S4, S5, S6, S7, S8, S9, S10, S11}"

definition call_trap_handler ::
  "(trap_frame \<Rightarrow> machine \<Rightarrow> trap_frame outcome) \<Rightarrow> (reg \<Rightarrow> u64) \<Rightarrow> hart \<Rightarrow> flow" where
  "call_trap_handler handler junk h =
     (let p = xregs h A0
      in case handler (words_frame (words_at (pmem (board h)) p 35)) (board h) of
           Done frame s \<Rightarrow>
             Next (h\<lparr>xregs := \<lambda>r. if r \<in> callee_saved then xregs h r else junk r,
                     board := s\<lparr>pmem := put_words p (frame_words frame) (pmem s)\<rparr>\<rparr>)
         | Halted s \<Rightarrow> Stop (Halted s)
         | Waiting s \<Rightarrow> Stop (Waiting s)
         | Fault a s \<Rightarrow> Stop (Fault a s))"

text \<open>What the processor does on a trap into supervisor mode.\<close>

definition take_trap :: "level \<Rightarrow> u64 \<Rightarrow> u64 \<Rightarrow> u64 \<Rightarrow> hart \<Rightarrow> hart" where
  "take_trap l cause tval pc h =
     (let v = csr_sstatus (board h);
          v' = (v AND NOT SSTATUS_SIE AND NOT SSTATUS_SPIE AND NOT SSTATUS_SPP) OR
               (if v AND SSTATUS_SIE = 0 then 0 else SSTATUS_SPIE) OR
               (if l = User_level then 0 else SSTATUS_SPP)
      in h\<lparr>csr_stval := tval,
           board := (board h)\<lparr>csr_sepc := pc, csr_scause := cause, csr_sstatus := v'\<rparr>\<rparr>)"

section \<open>The sources\<close>

definition supervisor_trap_entry :: listing where
  "supervisor_trap_entry =
     [(''supervisor_trap_entry'',
         [Csrr T0 Sstatus, Andi T1 T0 0x100, Beqz T1 ''.from_user'']),
      (''.from_supervisor'', [Mv T2 Sp, J ''.build_frame'']),
      (''.from_user'', [Csrrw Sp Sscratch Sp, Csrr T2 Sscratch]),
      (''.build_frame'',
         [Addi Sp Sp (- 288),
          Sd Ra 0 Sp, Sd T2 8 Sp, Sd Gp 16 Sp, Sd Tp 24 Sp, Sd T0 32 Sp, Sd T1 40 Sp, Sd T2 48 Sp,
          Sd S0 56 Sp, Sd S1 64 Sp, Sd A0 72 Sp, Sd A1 80 Sp, Sd A2 88 Sp, Sd A3 96 Sp, Sd A4 104 Sp,
          Sd A5 112 Sp, Sd A6 120 Sp, Sd A7 128 Sp, Sd S2 136 Sp, Sd S3 144 Sp, Sd S4 152 Sp,
          Sd S5 160 Sp, Sd S6 168 Sp, Sd S7 176 Sp, Sd S8 184 Sp, Sd S9 192 Sp, Sd S10 200 Sp,
          Sd S11 208 Sp, Sd T3 216 Sp, Sd T4 224 Sp, Sd T5 232 Sp, Sd T6 240 Sp,
          Csrr T3 Sepc, Sd T3 248 Sp,
          Csrr T3 Sstatus, Sd T3 256 Sp,
          Csrr T3 Scause, Sd T3 264 Sp,
          Csrr T3 Stval, Sd T3 272 Sp,
          Mv A0 Sp, Call ''supervisor_trap_handler'',
          Ld T0 248 Sp, Csrw Sepc T0,
          Ld T0 256 Sp, Csrw Sstatus T0,
          Ld T0 256 Sp, Andi T1 T0 0x100,
          Ld Ra 0 Sp, Ld Gp 16 Sp, Ld Tp 24 Sp, Ld T0 32 Sp, Ld T1 40 Sp, Ld T2 48 Sp,
          Ld S0 56 Sp, Ld S1 64 Sp, Ld A0 72 Sp, Ld A1 80 Sp, Ld A2 88 Sp, Ld A3 96 Sp, Ld A4 104 Sp,
          Ld A5 112 Sp, Ld A6 120 Sp, Ld A7 128 Sp, Ld S2 136 Sp, Ld S3 144 Sp, Ld S4 152 Sp,
          Ld S5 160 Sp, Ld S6 168 Sp, Ld S7 176 Sp, Ld S8 184 Sp, Ld S9 192 Sp, Ld S10 200 Sp,
          Ld S11 208 Sp, Ld T3 216 Sp, Ld T4 224 Sp, Ld T5 232 Sp, Ld T6 240 Sp,
          Ld T2 8 Sp, Addi Sp Sp 288, Andi T1 T0 0x100, Beqz T1 ''.return_to_user'']),
      (''.return_to_supervisor'', [Mv Sp T2, Sret]),
      (''.return_to_user'', [Csrw Sscratch Sp, Mv Sp T2, Sret])]"

definition machine_trap_entry :: listing where
  "machine_trap_entry =
     [(''machine_trap_entry'',
         [Csrrw Sp Mscratch Sp, Addi Sp Sp (- 288),
          Sd Ra 0 Sp, Sd Gp 16 Sp, Sd Tp 24 Sp, Sd T0 32 Sp, Sd T1 40 Sp, Sd T2 48 Sp,
          Sd S0 56 Sp, Sd S1 64 Sp, Sd A0 72 Sp, Sd A1 80 Sp, Sd A2 88 Sp, Sd A3 96 Sp, Sd A4 104 Sp,
          Sd A5 112 Sp, Sd A6 120 Sp, Sd A7 128 Sp, Sd S2 136 Sp, Sd S3 144 Sp, Sd S4 152 Sp,
          Sd S5 160 Sp, Sd S6 168 Sp, Sd S7 176 Sp, Sd S8 184 Sp, Sd S9 192 Sp, Sd S10 200 Sp,
          Sd S11 208 Sp, Sd T3 216 Sp, Sd T4 224 Sp, Sd T5 232 Sp, Sd T6 240 Sp,
          Csrr T0 Mscratch, Sd T0 8 Sp,
          Csrr T0 Mepc, Sd T0 248 Sp,
          Csrr T0 Mstatus, Sd T0 256 Sp,
          Csrr T0 Mcause, Sd T0 264 Sp,
          Csrr T0 Mtval, Sd T0 272 Sp,
          Mv A0 Sp, Call ''machine_trap_handler'',
          Ld T0 248 Sp, Csrw Mepc T0,
          Ld T0 256 Sp, Csrw Mstatus T0,
          Ld Ra 0 Sp, Ld Gp 16 Sp, Ld Tp 24 Sp, Ld T0 32 Sp, Ld T1 40 Sp, Ld T2 48 Sp,
          Ld S0 56 Sp, Ld S1 64 Sp, Ld A0 72 Sp, Ld A1 80 Sp, Ld A2 88 Sp, Ld A3 96 Sp, Ld A4 104 Sp,
          Ld A5 112 Sp, Ld A6 120 Sp, Ld A7 128 Sp, Ld S2 136 Sp, Ld S3 144 Sp, Ld S4 152 Sp,
          Ld S5 160 Sp, Ld S6 168 Sp, Ld S7 176 Sp, Ld S8 184 Sp, Ld S9 192 Sp, Ld S10 200 Sp,
          Ld S11 208 Sp, Ld T3 216 Sp, Ld T4 224 Sp, Ld T5 232 Sp, Ld T6 240 Sp,
          Ld T1 8 Sp, Addi Sp Sp 288, Csrw Mscratch Sp, Mv Sp T1, Mret])]"

definition user_enter :: listing where
  "user_enter =
     [(''user_enter'',
         [Ld T0 248 A0, Csrw Sepc T0,
          Ld T0 256 A0, Csrw Sstatus T0,
          Ld Ra 0 A0, Ld Sp 8 A0, Ld Gp 16 A0, Ld Tp 24 A0, Ld T0 32 A0, Ld T1 40 A0, Ld T2 48 A0,
          Ld S0 56 A0, Ld S1 64 A0,
          Ld A1 80 A0, Ld A2 88 A0, Ld A3 96 A0, Ld A4 104 A0, Ld A5 112 A0, Ld A6 120 A0, Ld A7 128 A0,
          Ld S2 136 A0, Ld S3 144 A0, Ld S4 152 A0, Ld S5 160 A0, Ld S6 168 A0, Ld S7 176 A0,
          Ld S8 184 A0, Ld S9 192 A0, Ld S10 200 A0, Ld S11 208 A0,
          Ld T3 216 A0, Ld T4 224 A0, Ld T5 232 A0, Ld T6 240 A0,
          Ld A0 72 A0, Sret])]"

text \<open>The two entry points have the same instructions.\<close>

definition start_entry :: listing where
  "start_entry =
     [(''_start'',
         [La Sp ''stack_top'', Mv S0 A0, Mv S1 A1, La T0 ''__bss_start'', La T1 ''__bss_end'']),
      (''clear_bss'',
         [Bgeu T0 T1 ''bss_done'', Sd_zero 0 T0, Addi T0 T0 8, J ''clear_bss'']),
      (''bss_done'', [Mv A0 S0, Mv A1 S1, Call ''dispatch'']),
      (''1'', [J ''1''])]"

definition init_program :: listing where
  "init_program =
     [(''_start'',
         [Li A0 1, La A1 ''prompt'', La A2 ''prompt_end'', Sub A2 A2 A1, Li A7 64, Ecall,
          Li A0 0, La A1 ''input_buffer'', Li A2 64, Li A7 63, Ecall,
          Mv S0 A0,
          Li A0 1, La A1 ''echo_prefix'', La A2 ''echo_prefix_end'', Sub A2 A2 A1, Li A7 64, Ecall,
          Li A0 1, La A1 ''input_buffer'', Mv A2 S0, Li A7 64, Ecall,
          Li A0 0, Li A7 94, Ecall]),
      (''1'', [J ''1''])]"

text \<open>
  A system call as the user program sees it: a number, three arguments, a result in \<open>a0\<close>, and three
  registers that come back with anything.
\<close>

definition system_call ::
  "(u64 \<Rightarrow> u64 \<Rightarrow> u64 \<Rightarrow> u64 \<Rightarrow> machine \<Rightarrow> u64 outcome) \<Rightarrow> (reg \<Rightarrow> u64) \<Rightarrow> hart \<Rightarrow> flow" where
  "system_call answer junk h =
     (case answer (xregs h A7) (xregs h A0) (xregs h A1) (xregs h A2) (board h) of
        Done v s \<Rightarrow> Next (h\<lparr>xregs := (xregs h)(A0 := v, T0 := junk T0, T1 := junk T1, T2 := junk T2), board := s\<rparr>)
      | Halted s \<Rightarrow> Stop (Halted s)
      | Waiting s \<Rightarrow> Stop (Waiting s)
      | Fault a s \<Rightarrow> Stop (Fault a s))"

end
