(* ===== verification/Assembly_Correct.thy ===== *)
theory Assembly_Correct
  imports Assembly Fdt_Frame Syscall_Correct Example
begin

text \<open>
  What the assembler routines do with the registers: blocks of stores and loads of a frame, the trap
  entries and their returns, the switch to user mode, the loop that clears the bss, and the system calls
  of the user program.
\<close>

section \<open>Double words of a block of memory\<close>

text \<open>The address of a double word.\<close>

definition slot :: "u64 \<Rightarrow> nat \<Rightarrow> u64" where
  "slot p k = p + 8 * of_nat k"

lemma aligned_dvd: "(x :: u64) AND 7 = 0 \<longleftrightarrow> 8 dvd unat x"
proof -
  have "x AND 7 = 0 \<longleftrightarrow> take_bit 3 x = 0" by (simp add: take_bit_eq_mask mask_eq_exp_minus_1)
  also have "\<dots> \<longleftrightarrow> unat (take_bit 3 x) = 0" by (simp add: unat_eq_zero)
  finally show ?thesis by (simp add: unat_take_bit_64 mod_eq_0_iff_dvd)
qed

definition block_of :: "u64 \<Rightarrow> nat \<Rightarrow> bool" where
  "block_of p n \<longleftrightarrow> p AND 7 = 0 \<and> unat p + 8 * n \<le> 2 ^ 64"

lemma unat_double_word: "block_of p n \<Longrightarrow> k < n \<Longrightarrow> unat (slot p k) = unat p + 8 * k"
  using unat_add_of_nat [of p "8 * k"] by (simp add: slot_def block_of_def)

lemma slot_aligned: "block_of p n \<Longrightarrow> k < n \<Longrightarrow> slot p k AND 7 = 0"
  using unat_double_word [of p n k] by (simp add: aligned_dvd block_of_def)

definition words :: "mem \<Rightarrow> u64 \<Rightarrow> nat \<Rightarrow> u64 list" where
  "words m p n = map (\<lambda>k. ld64 m (slot p k)) [0..<n]"

lemma words_at_words: "words_at m p n = words m p n"
  by (simp add: words_at_def words_def slot_def)

lemma words_length [simp]: "length (words m p n) = n"
  by (simp add: words_def)

lemma words_nth [simp]: "k < n \<Longrightarrow> words m p n ! k = ld64 m (slot p k)"
  by (simp add: words_def)

lemma words_store:
  assumes "block_of p n" "k < n"
  shows "words (st64 m (slot p k) v) p n = (words m p n)[k := v]"
proof (rule nth_equalityI)
  fix j assume "j < length (words (st64 m (slot p k) v) p n)"
  then have j: "j < n" by simp
  have "8 dvd unat (slot p k)" "8 dvd unat (slot p j)"
    using slot_aligned [OF assms] slot_aligned [OF assms(1) j] by (simp_all add: aligned_dvd)
  moreover have "slot p k = slot p j \<longleftrightarrow> k = j"
    using unat_double_word [OF assms] unat_double_word [OF assms(1) j] by (auto simp: u64_eq_iff)
  ultimately show "words (st64 m (slot p k) v) p n ! j = (words m p n)[k := v] ! j"
    using j by (auto simp: nth_list_update ld64_st64_aligned_other)
qed simp

lemma frame_store:
  assumes "block_of p n" "k < n"
  shows "frame p (8 * n) m (st64 m (slot p k) v)"
proof -
  have "unat (slot p k) + 8 \<le> 2 ^ 64" using unat_double_word [OF assms] assms by (simp add: block_of_def)
  from frame_st64 [OF this] show ?thesis
    by (rule frame_mono) (use unat_double_word [OF assms] assms(2) in simp_all)
qed

section \<open>Memory a level can use\<close>

text \<open>
  A block that is mapped to itself for loads and stores, whatever is written into it and whatever the
  status register is.
\<close>

definition ram_at :: "level \<Rightarrow> machine \<Rightarrow> u64 \<Rightarrow> nat \<Rightarrow> bool" where
  "ram_at l s p n \<longleftrightarrow> block_of p n \<and>
     (\<forall>m v k acc. frame p (8 * n) (pmem s) m \<longrightarrow> k < n \<longrightarrow> acc \<noteq> FetchAccess \<longrightarrow>
        data_address l (s\<lparr>pmem := m, csr_sstatus := v\<rparr>) acc (slot p k) = Some (slot p k))"

lemma data_address_cong:
  assumes "pmem s = pmem s'" "csr_satp s = csr_satp s'" "csr_sstatus s = csr_sstatus s'"
  shows "data_address l s = data_address l s'"
proof -
  have "mmu_translate s = mmu_translate s'"
    unfolding mmu_translate_def assms by (rule refl)
  then show ?thesis by (cases l) (simp_all add: fun_eq_iff)
qed

lemma ram_at_same:
  assumes "ram_at l s p n" "csr_satp s' = csr_satp s" "frame p (8 * n) (pmem s) (pmem s')"
  shows "ram_at l s' p n"
  unfolding ram_at_def
proof (intro conjI allI impI)
  fix m v k acc
  assume "frame p (8 * n) (pmem s') m" "k < n" "acc \<noteq> FetchAccess"
  with assms have "data_address l (s\<lparr>pmem := m, csr_sstatus := v\<rparr>) acc (slot p k) = Some (slot p k)"
    using frame_trans [OF assms(3)] by (simp add: ram_at_def)
  then show "data_address l (s'\<lparr>pmem := m, csr_sstatus := v\<rparr>) acc (slot p k) = Some (slot p k)"
    using data_address_cong [of "s\<lparr>pmem := m, csr_sstatus := v\<rparr>" "s'\<lparr>pmem := m, csr_sstatus := v\<rparr>" l] assms(2)
    by simp
qed (use assms(1) in \<open>simp add: ram_at_def\<close>)

lemma ram_access:
  assumes "ram_at l s p n" "k < n" "acc \<noteq> FetchAccess"
  shows "double_word l s acc (slot p k) = Some (slot p k)"
proof -
  have "s\<lparr>pmem := pmem s, csr_sstatus := csr_sstatus s\<rparr> = s" by simp
  with assms slot_aligned [of p n k] show ?thesis
    unfolding ram_at_def double_word_def by (metis frame_refl)
qed

lemma ram_at_machine: "ram_at Machine_level s p n \<longleftrightarrow> block_of p n"
  by (simp add: ram_at_def)

section \<open>Blocks of stores and loads\<close>

lemma exec_append:
  "exec env l (xs @ ys) h = (case exec env l xs h of Next h' \<Rightarrow> exec env l ys h' | f \<Rightarrow> f)"
  by (induction xs arbitrary: h) (auto split: flow.split)

definition saves :: "reg \<Rightarrow> (reg \<times> nat) list \<Rightarrow> instr list" where
  "saves b slots = map (\<lambda>(r, k). Sd r (8 * of_nat k) b) slots"

definition loads :: "reg \<Rightarrow> (reg \<times> nat) list \<Rightarrow> instr list" where
  "loads b slots = map (\<lambda>(r, k). Ld r (8 * of_nat k) b) slots"

definition save_csrs :: "reg \<Rightarrow> reg \<Rightarrow> (csr \<times> nat) list \<Rightarrow> instr list" where
  "save_csrs t b slots = concat (map (\<lambda>(c, k). [Csrr t c, Sd t (8 * of_nat k) b]) slots)"

text \<open>The registers after the loads, and the words after the stores.\<close>

fun loaded :: "(reg \<times> nat) list \<Rightarrow> u64 list \<Rightarrow> (reg \<Rightarrow> u64) \<Rightarrow> reg \<Rightarrow> u64" where
  "loaded [] w x = x"
| "loaded ((r, k) # slots) w x = loaded slots w (x(r := w ! k))"

fun stored :: "('a \<times> nat) list \<Rightarrow> ('a \<Rightarrow> u64) \<Rightarrow> u64 list \<Rightarrow> u64 list" where
  "stored [] x w = w"
| "stored ((r, k) # slots) x w = stored slots x (w[k := x r])"

text \<open>The state after a change of memory in the block.\<close>

definition with_mem :: "mem \<Rightarrow> hart \<Rightarrow> hart" where
  "with_mem m h = h\<lparr>board := (board h)\<lparr>pmem := m\<rparr>\<rparr>"

lemma with_mem [simp]:
  "xregs (with_mem m h) = xregs h" "pmem (board (with_mem m h)) = m"
  "csr_satp (board (with_mem m h)) = csr_satp (board h)" "with_mem m' (with_mem m h) = with_mem m' h"
  "read_csr c (with_mem m h) = read_csr c h"
  by (simp_all add: with_mem_def) (cases c; simp)

lemma with_mem_same: "with_mem (pmem (board h)) h = h"
  by (simp add: with_mem_def)

lemma ram_at_with_mem:
  "ram_at l (board h) p n \<Longrightarrow> frame p (8 * n) (pmem (board h)) m \<Longrightarrow> ram_at l (board (with_mem m h)) p n"
  by (rule ram_at_same) simp_all

lemma exec_sd:
  assumes "ram_at l (board h) p n" "xregs h b = p" "k < n"
  shows "exec env l (Sd r (8 * of_nat k) b # is) h =
    exec env l is (with_mem (st64 (pmem (board h)) (slot p k) (xregs h r)) h)"
  using ram_access [OF assms(1,3), of StoreAccess] assms(2)
  by (simp add: slot_def [symmetric] with_mem_def)

lemma exec_ld:
  assumes "ram_at l (board h) p n" "xregs h b = p" "k < n"
  shows "exec env l (Ld r (8 * of_nat k) b # is) h =
    exec env l is (set_reg r (words (pmem (board h)) p n ! k) h)"
  using ram_access [OF assms(1,3), of LoadAccess] assms(2,3)
  by (simp add: slot_def [symmetric])

lemma exec_saves:
  assumes "ram_at l (board h) p n" "xregs h b = p" "\<forall>(r, k) \<in> set slots. k < n"
  shows "\<exists>m. exec env l (saves b slots @ is) h = exec env l is (with_mem m h) \<and>
    frame p (8 * n) (pmem (board h)) m \<and>
    words m p n = stored slots (xregs h) (words (pmem (board h)) p n)"
  using assms
proof (induction slots arbitrary: h)
  case Nil
  then show ?case by (auto simp: saves_def with_mem_same intro: exI [of _ "pmem (board h)"])
next
  case (Cons x slots)
  obtain r k where x: "x = (r, k)" by (cases x)
  with Cons.prems have k: "k < n" "block_of p n" by (auto simp: ram_at_def)
  let ?m = "st64 (pmem (board h)) (slot p k) (xregs h r)"
  note fr = frame_store [OF k(2,1), of "pmem (board h)" "xregs h r"]
  have "ram_at l (board (with_mem ?m h)) p n"
    by (rule ram_at_with_mem [OF Cons.prems(1) fr])
  from Cons.IH [OF this] Cons.prems obtain m where
    "exec env l (saves b slots @ is) (with_mem ?m h) = exec env l is (with_mem m h)"
    "frame p (8 * n) ?m m"
    "words m p n = stored slots (xregs h) (words ?m p n)"
    by auto
  with exec_sd [OF Cons.prems(1,2) k(1), of env r "saves b slots @ is"] frame_trans [OF fr]
    words_store [OF k(2,1)]
  show ?case by (auto simp: x saves_def)
qed

lemma exec_loads:
  assumes "ram_at l (board h) p n" "xregs h b = p" "\<forall>(r, k) \<in> set slots. k < n \<and> r \<noteq> b"
  shows "exec env l (loads b slots @ is) h =
    exec env l is (h\<lparr>xregs := loaded slots (words (pmem (board h)) p n) (xregs h)\<rparr>)"
  using assms
proof (induction slots arbitrary: h)
  case (Cons x slots)
  obtain r k where x: "x = (r, k)" by (cases x)
  with Cons.prems have k: "k < n" "r \<noteq> b" by auto
  let ?h = "set_reg r (words (pmem (board h)) p n ! k) h"
  have h: "board ?h = board h" "xregs ?h b = p" using k(2) Cons.prems(2) by (simp_all add: set_reg_def)
  have "exec env l (loads b (x # slots) @ is) h = exec env l (loads b slots @ is) ?h"
    using exec_ld [OF Cons.prems(1,2) k(1), of env r "loads b slots @ is"]
    by (simp add: x loads_def del: exec.simps)
  also have "\<dots> = exec env l is
      (?h\<lparr>xregs := loaded slots (words (pmem (board ?h)) p n) (xregs ?h)\<rparr>)"
    using Cons.prems(1,3) h by (intro Cons.IH) simp_all
  finally show ?case by (simp add: x set_reg_def)
qed (simp add: loads_def)

lemma exec_save_csrs:
  assumes "ram_at l (board h) p n" "xregs h b = p" "\<forall>(c, k) \<in> set slots. k < n" "t \<noteq> b"
  shows "\<exists>m v. exec env l (save_csrs t b slots @ is) h = exec env l is (set_reg t v (with_mem m h)) \<and>
    frame p (8 * n) (pmem (board h)) m \<and>
    words m p n = stored slots (\<lambda>c. read_csr c h) (words (pmem (board h)) p n)"
  using assms
proof (induction slots arbitrary: h)
  case Nil
  then show ?case
    by (intro exI [of _ "pmem (board h)"] exI [of _ "xregs h t"])
      (simp add: save_csrs_def with_mem_same set_reg_def)
next
  case (Cons x slots)
  obtain c k where x: "x = (c, k)" by (cases x)
  with Cons.prems have k: "k < n" "block_of p n" by (auto simp: ram_at_def)
  let ?h = "set_reg t (read_csr c h) h"
  let ?m = "st64 (pmem (board h)) (slot p k) (read_csr c h)"
  have h: "board ?h = board h" "xregs ?h b = p" "xregs ?h t = read_csr c h" "read_csr c' ?h = read_csr c' h" for c'
    using Cons.prems(2,4) by (simp_all add: set_reg_def) (cases c'; simp)
  note fr = frame_store [OF k(2,1), of "pmem (board h)" "read_csr c h"]
  have "ram_at l (board (with_mem ?m ?h)) p n"
    using ram_at_with_mem [of l ?h p n ?m] Cons.prems(1) fr by (simp add: h)
  from Cons.IH [OF this] Cons.prems obtain m v where
    "exec env l (save_csrs t b slots @ is) (with_mem ?m ?h) = exec env l is (set_reg t v (with_mem m ?h))"
    "frame p (8 * n) ?m m"
    "words m p n = stored slots (\<lambda>c. read_csr c h) (words ?m p n)"
    by (auto simp: h)
  moreover have "set_reg t v (with_mem m ?h) = set_reg t v (with_mem m h)"
    by (simp add: set_reg_def with_mem_def)
  moreover have "ram_at l (board ?h) p n" using Cons.prems(1) by (simp add: h)
  from exec_sd [OF this h(2) k(1), of env t "save_csrs t b slots @ is"]
  have "exec env l (save_csrs t b (x # slots) @ is) h = exec env l (save_csrs t b slots @ is) (with_mem ?m ?h)"
    by (simp add: x save_csrs_def h)
  ultimately show ?case
    using frame_trans [OF fr] words_store [OF k(2,1)] by (auto simp: x)
qed

section \<open>Frames\<close>

definition regs_frame :: "(reg \<Rightarrow> u64) \<Rightarrow> u64 \<Rightarrow> u64 \<Rightarrow> u64 \<Rightarrow> u64 \<Rightarrow> trap_frame" where
  "regs_frame x epc status cause tval =
     \<lparr>tf_ra = x Ra, tf_sp = x Sp, tf_gp = x Gp, tf_tp = x Tp, tf_t0 = x T0, tf_t1 = x T1, tf_t2 = x T2,
      tf_s0 = x S0, tf_s1 = x S1, tf_a0 = x A0, tf_a1 = x A1, tf_a2 = x A2, tf_a3 = x A3, tf_a4 = x A4,
      tf_a5 = x A5, tf_a6 = x A6, tf_a7 = x A7, tf_s2 = x S2, tf_s3 = x S3, tf_s4 = x S4, tf_s5 = x S5,
      tf_s6 = x S6, tf_s7 = x S7, tf_s8 = x S8, tf_s9 = x S9, tf_s10 = x S10, tf_s11 = x S11,
      tf_t3 = x T3, tf_t4 = x T4, tf_t5 = x T5, tf_t6 = x T6,
      tf_epc = epc, tf_status = status, tf_cause = cause, tf_tval = tval\<rparr>"

fun frame_reg :: "trap_frame \<Rightarrow> reg \<Rightarrow> u64" where
  "frame_reg f Ra = tf_ra f" | "frame_reg f Sp = tf_sp f" | "frame_reg f Gp = tf_gp f"
| "frame_reg f Tp = tf_tp f" | "frame_reg f T0 = tf_t0 f" | "frame_reg f T1 = tf_t1 f"
| "frame_reg f T2 = tf_t2 f" | "frame_reg f S0 = tf_s0 f" | "frame_reg f S1 = tf_s1 f"
| "frame_reg f A0 = tf_a0 f" | "frame_reg f A1 = tf_a1 f" | "frame_reg f A2 = tf_a2 f"
| "frame_reg f A3 = tf_a3 f" | "frame_reg f A4 = tf_a4 f" | "frame_reg f A5 = tf_a5 f"
| "frame_reg f A6 = tf_a6 f" | "frame_reg f A7 = tf_a7 f" | "frame_reg f S2 = tf_s2 f"
| "frame_reg f S3 = tf_s3 f" | "frame_reg f S4 = tf_s4 f" | "frame_reg f S5 = tf_s5 f"
| "frame_reg f S6 = tf_s6 f" | "frame_reg f S7 = tf_s7 f" | "frame_reg f S8 = tf_s8 f"
| "frame_reg f S9 = tf_s9 f" | "frame_reg f S10 = tf_s10 f" | "frame_reg f S11 = tf_s11 f"
| "frame_reg f T3 = tf_t3 f" | "frame_reg f T4 = tf_t4 f" | "frame_reg f T5 = tf_t5 f"
| "frame_reg f T6 = tf_t6 f"

lemma frame_reg_regs [simp]: "frame_reg (regs_frame x epc status cause tval) r = x r"
  by (cases r) (simp_all add: regs_frame_def)

lemma regs_frame_fields [simp]:
  "tf_epc (regs_frame x epc status cause tval) = epc" "tf_status (regs_frame x epc status cause tval) = status"
  "tf_cause (regs_frame x epc status cause tval) = cause" "tf_tval (regs_frame x epc status cause tval) = tval"
  by (simp_all add: regs_frame_def)

lemma words_frame_words [simp]: "words_frame (frame_words f) = f"
  by (simp add: words_frame_def frame_words_def)

lemma words_frame_35: "words_frame (words m p 35) = words_frame (words m p 36)"
  by (simp add: words_frame_def)

lemma words_frame_append [simp]: "words_frame (frame_words f @ w) = f"
  by (simp add: words_frame_def frame_words_def nth_append)

text \<open>The C++ handler changes the frame in place.\<close>

lemma put_words_gen:
  assumes "block_of p n" "k + length ws \<le> n"
  shows "frame p (8 * n) m (fold (\<lambda>(k, w) m. st64 m (p + 8 * of_nat k) w) (enumerate k ws) m) \<and>
    words (fold (\<lambda>(k, w) m. st64 m (p + 8 * of_nat k) w) (enumerate k ws) m) p n =
      take k (words m p n) @ ws @ drop (k + length ws) (words m p n)"
  using assms(2)
proof (induction ws arbitrary: k m)
  case (Cons w ws)
  then have k: "k < n" by simp
  from Cons.IH [of "Suc k" "st64 m (slot p k) w"] Cons.prems frame_store [OF assms(1) k, of m w]
    words_store [OF assms(1) k, of m w]
  show ?case
    by (auto simp: slot_def [symmetric] take_Suc_conv_app_nth
        intro: frame_trans)
qed simp

lemma put_frame:
  assumes "block_of p 36"
  shows "frame p 288 m (put_words p (frame_words f) m)"
    and "words (put_words p (frame_words f) m) p 36 = frame_words f @ drop 35 (words m p 36)"
proof -
  have len: "length (frame_words f) = 35" by (simp add: frame_words_def)
  with put_words_gen [OF assms, of 0 "frame_words f" m]
  show "frame p 288 m (put_words p (frame_words f) m)"
    "words (put_words p (frame_words f) m) p 36 = frame_words f @ drop 35 (words m p 36)"
    by (simp_all add: put_words_def)
qed

section \<open>The supervisor's trap entry\<close>

definition saved_regs :: "(reg \<times> nat) list" where
  "saved_regs =
     [(Ra, 0), (T2, 1), (Gp, 2), (Tp, 3), (T0, 4), (T1, 5), (T2, 6), (S0, 7), (S1, 8), (A0, 9), (A1, 10),
      (A2, 11), (A3, 12), (A4, 13), (A5, 14), (A6, 15), (A7, 16), (S2, 17), (S3, 18), (S4, 19), (S5, 20),
      (S6, 21), (S7, 22), (S8, 23), (S9, 24), (S10, 25), (S11, 26), (T3, 27), (T4, 28), (T5, 29), (T6, 30)]"

definition restored_regs :: "(reg \<times> nat) list" where
  "restored_regs = filter (\<lambda>(r, k). k \<noteq> 1) saved_regs"

definition trap_csrs :: "(csr \<times> nat) list" where
  "trap_csrs = [(Sepc, 31), (Sstatus, 32), (Scause, 33), (Stval, 34)]"

lemma build_frame_code:
  "code_from supervisor_trap_entry ''.build_frame'' =
     Addi Sp Sp (- 288) # saves Sp saved_regs @ save_csrs T3 Sp trap_csrs @
     Mv A0 Sp # Call ''supervisor_trap_handler'' #
     loads Sp [(T0, 31)] @ Csrw Sepc T0 # loads Sp [(T0, 32)] @ Csrw Sstatus T0 #
     loads Sp [(T0, 32)] @ Andi T1 T0 0x100 # loads Sp restored_regs @ loads Sp [(T2, 1)] @
     [Addi Sp Sp 288, Andi T1 T0 0x100, Beqz T1 ''.return_to_user'',
      Mv Sp T2, Sret, Csrw Sscratch Sp, Mv Sp T2, Sret]"
  by (simp add: code_from_def supervisor_trap_entry_def saves_def loads_def save_csrs_def saved_regs_def
      restored_regs_def trap_csrs_def)

lemma return_to_user_code:
  "code_from supervisor_trap_entry ''.return_to_user'' = [Csrw Sscratch Sp, Mv Sp T2, Sret]"
  by (simp add: code_from_def supervisor_trap_entry_def)

text \<open>The words of the frame at the call.\<close>

lemma saved_frame:
  assumes "length w = 36"
  shows "words_frame (stored trap_csrs c (stored saved_regs x w)) =
    regs_frame (x(Sp := x T2)) (c Sepc) (c Sstatus) (c Scause) (c Stval)"
  using assms by (simp add: trap_csrs_def saved_regs_def words_frame_def regs_frame_def)

lemma loaded_restored: "loaded restored_regs w x = (frame_reg (words_frame w))(Sp := x Sp)"
proof
  show "loaded restored_regs w x r = ((frame_reg (words_frame w))(Sp := x Sp)) r" for r
    by (cases r) (simp_all add: restored_regs_def saved_regs_def words_frame_def)
qed

lemma words_frame_fields:
  "tf_sp (words_frame w) = w ! 1" "tf_epc (words_frame w) = w ! 31" "tf_status (words_frame w) = w ! 32"
  by (simp_all add: words_frame_def)

text \<open>A frame is built below the stack pointer: registers first, control registers through one of them.\<close>

lemma save_frame:
  fixes h
  defines "p \<equiv> xregs h Sp - 288" and "hp \<equiv> set_reg Sp (xregs h Sp - 288) h"
  assumes "ram_at l (board h) p 36" "\<forall>(r, k) \<in> set regs. k < 36" "\<forall>(c, k) \<in> set csrs. k < 36" "t \<noteq> Sp"
  shows "\<exists>m h'. exec env l (Addi Sp Sp (- 288) # saves Sp regs @ save_csrs t Sp csrs @ Mv A0 Sp # is) h =
        exec env l is h' \<and> frame p 288 (pmem (board h)) m \<and>
      board h' = (board h)\<lparr>pmem := m\<rparr> \<and> csr_stval h' = csr_stval h \<and> xregs h' A0 = p \<and> xregs h' Sp = p \<and>
      words m p 36 = stored csrs (\<lambda>c. read_csr c h) (stored regs (xregs hp) (words (pmem (board h)) p 36))"
proof -
  have h: "board hp = board h" "xregs hp Sp = p" "read_csr c hp = read_csr c h" for c
    by (simp_all add: hp_def set_reg_def p_def) (cases c; simp)
  let ?rest = "save_csrs t Sp csrs @ Mv A0 Sp # is"
  have ram: "ram_at l (board hp) p 36" using assms(3) by (simp add: h)
  obtain m where m: "exec env l (saves Sp regs @ ?rest) hp = exec env l ?rest (with_mem m hp)"
    "frame p (8 * 36) (pmem (board h)) m" "words m p 36 = stored regs (xregs hp) (words (pmem (board h)) p 36)"
    using exec_saves [OF ram h(2) assms(4), of env ?rest] by (auto simp: h)
  have "ram_at l (board (with_mem m hp)) p 36"
    using ram_at_with_mem [OF ram] m(2) by (simp add: h)
  from exec_save_csrs [OF this _ assms(5,6), of env "Mv A0 Sp # is"] obtain m' v where
    m': "exec env l ?rest (with_mem m hp) = exec env l (Mv A0 Sp # is) (set_reg t v (with_mem m' hp))"
    "frame p (8 * 36) m m'" "words m' p 36 = stored csrs (\<lambda>c. read_csr c h) (words m p 36)"
    by (auto simp: h)
  have "exec env l (Addi Sp Sp (- 288) # saves Sp regs @ ?rest) h =
      exec env l is (set_reg A0 p (set_reg t v (with_mem m' hp)))"
    using m(1) m'(1) assms(6) by (simp add: p_def hp_def set_reg_def)
  moreover have "frame p 288 (pmem (board h)) m'"
    using frame_trans [OF m(2) m'(2)] by simp
  ultimately show ?thesis
    using m(3) m'(3) assms(6)
    by (intro exI [of _ m'] exI [of _ "set_reg A0 p (set_reg t v (with_mem m' hp))"])
      (simp add: hp_def p_def set_reg_def with_mem_def)
qed

text \<open>Up to the call: the frame holds the registers, with the original stack pointer in \<open>t2\<close>.\<close>

lemma build_frame:
  fixes h
  defines "p \<equiv> xregs h Sp - 288"
  assumes "ram_at l (board h) p 36"
  shows "\<exists>m h'. exec env l (Addi Sp Sp (- 288) # saves Sp saved_regs @ save_csrs T3 Sp trap_csrs @
        Mv A0 Sp # is) h = exec env l is h' \<and> frame p 288 (pmem (board h)) m \<and>
      board h' = (board h)\<lparr>pmem := m\<rparr> \<and> csr_stval h' = csr_stval h \<and> xregs h' A0 = p \<and> xregs h' Sp = p \<and>
      words_frame (words m p 36) = regs_frame ((xregs h)(Sp := xregs h T2)) (csr_sepc (board h))
        (csr_sstatus (board h)) (csr_scause (board h)) (csr_stval h)"
proof -
  have slots: "\<forall>(r, k) \<in> set saved_regs. k < 36" "\<forall>(c, k) \<in> set trap_csrs. k < 36"
    by (simp_all add: saved_regs_def trap_csrs_def)
  have regs: "(xregs (set_reg Sp p h))(Sp := xregs (set_reg Sp p h) T2) = (xregs h)(Sp := xregs h T2)"
    by (simp add: set_reg_def)
  from save_frame [OF assms(2) [unfolded p_def] slots, of T3 env "is"] obtain m h' where
    "exec env l (Addi Sp Sp (- 288) # saves Sp saved_regs @ save_csrs T3 Sp trap_csrs @ Mv A0 Sp # is) h =
      exec env l is h'" "frame p 288 (pmem (board h)) m"
    "board h' = (board h)\<lparr>pmem := m\<rparr>" "csr_stval h' = csr_stval h" "xregs h' A0 = p" "xregs h' Sp = p"
    "words m p 36 = stored trap_csrs (\<lambda>c. read_csr c h)
      (stored saved_regs (xregs (set_reg Sp p h)) (words (pmem (board h)) p 36))"
    unfolding p_def by auto
  then show ?thesis
    by (intro exI [of _ m] exI [of _ h']) (simp add: saved_frame regs del: exec.simps)
qed

text \<open>From the call on.\<close>

lemma restore_frame:
  fixes h
  defines "p \<equiv> xregs h Sp" and "f \<equiv> words_frame (words (pmem (board h)) (xregs h Sp) 36)"
  assumes "ram_at l (board h) p 36"
  shows "exec env l
      (loads Sp [(T0, 31)] @ Csrw Sepc T0 # loads Sp [(T0, 32)] @ Csrw Sstatus T0 #
       loads Sp [(T0, 32)] @ Andi T1 T0 0x100 # loads Sp restored_regs @ loads Sp [(T2, 1)] @
       Addi Sp Sp 288 # Andi T1 T0 0x100 # is) h =
    exec env l is (h\<lparr>board := (board h)\<lparr>csr_sepc := tf_epc f, csr_sstatus := tf_status f\<rparr>,
      xregs := (frame_reg f)(Sp := p + 288, T1 := tf_t0 f AND 0x100, T2 := tf_sp f)\<rparr>)"
proof -
  let ?w = "words (pmem (board h)) p 36"
  have sp: "xregs h Sp = p" by (simp add: p_def)
  have f: "f = words_frame ?w" by (simp add: f_def p_def)
  have ram: "ram_at l (board h') p 36"
    if "csr_satp (board h') = csr_satp (board h)" "pmem (board h') = pmem (board h)" for h' :: hart
    by (rule ram_at_same [OF assms(3)]) (simp_all add: that)
  have load: "exec env l (loads Sp slots @ is) h' =
      exec env l is (h'\<lparr>xregs := loaded slots ?w (xregs h')\<rparr>)"
    if "csr_satp (board h') = csr_satp (board h)" "pmem (board h') = pmem (board h)" "xregs h' Sp = p"
      "\<forall>(r, k) \<in> set slots. k < 36 \<and> r \<noteq> Sp" for h' :: hart and slots "is"
    using exec_loads [OF ram [OF that(1,2)] that(3,4), of env "is"] that(2) by simp
  have slots: "\<forall>(r, k) \<in> set restored_regs. k < 36 \<and> r \<noteq> Sp"
    by (simp add: restored_regs_def saved_regs_def)
  show ?thesis
    by (simp add: load slots set_reg_def loaded_restored words_frame_fields f sp fun_upd_twist)
qed

text \<open>
  The registers at \<^verbatim>\<open>.build_frame\<close>: three of the interrupted program's registers are gone.
\<close>

definition entry_regs :: "hart \<Rightarrow> reg \<Rightarrow> u64" where
  "entry_regs h = (xregs h)(T0 := csr_sstatus (board h), T1 := csr_sstatus (board h) AND 0x100, T2 := xregs h Sp)"

lemma entry_regs_sp: "(entry_regs h)(Sp := entry_regs h T2) = entry_regs h"
  by (auto simp: fun_eq_iff entry_regs_def)

definition trap_stack :: "hart \<Rightarrow> u64" where
  "trap_stack h = (if csr_sstatus (board h) AND 0x100 = 0 then csr_sscratch (board h) else xregs h Sp)"

definition entry_scratch :: "hart \<Rightarrow> u64" where
  "entry_scratch h = (if csr_sstatus (board h) AND 0x100 = 0 then xregs h Sp else csr_sscratch (board h))"

lemma trap_entry_code:
  "code_from supervisor_trap_entry ''supervisor_trap_entry'' =
     [Csrr T0 Sstatus, Andi T1 T0 0x100, Beqz T1 ''.from_user'', Mv T2 Sp, J ''.build_frame''] @
     code_from supervisor_trap_entry ''.from_user''"
  "code_from supervisor_trap_entry ''.from_user'' =
     [Csrrw Sp Sscratch Sp, Csrr T2 Sscratch] @ code_from supervisor_trap_entry ''.build_frame''"
  by (simp_all add: code_from_def supervisor_trap_entry_def)

lemma trap_entry_runs:
  "run_code env l supervisor_trap_entry ''supervisor_trap_entry'' h =
     run_code env l supervisor_trap_entry ''.build_frame''
       (h\<lparr>board := (board h)\<lparr>csr_sscratch := entry_scratch h\<rparr>, xregs := (entry_regs h)(Sp := trap_stack h)\<rparr>)"
  (is "_ = run_code env l supervisor_trap_entry _ ?h")
proof (cases "csr_sstatus (board h) AND 0x100 = 0")
  case True
  let ?h1 = "set_reg T1 0 (set_reg T0 (csr_sstatus (board h)) h)"
  have "run_code env l supervisor_trap_entry ''supervisor_trap_entry'' h =
      run_code env l supervisor_trap_entry ''.from_user'' ?h1"
    using True by (subst run_code.simps) (simp add: trap_entry_code(1) set_reg_def)
  also have "exec env l (code_from supervisor_trap_entry ''.from_user'') ?h1 =
      exec env l (code_from supervisor_trap_entry ''.build_frame'') ?h"
    using True
    by (simp add: trap_entry_code(2) set_reg_def entry_regs_def trap_stack_def entry_scratch_def fun_upd_twist)
  then have "run_code env l supervisor_trap_entry ''.from_user'' ?h1 =
      run_code env l supervisor_trap_entry ''.build_frame'' ?h"
    by (simp add: run_code.simps [of env l supervisor_trap_entry])
  finally show ?thesis .
next
  case False
  then have "(entry_regs h)(Sp := trap_stack h) = entry_regs h"
    by (auto simp: fun_eq_iff entry_regs_def trap_stack_def)
  with False show ?thesis
    by (subst run_code.simps) (simp add: trap_entry_code(1) set_reg_def entry_regs_def entry_scratch_def)
qed

text \<open>The return.\<close>

definition resumed :: "trap_frame \<Rightarrow> u64 \<Rightarrow> hart \<Rightarrow> hart" where
  "resumed f stack h = h\<lparr>xregs := (frame_reg f)(T1 := tf_t0 f AND 0x100, T2 := tf_sp f, Sp := tf_sp f),
     board := (board h)\<lparr>csr_sepc := tf_epc f, csr_sstatus := sret_status (tf_status f),
       csr_sscratch := (if tf_t0 f AND 0x100 = 0 then stack else csr_sscratch (board h))\<rparr>\<rparr>"

definition return_code :: "instr list" where
  "return_code =
     loads Sp [(T0, 31)] @ Csrw Sepc T0 # loads Sp [(T0, 32)] @ Csrw Sstatus T0 #
     loads Sp [(T0, 32)] @ Andi T1 T0 0x100 # loads Sp restored_regs @ loads Sp [(T2, 1)] @
     [Addi Sp Sp 288, Andi T1 T0 0x100, Beqz T1 ''.return_to_user'',
      Mv Sp T2, Sret, Csrw Sscratch Sp, Mv Sp T2, Sret]"

lemma trap_returns:
  fixes h
  defines "f \<equiv> words_frame (words (pmem (board h)) (xregs h Sp) 36)"
  assumes "ram_at l (board h) (xregs h Sp) 36"
  shows "(case exec env l return_code h of
      Goto target h' \<Rightarrow> exec env l (code_from supervisor_trap_entry target) h' | flow \<Rightarrow> flow) =
    Resume (sret_level (tf_status f)) (tf_epc f) (resumed f (xregs h Sp + 288) h)"
proof -
  let ?h3 = "h\<lparr>board := (board h)\<lparr>csr_sepc := tf_epc f, csr_sstatus := tf_status f\<rparr>,
      xregs := (frame_reg f)(Sp := xregs h Sp + 288, T1 := tf_t0 f AND 0x100, T2 := tf_sp f)\<rparr>"
  let ?h4 = "resumed f (xregs h Sp + 288) h"
  have run: "exec env l return_code h = exec env l
      [Beqz T1 ''.return_to_user'', Mv Sp T2, Sret, Csrw Sscratch Sp, Mv Sp T2, Sret] ?h3"
    unfolding return_code_def f_def using restore_frame [OF assms(2)] by simp
  have goes: "exec env l [Beqz T1 ''.return_to_user'', Mv Sp T2, Sret, Csrw Sscratch Sp, Mv Sp T2, Sret] ?h3 =
      (if tf_t0 f AND 0x100 = 0 then Goto ''.return_to_user'' ?h3
       else Resume (sret_level (tf_status f)) (tf_epc f) ?h4)"
    by (auto simp: Let_def resumed_def set_reg_def intro!: hart.equality)
  moreover have "exec env l (code_from supervisor_trap_entry ''.return_to_user'') ?h3 =
      Resume (sret_level (tf_status f)) (tf_epc f) ?h4" if "tf_t0 f AND 0x100 = 0"
    using that by (auto simp: return_to_user_code Let_def resumed_def set_reg_def intro!: hart.equality)
  ultimately show ?thesis unfolding run by simp
qed

text \<open>A jump at the end of which the run leaves the code.\<close>

lemma run_code_resumes:
  assumes "exec env l (code_from code target) h = flow"
    and "(case flow of Goto target' h' \<Rightarrow> exec env l (code_from code target') h' | _ \<Rightarrow> flow) = Resume l' pc h''"
  shows "run_code env l code target h = Some (Resume l' pc h'')"
  using assms by (cases flow) (simp_all add: run_code.simps [of env l code])

lemma supervisor_trap_runs:
  fixes h
  defines "p \<equiv> trap_stack h - 288" and "F \<equiv> regs_frame (entry_regs h) (csr_sepc (board h))
    (csr_sstatus (board h)) (csr_scause (board h)) (csr_stval h)"
  assumes "c_function env ''supervisor_trap_handler'' = call_trap_handler handler junk"
    and "ram_at l (board h) p 36"
  shows "\<exists>m. frame p 288 (pmem (board h)) m \<and>
    (let run = run_code env l supervisor_trap_entry ''supervisor_trap_entry'' h
     in case handler F ((board h)\<lparr>csr_sscratch := entry_scratch h, pmem := m\<rparr>) of
         Done f s \<Rightarrow> ram_at l s p 36 \<longrightarrow>
           run = Some (Resume (sret_level (tf_status f)) (tf_epc f)
             (resumed f (trap_stack h)
               (h\<lparr>board := s\<lparr>pmem := put_words p (frame_words f) (pmem s)\<rparr>\<rparr>)))
       | Halted s \<Rightarrow> run = Some (Stop (Halted s)) | Waiting s \<Rightarrow> run = Some (Stop (Waiting s))
       | Fault a s \<Rightarrow> run = Some (Stop (Fault a s)))"
proof -
  let ?h = "h\<lparr>board := (board h)\<lparr>csr_sscratch := entry_scratch h\<rparr>, xregs := (entry_regs h)(Sp := trap_stack h)\<rparr>"
  let ?code = "code_from supervisor_trap_entry ''.build_frame''"
  have "ram_at l (board ?h) p 36"
    by (rule ram_at_same [OF assms(4)]) simp_all
  then have "\<exists>m h'. exec env l ?code ?h = exec env l (Call ''supervisor_trap_handler'' # return_code) h' \<and>
      frame p 288 (pmem (board h)) m \<and> board h' = (board ?h)\<lparr>pmem := m\<rparr> \<and> csr_stval h' = csr_stval h \<and>
      xregs h' A0 = p \<and> xregs h' Sp = p \<and> words_frame (words m p 36) = F"
    using build_frame [of l ?h env "Call ''supervisor_trap_handler'' # return_code"]
    unfolding build_frame_code return_code_def [symmetric]
    by (simp add: p_def F_def entry_regs_sp del: exec.simps)
  then obtain m h' where
    m: "exec env l ?code ?h = exec env l (Call ''supervisor_trap_handler'' # return_code) h'"
    "frame p 288 (pmem (board h)) m" "board h' = (board h)\<lparr>csr_sscratch := entry_scratch h, pmem := m\<rparr>"
    "csr_stval h' = csr_stval h" "xregs h' A0 = p" "xregs h' Sp = p" "words_frame (words m p 36) = F"
    by auto
  have call: "c_function env ''supervisor_trap_handler'' h' = call_trap_handler handler junk h'"
    and arg: "words_frame (words_at m p 35) = F"
    using assms(3) m(7) by (simp_all add: words_at_words words_frame_35)
  note run = trap_entry_runs [of env l h]
  note calls = call call_trap_handler_def Let_def arg m(3,5)
  show ?thesis
  proof (cases "handler F ((board h)\<lparr>csr_sscratch := entry_scratch h, pmem := m\<rparr>)")
    case (Done f s')
    let ?h2 = "h'\<lparr>xregs := \<lambda>r. if r \<in> callee_saved then xregs h' r else junk r,
      board := s'\<lparr>pmem := put_words p (frame_words f) (pmem s')\<rparr>\<rparr>"
    have "run_code env l supervisor_trap_entry ''.build_frame'' ?h =
        Some (Resume (sret_level (tf_status f)) (tf_epc f) (resumed f (trap_stack h) ?h2))"
      if ram: "ram_at l s' p 36"
    proof (rule run_code_resumes)
      show "exec env l ?code ?h = exec env l return_code ?h2" using Done m(1) by (simp add: calls)
      have blk: "block_of p 36" using ram by (simp add: ram_at_def)
      have sp: "xregs ?h2 Sp = p" by (simp add: callee_saved_def m(6))
      have "ram_at l (board ?h2) p 36" by (rule ram_at_same [OF ram]) (simp_all add: put_frame(1) [OF blk])
      with trap_returns(1) [of l ?h2 env] sp put_frame(2) [OF blk]
      show "(case exec env l return_code ?h2 of
          Goto target h' \<Rightarrow> exec env l (code_from supervisor_trap_entry target) h' | _ \<Rightarrow> exec env l return_code ?h2) =
        Resume (sret_level (tf_status f)) (tf_epc f) (resumed f (trap_stack h) ?h2)"
        by (auto simp: p_def split: flow.splits)
    qed
    moreover have "resumed f (trap_stack h) ?h2 =
        resumed f (trap_stack h) (h\<lparr>board := s'\<lparr>pmem := put_words p (frame_words f) (pmem s')\<rparr>\<rparr>)"
      by (auto simp: resumed_def m(4) intro!: hart.equality)
    ultimately show ?thesis using m(2) Done by (intro exI [of _ m]) (simp add: run)
  qed (use m(1,2) in \<open>auto simp: run calls run_code.simps [of env l supervisor_trap_entry "''.build_frame''"]
      intro!: exI [of _ m]\<close>)
qed

text \<open>A handler that returns has changed no register but \<open>a0\<close>, and not the status.\<close>

lemma handler_keeps:
  assumes "supervisor_trap_handler fr s = Done f s'"
  shows "f = fr\<lparr>tf_a0 := tf_a0 f, tf_epc := tf_epc f\<rparr>"
  using assms
  by (auto simp: supervisor_trap_handler_def trap_handler_def handle_interrupt_def handle_exception_def
      handle_user_exception_def handle_supervisor_exception_def panic_trap_def panic_def advance_trap_def
      syscall_handle_def syscall_exit_def Let_def split: if_splits option.splits outcome.splits
      elim!: bind_outcome.elims)

section \<open>The machine's trap entry\<close>

definition machine_saved :: "(reg \<times> nat) list" where
  "machine_saved =
     [(Ra, 0), (Gp, 2), (Tp, 3), (T0, 4), (T1, 5), (T2, 6), (S0, 7), (S1, 8), (A0, 9), (A1, 10),
      (A2, 11), (A3, 12), (A4, 13), (A5, 14), (A6, 15), (A7, 16), (S2, 17), (S3, 18), (S4, 19), (S5, 20),
      (S6, 21), (S7, 22), (S8, 23), (S9, 24), (S10, 25), (S11, 26), (T3, 27), (T4, 28), (T5, 29), (T6, 30)]"

definition machine_csrs :: "(csr \<times> nat) list" where
  "machine_csrs = [(Mscratch, 1), (Mepc, 31), (Mstatus, 32), (Mcause, 33), (Mtval, 34)]"

lemma machine_entry_code:
  "\<exists>rest. code_from machine_trap_entry ''machine_trap_entry'' =
     Csrrw Sp Mscratch Sp # Addi Sp Sp (- 288) # saves Sp machine_saved @ save_csrs T0 Sp machine_csrs @
     Mv A0 Sp # Call ''machine_trap_handler'' # rest"
  by (simp add: code_from_def machine_trap_entry_def saves_def save_csrs_def machine_saved_def machine_csrs_def)

text \<open>
  In machine mode every register is in the frame, the interrupted stack pointer among them, and the
  handler does not return.
\<close>

lemma machine_trap_halts:
  fixes h
  defines "p \<equiv> csr_mscratch (board h) - 288"
  assumes "c_function env ''machine_trap_handler'' = call_trap_handler handler junk"
    and "\<And>f s. handler f s = Halted (halted f s)" and "block_of p 36"
  shows "\<exists>m. frame p 288 (pmem (board h)) m \<and>
    run_code env Machine_level machine_trap_entry ''machine_trap_entry'' h =
      Some (Stop (Halted (halted
        (regs_frame (xregs h) (csr_mepc (board h)) (csr_mstatus (board h)) (csr_mcause (board h))
          (csr_mtval (board h)))
        ((board h)\<lparr>csr_mscratch := xregs h Sp, pmem := m\<rparr>))))"
proof -
  obtain rest where code: "code_from machine_trap_entry ''machine_trap_entry'' =
     Csrrw Sp Mscratch Sp # Addi Sp Sp (- 288) # saves Sp machine_saved @ save_csrs T0 Sp machine_csrs @
     Mv A0 Sp # Call ''machine_trap_handler'' # rest" (is "_ = _ # ?build")
    using machine_entry_code by blast
  let ?h = "h\<lparr>board := (board h)\<lparr>csr_mscratch := xregs h Sp\<rparr>, xregs := (xregs h)(Sp := csr_mscratch (board h))\<rparr>"
  let ?F = "regs_frame (xregs h) (csr_mepc (board h)) (csr_mstatus (board h)) (csr_mcause (board h)) (csr_mtval (board h))"
  have slots: "\<forall>(r, k) \<in> set machine_saved. k < 36" "\<forall>(c, k) \<in> set machine_csrs. k < 36"
    by (simp_all add: machine_saved_def machine_csrs_def)
  have "ram_at Machine_level (board ?h) (xregs ?h Sp - 288) 36"
    using assms(4) by (simp add: ram_at_machine p_def)
  from save_frame [OF this slots, of T0 env "Call ''machine_trap_handler'' # rest"] obtain m h' where
    m: "exec env Machine_level ?build ?h = exec env Machine_level (Call ''machine_trap_handler'' # rest) h'"
    "frame p 288 (pmem (board h)) m" "board h' = (board h)\<lparr>csr_mscratch := xregs h Sp, pmem := m\<rparr>"
    "xregs h' A0 = p" "words m p 36 = stored machine_csrs (\<lambda>c. read_csr c ?h)
      (stored machine_saved (xregs (set_reg Sp p ?h)) (words (pmem (board h)) p 36))"
    unfolding p_def by auto
  have "words_frame (words m p 36) = ?F"
    unfolding m(5)
    by (simp add: machine_saved_def machine_csrs_def words_frame_def regs_frame_def set_reg_def)
  then have arg: "words_frame (words_at m p 35) = ?F" by (simp add: words_at_words words_frame_35)
  have "exec env Machine_level (code_from machine_trap_entry ''machine_trap_entry'') h =
      exec env Machine_level ?build ?h"
    unfolding code by (simp add: set_reg_def)
  with m show ?thesis
    by (intro exI [of _ m]) (simp add: run_code.simps [of _ _ machine_trap_entry] assms(2,3)
        call_trap_handler_def Let_def arg)
qed

section \<open>The switch to user mode\<close>

definition context_regs :: "(reg \<times> nat) list" where
  "context_regs =
     [(Ra, 0), (Sp, 1), (Gp, 2), (Tp, 3), (T0, 4), (T1, 5), (T2, 6), (S0, 7), (S1, 8), (A1, 10),
      (A2, 11), (A3, 12), (A4, 13), (A5, 14), (A6, 15), (A7, 16), (S2, 17), (S3, 18), (S4, 19), (S5, 20),
      (S6, 21), (S7, 22), (S8, 23), (S9, 24), (S10, 25), (S11, 26), (T3, 27), (T4, 28), (T5, 29), (T6, 30)]"

fun context_reg :: "user_context \<Rightarrow> reg \<Rightarrow> u64" where
  "context_reg c Ra = uc_ra c" | "context_reg c Sp = uc_sp c" | "context_reg c Gp = uc_gp c"
| "context_reg c Tp = uc_tp c" | "context_reg c T0 = uc_t0 c" | "context_reg c T1 = uc_t1 c"
| "context_reg c T2 = uc_t2 c" | "context_reg c S0 = uc_s0 c" | "context_reg c S1 = uc_s1 c"
| "context_reg c A0 = uc_a0 c" | "context_reg c A1 = uc_a1 c" | "context_reg c A2 = uc_a2 c"
| "context_reg c A3 = uc_a3 c" | "context_reg c A4 = uc_a4 c" | "context_reg c A5 = uc_a5 c"
| "context_reg c A6 = uc_a6 c" | "context_reg c A7 = uc_a7 c" | "context_reg c S2 = uc_s2 c"
| "context_reg c S3 = uc_s3 c" | "context_reg c S4 = uc_s4 c" | "context_reg c S5 = uc_s5 c"
| "context_reg c S6 = uc_s6 c" | "context_reg c S7 = uc_s7 c" | "context_reg c S8 = uc_s8 c"
| "context_reg c S9 = uc_s9 c" | "context_reg c S10 = uc_s10 c" | "context_reg c S11 = uc_s11 c"
| "context_reg c T3 = uc_t3 c" | "context_reg c T4 = uc_t4 c" | "context_reg c T5 = uc_t5 c"
| "context_reg c T6 = uc_t6 c"

lemma user_enter_code:
  "code_from user_enter ''user_enter'' =
     loads A0 [(T0, 31)] @ Csrw Sepc T0 # loads A0 [(T0, 32)] @ Csrw Sstatus T0 #
     loads A0 context_regs @ loads A0 [(A0, 9)] @ [Sret]"
  by (simp add: code_from_def user_enter_def loads_def context_regs_def)

lemma loaded_context:
  "(loaded context_regs (context_words c) x)(A0 := context_words c ! 9) = context_reg c"
proof
  show "((loaded context_regs (context_words c) x)(A0 := context_words c ! 9)) r = context_reg c r" for r
    by (cases r) (simp_all add: context_regs_def context_words_def)
qed

lemma user_enter_runs:
  assumes "ram_at l (board h) (xregs h A0) 33" "words (pmem (board h)) (xregs h A0) 33 = context_words c"
  shows "run_code env l user_enter ''user_enter'' h =
    Some (Resume (sret_level (uc_status c)) (uc_epc c)
      (h\<lparr>board := (board h)\<lparr>csr_sepc := uc_epc c, csr_sstatus := sret_status (uc_status c)\<rparr>,
         xregs := context_reg c\<rparr>))"
proof -
  have ram: "ram_at l (board h') (xregs h A0) 33"
    if "csr_satp (board h') = csr_satp (board h)" "pmem (board h') = pmem (board h)" for h' :: hart
    by (rule ram_at_same [OF assms(1)]) (simp_all add: that)
  have load: "exec env l (loads A0 slots @ is) h' =
      exec env l is (h'\<lparr>xregs := loaded slots (context_words c) (xregs h')\<rparr>)"
    if "csr_satp (board h') = csr_satp (board h)" "pmem (board h') = pmem (board h)" "xregs h' A0 = xregs h A0"
      "\<forall>(r, k) \<in> set slots. k < 33 \<and> r \<noteq> A0" for h' :: hart and slots "is"
    using exec_loads [OF ram [OF that(1,2)] that(3,4), of env "is"] that(2) assms(2) by simp
  have last: "exec env l (loads A0 [(A0, 9)] @ is) h' = exec env l is (set_reg A0 (context_words c ! 9) h')"
    if "csr_satp (board h') = csr_satp (board h)" "pmem (board h') = pmem (board h)" "xregs h' A0 = xregs h A0"
    for h' :: hart and "is"
    using exec_ld [OF ram [OF that(1,2)] that(3), of 9 env A0 "is"] that(2) assms(2)
    by (simp add: loads_def del: exec.simps)
  have slots: "\<forall>(r, k) \<in> set context_regs. k < 33 \<and> r \<noteq> A0"
    by (simp add: context_regs_def)
  have a0: "loaded context_regs w x A0 = x A0" for w x by (simp add: context_regs_def)
  have fields: "context_words c ! 31 = uc_epc c" "context_words c ! 32 = uc_status c"
    by (simp_all add: context_words_def)
  show ?thesis
    by (subst run_code.simps)
      (simp add: user_enter_code load slots last a0 set_reg_def fields Let_def
        loaded_context [unfolded One_nat_def])
qed

section \<open>The first instructions\<close>

lemma start_code:
  "code_from start_entry ''_start'' =
     [La Sp ''stack_top'', Mv S0 A0, Mv S1 A1, La T0 ''__bss_start'', La T1 ''__bss_end''] @
     code_from start_entry ''clear_bss''"
  "code_from start_entry ''clear_bss'' =
     [Bgeu T0 T1 ''bss_done'', Sd_zero 0 T0, Addi T0 T0 8, J ''clear_bss'', Mv A0 S0, Mv A1 S1,
      Call ''dispatch'', J ''1'']"
  "code_from start_entry ''bss_done'' = [Mv A0 S0, Mv A1 S1, Call ''dispatch'', J ''1'']"
  "code_from start_entry ''1'' = [J ''1'']"
  by (simp_all add: code_from_def start_entry_def)

lemma start_spins: "run_code env l start_entry ''1'' h = None"
proof -
  have "\<not> (code = start_entry \<and> target = ''1'')" if "run_code env l code target h = Some y"
    for env l code target h y
    by (rule run_code.raw_induct [OF _ that]) (fastforce simp: start_code(4))
  then show ?thesis by (cases "run_code env l start_entry ''1'' h") blast+
qed

definition cleared :: "u64 \<Rightarrow> u64 \<Rightarrow> mem \<Rightarrow> mem" where
  "cleared a b m = (\<lambda>x. if a \<le> x \<and> x < b then 0 else m x)"

text \<open>Memory addresses are physical: in machine mode, or before paging is on.\<close>

definition bare :: "level \<Rightarrow> machine \<Rightarrow> bool" where
  "bare l s \<longleftrightarrow> l = Machine_level \<or> drop_bit 60 (csr_satp s) = 0"

lemma bare_access: "bare l s \<Longrightarrow> data_address l s acc a = Some a"
  by (cases l) (auto simp: bare_def mmu_translate_def)

lemma st64_zero:
  assumes "8 dvd unat a"
  shows "st64 m a 0 x = (if unat a \<le> unat x \<and> unat x < unat a + 8 then 0 else m x)"
proof (cases "unat a \<le> unat x \<and> unat x < unat a + 8")
  case True
  then obtain k where k: "unat x = unat a + k" "k < 8" by (metis le_iff_add nat_add_left_cancel_less)
  then have x: "x = a + of_nat k" using unat_add_aligned8 [OF assms k(2)] by (simp add: u64_eq_iff)
  consider "k = 0" | "k = 1" | "k = 2" | "k = 3" | "k = 4" | "k = 5" | "k = 6" | "k = 7"
    using k(2) by linarith
  then have "st64 m a 0 x = 0" unfolding x by cases (simp_all add: st64_def)
  with True show ?thesis by simp
next
  case False
  then have "x \<noteq> a + of_nat k" if "k < 8" for k
    using unat_add_aligned8 [OF assms that] that by auto
  then have "st64 m a 0 x = m x" by (rule st64_other)
  then show ?thesis using False by auto
qed

lemma clear_bss_loop:
  assumes "bare l (board h)" "8 dvd unat (xregs h T0)" "8 dvd unat (xregs h T1)"
  shows "\<exists>t. run_code env l start_entry ''clear_bss'' h = run_code env l start_entry ''bss_done''
    (set_reg T0 t (with_mem (cleared (xregs h T0) (xregs h T1) (pmem (board h))) h))"
  using assms
proof (induction "unat (xregs h T1) - unat (xregs h T0)" arbitrary: h rule: less_induct)
  case less
  let ?a = "xregs h T0" and ?b = "xregs h T1"
  show ?case
  proof (cases "?b \<le> ?a")
    case True
    then have "cleared ?a ?b (pmem (board h)) = pmem (board h)"
      by (auto simp: cleared_def fun_eq_iff)
    then have "set_reg T0 ?a (with_mem (cleared ?a ?b (pmem (board h))) h) = h"
      by (simp add: set_reg_def with_mem_same)
    with True show ?thesis
      by (intro exI [of _ ?a]) (subst run_code.simps, simp add: start_code(2))
  next
    case False
    then have lt: "unat ?a < unat ?b" by (simp add: word_less_nat_alt not_le)
    let ?h = "set_reg T0 (?a + 8) (with_mem (st64 (pmem (board h)) ?a 0) h)"
    have le: "unat ?a + 8 \<le> unat ?b"
      using lt less.prems(2,3) by (auto simp: dvd_def)
    then have nx: "unat (?a + 8) = unat ?a + 8"
      using unat_add_64 [of ?a 8] unat_lt_64 [of ?b] by simp
    have al: "?a AND 7 = 0" using less.prems(2) by (simp add: aligned_dvd)
    have "run_code env l start_entry ''clear_bss'' h = run_code env l start_entry ''clear_bss'' ?h"
      using False al by (subst run_code.simps)
        (simp add: start_code(2) double_word_def bare_access [OF less.prems(1)] set_reg_def with_mem_def)
    moreover have regs: "xregs ?h T0 = ?a + 8" "xregs ?h T1 = ?b" "pmem (board ?h) = st64 (pmem (board h)) ?a 0"
      by (simp_all add: set_reg_def)
    moreover have "\<exists>t. run_code env l start_entry ''clear_bss'' ?h = run_code env l start_entry ''bss_done''
        (set_reg T0 t (with_mem (cleared (xregs ?h T0) (xregs ?h T1) (pmem (board ?h))) ?h))"
    proof (rule less.hyps)
      show "bare l (board ?h)" using less.prems(1) by (simp add: bare_def set_reg_def)
    qed (use less.prems(2,3) lt le in \<open>simp_all only: regs nx\<close>, auto simp: dvd_def intro: exI [of _ "Suc _"])
    moreover have "cleared (?a + 8) ?b (st64 (pmem (board h)) ?a 0) = cleared ?a ?b (pmem (board h))"
      using le nx less.prems(2)
      by (auto simp: cleared_def fun_eq_iff st64_zero word_le_nat_alt word_less_nat_alt)
    moreover have "set_reg T0 t (with_mem m ?h) = set_reg T0 t (with_mem m h)" for t m
      by (simp add: set_reg_def with_mem_def)
    ultimately show ?thesis by simp
  qed
qed

section \<open>The user program\<close>

lemma init_code:
  "code_from init_program ''_start'' =
     [Li A0 1, La A1 ''prompt'', La A2 ''prompt_end'', Sub A2 A2 A1, Li A7 64, Ecall,
      Li A0 0, La A1 ''input_buffer'', Li A2 64, Li A7 63, Ecall, Mv S0 A0,
      Li A0 1, La A1 ''echo_prefix'', La A2 ''echo_prefix_end'', Sub A2 A2 A1, Li A7 64, Ecall,
      Li A0 1, La A1 ''input_buffer'', Mv A2 S0, Li A7 64, Ecall, Li A0 0, Li A7 94, Ecall, J ''1'']"
  "code_from init_program ''1'' = [J ''1'']"
  by (simp_all add: code_from_def init_program_def)

lemma init_spins: "run_code env l init_program ''1'' h = None"
proof -
  have "\<not> (code = init_program \<and> target = ''1'')" if "run_code env l code target h = Some y"
    for env l code target h y
    by (rule run_code.raw_induct [OF _ that]) (fastforce simp: init_code(2))
  then show ?thesis by (cases "run_code env l init_program ''1'' h") blast+
qed

fun stops :: "'a outcome \<Rightarrow> flow option" where
  "stops (Done a s) = None" | "stops (Halted s) = Some (Stop (Halted s))"
| "stops (Waiting s) = Some (Stop (Waiting s))" | "stops (Fault a s) = Some (Stop (Fault a s))"

text \<open>
  The program prompts, reads a line into its buffer, writes what it read behind a prefix, as many
  bytes as the kernel said, and exits; a kernel that came back from the exit would leave it in its
  last loop.
\<close>

lemma init_program_calls:
  assumes "environment_call env = system_call answer junk"
  shows "run_code env User_level init_program ''_start'' h =
    (let sym = address_of env
     in stops (bind_outcome (answer 64 1 (sym ''prompt'') (sym ''prompt_end'' - sym ''prompt'') (board h)) (\<lambda>_ s.
          bind_outcome (answer 63 0 (sym ''input_buffer'') 64 s) (\<lambda>n s.
          bind_outcome (answer 64 1 (sym ''echo_prefix'') (sym ''echo_prefix_end'' - sym ''echo_prefix'') s) (\<lambda>_ s.
          bind_outcome (answer 64 1 (sym ''input_buffer'') n s) (\<lambda>_ s.
          answer 94 0 (sym ''input_buffer'') n s))))))"
  by (subst run_code.simps)
    (simp add: init_code(1) set_reg_def system_call_def assms init_spins Let_def split: outcome.split)

section \<open>The stack on the kernel's tables\<close>

text \<open>The tables paging builds map a stack in the bss to itself, as long as it is below the tables.\<close>

lemma bss_stack_ram:
  assumes tables: "kernel_tables L platform lo lab r al s" and blk: "block_of p n"
    and bss: "page_aligned (ks_bss_start L)" "ks_bss_start L \<le> p" "unat p + 8 * n \<le> unat (ks_bss_end L)"
    and bound: "unat (ks_bss_end L) \<le> 2 ^ 38" "unat p + 8 * n \<le> lo"
  shows "ram_at Supervisor_level s p n"
  unfolding ram_at_def
proof (intro conjI allI impI)
  fix m v k acc
  assume fr: "frame p (8 * n) (pmem s) m" and k: "k < n" and acc: "acc \<noteq> FetchAccess"
  let ?s = "s\<lparr>pmem := m, csr_sstatus := v\<rparr>" and ?sz = "ks_bss_end L - ks_bss_start L"
  have inv: "pt_inv lab lo al (pmem s) r" using tables by (simp add: kernel_tables_def)
  have same: "m a = pmem s a" if "table_byte lab a" for a
    using below_tables [OF inv] that fr bound(2) unfolding frame_def by (meson le_less_trans not_le)
  have "pt_inv lab lo al m r" "pt_lookup m r = pt_lookup (pmem s) r"
    by (rule pt_inv_frame [OF inv], rule same, assumption)+
  then have t: "kernel_tables L platform lo lab r al ?s" using tables by (simp add: kernel_tables_def)
  let ?x = "slot p k - ks_bss_start L"
  have at: "unat (slot p k) = unat p + 8 * k" by (rule unat_double_word [OF blk k])
  have sz: "unat ?sz = unat (ks_bss_end L) - unat (ks_bss_start L)"
    "unat ?x = unat p + 8 * k - unat (ks_bss_start L)"
    using bss k at by (simp_all add: unat_diff_64 word_le_nat_alt)
  have "unat ?sz + 4095 < 2 ^ 64" using sz(1) bound(1) by simp
  note up = align_up_bounds [OF this]
  have "(ks_bss_start L, ks_bss_start L, ?sz, PTE_R OR PTE_W) \<in> set (kernel_regions L platform)"
    by (simp add: kernel_regions_def Let_def)
  moreover have "unat (ks_bss_start L) + unat (align_up ?sz PAGE_SIZE) \<le> 2 ^ 56" "?x < align_up ?sz PAGE_SIZE"
    using up sz bss(2,3) bound(1) k by (simp_all add: word_less_nat_alt word_le_nat_alt)
  moreover have "sv39_canonical (ks_bss_start L + ?x)"
    using at bss(3) bound(1) k by (simp add: sv39_canonical_def unat_eq_zero [symmetric] unat_drop_bit_64)
  ultimately have "mmu_translate ?s SupervisorMode acc (ks_bss_start L + ?x) =
      (if region_allows (PTE_R OR PTE_W) acc then Some (ks_bss_start L + ?x) else None)"
    by (rule region_translate [OF t _ bss(1) bss(1)])
  moreover have "region_allows (PTE_R OR PTE_W) acc"
    using acc by (cases acc) (simp_all add: region_allows_bit bit_or_iff bit_pte_flags)
  ultimately have "mmu_translate ?s SupervisorMode acc (slot p k) = Some (slot p k)" by simp
  then show "data_address Supervisor_level ?s acc (slot p k) = Some (slot p k)" by simp
qed (rule blk)

section \<open>Properties\<close>

lemma ram_bare: "bare l s \<Longrightarrow> block_of p n \<Longrightarrow> ram_at l s p n"
  unfolding ram_at_def by (auto intro!: bare_access simp: bare_def)

text \<open>
  C7. A trap into supervisor mode through the assembler and the C++ handler: the handler sees the
  interrupted program's registers and the trap's cause; when it returns, the program goes on at the
  level it came from, where the handler says, with its stack pointer and every register as they were,
  but for \<open>a0\<close>, which holds the handler's answer, and for \<open>t0\<close>, \<open>t1\<close> and \<open>t2\<close>: the entry has used
  them before it saves them, so the program finds \<^verbatim>\<open>sstatus\<close>, its bit \<^verbatim>\<open>SPP\<close> and its own stack pointer
  there. A trap from user mode puts the trap stack back into \<^verbatim>\<open>sscratch\<close>. Memory changes in the frame
  only, apart from what the handler does. The frame's memory is mapped to itself, as the tables of
  \<^verbatim>\<open>paging_init\<close> map a stack in the bss (\<open>bss_stack_ram\<close>).
\<close>

theorem supervisor_trap_round_trip:
  assumes "c_function env ''supervisor_trap_handler'' = call_trap_handler supervisor_trap_handler junk"
    and "ram_at Supervisor_level (board h) (trap_stack h - 288) 36"
  shows "\<exists>m. frame (trap_stack h - 288) 288 (pmem (board h)) m \<and>
    (let run = run_code env Supervisor_level supervisor_trap_entry ''supervisor_trap_entry'' h;
         status = csr_sstatus (board h)
     in case supervisor_trap_handler
            (regs_frame ((xregs h)(T0 := status, T1 := status AND 0x100, T2 := xregs h Sp))
              (csr_sepc (board h)) status (csr_scause (board h)) (csr_stval h))
            ((board h)\<lparr>csr_sscratch := entry_scratch h, pmem := m\<rparr>) of
         Done f s \<Rightarrow> ram_at Supervisor_level s (trap_stack h - 288) 36 \<longrightarrow>
           (\<exists>h'. run = Some (Resume (sret_level status) (tf_epc f) h') \<and>
              (\<forall>r. r \<notin> {A0, T0, T1, T2} \<longrightarrow> xregs h' r = xregs h r) \<and> xregs h' A0 = tf_a0 f \<and>
              xregs h' T0 = status \<and> xregs h' T1 = status AND 0x100 \<and> xregs h' T2 = xregs h Sp \<and>
              csr_sstatus (board h') = sret_status status \<and>
              (status AND 0x100 = 0 \<longrightarrow> csr_sscratch (board h') = csr_sscratch (board h)) \<and>
              frame (trap_stack h - 288) 288 (pmem s) (pmem (board h')))
       | Halted s \<Rightarrow> run = Some (Stop (Halted s)) | Waiting s \<Rightarrow> run = Some (Stop (Waiting s))
       | Fault a s \<Rightarrow> run = Some (Stop (Fault a s)))"
proof -
  let ?p = "trap_stack h - 288" and ?status = "csr_sstatus (board h)"
  let ?F = "regs_frame (entry_regs h) (csr_sepc (board h)) ?status (csr_scause (board h)) (csr_stval h)"
  obtain m where m: "frame ?p 288 (pmem (board h)) m"
    "let run = run_code env Supervisor_level supervisor_trap_entry ''supervisor_trap_entry'' h
     in case supervisor_trap_handler ?F ((board h)\<lparr>csr_sscratch := entry_scratch h, pmem := m\<rparr>) of
         Done f s \<Rightarrow> ram_at Supervisor_level s ?p 36 \<longrightarrow>
           run = Some (Resume (sret_level (tf_status f)) (tf_epc f)
             (resumed f (trap_stack h) (h\<lparr>board := s\<lparr>pmem := put_words ?p (frame_words f) (pmem s)\<rparr>\<rparr>)))
       | Halted s \<Rightarrow> run = Some (Stop (Halted s)) | Waiting s \<Rightarrow> run = Some (Stop (Waiting s))
       | Fault a s \<Rightarrow> run = Some (Stop (Fault a s))"
    using supervisor_trap_runs [OF assms] by blast
  have goes_back: "(\<forall>r. r \<notin> {A0, T0, T1, T2} \<longrightarrow> xregs h' r = xregs h r) \<and> xregs h' A0 = tf_a0 f \<and>
      xregs h' T0 = ?status \<and> xregs h' T1 = ?status AND 0x100 \<and> xregs h' T2 = xregs h Sp \<and>
      csr_sstatus (board h') = sret_status ?status \<and>
      (?status AND 0x100 = 0 \<longrightarrow> csr_sscratch (board h') = csr_sscratch (board h)) \<and>
      frame ?p 288 (pmem s) (pmem (board h')) \<and> tf_status f = ?status"
    if "supervisor_trap_handler ?F s0 = Done f s" "ram_at Supervisor_level s ?p 36"
      and h': "h' = resumed f (trap_stack h) (h\<lparr>board := s\<lparr>pmem := put_words ?p (frame_words f) (pmem s)\<rparr>\<rparr>)"
    for s0 f s h'
  proof -
    have f: "f = ?F\<lparr>tf_a0 := tf_a0 f, tf_epc := tf_epc f\<rparr>" by (rule handler_keeps [OF that(1)])
    have regs: "frame_reg f r = (if r = A0 then tf_a0 f else entry_regs h r)" for r
      by (subst f, cases r) (simp_all add: regs_frame_def)
    have "tf_t0 f = ?status" "tf_sp f = xregs h Sp" "tf_status f = ?status"
      by (subst f, simp add: regs_frame_def entry_regs_def)+
    moreover have "block_of ?p 36" using that(2) by (simp add: ram_at_def)
    ultimately show ?thesis
      by (auto simp: h' resumed_def regs entry_regs_def trap_stack_def put_frame(1))
  qed
  show ?thesis
  proof (intro exI conjI)
    show "frame ?p 288 (pmem (board h)) m" by (rule m(1))
  qed (use m(2) goes_back in \<open>auto simp: Let_def entry_regs_def [symmetric] split: outcome.splits\<close>)
qed

text \<open>A system call with an unknown number, before paging is on.\<close>

definition trap_environment :: environment where
  "trap_environment = \<lparr>address_of = \<lambda>_. 0, c_function = \<lambda>f. call_trap_handler supervisor_trap_handler (\<lambda>_. 0),
     environment_call = \<lambda>h. Stop (Halted (board h))\<rparr>"

definition calling_program :: hart where
  "calling_program = take_trap User_level 8 0 0x1000
     \<lparr>xregs = \<lambda>_. 5, csr_stval = 0, board = reset_machine\<lparr>csr_sscratch := 0x9000\<rparr>\<rparr>"

theorem supervisor_trap_round_trip_witness:
  "\<exists>h'. run_code trap_environment Supervisor_level supervisor_trap_entry ''supervisor_trap_entry'' calling_program =
     Some (Resume User_level 0x1004 h') \<and> xregs h' A0 = ERR_NOSYS \<and> xregs h' S1 = 5 \<and>
     xregs h' T0 = 0 \<and> xregs h' T1 = 0 \<and> csr_sscratch (board h') = 0x9000"
proof -
  have call: "c_function trap_environment ''supervisor_trap_handler'' =
      call_trap_handler supervisor_trap_handler (\<lambda>_. 0)"
    by (simp add: trap_environment_def)
  have status: "csr_sstatus (board calling_program) = 0" "csr_satp (board calling_program) = 0"
    "csr_sepc (board calling_program) = 0x1000" "csr_scause (board calling_program) = 8"
    "csr_sscratch (board calling_program) = 0x9000" "xregs calling_program r = 5" for r
    by (simp_all add: calling_program_def take_trap_def reset_machine_def Let_def)
  have "ram_at Supervisor_level (board calling_program) (trap_stack calling_program - 288) 36"
    by (rule ram_bare) (simp_all add: bare_def block_of_def status trap_stack_def)
  moreover have "ram_at Supervisor_level (board calling_program\<lparr>csr_sscratch := 5, pmem := m\<rparr>) 0x8EE0 36" for m
    by (rule ram_bare) (simp_all add: bare_def block_of_def status)
  moreover have "supervisor_trap_handler (regs_frame ((xregs calling_program)(T0 := 0, T1 := 0, T2 := 5))
      0x1000 0 8 v) s =
    Done ((regs_frame ((xregs calling_program)(T0 := 0, T1 := 0, T2 := 5)) 0x1000 0 8 v)
      \<lparr>tf_a0 := ERR_NOSYS, tf_epc := 0x1004\<rparr>) s" for v s
    by (simp add: supervisor_trap_handler_def trap_handler_def handle_exception_def handle_user_exception_def
        trap_is_interrupt_def trap_code_def trap_from_user_def syscall_handle_def Let_def regs_frame_def status
        SYSCALL_READ_def SYSCALL_WRITE_def SYSCALL_EXIT_def SYSCALL_EXIT_GROUP_def)
  ultimately show ?thesis
    using supervisor_trap_round_trip [OF call, of calling_program]
    by (auto simp: status trap_stack_def entry_scratch_def Let_def sret_level_def)
qed

text \<open>The status user mode starts with.\<close>

lemma and_bit:
  assumes "n < 64"
  shows "(x :: u64) AND push_bit n 1 = 0 \<longleftrightarrow> \<not> bit x n"
proof -
  have "bit (x AND push_bit n 1) k \<longleftrightarrow> bit x n \<and> k = n" for k
    unfolding bit_and_iff bit_flag [OF assms] by auto
  then show ?thesis by (metis bit_0_eq bit_word_eqI bot_apply bot_bool_def)
qed

lemma first_status:
  fixes v :: u64
  defines "w \<equiv> (v AND NOT SSTATUS_SPP OR SSTATUS_SPIE) AND NOT SSTATUS_SIE"
  shows "sret_level w = User_level" "sret_status w AND SSTATUS_SIE \<noteq> 0" "sret_status w AND SSTATUS_SPP = 0"
proof -
  have bits: "bit SSTATUS_SPP k \<longleftrightarrow> k = 8" "bit SSTATUS_SPIE k \<longleftrightarrow> k = 5" "bit SSTATUS_SIE k \<longleftrightarrow> k = 1" for k
    unfolding SSTATUS_SPP_def SSTATUS_SPIE_def SSTATUS_SIE_def by (rule bit_flag; simp)+
  have tests: "x AND SSTATUS_SPP = 0 \<longleftrightarrow> \<not> bit x 8" "x AND SSTATUS_SPIE = 0 \<longleftrightarrow> \<not> bit x 5"
    "x AND SSTATUS_SIE = 0 \<longleftrightarrow> \<not> bit x 1" for x :: u64
    unfolding SSTATUS_SPP_def SSTATUS_SPIE_def SSTATUS_SIE_def by (rule and_bit; simp)+
  show "sret_level w = User_level" "sret_status w AND SSTATUS_SIE \<noteq> 0" "sret_status w AND SSTATUS_SPP = 0"
    by (simp_all add: sret_level_def sret_status_def tests w_def bit_and_iff bit_or_iff bit_not_iff bits)
qed

text \<open>
  C22. \<^verbatim>\<open>user_enter\<close> on a context that \<^verbatim>\<open>user_context_init\<close> has filled: user mode starts at the entry
  point with the aligned stack pointer, the two arguments in \<open>a0\<close> and \<open>a1\<close> and zero in every other
  register, interrupts are enabled in the status it starts with, and no byte of memory changes.
\<close>

theorem user_enter_loads_context:
  assumes "ram_at l (board h) (xregs h A0) 33"
    and "words_at (pmem (board h)) (xregs h A0) 33 =
      context_words (user_context_init entry_addr stack_top arg0 arg1 s)"
  shows "\<exists>h'. run_code env l user_enter ''user_enter'' h = Some (Resume User_level entry_addr h') \<and>
    xregs h' = (\<lambda>_. 0)(Sp := align_down stack_top 16, A0 := arg0, A1 := arg1) \<and>
    pmem (board h') = pmem (board h) \<and>
    csr_sstatus (board h') AND SSTATUS_SIE \<noteq> 0 \<and> csr_sstatus (board h') AND SSTATUS_SPP = 0"
proof -
  let ?c = "user_context_init entry_addr stack_top arg0 arg1 s"
  have regs: "context_reg ?c = (\<lambda>_. 0)(Sp := align_down stack_top 16, A0 := arg0, A1 := arg1)"
  proof
    show "context_reg ?c r = ((\<lambda>_. 0)(Sp := align_down stack_top 16, A0 := arg0, A1 := arg1)) r" for r
      by (cases r) (simp_all add: user_context_init_def Let_def)
  qed
  have "uc_status ?c = (csr_sstatus s AND NOT SSTATUS_SPP OR SSTATUS_SPIE) AND NOT SSTATUS_SIE"
    and "uc_epc ?c = entry_addr"
    by (simp_all add: user_context_init_def Let_def csr_read_sstatus_def)
  then have "sret_level (uc_status ?c) = User_level"
    "sret_status (uc_status ?c) AND SSTATUS_SIE \<noteq> 0" "sret_status (uc_status ?c) AND SSTATUS_SPP = 0"
    by (simp_all add: first_status)
  with user_enter_runs [OF assms(1), of ?c env] assms(2) regs \<open>uc_epc ?c = entry_addr\<close> show ?thesis
    by (simp add: words_at_words)
qed

text \<open>A context in memory, and nothing else.\<close>

definition first_context :: user_context where
  "first_context = user_context_init 0x400000 0x3FFFFFF000 0 0x88000000 reset_machine"

definition entering_hart :: hart where
  "entering_hart = \<lparr>xregs = \<lambda>_. 0x2000, csr_stval = 0,
     board = reset_machine\<lparr>pmem := put_words 0x2000 (context_words first_context) (\<lambda>_. 0)\<rparr>\<rparr>"

theorem user_enter_loads_context_witness:
  "\<exists>h'. run_code trap_environment Supervisor_level user_enter ''user_enter'' entering_hart =
     Some (Resume User_level 0x400000 h') \<and> xregs h' Sp = 0x3FFFFFF000 \<and> xregs h' A1 = 0x88000000 \<and> xregs h' T6 = 0"
proof -
  have blk: "block_of 0x2000 33" by (simp add: block_of_def)
  have len: "length (context_words first_context) = 33" by (simp add: context_words_def)
  have "words_at (put_words 0x2000 (context_words first_context) (\<lambda>_. 0)) 0x2000 33 = context_words first_context"
    using put_words_gen [OF blk, of 0 "context_words first_context" "\<lambda>_. 0"] len
    by (simp add: put_words_def words_at_words)
  moreover have "ram_at Supervisor_level (board entering_hart) 0x2000 33"
    by (rule ram_bare) (simp_all add: bare_def blk entering_hart_def reset_machine_def)
  ultimately show ?thesis
    using user_enter_loads_context [of Supervisor_level entering_hart "0x400000" "0x3FFFFFF000" 0 "0x88000000"
        reset_machine trap_environment]
    by (auto simp: entering_hart_def first_context_def [symmetric] align_down_def)
qed

text \<open>
  C25. \<^verbatim>\<open>_start\<close> ends its loop: it calls \<^verbatim>\<open>dispatch\<close> with the hart and the device tree it was given, on
  the boot stack, when exactly the bytes of the bss are zero; and if \<^verbatim>\<open>dispatch\<close> came back, the hart would
  stay in the loop behind it for ever.
\<close>

theorem start_clears_bss:
  assumes "bare l (board h)" "8 dvd unat (address_of env ''__bss_start'')" "8 dvd unat (address_of env ''__bss_end'')"
  shows "\<exists>h'. xregs h' A0 = xregs h A0 \<and> xregs h' A1 = xregs h A1 \<and> xregs h' Sp = address_of env ''stack_top'' \<and>
    board h' = (board h)\<lparr>pmem := \<lambda>a. if address_of env ''__bss_start'' \<le> a \<and> a < address_of env ''__bss_end''
      then 0 else pmem (board h) a\<rparr> \<and>
    run_code env l start_entry ''_start'' h =
      (case c_function env ''dispatch'' h' of
         Next h'' \<Rightarrow> None
       | Goto target h'' \<Rightarrow> run_code env l start_entry target h''
       | Resume l' pc h'' \<Rightarrow> Some (Resume l' pc h'')
       | Stop out \<Rightarrow> Some (Stop out))"
proof -
  let ?b = "address_of env ''__bss_start''" and ?e = "address_of env ''__bss_end''"
  let ?h1 = "h\<lparr>xregs := (xregs h)(Sp := address_of env ''stack_top'', S0 := xregs h A0, S1 := xregs h A1,
    T0 := ?b, T1 := ?e)\<rparr>"
  have "exec env l (code_from start_entry ''_start'') h = exec env l (code_from start_entry ''clear_bss'') ?h1"
    by (simp add: start_code(1) set_reg_def)
  then have "run_code env l start_entry ''_start'' h = run_code env l start_entry ''clear_bss'' ?h1"
    by (simp add: run_code.simps [of env l start_entry])
  also have "\<exists>t. run_code env l start_entry ''clear_bss'' ?h1 = run_code env l start_entry ''bss_done''
      (set_reg T0 t (with_mem (cleared ?b ?e (pmem (board h))) ?h1))"
    using clear_bss_loop [of l ?h1 env] assms by simp
  then obtain t where "run_code env l start_entry ''clear_bss'' ?h1 = run_code env l start_entry ''bss_done''
      (set_reg T0 t (with_mem (cleared ?b ?e (pmem (board h))) ?h1))" by blast
  finally show ?thesis
    by (intro exI [of _ "set_reg A1 (xregs h A1) (set_reg A0 (xregs h A0)
          (set_reg T0 t (with_mem (cleared ?b ?e (pmem (board h))) ?h1)))"])
      (simp add: run_code.simps [of env l start_entry "''bss_done''"] start_code(3) set_reg_def with_mem_def
        cleared_def start_spins split: flow.split)
qed

text \<open>A bss of two double words.\<close>

definition boot_environment :: environment where
  "boot_environment =
     \<lparr>address_of = \<lambda>name. if name = ''__bss_start'' then 0x1000 else if name = ''__bss_end'' then 0x1010 else 0x9000,
      c_function = \<lambda>f h. Stop (Halted (board h)), environment_call = \<lambda>h. Stop (Halted (board h))\<rparr>"

theorem start_clears_bss_witness:
  "\<exists>s. run_code boot_environment Machine_level start_entry ''_start''
      \<lparr>xregs = \<lambda>_. 3, csr_stval = 0, board = reset_machine\<lparr>pmem := \<lambda>_. 7\<rparr>\<rparr> = Some (Stop (Halted s)) \<and>
    pmem s 0x1008 = 0 \<and> pmem s 0x1010 = 7"
  using start_clears_bss [of Machine_level "\<lparr>xregs = \<lambda>_. 3, csr_stval = 0, board = reset_machine\<lparr>pmem := \<lambda>_. 7\<rparr>\<rparr>"
      boot_environment]
  by (auto simp: bare_def boot_environment_def)

end
