(* ===== verification/Spec2Isabelle.thy ===== *)
theory Spec2Isabelle
  imports Fdt_Writers Boot_Correct User_Space Trap_Correct Assembly_Correct
begin

text \<open>
  The kernel boots a RISC-V hart in machine or supervisor mode (\<^verbatim>\<open>src/arch/riscv/boot\<close>,
  \<^verbatim>\<open>src/kernel/Machine.cpp\<close>, \<^verbatim>\<open>src/kernel/Supervisor.cpp\<close>), reads the memory range and the serial
  port from the device tree the firmware passes (\<^verbatim>\<open>src/utility/DTB.cpp\<close> on \<^verbatim>\<open>lib/libfdt\<close>), hands out
  physical pages from a bump allocator (\<^verbatim>\<open>src/kernel/PhysicalPageAllocator.cpp\<close>), builds its Sv39 page
  tables and turns them on (\<^verbatim>\<open>src/kernel/Paging.cpp\<close>), installs the trap vectors
  (\<^verbatim>\<open>src/kernel/Traps.cpp\<close>), lays out and loads one user program (\<^verbatim>\<open>src/kernel/ProcessMemory.cpp\<close>,
  \<^verbatim>\<open>src/kernel/ProcessLoader.cpp\<close>, \<^verbatim>\<open>src/kernel/User.cpp\<close>) and from then on serves its system calls
  (\<^verbatim>\<open>src/kernel/TrapHandler.cpp\<close>, \<^verbatim>\<open>src/kernel/Syscall.cpp\<close>) on the serial console
  (\<^verbatim>\<open>src/arch/riscv/UART.cpp\<close>).

  \<^bold>\<open>Conventions.\<close> Machine integers are words of their width; a C \<^verbatim>\<open>int\<close> is a 32-bit word compared with
  \<open><s\<close>, and its arithmetic wraps. Memory is a function from 64-bit addresses to bytes, pointers are
  addresses and the null pointer is 0. A function that writes through reference or pointer
  parameters returns the new values. The state of the hart is the record \<open>machine\<close> of theory \<open>Csr\<close>:
  physical memory, the control and status registers, the bytes the UART has sent and the polls it will
  answer, and the kernel's static variables. An operation that may stop the hart returns an
  \<open>outcome\<close>: \<open>Done\<close>, \<open>Halted\<close> (the panic loop), \<open>Waiting\<close> (polling a device that never answers) or
  \<open>Fault\<close> (an access the page tables refuse). A loop that ends on all inputs is a \<open>function\<close> with a
  measure; a search without a bound is a \<open>partial_function (option)\<close> whose \<open>None\<close> is the endless
  run. There is no fuel.

  \<^bold>\<open>Theories.\<close>
  \<^item> \<open>Prelude\<close>: types, word arithmetic, page and flag lemmas, little-endian memory.
  \<^item> \<open>Csr\<close>: \<^verbatim>\<open>include/utility/CSR.hpp\<close>, \<^verbatim>\<open>src/utility/CSR.cpp\<close>.
  \<^item> \<open>Allocator\<close>: the page allocator; the pages of any sequence of requests are fresh and disjoint.
  \<^item> \<open>Paging\<close>: \<^verbatim>\<open>Paging.cpp\<close>, both copies of each routine over one definition that takes the
    physical-to-pointer translation as an argument. \<open>Paging_Tables\<close>, \<open>Paging_Correct\<close>,
    \<open>Paging_Range\<close>, \<open>Paging_View\<close>: the tree invariant \<open>pt_inv\<close>, the abstract map \<open>pt_lookup\<close>
    the operations refine, ranges, and the equality of the two copies. \<open>Mmu\<close>: the page walk of
    the privileged architecture, the specification the tables are checked against. \<open>Paging_Init\<close>: the
    kernel's regions; how many pages are enough.
  \<^item> \<open>Memlib\<close>: \<^verbatim>\<open>src/utility/memory.cpp\<close>. \<open>Uart\<close>: the driver, \<^verbatim>\<open>printHex.cpp\<close>, \<^verbatim>\<open>Debug.hpp\<close>,
    \<^verbatim>\<open>panic.cpp\<close>.
  \<^item> \<open>Process\<close>: layout and loader; \<open>Process_Correct\<close>, \<open>Process_Layout\<close>, \<open>Process_Load\<close>,
    \<open>Process_Total\<close>: the bytes of every page, the permissions, and how many pages are enough.
    \<open>User\<close>: the user task. \<open>User_Space\<close>: the composition of boot tables, loader and page walk.
  \<^item> \<open>Syscall\<close>, \<open>Trap\<close>: system calls and traps; \<open>Syscall_Correct\<close>, \<open>Trap_Correct\<close>: their
    functional behaviour (the line editor, the bytes sent and copied), errors and faults.
  \<^item> \<open>Fdt\<close>, \<open>Fdt_Walk\<close>, \<open>Fdt_Read\<close>, \<open>Fdt_Tree\<close>, \<open>Fdt_Search\<close>, \<open>Fdt_Edit\<close>: libfdt's
    walk, reading, searches and changes in place. \<open>Fdt_Sw\<close>, \<open>Fdt_Rw\<close>: writing a tree front to back
    and changing a complete one. \<open>Fdt_Overlay\<close>: applying an overlay, a second blob that does not
    overlap the base tree. A string or a value the C code passes by pointer to a function that changes
    the tree is the list of its bytes. \<open>Dtb\<close>: what the kernel takes from the tree.
  \<^item> \<open>Fdt_Correct\<close>: byte order, bounds, the order of the walk, and the locale \<open>node_search\<close>, the
    interface of every search over the nodes, interpreted for each of them. \<open>Fdt_Frame\<close>: which bytes a
    store, a copy or a header field changes. \<open>Fdt_Sw_Correct\<close>: the states of the sequential writer
    and what each call keeps of them. \<open>Fdt_Rw_Correct\<close>: the blocks of a tree in its buffer and what the
    splices and each change keep of them. \<open>Fdt_Inplace\<close>: the walk over a tree in which one value has
    changed.
  \<^item> \<open>Assembly\<close>: the assembler sources as lists of instructions under their labels and the meaning of
    those instructions, with the linker's symbols, the C++ functions they call and the system calls of
    the user program as arguments; \<open>Assembly_Correct\<close>: what they do with the registers, the frames and
    the bss, composed with the C++ handlers of \<open>Trap\<close> and the context of \<open>User\<close>.
  \<^item> \<open>Boot\<close>: \<^verbatim>\<open>machine_main\<close>, \<^verbatim>\<open>supervisor_main\<close> and the paging self-tests.
  \<^item> \<open>Example\<close>, \<open>Blob\<close>: a concrete board and a concrete device tree, at which the properties are
    applied.

  \<^bold>\<open>Properties.\<close> The numbered properties of this theory follow the boot: the page tables, the
  allocator, the loaded program, its confinement and the way around it; those of \<open>Trap_Correct\<close> are
  about traps and system calls, those of \<open>Assembly_Correct\<close> about the assembler routines, those of
  \<open>Fdt_Properties\<close> about reading the device tree, those of \<open>Boot_Correct\<close> about the two main
  functions, and those of \<open>Fdt_Writers\<close> about writing, changing and overlaying a tree.
  The safety of the writers has bounds the code does not check and the properties state: names of
  properties below 48 bytes for the sequential writer and below 40 for changes, lengths that fit an
  \<^verbatim>\<open>int\<close> with the tags around them, a list of reservations that has an end.
  \<^verbatim>\<open>fdt_pack\<close>, \<^verbatim>\<open>fdt_open_into\<close>, \<^verbatim>\<open>fdt_move\<close> and \<^verbatim>\<open>fdt_resize\<close> are modelled and
  no property is about them: the first two take the error of \<^verbatim>\<open>fdt_num_mem_rsv\<close> for a count.

  \<^bold>\<open>Not modelled.\<close> The build files; the linker's symbols are parameters. The fetch of instructions:
  the assembler routines run as they are assembled, and the processor's own part of a trap is
  \<open>take_trap\<close>. Caches, the TLB and interrupts are not part of the machine: \<^verbatim>\<open>sfence.vma\<close> has no effect
  on it.
\<close>

section \<open>Turning paging on\<close>

text \<open>
  C1. When \<^verbatim>\<open>paging_init\<close> returns true, the root it returns is the direct-map pointer of an intact
  Sv39 tree whose physical address is in \<open>satp\<close>; the tree maps every page of the kernel's sections,
  the UART, the device tree and RAM with that region's permissions and maps nothing else; and
  memory outside the tables, which are fresh pages of the allocator, has not changed.
\<close>

theorem paging_init_maps_kernel:
  assumes "allocator_ok al" and "paging_init L al platform s = (True, root, al', s')"
  shows "\<exists>lab r. root = phys_to_virt r \<and>
    kernel_tables L platform (unat (al_current al)) lab r al' s' \<and>
    unat (al_current al') \<le> unat (al_end al) \<and>
    (\<forall>a. (\<forall>t. lab t \<noteq> None \<longrightarrow> page_of a \<noteq> page_of t) \<longrightarrow> pmem s' a = pmem s a)"
  by (rule paging_init_success [OF assms]) (auto simp: pt_ext_def)

theorem paging_init_maps_kernel_witness:
  "\<exists>root al' s' lab r. paging_init virt_layout virt_pages virt_platform reset_machine =
     (True, root, al', s') \<and> root = phys_to_virt r \<and>
     kernel_tables virt_layout virt_platform (unat (al_current virt_pages)) lab r al' s'"
proof -
  obtain root al' s' where run:
    "paging_init virt_layout virt_pages virt_platform reset_machine = (True, root, al', s')"
    by (rule virt_init_runs)
  with paging_init_maps_kernel [OF virt_pages_ok run] show ?thesis by blast
qed

text \<open>
  C2. No page of the kernel's tables is both writable and executable, and none is accessible to
  user mode: every mapping \<^verbatim>\<open>paging_init\<close> makes is W xor X and supervisor-only.
\<close>

theorem paging_init_write_xor_execute:
  assumes "allocator_ok al" and "paging_init L al platform s = (True, root, al', s')"
    and "pt_lookup (pmem s') (virt_to_phys root) va = Some e"
  shows "\<not> (e AND PTE_W \<noteq> 0 \<and> e AND PTE_X \<noteq> 0) \<and> e AND PTE_U = 0"
proof -
  obtain lab r where tables: "kernel_tables L platform (unat (al_current al)) lab r al' s'"
    and "root = phys_to_virt r"
    by (rule paging_init_success [OF assms(1,2)])
  with assms(3) have "pt_lookup (pmem s') r va = Some e" by simp
  with tables show ?thesis
    by (rule region_entry) (use region_flags in \<open>fastforce simp: and_flag_iff and_flag_zero leaf_pte_low\<close>)
qed

theorem paging_init_write_xor_execute_witness:
  "\<exists>root al' s' e. paging_init virt_layout virt_pages virt_platform reset_machine =
     (True, root, al', s') \<and> pt_lookup (pmem s') (virt_to_phys root) 0x80000000 = Some e \<and>
     e AND PTE_U = 0"
proof -
  obtain root al' s' where run:
    "paging_init virt_layout virt_pages virt_platform reset_machine = (True, root, al', s')"
    by (rule virt_init_runs)
  obtain e where "pt_lookup (pmem s') (virt_to_phys root) 0x80000000 = Some e"
    by (rule virt_text_mapped [OF run])
  with run paging_init_write_xor_execute [OF virt_pages_ok run this] show ?thesis by blast
qed

text \<open>
  C3. After \<^verbatim>\<open>paging_init\<close> the processor's own page walk, starting from the value in \<open>satp\<close>,
  translates every address of a mapped region to its physical address for exactly the accesses the
  region allows, and faults on the others.
\<close>

theorem paging_init_translates:
  assumes "allocator_ok al" and "paging_init L al platform s = (True, root, al', s')"
    and "(vs, ps, sz, flags) \<in> set (kernel_regions L platform)"
    and "page_aligned vs" "page_aligned ps"
    and "unat ps + unat (align_up sz PAGE_SIZE) \<le> 2 ^ 56"
    and "x < align_up sz PAGE_SIZE" "sv39_canonical (vs + x)"
  shows "mmu_translate s' SupervisorMode acc (vs + x) =
    (if region_allows flags acc then Some (ps + x) else None)"
  by (rule paging_init_success [OF assms(1,2)]) (rule region_translate [OF _ assms(3-8)])

theorem paging_init_translates_witness:
  "\<exists>root al' s'. paging_init virt_layout virt_pages virt_platform reset_machine =
     (True, root, al', s') \<and>
     mmu_translate s' SupervisorMode FetchAccess (0x80000000 + 0x1234) = Some 0x80001234 \<and>
     mmu_translate s' SupervisorMode StoreAccess (0x80000000 + 0x1234) = None"
proof -
  obtain root al' s' where run:
    "paging_init virt_layout virt_pages virt_platform reset_machine = (True, root, al', s')"
    by (rule virt_init_runs)
  have "(0x80000000, 0x80000000, 0x8000, PTE_R OR PTE_X) \<in>
      set (kernel_regions virt_layout virt_platform)"
    by (simp add: kernel_regions_def Let_def virt_layout_def)
  from paging_init_translates [OF virt_pages_ok run this, of "0x1234"] run show ?thesis
    by (simp add: page_aligned_def align_up_def sv39_canonical_def drop_bit_eq_div
        region_allows_def pte_flag_values)
qed

text \<open>
  C4. \<^verbatim>\<open>paging_init\<close> succeeds whenever the regions do not overlap in the virtual space and the
  allocator has room for one root and the tables of each region; that count is computed from the
  layout, so enough memory is enough.
\<close>

theorem paging_init_succeeds:
  assumes "allocator_ok al"
    and "\<forall>R \<in> set (kernel_regions L platform). region_ok R"
    and "sorted_wrt regions_apart (kernel_regions L platform)"
    and "unat (al_current al) +
      4096 * (1 + sum_list (map region_tables (kernel_regions L platform))) \<le> unat (al_end al)"
  shows "fst (paging_init L al platform s)"
  using assms by (rule paging_init_enough(1))

theorem paging_init_succeeds_witness:
  "fst (paging_init virt_layout virt_pages virt_platform reset_machine)"
  by (rule paging_init_succeeds [OF virt_pages_ok virt_regions_ok virt_regions_apart virt_room])

section \<open>Mapping and looking up\<close>

text \<open>
  C5. \<^verbatim>\<open>paging_map_early\<close> refines a partial function from virtual pages to entries: it succeeds only
  on an unmapped page and is then one update of the function, and when it fails (a mapped page, an
  exhausted allocator) the function is unchanged although tables may have been added. The tree
  stays intact and only table pages are written.
\<close>

theorem paging_map_early_refines:
  assumes "pt_inv lab lo al m r" and "page_aligned va" "page_aligned pa"
  shows "case paging_map_early r va pa flags al m of (ok, al', m') \<Rightarrow>
    (\<exists>lab'. pt_inv lab' lo al' m' r \<and> pt_ext lab al m lab' al' m') \<and>
    (if ok then pt_lookup m r va = None \<and>
                pt_lookup m' r = spec_map (pt_lookup m r) va (leaf_pte pa flags)
     else pt_lookup m' r = pt_lookup m r)"
proof -
  obtain ok al' m' where run: "paging_map_early r va pa flags al m = (ok, al', m')"
    by (cases "paging_map_early r va pa flags al m")
  show ?thesis
    by (rule paging_map_early_step [OF assms run]) (auto simp: run)
qed

theorem paging_map_early_refines_witness:
  "case paging_map_early virt_root 0x400000 0x80200000 PTE_R virt_pages (\<lambda>_. 0) of (ok, al', m') \<Rightarrow>
    (if ok then pt_lookup m' virt_root = spec_map Map.empty 0x400000 (leaf_pte 0x80200000 PTE_R)
     else pt_lookup m' virt_root = Map.empty)"
  using paging_map_early_refines [OF virt_root_inv, of "0x400000" "0x80200000" PTE_R]
  by (auto simp: page_aligned_def split: if_splits)

text \<open>
  C6. \<^verbatim>\<open>paging_map_range_early\<close> on page-aligned starts maps every page of the rounded size at
  consecutive physical pages or reports failure; on success all of them were unmapped before; on
  failure and on success nothing that was mapped is changed, and pages outside the range stay as
  they were.
\<close>

theorem paging_map_range_early_maps:
  assumes "pt_inv lab lo al m r" and "page_aligned vs" "page_aligned ps"
  shows "case paging_map_range_early r vs ps sz flags al m of (ok, al', m') \<Rightarrow>
    (\<exists>lab'. pt_inv lab' lo al' m' r \<and> pt_ext lab al m lab' al' m') \<and>
    pt_lookup m r \<subseteq>\<^sub>m pt_lookup m' r \<and>
    (ok \<longrightarrow> range_mapped (pt_lookup m r) (pt_lookup m' r) vs ps sz flags 0) \<and>
    (\<forall>va. (\<forall>d. in_range 0 sz d \<longrightarrow> vpage va \<noteq> vpage (vs + d)) \<longrightarrow>
       pt_lookup m' r va = pt_lookup m r va)"
proof -
  obtain ok al' m' where run: "paging_map_range_early r vs ps sz flags al m = (ok, al', m')"
    by (cases "paging_map_range_early r vs ps sz flags al m")
  from paging_map_range_early_correct [OF assms run] show ?thesis
    by (auto simp: run)
qed

theorem paging_map_range_early_maps_witness:
  "case paging_map_range_early virt_root 0x400000 0x80200000 0x1800 PTE_R virt_pages (\<lambda>_. 0) of
     (ok, al', m') \<Rightarrow>
       ok \<longrightarrow> pt_lookup m' virt_root (0x400000 + 0x1000) = Some (leaf_pte (0x80200000 + 0x1000) PTE_R)"
proof -
  have "in_range 0 0x1800 0x1000"
    by (simp add: in_range_def page_aligned_def align_up_def)
  with paging_map_range_early_maps [OF virt_root_inv, of "0x400000" "0x80200000" "0x1800" PTE_R]
  show ?thesis
    by (auto simp: page_aligned_def range_mapped_def)
qed

text \<open>
  A range of unmapped pages is mapped whenever the allocator still has the table pages it can
  need: at most two for its first page, then one at every two-megabyte and one at every
  one-gigabyte boundary. The same bound limits the pages taken.
\<close>

lemma paging_map_range_early_succeeds:
  assumes "pt_inv lab lo al m r" and "region_ok (vs, ps, sz, flags)"
    and "\<forall>d. in_range 0 sz d \<longrightarrow> pt_lookup m r (vs + d) = None"
    and "unat (al_current al) + 4096 * region_tables (vs, ps, sz, flags) \<le> unat (al_end al)"
  shows "case paging_map_range_early r vs ps sz flags al m of (ok, al', m') \<Rightarrow>
    ok \<and> unat (al_current al') \<le> unat (al_current al) + 4096 * region_tables (vs, ps, sz, flags)"
  using map_range_total [OF assms(2,1) _ assms(4)] assms(3)
  by (cases "paging_map_range_early r vs ps sz flags al m") blast

text \<open>
  C8. The two copies of the paging code agree: with paging on, \<^verbatim>\<open>paging_map\<close>,
  \<^verbatim>\<open>paging_map_range\<close> and \<^verbatim>\<open>paging_query\<close> on the direct-map pointer of a root compute what the early
  versions compute on its physical address, as long as the processor translates the direct-map
  addresses of the tables and the free pages to their physical addresses (which C3 gives for
  kernel mode).
\<close>

theorem paging_copies_agree:
  assumes "direct_map tr lo hi" and "pt_inv lab lo al m r"
    and "unat (al_end al) \<le> hi" "unat (al_current al) \<le> hi" and "page_aligned va" "page_aligned pa"
  shows "paging_map tr (phys_to_virt r) va pa flags al m = paging_map_early r va pa flags al m \<and>
    paging_map_range tr (phys_to_virt r) va pa sz flags al m =
      paging_map_range_early r va pa sz flags al m \<and>
    paging_query tr (phys_to_virt r) va' m = paging_query_early r va' m"
  using paging_map_late [OF assms(1-4)] paging_map_range_late [OF assms]
    paging_query_late [OF assms(1,2,4)] by simp

theorem paging_copies_agree_witness:
  "paging_map virt_to_phys (phys_to_virt virt_root) 0x400000 0x80200000 PTE_R virt_pages (\<lambda>_. 0) =
   paging_map_early virt_root 0x400000 0x80200000 PTE_R virt_pages (\<lambda>_. 0)"
  using paging_copies_agree [OF virt_to_phys_direct virt_root_inv, of "0x400000" "0x80200000" PTE_R]
  by (simp add: page_aligned_def virt_pages_def)

text \<open>
  Mapping then querying gives back what was mapped: after a successful \<^verbatim>\<open>paging_map_early\<close>,
  \<^verbatim>\<open>paging_query_early\<close> of any address of the page returns true with the physical page plus the
  page offset, and the flags with V, A and D added.
\<close>

lemma paging_query_after_map:
  assumes "pt_inv lab lo al m r" and "page_aligned va" "page_aligned pa"
    and "unat pa < 2 ^ 56" "unat flags < 1024" "pte_is_leaf flags" and "vpage va' = vpage va"
    and "paging_map_early r va pa flags al m = (True, al', m')"
  shows "paging_query_early r va' m' = (True, pa + take_bit 12 va', flags OR PTE_V OR PTE_A OR PTE_D)"
proof -
  have "pt_lookup m' r va' = Some (leaf_pte pa flags)"
    by (rule paging_map_early_step [OF assms(1-3,8)]) (simp add: spec_map_def assms(7))
  with pt_inv_root_nonnull [OF assms(1)] assms(3-6) show ?thesis
    by (intro query_leaf_pte)
qed

section \<open>Physical pages\<close>

text \<open>
  C10. The pages of any sequence of requests to \<^verbatim>\<open>physical_alloc_page\<close> are page-aligned, lie between
  the first free page and the end of memory, and do not overlap.
\<close>

theorem physical_pages_disjoint:
  assumes "allocator_ok al"
  shows "sorted_wrt (\<lambda>p q. unat p + 4096 \<le> unat q) (alloc_many physical_alloc_page n al) \<and>
    (\<forall>p \<in> set (alloc_many physical_alloc_page n al).
       page_aligned p \<and> unat (al_current al) \<le> unat p \<and> unat p + 4096 \<le> unat (al_end al))"
  using pages.alloc_many_sorted [OF assms] pages.alloc_many_range [OF assms] by blast

theorem physical_pages_disjoint_witness:
  "sorted_wrt (\<lambda>p q. unat p + 4096 \<le> unat q) (alloc_many physical_alloc_page 3 virt_pages)"
  using physical_pages_disjoint [OF virt_pages_ok] by blast

section \<open>The first process\<close>

text \<open>
  C11. Whatever image the linker put into the kernel's data section, the task that
  \<^verbatim>\<open>user_task_init\<close> starts on the tables of \<^verbatim>\<open>paging_init\<close> begins at the first byte of that
  image: user mode fetches exactly the image's bytes from the text area and cannot store to them,
  the stack pointer is the top of the user area, the two arguments are in \<open>a0\<close> and \<open>a1\<close>, and the
  status makes \<^verbatim>\<open>sret\<close> go to user mode with interrupts off until then.
\<close>

theorem user_task_runs_image:
  assumes "boot_memory L platform al us ue" and "unat (ue - us) \<le> 2 ^ 37"
    and "paging_init L al platform s = (True, root, al1, s1)"
    and "user_task_init (kernel_view s1) us ue root al1 hartid dtb s1 = Done ctx s2"
  shows "uc_epc ctx = USER_TEXT_START \<and> uc_sp ctx = USER_STACK_TOP \<and>
    uc_a0 ctx = hartid \<and> uc_a1 ctx = dtb \<and>
    \<not> bit (uc_status ctx) 8 \<and> bit (uc_status ctx) 5 \<and> \<not> bit (uc_status ctx) 1 \<and>
    (\<forall>i < ue - us.
       (\<exists>pa. mmu_translate s2 UserMode FetchAccess (USER_TEXT_START + i) = Some pa \<and>
          pmem s2 pa = pmem s1 (us + i)) \<and>
       mmu_translate s2 UserMode StoreAccess (USER_TEXT_START + i) = None)"
proof -
  obtain ok prog al2 m2 where load: "process_load_initial_user_program (kernel_view s1) us ue root al1
      \<lparr>pg_entry = 0, pg_stack_top = 0\<rparr> (pmem s1) = (ok, prog, al2, m2)"
    by (cases "process_load_initial_user_program (kernel_view s1) us ue root al1
      \<lparr>pg_entry = 0, pg_stack_top = 0\<rparr> (pmem s1)")
  with assms(4) have ok: ok and s2: "s2 = s1\<lparr>pmem := m2\<rparr>"
    and ctx: "ctx = user_context_init (pg_entry prog) (pg_stack_top prog) hartid dtb s2"
    by (auto simp: user_task_init_unfold split: if_splits)
  have small: "unat (ue - us) \<le> 2 ^ 38" using assms(2) by simp
  show ?thesis
  proof (rule load_on_kernel_tables [OF assms(1) small assms(3) load])
    fix lab r lab'
    assume tables: "kernel_tables L platform (unat (al_current al)) lab r al1 s1"
      and st: "proc_state (unat (al_current al1)) (unat (al_current al)) r lab al1 (pmem s1) lab' al2 m2"
      and loaded: "ok \<Longrightarrow> prog = \<lparr>pg_entry = USER_TEXT_START, pg_stack_top = USER_STACK_TOP\<rparr> \<and>
        (\<forall>i < ue - us. user_byte m2 r (USER_TEXT_START + i) = Some (pmem s1 (us + i)) \<and>
          (\<exists>p. pt_lookup m2 r (USER_TEXT_START + i) = Some (leaf_pte p (PTE_R OR PTE_X OR PTE_U)) \<and>
             unat p < 2 ^ 56))"
    have inv: "pt_inv lab' (unat (al_current al)) al2 (pmem s2) r" and satp: "csr_satp s2 = make_satp_sv39 r"
      using st tables by (simp_all add: proc_state_def kernel_tables_def s2)
    have "(\<exists>pa. mmu_translate s2 UserMode FetchAccess (USER_TEXT_START + i) = Some pa \<and>
          pmem s2 pa = pmem s1 (us + i)) \<and>
        mmu_translate s2 UserMode StoreAccess (USER_TEXT_START + i) = None" if "i < ue - us" for i
    proof -
      have "unat i < 2 ^ 37" using that assms(2) by (simp add: word_less_nat_alt)
      with loaded [OF ok] that show ?thesis
        using user_text_access [OF inv satp] by (fastforce simp: s2)
    qed
    with ctx loaded [OF ok] show ?thesis
      by (simp add: user_context_init_facts)
  qed
qed

theorem user_task_runs_image_witness:
  "\<exists>root al1 s1 ctx s2. paging_init virt_layout virt_pages virt_platform reset_machine = (True, root, al1, s1) \<and>
     user_task_init (kernel_view s1) virt_image_start virt_image_end root al1 7 0x80100000 s1 = Done ctx s2 \<and>
     uc_epc ctx = 0x400000 \<and> uc_a0 ctx = 7 \<and>
     (\<exists>pa. mmu_translate s2 UserMode FetchAccess 0x400004 = Some pa \<and>
        pmem s2 pa = pmem s1 (virt_image_start + 4))"
proof -
  obtain root al1 s1 where init:
    "paging_init virt_layout virt_pages virt_platform reset_machine = (True, root, al1, s1)"
    by (rule virt_init_runs)
  from virt_task_starts [OF init, of 7 "0x80100000"] obtain ctx s2 where
    "user_task_init (kernel_view s1) virt_image_start virt_image_end root al1 7 0x80100000 s1 = Done ctx s2"
    by blast
  from init this user_task_runs_image [OF virt_boot_memory _ init this] show ?thesis
    by (fastforce simp: virt_image_start_def virt_image_end_def USER_TEXT_START_def
        USER_CODE_VIRTUAL_BASE_def dest: spec [of _ 4])
qed

text \<open>
  C12. User mode is confined: once \<^verbatim>\<open>process_load_initial_user_program\<close> has run, whether it
  succeeded or failed half way, every address user mode can reach by any access is in a page the
  allocator handed out after \<^verbatim>\<open>paging_init\<close>, and none of them belongs to a page table.
\<close>

theorem user_mode_confined:
  assumes "boot_memory L platform al us ue" and "unat (ue - us) \<le> 2 ^ 38"
    and "paging_init L al platform s = (True, root, al1, s1)"
    and "process_load_initial_user_program (kernel_view s1) us ue root al1 prog (pmem s1) =
      (ok, prog', al2, m2)"
  shows "\<exists>lab. pt_inv lab (unat (al_current al)) al2 m2 (virt_to_phys root) \<and>
    (\<forall>acc va pa. mmu_translate (s1\<lparr>pmem := m2\<rparr>) UserMode acc va = Some pa \<longrightarrow>
       al_current al1 \<le> pa \<and> pa < al_current al2 \<and> \<not> table_byte lab pa)"
proof (rule load_on_kernel_tables [OF assms])
  fix lab r lab'
  assume tables: "kernel_tables L platform (unat (al_current al)) lab r al1 s1" and "root = phys_to_virt r"
    and st: "proc_state (unat (al_current al1)) (unat (al_current al)) r lab al1 (pmem s1) lab' al2 m2"
  let ?s = "s1\<lparr>pmem := m2\<rparr>"
  have "pt_inv lab' (unat (al_current al)) al2 (pmem ?s) r" "csr_satp ?s = make_satp_sv39 r"
    "user_ok (unat (al_current al1)) lab' al2 (pmem ?s) r"
    using st tables by (simp_all add: proc_state_def kernel_tables_def)
  with user_reach [OF this(1,3,2)] \<open>root = phys_to_virt r\<close> show ?thesis
    by (auto simp: word_le_nat_alt word_less_nat_alt intro!: exI [of _ lab'])
qed

theorem user_mode_confined_witness:
  "\<exists>root al1 s1 ok prog al2 m2.
     paging_init virt_layout virt_pages virt_platform reset_machine = (True, root, al1, s1) \<and>
     process_load_initial_user_program (kernel_view s1) virt_image_start virt_image_end root al1
       \<lparr>pg_entry = 0, pg_stack_top = 0\<rparr> (pmem s1) = (ok, prog, al2, m2) \<and>
     (\<forall>acc va pa. mmu_translate (s1\<lparr>pmem := m2\<rparr>) UserMode acc va = Some pa \<longrightarrow> al_current al1 \<le> pa)"
proof -
  obtain root al1 s1 where init:
    "paging_init virt_layout virt_pages virt_platform reset_machine = (True, root, al1, s1)"
    by (rule virt_init_runs)
  obtain ok prog al2 m2 where load: "process_load_initial_user_program (kernel_view s1) virt_image_start
      virt_image_end root al1 \<lparr>pg_entry = 0, pg_stack_top = 0\<rparr> (pmem s1) = (ok, prog, al2, m2)"
    by (metis prod.exhaust)
  from init load user_mode_confined [OF virt_boot_memory _ init load] show ?thesis
    by (auto simp: virt_image_start_def virt_image_end_def)
qed

text \<open>
  C13. Loading a program leaves the kernel alone: every address the kernel can access keeps its
  translation, and no byte below the pages of the tables and of the program (the kernel's image,
  its data and the device tree) changes.
\<close>

theorem user_load_keeps_kernel:
  assumes "boot_memory L platform al us ue" and "unat (ue - us) \<le> 2 ^ 38"
    and "paging_init L al platform s = (True, root, al1, s1)"
    and "process_load_initial_user_program (kernel_view s1) us ue root al1 prog (pmem s1) =
      (ok, prog', al2, m2)"
  shows "(\<forall>acc va pa. mmu_translate s1 SupervisorMode acc va = Some pa \<longrightarrow>
      mmu_translate (s1\<lparr>pmem := m2\<rparr>) SupervisorMode acc va = Some pa) \<and>
    (\<forall>a. a < al_current al \<longrightarrow> m2 a = pmem s1 a)"
proof (rule load_on_kernel_tables [OF assms])
  fix lab r lab'
  assume tables: "kernel_tables L platform (unat (al_current al)) lab r al1 s1"
    and st: "proc_state (unat (al_current al1)) (unat (al_current al)) r lab al1 (pmem s1) lab' al2 m2"
  have inv: "pt_inv lab (unat (al_current al)) al1 (pmem s1) r" "csr_satp s1 = make_satp_sv39 r"
    using tables by (simp_all add: kernel_tables_def)
  have st': "pt_inv lab' (unat (al_current al)) al2 m2 r" "pt_lookup (pmem s1) r \<subseteq>\<^sub>m pt_lookup m2 r"
    "proc_ext lab al1 (pmem s1) lab' al2 m2"
    using st by (simp_all add: proc_state_def)
  have "m2 a = pmem s1 a" if "a < al_current al" for a
    using st'(3) below_tables [OF inv(1)] pt_inv_floor [OF inv(1)] that
    unfolding proc_ext_def word_less_nat_alt by (meson leD less_le_trans)
  with mmu_translate_mono [OF inv(1) st'(1) inv(2) st'(2)] show ?thesis
    by blast
qed

theorem user_load_keeps_kernel_witness:
  "\<exists>root al1 s1 ok prog al2 m2.
     paging_init virt_layout virt_pages virt_platform reset_machine = (True, root, al1, s1) \<and>
     process_load_initial_user_program (kernel_view s1) virt_image_start virt_image_end root al1
       \<lparr>pg_entry = 0, pg_stack_top = 0\<rparr> (pmem s1) = (ok, prog, al2, m2) \<and>
     m2 0x80000000 = pmem s1 0x80000000"
proof -
  obtain root al1 s1 where init:
    "paging_init virt_layout virt_pages virt_platform reset_machine = (True, root, al1, s1)"
    by (rule virt_init_runs)
  obtain ok prog al2 m2 where load: "process_load_initial_user_program (kernel_view s1) virt_image_start
      virt_image_end root al1 \<lparr>pg_entry = 0, pg_stack_top = 0\<rparr> (pmem s1) = (ok, prog, al2, m2)"
    by (metis prod.exhaust)
  from init load user_load_keeps_kernel [OF virt_boot_memory _ init load] show ?thesis
    by (auto simp: virt_image_start_def virt_image_end_def virt_pages_def)
qed

text \<open>
  C14. The boot does not fail for want of a page when the regions keep clear of each other and of the
  user area and memory has room for the tables and for three pages per page of the program, its bss
  and its stack: then \<^verbatim>\<open>paging_init\<close> succeeds and \<^verbatim>\<open>user_task_init\<close> reaches user mode.
\<close>

theorem boot_reaches_user_mode:
  assumes "boot_memory L platform al us ue" and "unat (ue - us) \<le> 2 ^ 38"
    and "layout_fits (ue - us) 0 0 PAGE_SIZE USER_STACK_SIZE"
    and "\<forall>R \<in> set (kernel_regions L platform). clear_of_user (ue - us) R"
    and "sorted_wrt regions_apart (kernel_regions L platform)"
    and "unat (al_current al) +
      4096 * (1 + sum_list (map region_tables (kernel_regions L platform))) +
      3 * rounded (ue - us) + 24576 \<le> unat (al_end al)"
  shows "\<exists>root al1 s1 ctx s2. paging_init L al platform s = (True, root, al1, s1) \<and>
    user_task_init (kernel_view s1) us ue root al1 hartid dtb s1 = Done ctx s2"
proof -
  obtain root al1 s1 where init: "paging_init L al platform s = (True, root, al1, s1)"
    and room: "unat (al_current al1) + 3 * rounded (ue - us) + 24576 \<le> unat (al_end al1)"
    by (rule init_leaves_room [OF assms(1,4-6)])
  have "fst (process_load_initial_user_program (kernel_view s1) us ue root al1
      \<lparr>pg_entry = 0, pg_stack_top = 0\<rparr> (pmem s1))"
    by (rule load_enough [OF assms(1-3) init assms(4) room])
  with init show ?thesis
    by (auto simp: user_task_init_unfold split: prod.split)
qed

theorem boot_reaches_user_mode_witness:
  "\<exists>root al1 s1 ctx s2. paging_init virt_layout virt_pages virt_platform reset_machine = (True, root, al1, s1) \<and>
     user_task_init (kernel_view s1) virt_image_start virt_image_end root al1 0 0x80100000 s1 = Done ctx s2"
  by (rule boot_reaches_user_mode [OF virt_boot_memory virt_image_small virt_image_fits virt_clear
        virt_regions_apart virt_user_room])

section \<open>System calls and the kernel's memory\<close>

text \<open>Permission to touch user pages takes nothing away from the kernel.\<close>

lemma mmu_translate_sum:
  assumes "mmu_translate s SupervisorMode acc va = Some pa" "acc \<noteq> FetchAccess"
  shows "mmu_translate (s\<lparr>csr_sstatus := csr_sstatus s OR SSTATUS_SUM\<rparr>) SupervisorMode acc va = Some pa"
proof -
  have "bit (csr_sstatus s OR SSTATUS_SUM) 18" by (simp add: SSTATUS_SUM_def bit_or_iff bit_push_bit_iff)
  with assms show ?thesis
    by (auto simp: mmu_translate_def Let_def access_allowed_def split: if_splits option.splits)
qed

text \<open>
  C9. Confinement ends at the system calls: \<^verbatim>\<open>copy_from_user\<close> and \<^verbatim>\<open>copy_to_user\<close> refuse no pointer but
  null, and the kernel's own pages are mapped while they run. At an address of the kernel's memory that
  user mode cannot access in any way, \<^verbatim>\<open>write\<close> sends the kernel's byte to the console, and where the
  kernel can store, \<^verbatim>\<open>copy_to_user\<close>, which \<^verbatim>\<open>read\<close> calls with the line it has read, overwrites it.
\<close>

theorem syscalls_reach_kernel_memory:
  assumes "boot_memory L platform al us ue" and "unat (ue - us) \<le> 2 ^ 38"
    and "paging_init L al platform s = (True, root, al1, s1)"
    and "process_load_initial_user_program (kernel_view s1) us ue root al1 prog (pmem s1) =
      (ok, prog', al2, m2)"
    and "mmu_translate s1 SupervisorMode LoadAccess va = Some pa" "va \<noteq> 0" "pa < al_current al"
  shows "let s2 = s1\<lparr>pmem := m2\<rparr>; b = pmem s1 pa in
    (\<forall>acc. mmu_translate s2 UserMode acc va = None) \<and>
    syscall_write 1 va 1 s2 = Done 1 (if b = 0 then s2 else sends [b] s2) \<and>
    (mmu_translate s1 SupervisorMode StoreAccess va = Some pa \<longrightarrow>
      copy_to_user va (Some [c]) 1 s2 = Done True (s2\<lparr>pmem := m2(pa := c)\<rparr>))"
proof (rule load_on_kernel_tables [OF assms(1-4)])
  fix lab r lab'
  assume tables: "kernel_tables L platform (unat (al_current al)) lab r al1 s1"
    and st: "proc_state (unat (al_current al1)) (unat (al_current al)) r lab al1 (pmem s1) lab' al2 m2"
  let ?s = "s1\<lparr>pmem := m2\<rparr>"
  have inv: "pt_inv lab (unat (al_current al)) al1 (pmem s1) r" "csr_satp s1 = make_satp_sv39 r"
    using tables by (simp_all add: kernel_tables_def)
  have st': "pt_inv lab' (unat (al_current al)) al2 m2 r" "pt_lookup (pmem s1) r \<subseteq>\<^sub>m pt_lookup m2 r"
    "proc_ext lab al1 (pmem s1) lab' al2 m2" "user_ok (unat (al_current al1)) lab' al2 m2 r"
    using st by (simp_all add: proc_state_def)
  note keeps = mmu_translate_mono [OF inv(1) st'(1) inv(2) st'(2)]
  have same: "m2 pa = pmem s1 pa"
    using st'(3) below_tables [OF inv(1)] pt_inv_floor [OF inv(1)] assms(7)
    unfolding proc_ext_def word_less_nat_alt by (meson leD less_le_trans)
  have "mmu_translate ?s UserMode acc va = None" for acc
  proof -
    from assms(5) obtain e where e: "pt_lookup (pmem s1) r va = Some e"
      by (auto simp: mmu_translate_lookup [OF inv] split: if_splits option.splits)
    with kernel_tables_no_user [OF tables] have "\<not> bit e 4" by (auto simp: user_entry_def)
    moreover from e st'(2) have "pt_lookup m2 r va = Some e" by (metis domI map_le_def)
    then have "pt_lookup (pmem ?s) r va = Some e" by simp
    moreover have "pt_inv lab' (unat (al_current al)) al2 (pmem ?s) r" "csr_satp ?s = make_satp_sv39 r"
      using st'(1) inv(2) by simp_all
    ultimately show ?thesis by (auto simp: mmu_translate_lookup access_allowed_def)
  qed
  moreover have "user_load ?s (va + of_nat k) = Some (pmem s1 pa)" if "k < unat (1 :: u64)" for k
    using mmu_translate_sum [OF keeps [OF assms(5)]] that same by (simp add: user_load_def load_byte_def)
  then have "syscall_write_loop (replicate 256 0) 0 va 1 ?s =
      Done (0 + 1) (sends (filter (\<lambda>c. c \<noteq> 0) (map (\<lambda>_. pmem s1 pa) [0..<unat (1 :: u64)])) ?s)"
    using assms(6) by (intro write_loop_done) auto
  then have "syscall_write 1 va 1 ?s = Done 1 (if pmem s1 pa = 0 then ?s else sends [pmem s1 pa] ?s)"
    by (simp add: syscall_write_def sends_def)
  moreover have "copy_to_user va (Some [c]) 1 ?s = Done True (?s\<lparr>pmem := m2(pa := c)\<rparr>)"
    if "mmu_translate s1 SupervisorMode StoreAccess va = Some pa"
    using mmu_translate_sum [OF keeps [OF that]] assms(6)
    by (simp add: copy_to_user_def Let_def copy_out_loop.simps [of va] store_byte_def csr_write_sstatus_def
        csr_read_sstatus_def)
  ultimately show ?thesis by (simp add: Let_def)
qed

text \<open>The data section of the example board.\<close>

lemma virt_data_mapped:
  assumes "paging_init virt_layout virt_pages virt_platform reset_machine = (True, root, al1, s1)"
    and "acc \<noteq> FetchAccess"
  shows "mmu_translate s1 SupervisorMode acc 0x8000A000 = Some 0x8000A000"
proof (rule paging_init_success [OF virt_pages_ok assms(1)])
  fix lab r
  assume "kernel_tables virt_layout virt_platform (unat (al_current virt_pages)) lab r al1 s1"
  from region_translate [OF this, of "0x8000A000" "0x8000A000" "0x1000" "PTE_R OR PTE_W" 0 acc] assms(2)
  show ?thesis
    by (cases acc) (simp_all add: kernel_regions_def virt_layout_def Let_def page_aligned_def align_up_def
        sv39_canonical_def region_allows_bit bit_or_iff bit_pte_flags)
qed

theorem syscalls_reach_kernel_memory_witness:
  "\<exists>root al1 s1 ok prog al2 m2.
     paging_init virt_layout virt_pages virt_platform reset_machine = (True, root, al1, s1) \<and>
     process_load_initial_user_program (kernel_view s1) virt_image_start virt_image_end root al1
       \<lparr>pg_entry = 0, pg_stack_top = 0\<rparr> (pmem s1) = (ok, prog, al2, m2) \<and>
     mmu_translate (s1\<lparr>pmem := m2\<rparr>) UserMode StoreAccess 0x8000A000 = None \<and>
     copy_to_user 0x8000A000 (Some [0x41]) 1 (s1\<lparr>pmem := m2\<rparr>) =
       Done True (s1\<lparr>pmem := m2(0x8000A000 := 0x41)\<rparr>)"
proof -
  obtain root al1 s1 where init:
    "paging_init virt_layout virt_pages virt_platform reset_machine = (True, root, al1, s1)"
    by (rule virt_init_runs)
  obtain ok prog al2 m2 where load: "process_load_initial_user_program (kernel_view s1) virt_image_start
      virt_image_end root al1 \<lparr>pg_entry = 0, pg_stack_top = 0\<rparr> (pmem s1) = (ok, prog, al2, m2)"
    by (metis prod.exhaust)
  note at = virt_data_mapped [OF init]
  from syscalls_reach_kernel_memory [OF virt_boot_memory virt_image_small init load at, of "0x41"]
  have "mmu_translate (s1\<lparr>pmem := m2\<rparr>) UserMode StoreAccess 0x8000A000 = None \<and>
     copy_to_user 0x8000A000 (Some [0x41]) 1 (s1\<lparr>pmem := m2\<rparr>) =
       Done True (s1\<lparr>pmem := m2(0x8000A000 := 0x41)\<rparr>)"
    by (simp add: at Let_def virt_pages_def)
  with init load show ?thesis by blast
qed

section \<open>Memory functions and the layout of a process\<close>

text \<open>
  C24. \<^verbatim>\<open>memmove\<close> copies the bytes as they were before the call however the two blocks overlap,
  \<^verbatim>\<open>memcpy\<close> does the same when the destination is not inside the source's upper part, \<^verbatim>\<open>memset\<close>
  fills exactly its block, and \<^verbatim>\<open>memcmp\<close> is zero exactly on equal blocks and otherwise the difference
  of the first bytes that differ.
\<close>

theorem memory_functions_correct:
  assumes "block dest n" and "block src n"
  shows "memmove dest src n m = (dest, \<lambda>a. if in_block dest n a then m (src + (a - dest)) else m a) \<and>
    (dest \<le> src \<or> unat src + unat n \<le> unat dest \<longrightarrow> memcpy dest src n m = memmove dest src n m) \<and>
    memset dest c n m = (dest, \<lambda>a. if in_block dest n a then ucast c else m a) \<and>
    (memcmp dest src n m = 0 \<longleftrightarrow> (\<forall>k < n. m (dest + k) = m (src + k))) \<and>
    (\<forall>k < n. (\<forall>j < k. m (dest + j) = m (src + j)) \<and> m (dest + k) \<noteq> m (src + k) \<longrightarrow>
       memcmp dest src n m = uint (m (dest + k)) - uint (m (src + k)))"
proof (intro conjI impI allI)
  show move: "memmove dest src n m = (dest, \<lambda>a. if in_block dest n a then m (src + (a - dest)) else m a)"
    using assms by (rule memmove_moves)
  show "memcpy dest src n m = memmove dest src n m" if "dest \<le> src \<or> unat src + unat n \<le> unat dest"
    unfolding move using memcpy_from_forward [OF assms that, of 0 m]
    by (auto simp: memcpy_def fun_eq_iff in_block_def)
  show "memset dest c n m = (dest, \<lambda>a. if in_block dest n a then ucast c else m a)"
    using memset_from_fills [OF assms(1), of "ucast c" 0 m] by (auto simp: memset_def fun_eq_iff in_block_def)
  show "memcmp dest src n m = 0 \<longleftrightarrow> (\<forall>k < n. m (dest + k) = m (src + k))"
    using memcmp_from_zero [of dest src n 0 m] by (simp add: memcmp_def)
  show "memcmp dest src n m = uint (m (dest + k)) - uint (m (src + k))"
    if "k < n" "(\<forall>j < k. m (dest + j) = m (src + j)) \<and> m (dest + k) \<noteq> m (src + k)" for k
    using memcmp_from_sign [of k n 0 m dest src] that by (simp add: memcmp_def)
qed

theorem memory_functions_correct_witness:
  "memmove 0x1001 0x1000 3 (\<lambda>a. ucast a) =
     (0x1001, \<lambda>a. if in_block 0x1001 3 a then ucast (0x1000 + (a - 0x1001)) else ucast a) \<and>
   memcmp 0x1001 0x1000 1 (\<lambda>a. ucast a) = 1"
proof -
  have blocks: "block 0x1001 3" "block 0x1000 3" "block 0x1001 1" "block 0x1000 1"
    by (simp_all add: block_def)
  from memory_functions_correct [OF blocks(1,2), of "\<lambda>a. ucast a"]
    memory_functions_correct [OF blocks(3,4), of "\<lambda>a. ucast a"]
  show ?thesis by simp
qed

lemma layout_stack_wraps:
  "fst (process_memory_layout_init l 0 0 0 0 0x4000000000)"
  "rg_start (ly_stack (snd (process_memory_layout_init l 0 0 0 0 0x4000000000))) > USER_STACK_TOP"
  by (simp_all add: process_memory_layout_init_def Let_def align_up_def align_down_def USER_STACK_TOP_def
      USER_TEXT_START_def USER_CODE_VIRTUAL_BASE_def)

text \<open>
  C31. For sizes that fit the address space \<^verbatim>\<open>process_memory_layout_init\<close> succeeds exactly when the
  rounded sections and the stack leave a gap between them, and then lays the sections out without gap
  or overlap from the start of the user area, page aligned, each with its permissions and none writable
  and executable, with an empty heap behind them and the stack below the top; otherwise it leaves the
  record alone. The bound on the stack is needed: a larger size wraps around and is accepted with the
  stack above the top of the user area.
\<close>

theorem process_layout_well_formed:
  assumes "unat ts \<le> 2 ^ 40" "unat rs \<le> 2 ^ 40" "unat ds \<le> 2 ^ 40" "unat bs \<le> 2 ^ 40"
    and "unat ss \<le> 0x3FFFFFF000"
  shows "case process_memory_layout_init l ts rs ds bs ss of (ok, l') \<Rightarrow>
    (ok \<longleftrightarrow> layout_fits ts rs ds bs ss) \<and> (if ok then layout_ok l' else l' = l) \<and>
    fst (process_memory_layout_init l 0 0 0 0 0x4000000000) \<and>
    rg_start (ly_stack (snd (process_memory_layout_init l 0 0 0 0 0x4000000000))) > USER_STACK_TOP"
proof -
  obtain ok l' where run: "process_memory_layout_init l ts rs ds bs ss = (ok, l')"
    by (cases "process_memory_layout_init l ts rs ds bs ss")
  show ?thesis
    using layout_init_correct(1-3) [OF assms run] run layout_stack_wraps [of l] by simp
qed

theorem process_layout_well_formed_witness:
  "\<forall>l. case process_memory_layout_init l 0x1234 0 0x10 0 0x2000 of (ok, l') \<Rightarrow> ok \<and> layout_ok l'"
proof
  fix l
  have "layout_fits 0x1234 0 0x10 0 0x2000"
    by (simp add: layout_fits_def align_up_def)
  with process_layout_well_formed [of "0x1234" 0 "0x10" 0 "0x2000" l]
  show "case process_memory_layout_init l 0x1234 0 0x10 0 0x2000 of (ok, l') \<Rightarrow> ok \<and> layout_ok l'"
    by auto
qed

end
